(* ===== verification/R0_Prelude.thy ===== *)
theory R0_Prelude
  imports Main "HOL-Library.Finite_Map" "HOL-Library.Word"
    "HOL-Library.Char_ord" "HOL-Library.List_Lexorder" "HOL-Library.Multiset"
begin

text \<open>
  Shared vocabulary of the development.
  \<^item> Go's \<^verbatim>\<open>time.Time\<close> is an \<open>int\<close> counting nanoseconds from Go's zero time, so
    \<^verbatim>\<open>IsZero\<close> is equality with 0, \<^verbatim>\<open>a.Before(b)\<close> is \<open>a < b\<close> and \<^verbatim>\<open>a.Add(d)\<close> is \<open>a + d\<close>;
    \<^verbatim>\<open>time.Duration\<close> is an \<open>int\<close> of nanoseconds.
  \<^item> Go's \<^verbatim>\<open>map[K]V\<close> is a finite map \<open>('k, 'v) fmap\<close>: finite, unordered, extensional.
    A deletion loop \<^verbatim>\<open>for k, v := range m { if p(v) { delete(m, k) } }\<close> is \<open>fm_drop_where\<close>,
    and the number of entries such a loop removes is \<open>fm_count\<close>.
  \<^item> Go strings are byte strings: \<open>string\<close> is a list of 8-bit \<open>char\<close>s, and Go's bytewise
    string order is the lexicographic order of \<open>List_Lexorder\<close> over \<open>Char_ord\<close>.
  \<^item> The system's random source is a finite tape of bytes: \<^verbatim>\<open>rand.Read\<close> either takes its
    bytes off the front of the tape or, when the tape is short, reports the failure its
    callers handle. Every finite run of the program is a run on some tape.
\<close>

named_theorems store_simps \<open>one-step equations of the in-memory stores\<close>
named_theorems svc_defs \<open>definitions of the authorization server's operations\<close>

section \<open>Time\<close>

type_synonym time = int
type_synonym duration = int

abbreviation is_zero :: "time \<Rightarrow> bool" where
  "is_zero t \<equiv> t = 0"

definition second :: duration where "second = 1000000000"
definition minute :: duration where "minute = 60 * second"
definition hour :: duration where "hour = 60 * minute"

abbreviation is_ok :: "'e + 'a \<Rightarrow> bool" where
  "is_ok r \<equiv> \<not> isl r"

lemma fmlookup_None_iff: "fmlookup m k = None \<longleftrightarrow> k |\<notin>| fmdom m"
  by (cases "fmlookup m k") (auto intro: fmdomI fmdom_notI)

lemma second_pos [simp]: "0 < second" by (simp add: second_def)
lemma minute_pos [simp]: "0 < minute" by (simp add: minute_def)
lemma hour_pos [simp]: "0 < hour" by (simp add: hour_def)

section \<open>Go maps\<close>

definition fm_keep :: "('v \<Rightarrow> bool) \<Rightarrow> ('k, 'v) fmap \<Rightarrow> ('k, 'v) fmap" where
  "fm_keep P m = fmfilter (\<lambda>k. case fmlookup m k of None \<Rightarrow> False | Some v \<Rightarrow> P v) m"

definition fm_drop_where :: "('v \<Rightarrow> bool) \<Rightarrow> ('k, 'v) fmap \<Rightarrow> ('k, 'v) fmap" where
  "fm_drop_where P = fm_keep (\<lambda>v. \<not> P v)"

definition fm_count :: "('v \<Rightarrow> bool) \<Rightarrow> ('k, 'v) fmap \<Rightarrow> nat" where
  "fm_count P m = fcard (fmdom (fm_keep P m))"

text \<open>The values of a map, in the order of its keys. Go's own order is unspecified.\<close>

definition fm_values :: "('k::linorder, 'v) fmap \<Rightarrow> 'v list" where
  "fm_values m = map snd (sorted_list_of_fmap m)"

lemma fmlookup_fm_keep [simp]:
  "fmlookup (fm_keep P m) k
     = (case fmlookup m k of None \<Rightarrow> None | Some v \<Rightarrow> if P v then Some v else None)"
  by (simp add: fm_keep_def split: option.split)

lemma fmlookup_fm_drop_where [simp]:
  "fmlookup (fm_drop_where P m) k
     = (case fmlookup m k of None \<Rightarrow> None | Some v \<Rightarrow> if P v then None else Some v)"
  by (simp add: fm_drop_where_def split: option.split)

lemma fm_keep_empty [simp]: "fm_keep P fmempty = fmempty"
  by (rule fmap_ext) simp

lemma fm_keep_upd [simp]:
  "fm_keep P (fmupd k v m)
     = (if P v then fmupd k v (fm_keep P m) else fm_keep P (fmdrop k m))"
  by (rule fmap_ext) (simp split: option.split)

lemma fm_drop_where_empty [simp]: "fm_drop_where P fmempty = fmempty"
  by (simp add: fm_drop_where_def)

lemma fm_drop_where_upd [simp]:
  "fm_drop_where P (fmupd k v m)
     = (if P v then fm_drop_where P (fmdrop k m) else fmupd k v (fm_drop_where P m))"
  by (simp add: fm_drop_where_def)

lemma fm_drop_where_True [simp]: "fm_drop_where (\<lambda>_. True) m = fmempty"
  by (rule fmap_ext) (simp split: option.split)

lemma fm_drop_where_idem [simp]: "fm_drop_where P (fm_drop_where P m) = fm_drop_where P m"
  by (rule fmap_ext) (simp split: option.split)

lemma fm_drop_where_commute:
  "fm_drop_where P (fm_drop_where Q m) = fm_drop_where Q (fm_drop_where P m)"
  by (rule fmap_ext) (auto split: option.split)

lemma fm_count_empty [simp]: "fm_count P fmempty = 0"
  by (simp add: fm_count_def)

lemma fm_count_0_iff: "fm_count P m = 0 \<longleftrightarrow> (\<forall>k v. fmlookup m k = Some v \<longrightarrow> \<not> P v)"
proof -
  have "fm_count P m = 0 \<longleftrightarrow> fmdom (fm_keep P m) = {||}"
    by (simp add: fm_count_def)
  also have "\<dots> \<longleftrightarrow> (\<forall>k. fmlookup (fm_keep P m) k = None)"
    by (auto simp: fset_eq_iff fmdom_notD fmdom_notI simp del: fmlookup_fm_keep)
  finally show ?thesis by (auto split: option.splits if_splits)
qed

text \<open>Removing what a loop removes accounts for every entry of the map.\<close>

lemma fm_count_drop_same [simp]: "fm_count P (fm_drop_where P m) = 0"
  by (auto simp: fm_count_0_iff split: option.split_asm if_split_asm)

lemma fm_count_drop_where:
  "fcard (fmdom (fm_drop_where P m)) + fm_count P m = fcard (fmdom m)"
proof -
  have disj: "fmdom (fm_drop_where P m) |\<inter>| fmdom (fm_keep P m) = {||}"
    by (auto simp: fset_eq_iff fmlookup_dom_iff split: option.splits if_splits)
  have un: "fmdom (fm_drop_where P m) |\<union>| fmdom (fm_keep P m) = fmdom m"
    by (auto simp: fset_eq_iff fmlookup_dom_iff split: option.splits if_splits)
  show ?thesis
    using fcard_funion_finter [of "fmdom (fm_drop_where P m)" "fmdom (fm_keep P m)"]
    by (simp only: disj un fm_count_def fcard_fempty add_0_right)
qed

lemma set_fm_values: "set (fm_values m) = {v. \<exists>k. fmlookup m k = Some v}"
  by (force simp: fm_values_def sorted_list_of_fmap_def fmlookup_dom_iff image_iff)

section \<open>The random tape\<close>

type_synonym tape = string

definition rand_read :: "nat \<Rightarrow> tape \<Rightarrow> (string \<times> tape) option" where
  "rand_read n t = (if length t < n then None else Some (take n t, drop n t))"

lemma rand_read_length: "rand_read n t = Some (b, t') \<Longrightarrow> length b = n \<and> t = b @ t'"
  by (auto simp: rand_read_def split: if_splits)

section \<open>Sequences of fallible steps\<close>

text \<open>A Go loop \<^verbatim>\<open>for _, x := range xs { if err := f(x); err != nil { return err } }\<close>.\<close>

fun first_error :: "('a \<Rightarrow> 'e option) \<Rightarrow> 'a list \<Rightarrow> 'e option" where
  "first_error f [] = None"
| "first_error f (x # xs) = (case f x of Some e \<Rightarrow> Some e | None \<Rightarrow> first_error f xs)"

lemma first_error_None: "first_error f xs = None \<longleftrightarrow> (\<forall>x \<in> set xs. f x = None)"
  by (induction xs) (auto split: option.splits)

lemma first_error_Some:
  "first_error f xs = Some e \<Longrightarrow> \<exists>x \<in> set xs. f x = Some e"
  by (induction xs) (auto split: option.splits)

lemma set_map_filter: "set (List.map_filter f xs) = {y. \<exists>x \<in> set xs. f x = Some y}"
  by (induction xs) (auto simp: List.map_filter_def)

text \<open>A 64-bit counter is not back where it was before \<open>2 ^ 64\<close> steps.\<close>

lemma of_nat_64_nonzero: "0 < n \<Longrightarrow> n < 2 ^ 64 \<Longrightarrow> (of_nat n :: 64 word) \<noteq> 0"
  by (auto simp: word_of_nat_eq_0_iff dest: dvd_imp_le)

end
