(* ===== verification/Go_Lib.thy ===== *)
theory Go_Lib
  imports R0_Prelude
begin

text \<open>
  The parts of Go's standard library the modelled packages call, as executable
  functions on byte strings: \<^verbatim>\<open>strings\<close> (\<open>split_on\<close>, \<open>str_join\<close>, \<open>str_fields\<close>,
  \<open>trim_space\<close>, \<open>to_upper\<close>, \<open>to_lower\<close>, \<open>cut_prefix\<close>), \<^verbatim>\<open>sort.Search\<close> and
  \<^verbatim>\<open>strconv.Itoa\<close> on naturals.
  Case mapping and white space are those of ASCII; bytes above 127 are left alone,
  where Go would decode them as UTF-8.
  The lemmas give the round trips the components rely on.
\<close>

unbundle bit_operations_syntax

section \<open>strings\<close>

fun split_on :: "char \<Rightarrow> string \<Rightarrow> string list" where
  "split_on c [] = [[]]"
| "split_on c (x # xs) =
     (if x = c then [] # split_on c xs
      else (case split_on c xs of [] \<Rightarrow> [[x]] | p # ps \<Rightarrow> (x # p) # ps))"

fun str_join :: "string \<Rightarrow> string list \<Rightarrow> string" where
  "str_join sep [] = []"
| "str_join sep [s] = s"
| "str_join sep (s # t # ts) = s @ sep @ str_join sep (t # ts)"

definition is_space :: "char \<Rightarrow> bool" where
  "is_space c = (let n = of_char c :: nat in n = 32 \<or> (9 \<le> n \<and> n \<le> 13))"

function str_fields :: "string \<Rightarrow> string list" where
  "str_fields s =
     (let t = dropWhile is_space s in
      if t = [] then []
      else takeWhile (\<lambda>c. \<not> is_space c) t # str_fields (dropWhile (\<lambda>c. \<not> is_space c) t))"
  by pat_completeness auto
termination
proof (relation "measure length", goal_cases)
  case (2 s t)
  then obtain x xs where t: "dropWhile is_space s = x # xs" and x: "\<not> is_space x"
    by (metis dropWhile_eq_Nil_conv dropWhile_eq_Cons_conv neq_Nil_conv)
  have "length (x # xs) \<le> length s"
    using t length_dropWhile_le [of is_space s] by simp
  moreover have "length (dropWhile (\<lambda>c. \<not> is_space c) (x # xs)) \<le> length xs"
    using x by (simp add: length_dropWhile_le)
  ultimately show ?case using 2 t by simp
qed simp

declare str_fields.simps [simp del]

definition trim_space :: "string \<Rightarrow> string" where
  "trim_space s = rev (dropWhile is_space (rev (dropWhile is_space s)))"

definition upper_char :: "char \<Rightarrow> char" where
  "upper_char c = (let n = of_char c :: nat in if 97 \<le> n \<and> n \<le> 122 then char_of (n - 32) else c)"

definition lower_char :: "char \<Rightarrow> char" where
  "lower_char c = (let n = of_char c :: nat in if 65 \<le> n \<and> n \<le> 90 then char_of (n + 32) else c)"

definition to_upper :: "string \<Rightarrow> string" where "to_upper = map upper_char"
definition to_lower :: "string \<Rightarrow> string" where "to_lower = map lower_char"

fun cut_prefix :: "string \<Rightarrow> string \<Rightarrow> string option" where
  "cut_prefix [] s = Some s"
| "cut_prefix (p # ps) [] = None"
| "cut_prefix (p # ps) (c # cs) = (if p = c then cut_prefix ps cs else None)"

definition char_in :: "nat \<Rightarrow> nat \<Rightarrow> char \<Rightarrow> bool" where
  "char_in lo hi c = (let n = of_char c in lo \<le> n \<and> n \<le> hi)"

abbreviation is_digit :: "char \<Rightarrow> bool" where "is_digit \<equiv> char_in 48 57"
abbreviation is_upper :: "char \<Rightarrow> bool" where "is_upper \<equiv> char_in 65 90"
abbreviation is_lower :: "char \<Rightarrow> bool" where "is_lower \<equiv> char_in 97 122"

lemma split_on_not_Nil [simp]: "split_on c s \<noteq> []"
  by (induction s) (auto split: list.splits)

lemma str_join_split_on: "str_join [c] (split_on c s) = s"
proof (induction s)
  case (Cons x xs)
  then show ?case
    by (cases "split_on c xs" rule: list.exhaust; cases "tl (split_on c xs)")
       (auto split: list.splits)
qed simp

lemma split_on_part: "p \<in> set (split_on c s) \<Longrightarrow> c \<notin> set p"
  by (induction s arbitrary: p) (auto split: list.splits if_splits)

lemma split_on_no_sep: "c \<notin> set s \<Longrightarrow> split_on c s = [s]"
  by (induction s) auto

lemma split_on_append: "c \<notin> set p \<Longrightarrow> split_on c (p @ c # s) = p # split_on c s"
  by (induction p) auto

lemma split_on_concat: "split_on c (s @ c # t) = split_on c s @ split_on c t"
  by (induction s) (auto split: list.splits)

lemma split_on_str_join:
  "ps \<noteq> [] \<Longrightarrow> \<forall>p \<in> set ps. c \<notin> set p \<Longrightarrow> split_on c (str_join [c] ps) = ps"
  by (induction "[c]" ps rule: str_join.induct) (auto simp: split_on_no_sep split_on_append)

lemma append_sep_inj:
  "c \<notin> set a \<Longrightarrow> c \<notin> set a' \<Longrightarrow> a @ c # b = a' @ c # b' \<longleftrightarrow> a = a' \<and> b = b'"
proof (induction a arbitrary: a')
  case Nil
  then show ?case by (cases a') auto
next
  case (Cons x a)
  then show ?case by (cases a') auto
qed

lemma append_sep_clean:
  assumes "a @ c # b = a' @ c # b'" and "c \<notin> set a'" and "c \<notin> set b'"
  shows "a = a' \<and> b = b'"
proof -
  have "count_list (a @ c # b) c = count_list (a' @ c # b') c" by (rule arg_cong [OF assms(1)])
  then have "count_list a c = 0" using assms(2,3) by (simp add: count_list_0_iff)
  then have "c \<notin> set a" by (simp add: count_list_0_iff)
  with append_sep_inj [OF this assms(2)] assms(1) show ?thesis by blast
qed

lemma takeWhile_word: "\<forall>c \<in> set p. \<not> is_space c \<Longrightarrow>
    takeWhile (\<lambda>c. \<not> is_space c) (p @ CHR '' '' # r) = p"
  by (induction p) (auto simp: is_space_def)

lemma dropWhile_word: "\<forall>c \<in> set p. \<not> is_space c \<Longrightarrow>
    dropWhile (\<lambda>c. \<not> is_space c) (p @ CHR '' '' # r) = CHR '' '' # r"
  by (induction p) (auto simp: is_space_def)

lemma str_fields_blank: "\<forall>c \<in> set s. is_space c \<Longrightarrow> str_fields s = []"
  by (subst str_fields.simps) (simp add: Let_def dropWhile_eq_Nil_conv)

lemma str_fields_space: "is_space c \<Longrightarrow> str_fields (c # s) = str_fields s"
  by (subst (1 2) str_fields.simps) simp

lemma str_fields_Cons:
  "\<not> is_space x \<Longrightarrow>
     str_fields (x # xs)
       = (x # takeWhile (\<lambda>c. \<not> is_space c) xs) # str_fields (dropWhile (\<lambda>c. \<not> is_space c) xs)"
  by (subst str_fields.simps) simp

lemma str_fields_word_end:
  assumes "p \<noteq> []" and p: "\<forall>c \<in> set p. \<not> is_space c"
  shows "str_fields p = [p]"
proof -
  from assms obtain x xs where x: "p = x # xs" by (cases p) auto
  with p have tw: "takeWhile (\<lambda>c. \<not> is_space c) xs = xs"
    and dw: "dropWhile (\<lambda>c. \<not> is_space c) xs = []"
    by (simp_all add: takeWhile_eq_all_conv dropWhile_eq_Nil_conv)
  show ?thesis using p by (simp add: x str_fields_Cons tw dw str_fields_blank)
qed

lemma str_fields_word:
  assumes "p \<noteq> []" and p: "\<forall>c \<in> set p. \<not> is_space c"
  shows "str_fields (p @ CHR '' '' # r) = p # str_fields r"
proof -
  from assms obtain x xs where x: "p = x # xs" by (cases p) auto
  with p have "\<forall>c \<in> set xs. \<not> is_space c" by simp
  note w = takeWhile_word [OF this] dropWhile_word [OF this]
  have "str_fields (CHR '' '' # r) = str_fields r"
    by (rule str_fields_space) (simp add: is_space_def)
  then show ?thesis
    using p by (simp add: x str_fields_Cons w del: takeWhile_append2 dropWhile_append2)
qed

text \<open>Printing a list of words with spaces between them and splitting it again is the identity.\<close>

lemma str_fields_str_join:
  "\<forall>p \<in> set ps. p \<noteq> [] \<and> (\<forall>c \<in> set p. \<not> is_space c) \<Longrightarrow> str_fields (str_join '' '' ps) = ps"
proof (induction "'' ''" ps rule: str_join.induct)
  case 1
  show ?case by (simp add: str_fields_blank)
next
  case (2 s)
  then show ?case by (simp add: str_fields_word_end)
next
  case (3 s t ts)
  then show ?case by (simp add: str_fields_word)
qed

lemma cut_prefix_append [simp]: "cut_prefix p (p @ s) = Some s"
  by (induction p) auto

lemma cut_prefix_Some: "cut_prefix p s = Some r \<longleftrightarrow> s = p @ r"
  by (induction p s rule: cut_prefix.induct) auto

section \<open>sort.Search\<close>

text \<open>The binary search of \<^verbatim>\<open>sort.Search\<close>: the least index in \<open>[i, j)\<close> where a monotone predicate holds, or \<open>j\<close>.\<close>

function search_between :: "(nat \<Rightarrow> bool) \<Rightarrow> nat \<Rightarrow> nat \<Rightarrow> nat" where
  "search_between f i j =
     (if i < j then (let h = (i + j) div 2 in
                     if \<not> f h then search_between f (Suc h) j else search_between f i h)
      else i)"
  by pat_completeness auto
termination
  by (relation "measure (\<lambda>(f, i, j). j - i)") auto

declare search_between.simps [simp del]

definition sort_search :: "nat \<Rightarrow> (nat \<Rightarrow> bool) \<Rightarrow> nat" where
  "sort_search n f = search_between f 0 n"

lemma search_between_spec:
  assumes "\<forall>x y. x \<le> y \<longrightarrow> y < n \<longrightarrow> f x \<longrightarrow> f y"
    and "i \<le> j" and "j \<le> n"
    and "\<forall>x < i. \<not> f x" and "\<forall>x. j \<le> x \<longrightarrow> x < n \<longrightarrow> f x"
  shows "search_between f i j \<le> n \<and> (\<forall>x < search_between f i j. \<not> f x)
           \<and> (\<forall>x. search_between f i j \<le> x \<longrightarrow> x < n \<longrightarrow> f x)"
  using assms
proof (induction f i j rule: search_between.induct)
  case (1 f i j)
  note mono = "1.prems"(1) and le = "1.prems"(2,3) and lo = "1.prems"(4) and hi = "1.prems"(5)
  show ?case
  proof (cases "i < j")
    case False
    then have "search_between f i j = i" by (simp add: search_between.simps [of f i j])
    with False le lo hi show ?thesis by auto
  next
    case less: True
    define h where "h = (i + j) div 2"
    from less have h: "i \<le> h" "h < j" by (auto simp: h_def)
    show ?thesis
    proof (cases "f h")
      case True
      have eq: "search_between f i j = search_between f i h"
        using less True by (simp add: search_between.simps [of f i j] h_def Let_def)
      have "\<forall>x. h \<le> x \<longrightarrow> x < n \<longrightarrow> f x" using mono True by blast
      with True h le show ?thesis
        unfolding eq by (intro "1.IH"(2) [OF less h_def] mono lo) auto
    next
      case False
      have eq: "search_between f i j = search_between f (Suc h) j"
        using less False by (simp add: search_between.simps [of f i j] h_def Let_def)
      have "h < n" using h le by simp
      then have "\<forall>x < Suc h. \<not> f x" using mono False by (meson less_Suc_eq_le)
      with False h le show ?thesis
        unfolding eq by (intro "1.IH"(1) [OF less h_def] mono hi) auto
    qed
  qed
qed

lemma sort_search_spec:
  assumes "\<forall>x y. x \<le> y \<longrightarrow> y < n \<longrightarrow> f x \<longrightarrow> f y"
  shows "sort_search n f \<le> n" and "x < sort_search n f \<Longrightarrow> \<not> f x"
    and "sort_search n f \<le> x \<Longrightarrow> x < n \<Longrightarrow> f x"
  using search_between_spec [OF assms, of 0 n] by (auto simp: sort_search_def)

text \<open>
  On a list along which a predicate, once true, stays true, the search splits the list into
  the part where it fails and the part where it holds.
\<close>

lemma sort_search_split:
  assumes "sorted_wrt (\<lambda>a b. P a \<longrightarrow> P b) xs"
  defines "i \<equiv> sort_search (length xs) (\<lambda>i. P (xs ! i))"
  shows "take i xs = filter (\<lambda>x. \<not> P x) xs" and "drop i xs = filter P xs"
    and "i = length (filter (\<lambda>x. \<not> P x) xs)"
proof -
  have mono: "\<forall>x y. x \<le> y \<longrightarrow> y < length xs \<longrightarrow> P (xs ! x) \<longrightarrow> P (xs ! y)"
    using assms(1) by (auto simp: sorted_wrt_iff_nth_less order.order_iff_strict)
  note sp = sort_search_spec [of "length xs" "\<lambda>i. P (xs ! i)", OF mono, folded i_def]
  have lo: "\<forall>x \<in> set (take i xs). \<not> P x" using sp(1,2) by (auto simp: in_set_conv_nth)
  have hi: "\<forall>x \<in> set (drop i xs). P x" using sp(1,3) by (auto simp: in_set_conv_nth)
  have xs: "xs = take i xs @ drop i xs" by simp
  have "filter (\<lambda>x. \<not> P x) (take i xs @ drop i xs) = take i xs" "filter P (take i xs @ drop i xs) = drop i xs"
    using lo hi by (simp_all add: filter_empty_conv filter_id_conv del: append_take_drop_id)
  then show "take i xs = filter (\<lambda>x. \<not> P x) xs" "drop i xs = filter P xs" by simp_all
  then show "i = length (filter (\<lambda>x. \<not> P x) xs)" using sp(1) by (metis length_take min.absorb2)
qed

lemma drop_sort_search:
  fixes k :: "'k::linorder"
  assumes "sorted (map key xs)"
  shows "drop (sort_search (length xs) (\<lambda>i. k < key (xs ! i))) xs = filter (\<lambda>x. k < key x) xs"
  by (rule sort_search_split(2), rule sorted_wrt_mono_rel [OF _ assms [unfolded sorted_map]]) auto

text \<open>On a strictly ordered list, what lies after the last element of a page is the rest of the list.\<close>

lemma filter_after_take:
  fixes key :: "'a \<Rightarrow> 'k::linorder"
  assumes "sorted_wrt (<) (map key xs)" and "0 < n" and "n \<le> length xs"
  shows "filter (\<lambda>x. key (last (take n xs)) < key x) xs = drop n xs"
proof -
  let ?l = "last (take n xs)"
  have l: "?l = xs ! (n - 1)" using assms(2,3) by (subst last_conv_nth) (auto simp: min_absorb2)
  have lt: "key (xs ! i) < key (xs ! j)" if "i < j" "j < length xs" for i j
    using sorted_wrt_nth_less [OF assms(1), of i j] that by simp
  have "filter (\<lambda>x. key ?l < key x) (take n xs) = []"
  proof -
    have "\<not> key (xs ! (n - 1)) < key (xs ! i)" if "i < n" for i
    proof (cases "i = n - 1")
      case False
      with that assms(3) have "key (xs ! i) < key (xs ! (n - 1))" by (intro lt) auto
      then show ?thesis by simp
    qed simp
    then show ?thesis using assms(3) by (auto simp: l filter_empty_conv in_set_conv_nth)
  qed
  moreover have "filter (\<lambda>x. key ?l < key x) (drop n xs) = drop n xs"
    using lt [of "n - 1"] assms(2) by (auto simp: l filter_id_conv in_set_conv_nth)
  ultimately show ?thesis by (metis append_Nil append_take_drop_id filter_append)
qed

section \<open>strconv\<close>

fun itoa :: "nat \<Rightarrow> string" where
  "itoa n = (if n < 10 then [char_of (48 + n)] else itoa (n div 10) @ [char_of (48 + n mod 10)])"

declare itoa.simps [simp del]

end
