(* ===== verification/Go_Crypto.thy ===== *)
theory Go_Crypto
  imports Go_Lib
begin

text \<open>
  Encodings and hashes of Go's standard library: \<^verbatim>\<open>encoding/hex\<close>, \<^verbatim>\<open>encoding/base64\<close> in
  its two alphabets without padding and in the standard one with padding, \<^verbatim>\<open>crypto/sha256\<close>, \<^verbatim>\<open>crypto/hmac\<close>,
  \<^verbatim>\<open>crypto/pbkdf2\<close> and \<^verbatim>\<open>strconv.Atoi\<close>.
  The base64 decoder follows Go's: it skips carriage returns and newlines, refuses every
  byte outside the alphabet and a final group of one symbol, and ignores the spare bits of
  the last symbol.
  Proved here: decoding an encoding gives the bytes back, and hex encoding is injective.
\<close>

section \<open>encoding/hex\<close>

definition hex_digit :: "nat \<Rightarrow> char" where
  "hex_digit n = (if n < 10 then char_of (48 + n) else char_of (87 + n))"

definition hex_encode :: "string \<Rightarrow> string" where
  "hex_encode s = concat (map (\<lambda>c. [hex_digit (of_char c div 16), hex_digit (of_char c mod 16)]) s)"

section \<open>encoding/base64\<close>

text \<open>The symbols for 62 and 63 are the parameters: the URL alphabet has \<open>-\<close> and \<open>_\<close>, the standard one \<open>+\<close> and \<open>/\<close>.\<close>

datatype alphabet = URLAlphabet | StdAlphabet

fun symbols :: "alphabet \<Rightarrow> char \<times> char" where
  "symbols URLAlphabet = (CHR ''-'', CHR ''_'')"
| "symbols StdAlphabet = (CHR ''+'', CHR ''/'')"

definition b64_char :: "alphabet \<Rightarrow> nat \<Rightarrow> char" where
  "b64_char a n =
     (if n < 26 then char_of (65 + n)
      else if n < 52 then char_of (97 + (n - 26))
      else if n < 62 then char_of (48 + (n - 52))
      else if n = 62 then fst (symbols a) else snd (symbols a))"

definition b64_val :: "alphabet \<Rightarrow> char \<Rightarrow> nat option" where
  "b64_val a c =
     (let n = of_char c in
      if 65 \<le> n \<and> n \<le> 90 then Some (n - 65)
      else if 97 \<le> n \<and> n \<le> 122 then Some (n - 97 + 26)
      else if 48 \<le> n \<and> n \<le> 57 then Some (n - 48 + 52)
      else if c = fst (symbols a) then Some 62
      else if c = snd (symbols a) then Some 63 else None)"

fun b64_sextets :: "nat list \<Rightarrow> nat list" where
  "b64_sextets [] = []"
| "b64_sextets [x] = [x div 4, (x mod 4) * 16]"
| "b64_sextets [x, y] = [x div 4, (x mod 4) * 16 + y div 16, (y mod 16) * 4]"
| "b64_sextets (x # y # z # r) =
     [x div 4, (x mod 4) * 16 + y div 16, (y mod 16) * 4 + z div 64, z mod 64] @ b64_sextets r"

fun b64_bytes :: "nat list \<Rightarrow> nat list option" where
  "b64_bytes [] = Some []"
| "b64_bytes [p] = None"
| "b64_bytes [p, q] = Some [p * 4 + q div 16]"
| "b64_bytes [p, q, r] = Some [p * 4 + q div 16, (q mod 16) * 16 + r div 4]"
| "b64_bytes (p # q # r # s # t) =
     map_option (\<lambda>bs. [p * 4 + q div 16, (q mod 16) * 16 + r div 4, (r mod 4) * 64 + s] @ bs)
       (b64_bytes t)"

definition base64_encode :: "alphabet \<Rightarrow> string \<Rightarrow> string" where
  "base64_encode a s = map (b64_char a) (b64_sextets (map of_char s))"

text \<open>\<^verbatim>\<open>base64.StdEncoding\<close> pads to whole quanta.\<close>

definition base64_padded :: "string \<Rightarrow> string" where
  "base64_padded s =
     (let e = base64_encode StdAlphabet s in e @ replicate ((4 - length e mod 4) mod 4) (CHR ''=''))"

fun b64_vals :: "alphabet \<Rightarrow> string \<Rightarrow> nat list option" where
  "b64_vals a [] = Some []"
| "b64_vals a (c # cs) =
     (if c = CHR 0x0A \<or> c = CHR 0x0D then b64_vals a cs
      else case b64_val a c of None \<Rightarrow> None | Some v \<Rightarrow> map_option (Cons v) (b64_vals a cs))"

definition base64_decode :: "alphabet \<Rightarrow> string \<Rightarrow> string option" where
  "base64_decode a s =
     (case b64_vals a s of None \<Rightarrow> None | Some vs \<Rightarrow> map_option (map char_of) (b64_bytes vs))"

section \<open>crypto/sha256\<close>

type_synonym u32 = "32 word"

text \<open>The round constants and the initial state of FIPS 180-4, in decimal.\<close>

definition sha_K :: "u32 list" where
  "sha_K =
    [1116352408, 1899447441, 3049323471, 3921009573, 961987163, 1508970993,
     2453635748, 2870763221, 3624381080, 310598401, 607225278, 1426881987,
     1925078388, 2162078206, 2614888103, 3248222580, 3835390401, 4022224774,
     264347078, 604807628, 770255983, 1249150122, 1555081692, 1996064986,
     2554220882, 2821834349, 2952996808, 3210313671, 3336571891, 3584528711,
     113926993, 338241895, 666307205, 773529912, 1294757372, 1396182291,
     1695183700, 1986661051, 2177026350, 2456956037, 2730485921, 2820302411,
     3259730800, 3345764771, 3516065817, 3600352804, 4094571909, 275423344,
     430227734, 506948616, 659060556, 883997877, 958139571, 1322822218,
     1537002063, 1747873779, 1955562222, 2024104815, 2227730452, 2361852424,
     2428436474, 2756734187, 3204031479, 3329325298]"

definition sha_H0 :: "u32 list" where
  "sha_H0 =
    [1779033703, 3144134277, 1013904242, 2773480762, 1359893119, 2600822924,
     528734635, 1541459225]"

definition sha_ch :: "u32 \<Rightarrow> u32 \<Rightarrow> u32 \<Rightarrow> u32" where
  "sha_ch x y z = (x AND y) XOR (NOT x AND z)"

definition sha_maj :: "u32 \<Rightarrow> u32 \<Rightarrow> u32 \<Rightarrow> u32" where
  "sha_maj x y z = (x AND y) XOR (x AND z) XOR (y AND z)"

definition sha_S0 :: "u32 \<Rightarrow> u32" where
  "sha_S0 x = word_rotr 2 x XOR word_rotr 13 x XOR word_rotr 22 x"

definition sha_S1 :: "u32 \<Rightarrow> u32" where
  "sha_S1 x = word_rotr 6 x XOR word_rotr 11 x XOR word_rotr 25 x"

definition sha_s0 :: "u32 \<Rightarrow> u32" where
  "sha_s0 x = word_rotr 7 x XOR word_rotr 18 x XOR drop_bit 3 x"

definition sha_s1 :: "u32 \<Rightarrow> u32" where
  "sha_s1 x = word_rotr 17 x XOR word_rotr 19 x XOR drop_bit 10 x"

fun sha_schedule :: "nat \<Rightarrow> u32 list \<Rightarrow> u32 list" where
  "sha_schedule 0 w = w"
| "sha_schedule (Suc n) w =
     (let i = length w in
      sha_schedule n
        (w @ [sha_s1 (w ! (i - 2)) + w ! (i - 7) + sha_s0 (w ! (i - 15)) + w ! (i - 16)]))"

fun sha_round :: "u32 \<times> u32 \<Rightarrow> u32 list \<Rightarrow> u32 list" where
  "sha_round (k, w) [a, b, c, d, e, f, g, h] =
     (let t1 = h + sha_S1 e + sha_ch e f g + k + w; t2 = sha_S0 a + sha_maj a b c
      in [t1 + t2, a, b, c, d + t1, e, f, g])"
| "sha_round _ st = st"

definition sha_block :: "u32 list \<Rightarrow> u32 list \<Rightarrow> u32 list" where
  "sha_block st w = map2 (+) st (fold sha_round (zip sha_K (sha_schedule 48 w)) st)"

definition word_be :: "nat list \<Rightarrow> u32" where
  "word_be bs = of_nat (foldl (\<lambda>acc x. acc * 256 + x) 0 bs)"

fun bytes_be :: "nat \<Rightarrow> nat \<Rightarrow> nat list" where
  "bytes_be 0 n = []"
| "bytes_be (Suc k) n = bytes_be k (n div 256) @ [n mod 256]"

fun chunks :: "nat \<Rightarrow> nat \<Rightarrow> 'a list \<Rightarrow> 'a list list" where
  "chunks 0 n xs = []"
| "chunks (Suc f) n xs = (if xs = [] then [] else take n xs # chunks f n (drop n xs))"

definition sha_pad :: "nat list \<Rightarrow> nat list" where
  "sha_pad m = m @ [128] @ replicate ((119 - length m mod 64) mod 64) 0 @ bytes_be 8 (8 * length m)"

definition sha256_bytes :: "nat list \<Rightarrow> nat list" where
  "sha256_bytes m =
     (let p = sha_pad m in
      concat (map (\<lambda>x. bytes_be 4 (unat x))
        (fold (\<lambda>blk st. sha_block st (map word_be (chunks 16 4 blk)))
          (chunks (length p) 64 p) sha_H0)))"

definition sha256 :: "string \<Rightarrow> string" where
  "sha256 s = map char_of (sha256_bytes (map of_char s))"

section \<open>crypto/hmac and crypto/pbkdf2, over SHA-256\<close>

definition xor_bytes :: "string \<Rightarrow> string \<Rightarrow> string" where
  "xor_bytes = map2 (\<lambda>x y. char_of ((of_char x :: nat) XOR of_char y))"

definition hmac_sha256 :: "string \<Rightarrow> string \<Rightarrow> string" where
  "hmac_sha256 key msg =
     (let k0 = (if length key > 64 then sha256 key else key);
          k = k0 @ replicate (64 - length k0) (CHR 0x00)
      in sha256 (xor_bytes k (replicate 64 (CHR 0x5C))
           @ sha256 (xor_bytes k (replicate 64 (CHR 0x36)) @ msg)))"

fun pbkdf2_iter :: "nat \<Rightarrow> string \<Rightarrow> string \<Rightarrow> string \<Rightarrow> string" where
  "pbkdf2_iter 0 pw u acc = acc"
| "pbkdf2_iter (Suc n) pw u acc =
     (let u' = hmac_sha256 pw u in pbkdf2_iter n pw u' (xor_bytes acc u'))"

definition pbkdf2_block :: "string \<Rightarrow> string \<Rightarrow> nat \<Rightarrow> nat \<Rightarrow> string" where
  "pbkdf2_block pw salt iter i =
     (let u1 = hmac_sha256 pw (salt @ map char_of (bytes_be 4 i)) in pbkdf2_iter (iter - 1) pw u1 u1)"

definition pbkdf2_key :: "string \<Rightarrow> string \<Rightarrow> nat \<Rightarrow> nat \<Rightarrow> string" where
  "pbkdf2_key pw salt iter len =
     take len (concat (map (pbkdf2_block pw salt iter) [1..<Suc ((len + 31) div 32)]))"

section \<open>strconv.Atoi\<close>

fun digits_val :: "nat \<Rightarrow> string \<Rightarrow> nat option" where
  "digits_val acc [] = Some acc"
| "digits_val acc (c # cs) =
     (if is_digit c then digits_val (acc * 10 + (of_char c - 48)) cs else None)"

definition atoi :: "string \<Rightarrow> int option" where
  "atoi s =
     (let (neg, ds) = (case s of
            [] \<Rightarrow> (False, [])
          | c # cs \<Rightarrow> if c = CHR ''-'' then (True, cs) else if c = CHR ''+'' then (False, cs)
                      else (False, s))
      in if ds = [] then None
         else case digits_val 0 ds of
             None \<Rightarrow> None
           | Some n \<Rightarrow> (let v = (if neg then - int n else int n)
                        in if - (2 ^ 63) \<le> v \<and> v < 2 ^ 63 then Some v else None))"

section \<open>Round trips\<close>

lemma of_char_less_256 [simp]: "(of_char c :: nat) < 256"
  by (metis of_char_mod_256 mod_less_divisor zero_less_numeral)

lemma hex_digit_inj: "m < 16 \<Longrightarrow> n < 16 \<Longrightarrow> hex_digit m = hex_digit n \<longleftrightarrow> m = n"
  by (auto simp: hex_digit_def char_of_eq_iff take_bit_eq_mod split: if_splits)

lemma hex_encode_inj: "hex_encode s = hex_encode t \<longleftrightarrow> s = t"
proof
  show "hex_encode s = hex_encode t \<Longrightarrow> s = t"
  proof (induction s arbitrary: t)
    case (Cons c s)
    then obtain d t' where t: "t = d # t'" by (cases t) (simp_all add: hex_encode_def)
    let ?c = "of_char c :: nat" and ?d = "of_char d :: nat"
    have lt: "?c div 16 < 16" "?d div 16 < 16" by (simp_all add: less_mult_imp_div_less)
    have "?c div 16 = ?d div 16" "?c mod 16 = ?d mod 16" "s = t'"
      using Cons hex_digit_inj [OF lt] by (simp_all add: t hex_encode_def hex_digit_inj)
    then have "?c = ?d" by (metis div_mult_mod_eq)
    then show ?case using \<open>s = t'\<close> by (simp add: t)
  qed (simp add: hex_encode_def)
qed simp

lemma b64_val_char: "n < 64 \<Longrightarrow> b64_val a (b64_char a n) = Some n"
  by (cases a) (auto simp: b64_val_def b64_char_def Let_def)

lemma b64_char_not_newline:
  "n < 64 \<Longrightarrow> b64_char a n \<noteq> CHR 0x0A \<and> b64_char a n \<noteq> CHR 0x0D"
proof (rule ccontr)
  assume n: "n < 64" and "\<not> (b64_char a n \<noteq> CHR 0x0A \<and> b64_char a n \<noteq> CHR 0x0D)"
  then have "b64_val a (CHR 0x0A) = Some n \<or> b64_val a (CHR 0x0D) = Some n"
    using b64_val_char [OF n, of a] by auto
  then show False by (cases a) (auto simp: b64_val_def)
qed

lemma b64_vals_encode: "\<forall>n \<in> set ns. n < 64 \<Longrightarrow> b64_vals a (map (b64_char a) ns) = Some ns"
  by (induction ns) (auto simp: b64_val_char b64_char_not_newline)

lemma b64_sextets_bound:
  "\<forall>x \<in> set xs. x < 256 \<Longrightarrow> \<forall>n \<in> set (b64_sextets xs). n < 64"
  by (induction xs rule: b64_sextets.induct) auto

lemma b64_bytes_sextets: "\<forall>x \<in> set xs. x < 256 \<Longrightarrow> b64_bytes (b64_sextets xs) = Some xs"
proof (induction xs rule: b64_sextets.induct)
  case (4 x y z r)
  then show ?case by auto
qed auto

theorem base64_decode_encode: "base64_decode a (base64_encode a s) = Some s"
proof -
  have b: "\<forall>x \<in> set (map of_char s :: nat list). x < 256" by auto
  show ?thesis
    by (simp add: base64_decode_def base64_encode_def
        b64_vals_encode [OF b64_sextets_bound [OF b]] b64_bytes_sextets [OF b] comp_def)
qed

lemma base64_encode_inj: "base64_encode a s = base64_encode a t \<longleftrightarrow> s = t"
  by (metis base64_decode_encode option.inject)

text \<open>Base64 text contains no dollar sign, the separator of the stored verifiers.\<close>

lemma b64_char_not_dollar: "n < 64 \<Longrightarrow> b64_char a n \<noteq> CHR ''$''"
proof
  assume "n < 64" and "b64_char a n = CHR ''$''"
  with b64_val_char [of n a] have "b64_val a (CHR ''$'') = Some n" by simp
  then show False by (cases a) (auto simp: b64_val_def)
qed

lemma base64_no_dollar: "CHR ''$'' \<notin> set (base64_encode a s)"
proof -
  have "\<forall>x \<in> set (map of_char s :: nat list). x < 256" by auto
  from b64_sextets_bound [OF this] show ?thesis
    using b64_char_not_dollar [of _ a] by (force simp: base64_encode_def)
qed

section \<open>Digest lengths\<close>

lemma length_bytes_be [simp]: "length (bytes_be k n) = k"
  by (induction k arbitrary: n) auto

lemma length_sha_round [simp]: "length (sha_round kw st) = length st"
  by (induction kw st rule: sha_round.induct) (auto simp: Let_def)

lemma length_sha_fold [simp]: "length (fold sha_round kws st) = length st"
  by (induction kws arbitrary: st) auto

lemma length_sha_block [simp]: "length (sha_block st w) = length st"
  by (simp add: sha_block_def)

lemma length_sha_blocks:
  "length (fold (\<lambda>blk st. sha_block st (g blk)) blks st) = length st"
  by (induction blks arbitrary: st) auto

lemma length_sha256 [simp]: "length (sha256 s) = 32"
proof -
  have "length (concat (map (\<lambda>x. bytes_be 4 (unat x)) ws)) = 4 * length ws" for ws :: "u32 list"
    by (induction ws) auto
  then show ?thesis
    by (simp add: sha256_def sha256_bytes_def Let_def length_sha_blocks sha_H0_def)
qed

lemma length_hmac_sha256 [simp]: "length (hmac_sha256 k m) = 32"
  by (simp add: hmac_sha256_def Let_def)

lemma length_pbkdf2_iter: "length acc = 32 \<Longrightarrow> length (pbkdf2_iter n pw u acc) = 32"
  by (induction n arbitrary: u acc) (auto simp: Let_def xor_bytes_def)

lemma length_pbkdf2_block [simp]: "length (pbkdf2_block pw salt iter i) = 32"
  by (simp add: pbkdf2_block_def Let_def length_pbkdf2_iter)

lemma length_pbkdf2_key_32 [simp]: "length (pbkdf2_key pw salt iter 32) = 32"
  by (simp add: pbkdf2_key_def)

end
