(* ===== verification/Go_Net.thy ===== *)
theory Go_Net
  imports Go_Lib
begin

text \<open>
  The parts of \<^verbatim>\<open>net/url\<close> and \<^verbatim>\<open>path\<close> the modelled packages use. \<open>QueryEscape\<close>,
  \<open>QueryUnescape\<close>, \<open>PathEscape\<close>, \<open>PathUnescape\<close>, \<open>Values.Encode\<close> and \<open>path.Clean\<close> on a rooted path
  are byte-string functions, with the round trip between the first two; the record \<open>url\<close> is what \<^verbatim>\<open>url.Parse\<close>, a parameter of its users, answers.
\<close>

text \<open>The parts of a parsed URL the packages read; \<open>u_hostname\<close> is the result of \<^verbatim>\<open>Hostname()\<close>.\<close>

record url =
  u_scheme :: string
  u_opaque :: string
  u_user :: bool
  u_host :: string
  u_hostname :: string
  u_path :: string
  u_rawquery :: string
  u_fragment :: string

definition hex_digit_upper :: "nat \<Rightarrow> char" where
  "hex_digit_upper n = ''0123456789ABCDEF'' ! n"

definition unhex :: "char \<Rightarrow> nat option" where
  "unhex c =
     (if is_digit c then Some (of_char c - 48)
      else if char_in 97 102 c then Some (of_char c - 97 + 10)
      else if char_in 65 70 c then Some (of_char c - 65 + 10)
      else None)"

definition unreserved :: "char \<Rightarrow> bool" where
  "unreserved c \<longleftrightarrow> is_lower c \<or> is_upper c \<or> is_digit c \<or> c \<in> set ''-_.~''"

definition escape_char :: "char \<Rightarrow> string" where
  "escape_char c =
     (if unreserved c then [c]
      else if c = CHR '' '' then ''+''
      else [CHR ''%'', hex_digit_upper (of_char c div 16), hex_digit_upper (of_char c mod 16)])"

definition query_escape :: "string \<Rightarrow> string" where
  "query_escape s = concat (map escape_char s)"

fun query_unescape :: "string \<Rightarrow> string option" where
  "query_unescape [] = Some []"
| "query_unescape (c # s) =
     (if c = CHR ''%'' then
        (case s of
           a # b # rest \<Rightarrow>
             (case (unhex a, unhex b) of
                (Some hi, Some lo) \<Rightarrow> map_option ((#) (char_of (16 * hi + lo))) (query_unescape rest)
              | _ \<Rightarrow> None)
         | _ \<Rightarrow> None)
      else if c = CHR ''+'' then map_option ((#) (CHR '' '')) (query_unescape s)
      else map_option ((#) c) (query_unescape s))"

lemma unhex_hex_digit: "n < 16 \<Longrightarrow> unhex (hex_digit_upper n) = Some n"
proof -
  have "\<forall>n \<in> set [0..<16]. unhex (hex_digit_upper n) = Some n" by code_simp
  then show "n < 16 \<Longrightarrow> unhex (hex_digit_upper n) = Some n" by simp
qed

lemma unescape_escape_char: "query_unescape (escape_char c @ s) = map_option ((#) c) (query_unescape s)"
proof (cases "unreserved c \<or> c = CHR '' ''")
  case True
  then have "c \<noteq> CHR ''%'' \<and> c \<noteq> CHR ''+''"
    by (auto simp: unreserved_def char_in_def)
  with True show ?thesis by (auto simp: escape_char_def)
next
  case False
  have "(of_char c :: nat) < 256" by (metis (mono_tags) of_char_mod_256 mod_less_divisor zero_less_numeral)
  then have "(of_char c :: nat) div 16 < 16" by (simp add: less_mult_imp_div_less)
  then show ?thesis
    using False by (simp add: escape_char_def unhex_hex_digit)
qed

lemma query_unescape_escape: "query_unescape (query_escape s) = Some s"
  by (induction s) (simp_all add: query_escape_def unescape_escape_char)

lemma query_escape_unreserved: "\<forall>c \<in> set s. unreserved c \<Longrightarrow> query_escape s = s"
  by (induction s) (simp_all add: query_escape_def escape_char_def)

text \<open>\<^verbatim>\<open>url.Values.Encode\<close>: the keys in order, each value as \<open>key=value\<close>.\<close>

type_synonym url_values = "(string, string list) fmap"

definition values_encode :: "url_values \<Rightarrow> string" where
  "values_encode q =
     str_join ''&'' (concat (map (\<lambda>(k, vs). map (\<lambda>v. query_escape k @ ''='' @ query_escape v) vs)
       (sorted_list_of_fmap q)))"

section \<open>Paths\<close>

text \<open>\<^verbatim>\<open>url.PathUnescape\<close>: as for queries, but a plus sign stands for itself.\<close>

fun path_unescape :: "string \<Rightarrow> string option" where
  "path_unescape [] = Some []"
| "path_unescape (c # s) =
     (if c = CHR ''%'' then
        (case s of
           a # b # rest \<Rightarrow>
             (case (unhex a, unhex b) of
                (Some hi, Some lo) \<Rightarrow> map_option ((#) (char_of (16 * hi + lo))) (path_unescape rest)
              | _ \<Rightarrow> None)
         | _ \<Rightarrow> None)
      else map_option ((#) c) (path_unescape s))"

text \<open>\<^verbatim>\<open>url.PathEscape\<close> of one segment.\<close>

definition path_escape_char :: "char \<Rightarrow> string" where
  "path_escape_char c =
     (if unreserved c \<or> c \<in> set ''$&+=:@'' then [c]
      else [CHR ''%'', hex_digit_upper (of_char c div 16), hex_digit_upper (of_char c mod 16)])"

definition path_escape :: "string \<Rightarrow> string" where
  "path_escape s = concat (map path_escape_char s)"

text \<open>\<^verbatim>\<open>path.Clean\<close> of a rooted path: its segments without the empty ones and the dots, \<open>..\<close> taking one away.\<close>

definition clean_step :: "string \<Rightarrow> string list \<Rightarrow> string list" where
  "clean_step seg acc =
     (if seg = [] \<or> seg = ''.'' then acc else if seg = ''..'' then butlast acc else acc @ [seg])"

definition path_clean_rooted :: "string \<Rightarrow> string" where
  "path_clean_rooted p = ''/'' @ str_join ''/'' (fold clean_step (split_on (CHR ''/'') p) [])"

definition path_segments :: "string \<Rightarrow> string list" where
  "path_segments s = split_on (CHR ''/'') s"

lemma unhex_slash: "unhex (CHR ''/'') = None"
  by code_simp

lemma path_unescape_sep:
  "CHR ''/'' \<notin> set a \<Longrightarrow> path_unescape (a @ CHR ''/'' # b) =
     (case path_unescape a of None \<Rightarrow> None
      | Some a' \<Rightarrow> map_option (\<lambda>b'. a' @ CHR ''/'' # b') (path_unescape b))"
proof (induction a rule: path_unescape.induct)
  case 1
  show ?case by (simp add: option.map_ident cong: option.map_cong)
next
  case (2 c s)
  show ?case
  proof (cases "c = CHR ''%''")
    case False
    with 2 show ?thesis by (simp add: option.map_comp comp_def split: option.split)
  next
    case pct: True
    consider "s = []" | x where "s = [x]" | x y rest where "s = x # y # rest"
      by (metis list.exhaust)
    then show ?thesis
    proof cases
      case 1
      then show ?thesis using pct by (cases b) (simp_all add: unhex_slash)
    next
      case 2
      then show ?thesis using pct by (simp add: unhex_slash split: option.split)
    next
      case (3 x y rest)
      show ?thesis
      proof (cases "unhex x = None \<or> unhex y = None")
        case True
        then show ?thesis using pct 3 by (auto split: option.split)
      next
        case False
        then obtain hi lo where h: "unhex x = Some hi" "unhex y = Some lo" by auto
        have "path_unescape (rest @ CHR ''/'' # b) = (case path_unescape rest of None \<Rightarrow> None
            | Some a' \<Rightarrow> map_option (\<lambda>b'. a' @ CHR ''/'' # b') (path_unescape b))"
          using "2.IH"(1) pct 3 h "2.prems" by simp
        then show ?thesis using pct 3 h by (simp add: option.map_comp comp_def split: option.split)
      qed
    qed
  qed
qed

text \<open>Unescaping works segment by segment; a segment may fall apart into several.\<close>

lemma path_unescape_join:
  assumes "\<forall>x \<in> set xs. CHR ''/'' \<notin> set x" and "xs \<noteq> []"
  shows "path_unescape (str_join ''/'' xs) =
     (if \<exists>x \<in> set xs. path_unescape x = None then None
      else Some (str_join ''/'' (map (\<lambda>x. the (path_unescape x)) xs)))"
  using assms
proof (induction xs rule: induct_list012)
  case (3 x y zs)
  have "path_unescape (str_join ''/'' (x # y # zs)) = (case path_unescape x of None \<Rightarrow> None
      | Some a' \<Rightarrow> map_option (\<lambda>b'. a' @ CHR ''/'' # b') (path_unescape (str_join ''/'' (y # zs))))"
    using path_unescape_sep [of x] 3(3) by simp
  then show ?case using 3(2) 3(3) by (auto split: option.split)
qed (auto split: option.split)

lemma segments_join:
  "xs \<noteq> [] \<Longrightarrow> path_segments (str_join ''/'' xs) = concat (map path_segments xs)"
proof (induction xs rule: induct_list012)
  case (3 x y zs)
  then show ?case by (simp add: path_segments_def split_on_concat)
qed simp_all

lemma path_unescape_segments:
  "path_unescape s = None \<longleftrightarrow> (\<exists>x \<in> set (path_segments s). path_unescape x = None)"
  "path_unescape s = Some t \<Longrightarrow>
     path_segments t = concat (map (\<lambda>x. path_segments (the (path_unescape x))) (path_segments s))"
proof -
  have s: "s = str_join ''/'' (path_segments s)" by (simp add: path_segments_def str_join_split_on)
  have parts: "\<forall>x \<in> set (path_segments s). CHR ''/'' \<notin> set x"
    by (auto simp: path_segments_def dest: split_on_part)
  have ne: "path_segments s \<noteq> []" by (simp add: path_segments_def)
  note j = path_unescape_join [OF parts ne, folded s]
  show "path_unescape s = None \<longleftrightarrow> (\<exists>x \<in> set (path_segments s). path_unescape x = None)" unfolding j by simp
  assume t: "path_unescape s = Some t"
  then have "t = str_join ''/'' (map (\<lambda>x. the (path_unescape x)) (path_segments s))"
    unfolding j by (simp split: if_splits)
  then show "path_segments t = concat (map (\<lambda>x. path_segments (the (path_unescape x))) (path_segments s))"
    using segments_join [of "map (\<lambda>x. the (path_unescape x)) (path_segments s)"] ne by (simp add: comp_def)
qed

end
