(* ===== verification/OAuth_Client.thy ===== *)
theory OAuth_Client
  imports OAuth_Scope Go_Crypto Go_Net
begin

text \<open>
  Registered clients: \<^verbatim>\<open>src/oauth/client.go\<close>. The client record and its constructors, the
  two client-secret verifiers and their readers, redirect-URI admission, the in-memory
  registry, and the paged listing of the operator API.
  \<^verbatim>\<open>net/url.Parse\<close> and \<^verbatim>\<open>net.ParseIP\<close> are parameters of the definitions that call them
  (\<open>parse\<close>, with the parts of a URL this file reads, and \<open>ip_loopback\<close>).
  Error texts are the source's, with the section sign left out.
  Constructors that draw a salt take the random tape and return what is left of it;
  \<^verbatim>\<open>time.Now\<close> is the argument \<open>now\<close>.
  Shown: a verifier accepts the secret it was made from and survives being stored and
  restored, the registry invariant is kept by every operation, a suspended client reads as
  an unknown one, and following the cursors of \<open>ListClients\<close> visits every client exactly once.
\<close>

section \<open>Clients\<close>

type_synonym client_type = string
definition ClientPublic :: client_type where "ClientPublic = ''public''"
definition ClientConfidential :: client_type where "ClientConfidential = ''confidential''"

type_synonym client_status = string
definition ClientActive :: client_status where "ClientActive = ''active''"
definition ClientSuspended :: client_status where "ClientSuspended = ''suspended''"

lemma client_types_distinct [simp]:
  "ClientPublic \<noteq> ClientConfidential" "ClientConfidential \<noteq> ClientPublic"
  "ClientActive \<noteq> ClientSuspended" "ClientSuspended \<noteq> ClientActive"
  by (simp_all add: ClientPublic_def ClientConfidential_def ClientActive_def ClientSuspended_def)

record client =
  c_id :: string
  c_name :: string
  c_type :: client_type
  c_status :: client_status
  c_created :: time
  RedirectURIs :: "string list"
  AllowedScopes :: "scope list"
  AllowMissingPKCE :: bool
  secretHash :: string

definition WithAllowMissingPKCE :: "client \<Rightarrow> bool \<Rightarrow> client" where
  "WithAllowMissingPKCE c allow = c\<lparr>AllowMissingPKCE := allow\<rparr>"

section \<open>Secret verifiers\<close>

definition secretHashAlgorithm :: string where "secretHashAlgorithm = ''pbkdf2-sha256''"
definition secretHashIterations :: nat where "secretHashIterations = 210000"
definition secretHashIterationsText :: string where "secretHashIterationsText = ''210000''"
definition secretHashMaxIterations :: int where "secretHashMaxIterations = 4000000"
definition secretHashSaltBytes :: nat where "secretHashSaltBytes = 16"
definition secretHashKeyBytes :: nat where "secretHashKeyBytes = 32"
definition secretHashFastAlgorithm :: string where "secretHashFastAlgorithm = ''hmac-sha256''"
definition secretHashFastVersion :: string where "secretHashFastVersion = ''v=1''"
definition secretHashFastDomain :: string where
  "secretHashFastDomain = ''r0semi:client-secret:v2'' @ [CHR 0x00]"

datatype verifier_policy = VerifierPBKDF2 | VerifierGenerated

definition encode_verifier :: "string \<Rightarrow> string \<Rightarrow> string \<Rightarrow> string \<Rightarrow> string" where
  "encode_verifier alg param salt dk =
     ''$'' @ alg @ ''$'' @ param @ ''$'' @ base64_encode StdAlphabet salt
       @ ''$'' @ base64_encode StdAlphabet dk"

definition hashSecret :: "string \<Rightarrow> tape \<Rightarrow> (oauth_error + string) \<times> tape" where
  "hashSecret secret t =
     (case rand_read secretHashSaltBytes t of
        None \<Rightarrow> (Inl ErrRandom, t)
      | Some (salt, t') \<Rightarrow>
          (let dk = pbkdf2_key secret salt secretHashIterations secretHashKeyBytes
           in (Inr (encode_verifier secretHashAlgorithm (''i='' @ secretHashIterationsText) salt dk),
               t')))"

definition NewSecretHash :: "string \<Rightarrow> tape \<Rightarrow> (oauth_error + string) \<times> tape" where
  "NewSecretHash secret t =
     (case hashSecret secret t of
        (Inl e, t') \<Rightarrow> (Inl (Panic ''oauth: NewSecretHash''), t') | (Inr h, t') \<Rightarrow> (Inr h, t'))"

definition fast_mac :: "string \<Rightarrow> string \<Rightarrow> string" where
  "fast_mac salt secret = hmac_sha256 salt (secretHashFastDomain @ secret)"

definition hashGeneratedSecret :: "string \<Rightarrow> tape \<Rightarrow> (oauth_error + string) \<times> tape" where
  "hashGeneratedSecret secret t =
     (case rand_read secretHashSaltBytes t of
        None \<Rightarrow> (Inl ErrRandom, t)
      | Some (salt, t') \<Rightarrow>
          (let dk = fast_mac salt secret
           in (Inr (encode_verifier secretHashFastAlgorithm secretHashFastVersion salt dk), t')))"

definition NewGeneratedSecretHash :: "string \<Rightarrow> tape \<Rightarrow> (oauth_error + string) \<times> tape" where
  "NewGeneratedSecretHash secret t =
     (case hashGeneratedSecret secret t of
        (Inl e, t') \<Rightarrow> (Inl (Panic ''oauth: NewGeneratedSecretHash''), t')
      | (Inr h, t') \<Rightarrow> (Inr h, t'))"

definition LooksGeneratedSecret :: "string \<Rightarrow> bool" where
  "LooksGeneratedSecret secret =
     (if length secret = 64 \<and> (\<forall>c \<in> set secret. is_digit c \<or> char_in 97 102 c) then True
      else if length secret < 43 then False
      else if \<exists>c \<in> set secret. \<not> (is_lower c \<or> is_upper c \<or> is_digit c \<or> c \<in> set ''+/-_='') then False
      else (\<exists>c \<in> set secret. is_lower c \<or> is_upper c) \<and> (\<exists>c \<in> set secret. is_digit c)
           \<and> 16 \<le> length (remdups secret))"

definition splitSecretHash :: "string \<Rightarrow> (string \<times> string \<times> nat) option" where
  "splitSecretHash encoded =
     (case split_on (CHR ''$'') encoded of
        [p0, p1, p2, p3, p4] \<Rightarrow>
          if p0 \<noteq> [] \<or> p1 \<noteq> secretHashAlgorithm then None
          else (case cut_prefix ''i='' p2 of
              None \<Rightarrow> None
            | Some rawIter \<Rightarrow> (case atoi rawIter of
                None \<Rightarrow> None
              | Some iterations \<Rightarrow>
                  if iterations < 1 \<or> iterations > secretHashMaxIterations then None
                  else (case base64_decode StdAlphabet p3 of
                      None \<Rightarrow> None
                    | Some salt \<Rightarrow>
                        if length salt < 8 then None
                        else (case base64_decode StdAlphabet p4 of
                            None \<Rightarrow> None
                          | Some dk \<Rightarrow>
                              if length dk \<noteq> secretHashKeyBytes then None
                              else Some (salt, dk, nat iterations)))))
      | _ \<Rightarrow> None)"

definition splitFastSecretHash :: "string \<Rightarrow> (string \<times> string) option" where
  "splitFastSecretHash encoded =
     (case split_on (CHR ''$'') encoded of
        [p0, p1, p2, p3, p4] \<Rightarrow>
          if p0 \<noteq> [] \<or> p1 \<noteq> secretHashFastAlgorithm \<or> p2 \<noteq> secretHashFastVersion then None
          else (case base64_decode StdAlphabet p3 of
              None \<Rightarrow> None
            | Some salt \<Rightarrow>
                if length salt < 8 then None
                else (case base64_decode StdAlphabet p4 of
                    None \<Rightarrow> None
                  | Some dk \<Rightarrow> if length dk \<noteq> secretHashKeyBytes then None else Some (salt, dk)))
      | _ \<Rightarrow> None)"

definition validSecretHash :: "string \<Rightarrow> bool" where
  "validSecretHash encoded =
     (if splitSecretHash encoded \<noteq> None then True else splitFastSecretHash encoded \<noteq> None)"

definition verifySecretHash :: "string \<Rightarrow> string \<Rightarrow> bool" where
  "verifySecretHash encoded secret =
     (case splitFastSecretHash encoded of
        Some (salt, want) \<Rightarrow> want = fast_mac salt secret
      | None \<Rightarrow> (case splitSecretHash encoded of
            None \<Rightarrow> False
          | Some (salt, want, iterations) \<Rightarrow>
              want = pbkdf2_key secret salt iterations (length want)))"

definition Authenticate :: "client \<Rightarrow> string \<Rightarrow> bool" where
  "Authenticate c secret = (if secretHash c = [] then False else verifySecretHash (secretHash c) secret)"

section \<open>Redirect URIs\<close>

definition forbiddenRedirectSchemes :: "string list" where
  "forbiddenRedirectSchemes =
     [''javascript'', ''data'', ''vbscript'', ''file'', ''blob'', ''about'']"

definition forbiddenRedirectScheme :: "(string \<Rightarrow> url option) \<Rightarrow> string \<Rightarrow> bool" where
  "forbiddenRedirectScheme parse raw =
     (case parse raw of
        None \<Rightarrow> True
      | Some u \<Rightarrow> List.member forbiddenRedirectSchemes (to_lower (u_scheme u)))"

definition loopbackHost :: "(string \<Rightarrow> bool) \<Rightarrow> string \<Rightarrow> bool" where
  "loopbackHost ip_loopback host =
     (if host = ''localhost'' \<or> host = ''127.0.0.1'' \<or> host = ''::1'' then True else ip_loopback host)"

definition validRedirectURI ::
  "(string \<Rightarrow> url option) \<Rightarrow> (string \<Rightarrow> bool) \<Rightarrow> string \<Rightarrow> oauth_error option" where
  "validRedirectURI parse ip_loopback raw =
     (case parse raw of
        None \<Rightarrow> Some (Plain ''it does not parse as a URL'')
      | Some u \<Rightarrow>
          if u_scheme u = [] then Some (Plain ''it has no scheme'')
          else if u_fragment u \<noteq> [] then Some (Plain ''RFC 6749 3.1.2 forbids a fragment'')
          else if u_user u then
            Some (Plain ''it carries userinfo, which no client needs and a phisher does'')
          else (let scheme = to_lower (u_scheme u) in
            if List.member forbiddenRedirectSchemes scheme
              then Some (Plain (''the '' @ scheme @ '': scheme is never a redirect target''))
            else if scheme = ''https'' then
              (if u_host u = [] then Some (Plain ''an https redirect URI needs a host'') else None)
            else if scheme = ''http'' then
              (if \<not> loopbackHost ip_loopback (to_lower (u_hostname u))
               then Some (Plain ''http is allowed only for a loopback host (RFC 8252 7.3); use https'')
               else None)
            else if CHR ''.'' \<notin> set scheme then
              Some (Plain ''a custom scheme must be in reverse-DNS notation (RFC 8252 7.1), e.g. com.example.app'')
            else if u_opaque u = [] \<and> u_path u = [] \<and> u_host u = [] then
              Some (Plain ''it names no target'')
            else None))"

definition RegisteredRedirect :: "(string \<Rightarrow> url option) \<Rightarrow> client \<Rightarrow> string \<Rightarrow> string" where
  "RegisteredRedirect parse c uri =
     (if forbiddenRedirectScheme parse uri then []
      else (case find (\<lambda>r. r = uri \<and> \<not> forbiddenRedirectScheme parse r) (RedirectURIs c) of
              None \<Rightarrow> [] | Some r \<Rightarrow> r))"

definition AllowsRedirect :: "(string \<Rightarrow> url option) \<Rightarrow> client \<Rightarrow> string \<Rightarrow> bool" where
  "AllowsRedirect parse c uri \<longleftrightarrow> RegisteredRedirect parse c uri \<noteq> []"

definition AllowsScope :: "client \<Rightarrow> scope \<Rightarrow> bool" where
  "AllowsScope c s = List.member (AllowedScopes c) s"

section \<open>Construction and restoration\<close>

definition newClient ::
  "(string \<Rightarrow> url option) \<Rightarrow> (string \<Rightarrow> bool) \<Rightarrow> time \<Rightarrow> string \<Rightarrow> string \<Rightarrow> client_type \<Rightarrow> string
   \<Rightarrow> string list \<Rightarrow> scope list \<Rightarrow> (string \<Rightarrow> tape \<Rightarrow> (oauth_error + string) \<times> tape)
   \<Rightarrow> tape \<Rightarrow> (oauth_error + client) \<times> tape"
where
  "newClient parse ip_loopback now cid name typ secret redirects allowed hash t =
     (if cid = [] then (Inl (Plain ''oauth: client id is required''), t)
      else if typ \<noteq> ClientPublic \<and> typ \<noteq> ClientConfidential then
        (Inl (InvalidValue ''oauth: invalid client type'' typ), t)
      else if typ = ClientConfidential \<and> secret = [] then
        (Inl (Plain ''oauth: confidential client requires a secret''), t)
      else if typ = ClientPublic \<and> secret \<noteq> [] then
        (Inl (Plain ''oauth: public client must not have a secret''), t)
      else if redirects = [] then
        (Inl (Plain ''oauth: at least one redirect URI is required''), t)
      else (case first_error (\<lambda>r. map_option (Wrapped r) (validRedirectURI parse ip_loopback r))
                  redirects of
          Some e \<Rightarrow> (Inl e, t)
        | None \<Rightarrow>
            (let c = \<lparr>c_id = cid, c_name = name, c_type = typ, c_status = ClientActive,
                      c_created = now, RedirectURIs = redirects, AllowedScopes = allowed,
                      AllowMissingPKCE = False, secretHash = []\<rparr>
             in if secret \<noteq> [] then
                  (case hash secret t of
                     (Inl e, t') \<Rightarrow> (Inl e, t') | (Inr h, t') \<Rightarrow> (Inr (c\<lparr>secretHash := h\<rparr>), t'))
                else (Inr c, t))))"

definition NewClient ::
  "(string \<Rightarrow> url option) \<Rightarrow> (string \<Rightarrow> bool) \<Rightarrow> time \<Rightarrow> string \<Rightarrow> string \<Rightarrow> client_type \<Rightarrow> string
   \<Rightarrow> string list \<Rightarrow> scope list \<Rightarrow> tape \<Rightarrow> (oauth_error + client) \<times> tape"
where
  "NewClient parse ip_loopback now cid name typ secret redirects allowed =
     newClient parse ip_loopback now cid name typ secret redirects allowed NewSecretHash"

definition NewClientWithVerifier ::
  "(string \<Rightarrow> url option) \<Rightarrow> (string \<Rightarrow> bool) \<Rightarrow> time \<Rightarrow> string \<Rightarrow> string \<Rightarrow> client_type \<Rightarrow> string
   \<Rightarrow> string list \<Rightarrow> scope list \<Rightarrow> verifier_policy \<Rightarrow> tape \<Rightarrow> (oauth_error + client) \<times> tape"
where
  "NewClientWithVerifier parse ip_loopback now cid name typ secret redirects allowed policy =
     newClient parse ip_loopback now cid name typ secret redirects allowed
       (if policy = VerifierGenerated then NewGeneratedSecretHash else NewSecretHash)"

definition RestoreClientWithStatus ::
  "string \<Rightarrow> string \<Rightarrow> client_type \<Rightarrow> client_status \<Rightarrow> string \<Rightarrow> string list \<Rightarrow> scope list \<Rightarrow> time
   \<Rightarrow> oauth_error + client"
where
  "RestoreClientWithStatus cid name typ status sh redirects allowed createdAt =
     (if status \<noteq> ClientActive \<and> status \<noteq> ClientSuspended then
        Inl (InvalidValue ''oauth: invalid client status'' status)
      else if cid = [] then Inl (Plain ''oauth: client id is required'')
      else if typ \<noteq> ClientPublic \<and> typ \<noteq> ClientConfidential then
        Inl (InvalidValue ''oauth: invalid client type'' typ)
      else if typ = ClientConfidential \<and> \<not> validSecretHash sh then
        Inl (Plain ''oauth: confidential client requires a secret hash'')
      else if typ = ClientPublic \<and> sh \<noteq> [] then
        Inl (Plain ''oauth: public client must not have a secret hash'')
      else if redirects = [] then Inl (Plain ''oauth: at least one redirect URI is required'')
      else Inr \<lparr>c_id = cid, c_name = name, c_type = typ, c_status = status, c_created = createdAt,
                RedirectURIs = redirects, AllowedScopes = allowed, AllowMissingPKCE = False,
                secretHash = sh\<rparr>)"

definition RestoreClient ::
  "string \<Rightarrow> string \<Rightarrow> client_type \<Rightarrow> string \<Rightarrow> string list \<Rightarrow> scope list \<Rightarrow> time \<Rightarrow> oauth_error + client"
where
  "RestoreClient cid name typ sh redirects allowed createdAt =
     RestoreClientWithStatus cid name typ ClientActive sh redirects allowed createdAt"

section \<open>The in-memory registry\<close>

type_synonym client_map = "(string, client) fmap"

definition mr_create :: "client \<Rightarrow> client_map \<Rightarrow> (oauth_error + unit) \<times> client_map" where
  "mr_create c r =
     (if fmlookup r (c_id c) \<noteq> None
      then (Inl (Plain (''oauth: client '' @ c_id c @ '' already exists'')), r)
      else (Inr (), fmupd (c_id c) c r))"

definition mr_get :: "client_map \<Rightarrow> string \<Rightarrow> oauth_error + client" where
  "mr_get r cid =
     (case fmlookup r cid of
        None \<Rightarrow> Inl ErrClientNotFound
      | Some c \<Rightarrow> if c_status c = ClientSuspended then Inl ErrClientNotFound else Inr c)"

definition mr_client_names :: "client_map \<Rightarrow> string list \<Rightarrow> (string, string) fmap" where
  "mr_client_names r ids =
     fold (\<lambda>cid out. case fmlookup r cid of None \<Rightarrow> out | Some c \<Rightarrow> fmupd cid (c_name c) out)
       ids fmempty"

definition clientCursorPrefix :: string where "clientCursorPrefix = ''cl1:''"
definition DefaultClientPageSize :: int where "DefaultClientPageSize = 100"
definition MaxClientPageSize :: int where "MaxClientPageSize = 100"

definition EncodeClientCursor :: "string \<Rightarrow> string" where
  "EncodeClientCursor cid = base64_encode URLAlphabet (clientCursorPrefix @ cid)"

definition DecodeClientCursor :: "string \<Rightarrow> oauth_error + string" where
  "DecodeClientCursor cursor =
     (if cursor = [] then Inr []
      else (case base64_decode URLAlphabet cursor of
          None \<Rightarrow> Inl (ErrInvalidClientCursor ''it is not base64url'')
        | Some raw \<Rightarrow> (case cut_prefix clientCursorPrefix raw of
              None \<Rightarrow> Inl (ErrInvalidClientCursor ''it does not carry a client key'')
            | Some after \<Rightarrow>
                if after = [] then Inl (ErrInvalidClientCursor ''it does not carry a client key'')
                else Inr after)))"

definition ResolveClientPageLimit :: "int \<Rightarrow> oauth_error + int" where
  "ResolveClientPageLimit limit =
     (if limit = 0 then Inr DefaultClientPageSize
      else if limit < 1 \<or> limit > MaxClientPageSize then Inl ErrInvalidClientLimit
      else Inr limit)"

definition ListClients :: "client_map \<Rightarrow> int \<Rightarrow> string \<Rightarrow> oauth_error + (client list \<times> string)" where
  "ListClients r limit0 cursor =
     (case ResolveClientPageLimit limit0 of
        Inl e \<Rightarrow> Inl e
      | Inr limit \<Rightarrow> (case DecodeClientCursor cursor of
          Inl e \<Rightarrow> Inl e
        | Inr after \<Rightarrow>
            (let out = sort_key c_id (fm_values r);
                 out = (if after \<noteq> []
                        then drop (sort_search (length out) (\<lambda>i. after < c_id (out ! i))) out
                        else out)
             in if int (length out) > limit
                then (let page = take (nat limit) out
                      in Inr (page, EncodeClientCursor (c_id (last page))))
                else Inr (out, []))))"

definition mr_set_status ::
  "string \<Rightarrow> client_status \<Rightarrow> client_map \<Rightarrow> (oauth_error + unit) \<times> client_map" where
  "mr_set_status cid status r =
     (if status \<noteq> ClientActive \<and> status \<noteq> ClientSuspended then
        (Inl (InvalidValue ''oauth: invalid client status'' status), r)
      else (case fmlookup r cid of
          None \<Rightarrow> (Inl ErrClientNotFound, r)
        | Some c \<Rightarrow> (Inr (), fmupd cid (c\<lparr>c_status := status\<rparr>) r)))"

definition mr_rotate_secret ::
  "string \<Rightarrow> string \<Rightarrow> client_map \<Rightarrow> (oauth_error + unit) \<times> client_map" where
  "mr_rotate_secret cid sh r =
     (if \<not> validSecretHash sh then
        (Inl (InvalidValue ''oauth: a rotation needs a pbkdf2-sha256 secret hash'' sh), r)
      else (case fmlookup r cid of
          None \<Rightarrow> (Inl ErrClientNotFound, r)
        | Some c \<Rightarrow>
            if c_type c \<noteq> ClientConfidential then (Inl ErrNoSecretToRotate, r)
            else (Inr (), fmupd cid (c\<lparr>secretHash := sh\<rparr>) r)))"

section \<open>The registry interface\<close>

text \<open>
  \<^verbatim>\<open>ClientRegistry\<close> as the service uses it, with the optional bulk name lookup
  \<^verbatim>\<open>ClientNameLookup\<close>; \<open>'c\<close> is the registry's state.
\<close>

record 'c client_registry =
  reg_get :: "'c \<Rightarrow> string \<Rightarrow> oauth_error + client"
  reg_names :: "('c \<Rightarrow> string list \<Rightarrow> oauth_error + (string, string) fmap) option"

definition memory_registry :: "client_map client_registry" where
  "memory_registry =
     \<lparr>reg_get = mr_get, reg_names = Some (\<lambda>r ids. Inr (mr_client_names r ids))\<rparr>"

definition LookupClientNames ::
  "'c client_registry \<Rightarrow> 'c \<Rightarrow> string list \<Rightarrow> (string, string) fmap" where
  "LookupClientNames reg st ids =
     (let out = (case reg_names reg of
                   None \<Rightarrow> fmempty
                 | Some bulk \<Rightarrow> (case bulk st ids of Inl e \<Rightarrow> fmempty | Inr names \<Rightarrow> names))
      in fold (\<lambda>cid out. if fmlookup out cid \<noteq> None then out
                       else (case reg_get reg st cid of
                               Inl e \<Rightarrow> out | Inr c \<Rightarrow> fmupd cid (c_name c) out)) ids out)"

section \<open>Verifiers accept what they were made from\<close>

lemma split_encode_verifier:
  assumes "CHR ''$'' \<notin> set alg" and "CHR ''$'' \<notin> set param"
  shows "split_on (CHR ''$'') (encode_verifier alg param salt dk)
           = [[], alg, param, base64_encode StdAlphabet salt, base64_encode StdAlphabet dk]"
  using assms
  by (simp add: encode_verifier_def split_on_append split_on_no_sep base64_no_dollar)

lemma splitSecretHash_encode:
  assumes "8 \<le> length salt" and "length dk = 32"
  shows "splitSecretHash (encode_verifier secretHashAlgorithm (''i='' @ secretHashIterationsText) salt dk)
           = Some (salt, dk, secretHashIterations)"
proof -
  have "atoi ''210000'' = Some 210000"
    by (simp add: atoi_def char_in_def)
  then show ?thesis
    using assms unfolding splitSecretHash_def
    by (subst split_encode_verifier)
       (simp_all add: secretHashAlgorithm_def secretHashIterationsText_def
         secretHashMaxIterations_def secretHashKeyBytes_def secretHashIterations_def
         base64_decode_encode)
qed

lemma splitFastSecretHash_slow:
  "splitFastSecretHash (encode_verifier secretHashAlgorithm (''i='' @ secretHashIterationsText) salt dk)
     = None"
  unfolding splitFastSecretHash_def
  by (subst split_encode_verifier)
     (simp_all add: secretHashAlgorithm_def secretHashIterationsText_def secretHashFastAlgorithm_def)

lemma splitFastSecretHash_encode:
  assumes "8 \<le> length salt" and "length dk = 32"
  shows "splitFastSecretHash (encode_verifier secretHashFastAlgorithm secretHashFastVersion salt dk)
           = Some (salt, dk)"
  using assms unfolding splitFastSecretHash_def
  by (subst split_encode_verifier)
     (simp_all add: secretHashFastAlgorithm_def secretHashFastVersion_def secretHashKeyBytes_def
       base64_decode_encode)

lemma hashSecret_verifies:
  assumes "hashSecret secret t = (Inr h, t')"
  shows "validSecretHash h \<and> verifySecretHash h secret \<and> h \<noteq> []"
proof -
  from assms obtain salt where salt: "rand_read secretHashSaltBytes t = Some (salt, t')"
    and h: "h = encode_verifier secretHashAlgorithm (''i='' @ secretHashIterationsText) salt
                 (pbkdf2_key secret salt secretHashIterations secretHashKeyBytes)"
    by (auto simp: hashSecret_def Let_def split: option.splits prod.splits)
  from rand_read_length [OF salt] have "8 \<le> length salt" by (simp add: secretHashSaltBytes_def)
  moreover have len: "length (pbkdf2_key secret salt secretHashIterations secretHashKeyBytes) = 32"
    by (simp add: secretHashKeyBytes_def)
  ultimately have "splitSecretHash h
      = Some (salt, pbkdf2_key secret salt secretHashIterations secretHashKeyBytes, secretHashIterations)"
    unfolding h by (rule splitSecretHash_encode)
  moreover have "splitFastSecretHash h = None" unfolding h by (rule splitFastSecretHash_slow)
  moreover have "h \<noteq> []" by (simp add: h encode_verifier_def)
  ultimately show ?thesis
    by (simp add: validSecretHash_def verifySecretHash_def secretHashKeyBytes_def)
qed

lemma hashGeneratedSecret_verifies:
  assumes "hashGeneratedSecret secret t = (Inr h, t')"
  shows "validSecretHash h \<and> verifySecretHash h secret \<and> h \<noteq> []"
proof -
  from assms obtain salt where salt: "rand_read secretHashSaltBytes t = Some (salt, t')"
    and h: "h = encode_verifier secretHashFastAlgorithm secretHashFastVersion salt (fast_mac salt secret)"
    by (auto simp: hashGeneratedSecret_def Let_def split: option.splits prod.splits)
  from rand_read_length [OF salt] have "8 \<le> length salt" by (simp add: secretHashSaltBytes_def)
  moreover have "length (fast_mac salt secret) = 32" by (simp add: fast_mac_def)
  ultimately have "splitFastSecretHash h = Some (salt, fast_mac salt secret)"
    unfolding h by (rule splitFastSecretHash_encode)
  moreover have "h \<noteq> []" by (simp add: h encode_verifier_def)
  ultimately show ?thesis by (simp add: validSecretHash_def verifySecretHash_def)
qed

definition good_hash :: "(string \<Rightarrow> tape \<Rightarrow> (oauth_error + string) \<times> tape) \<Rightarrow> bool" where
  "good_hash hash \<longleftrightarrow> (\<forall>secret t h t'. hash secret t = (Inr h, t') \<longrightarrow>
     validSecretHash h \<and> verifySecretHash h secret \<and> h \<noteq> [])"

lemma good_hashD:
  "good_hash hash \<Longrightarrow> hash secret t = (Inr h, t') \<Longrightarrow>
     validSecretHash h \<and> verifySecretHash h secret \<and> h \<noteq> []"
  by (auto simp: good_hash_def)

lemma good_hash_NewSecretHash [simp]: "good_hash NewSecretHash"
  by (auto simp: good_hash_def NewSecretHash_def split: prod.splits sum.splits
      dest!: hashSecret_verifies)

lemma good_hash_NewGeneratedSecretHash [simp]: "good_hash NewGeneratedSecretHash"
  by (auto simp: good_hash_def NewGeneratedSecretHash_def split: prod.splits sum.splits
      dest!: hashGeneratedSecret_verifies)

section \<open>Registry invariant\<close>

definition wf_client :: "client \<Rightarrow> bool" where
  "wf_client c \<longleftrightarrow> c_id c \<noteq> [] \<and> c_type c \<in> {ClientPublic, ClientConfidential}
     \<and> c_status c \<in> {ClientActive, ClientSuspended}
     \<and> (c_type c = ClientConfidential \<longrightarrow> validSecretHash (secretHash c))
     \<and> (c_type c = ClientPublic \<longrightarrow> secretHash c = []) \<and> RedirectURIs c \<noteq> []"

definition wf_clients :: "client_map \<Rightarrow> bool" where
  "wf_clients r \<longleftrightarrow> (\<forall>k c. fmlookup r k = Some c \<longrightarrow> c_id c = k \<and> wf_client c)"

lemma newClient_Inr:
  assumes "newClient parse ip now cid name typ secret redirects allowed hash t = (Inr c, t')"
    and "good_hash hash"
  shows "wf_client c \<and> c_status c = ClientActive \<and> \<not> AllowMissingPKCE c \<and> c_id c = cid
     \<and> c_type c = typ \<and> RedirectURIs c = redirects \<and> AllowedScopes c = allowed
     \<and> (\<forall>r \<in> set redirects. validRedirectURI parse ip r = None)
     \<and> (typ = ClientConfidential \<longrightarrow> Authenticate c secret)"
  using assms
  by (auto simp: newClient_def wf_client_def Let_def first_error_None Authenticate_def
      split: if_splits option.splits prod.splits sum.splits dest: good_hashD)

lemma Authenticate_public: "wf_client c \<Longrightarrow> c_type c = ClientPublic \<Longrightarrow> \<not> Authenticate c secret"
  by (simp add: wf_client_def Authenticate_def)

lemma RestoreClientWithStatus_wf:
  "RestoreClientWithStatus cid name typ st sh redirects allowed at = Inr c \<Longrightarrow> wf_client c"
  by (auto simp: RestoreClientWithStatus_def wf_client_def split: if_splits)

text \<open>Storing a client's fields and restoring them gives the client back, the PKCE exemption apart.\<close>

lemma RestoreClientWithStatus_inverse:
  assumes "wf_client c"
  shows "RestoreClientWithStatus (c_id c) (c_name c) (c_type c) (c_status c) (secretHash c)
           (RedirectURIs c) (AllowedScopes c) (c_created c) = Inr (c\<lparr>AllowMissingPKCE := False\<rparr>)"
  using assms by (auto simp: RestoreClientWithStatus_def wf_client_def)

lemma wf_clients_empty: "wf_clients fmempty"
  by (simp add: wf_clients_def)

lemma mr_create_wf: "wf_clients r \<Longrightarrow> wf_client c \<Longrightarrow> wf_clients (snd (mr_create c r))"
  by (auto simp: wf_clients_def mr_create_def)

lemma mr_set_status_wf: "wf_clients r \<Longrightarrow> wf_clients (snd (mr_set_status cid st r))"
  by (auto simp: wf_clients_def mr_set_status_def wf_client_def split: option.splits)

lemma mr_rotate_secret_wf: "wf_clients r \<Longrightarrow> wf_clients (snd (mr_rotate_secret cid sh r))"
  by (auto simp: wf_clients_def mr_rotate_secret_def wf_client_def split: option.splits)

lemma fmdrop_wf_clients: "wf_clients r \<Longrightarrow> wf_clients (fmdrop cid r)"
  by (auto simp: wf_clients_def)

lemma mr_get_Inr: "mr_get r cid = Inr c \<longleftrightarrow> fmlookup r cid = Some c \<and> c_status c \<noteq> ClientSuspended"
  by (auto simp: mr_get_def split: option.splits)

lemma mr_get_Inl: "mr_get r cid = Inl e \<Longrightarrow> e = ErrClientNotFound"
  by (auto simp: mr_get_def split: option.splits if_splits)

section \<open>Paging\<close>

definition all_clients :: "client_map \<Rightarrow> client list" where
  "all_clients r = sort_key c_id (fm_values r)"

text \<open>The operator's paging loop: follow the returned cursor until it is empty.\<close>

fun list_pages :: "nat \<Rightarrow> client_map \<Rightarrow> int \<Rightarrow> string \<Rightarrow> (oauth_error + client list) option" where
  "list_pages 0 r limit cursor = None"
| "list_pages (Suc n) r limit cursor =
     (case ListClients r limit cursor of
        Inl e \<Rightarrow> Some (Inl e)
      | Inr (page, nxt) \<Rightarrow>
          if nxt = [] then Some (Inr page)
          else map_option (map_sum id (append page)) (list_pages n r limit nxt))"

lemma sort_key_strict:
  assumes "distinct (map f xs)"
  shows "sorted_wrt (<) (map f (sort_key f xs))"
proof -
  have "distinct (map f (sort_key f xs))"
    using assms by (metis distinct_map distinct_sort set_sort)
  then show ?thesis by (simp add: strict_sorted_iff)
qed

lemma fm_values_keys:
  "\<forall>k v. fmlookup m k = Some v \<longrightarrow> f v = k \<Longrightarrow>
     map f (fm_values m) = sorted_list_of_fset (fmdom m)"
  by (auto simp: fm_values_def sorted_list_of_fmap_def fmlookup_dom_iff intro!: map_idI)

lemma all_clients_strict: "wf_clients r \<Longrightarrow> sorted_wrt (<) (map c_id (all_clients r))"
  unfolding all_clients_def
  by (rule sort_key_strict)
     (simp add: fm_values_keys [where f = c_id] wf_clients_def sorted_list_of_fset.rep_eq)

lemma set_all_clients: "set (all_clients r) = {c. \<exists>k. fmlookup r k = Some c}"
  by (simp add: all_clients_def set_fm_values)

lemma length_all_clients: "length (all_clients r) = fcard (fmdom r)"
  by (simp add: all_clients_def fm_values_def sorted_list_of_fmap_def sorted_list_of_fset.rep_eq
      fcard.rep_eq)

lemma all_clients_nonempty_id: "wf_clients r \<Longrightarrow> c \<in> set (all_clients r) \<Longrightarrow> c_id c \<noteq> []"
  by (auto simp: set_all_clients wf_clients_def wf_client_def)

lemma EncodeClientCursor_not_Nil: "EncodeClientCursor cid \<noteq> []"
  by (simp add: EncodeClientCursor_def base64_encode_def clientCursorPrefix_def)

lemma DecodeClientCursor_encode: "cid \<noteq> [] \<Longrightarrow> DecodeClientCursor (EncodeClientCursor cid) = Inr cid"
  using EncodeClientCursor_not_Nil [of cid]
  by (simp add: DecodeClientCursor_def EncodeClientCursor_def base64_decode_encode)

lemma ResolveClientPageLimit_pos: "ResolveClientPageLimit l = Inr n \<Longrightarrow> 0 < n \<and> n \<le> MaxClientPageSize"
  by (auto simp: ResolveClientPageLimit_def DefaultClientPageSize_def MaxClientPageSize_def
      split: if_splits)

text \<open>The clients a request with this cursor position still has to deliver.\<close>

definition remaining :: "client_map \<Rightarrow> string \<Rightarrow> client list" where
  "remaining r after =
     (if after = [] then all_clients r else filter (\<lambda>c. after < c_id c) (all_clients r))"

lemma ListClients_eq:
  assumes "ResolveClientPageLimit limit = Inr n" and "DecodeClientCursor cursor = Inr after"
    and "wf_clients r"
  shows "ListClients r limit cursor
     = (let out = remaining r after in
        if int (length out) > n
        then Inr (take (nat n) out, EncodeClientCursor (c_id (last (take (nat n) out))))
        else Inr (out, []))"
proof -
  have "sorted (map c_id (all_clients r))" by (simp add: all_clients_def)
  from drop_sort_search [OF this, of after] show ?thesis
    using assms by (simp add: ListClients_def remaining_def all_clients_def Let_def)
qed

lemma remaining_step:
  assumes "wf_clients r" and "0 < n" and "n \<le> length (remaining r after)"
  shows "remaining r (c_id (last (take n (remaining r after)))) = drop n (remaining r after)"
proof -
  let ?xs = "remaining r after"
  let ?l = "c_id (last (take n ?xs))"
  have strict: "sorted_wrt (<) (map c_id ?xs)"
    using all_clients_strict [OF assms(1)]
    by (simp add: remaining_def sorted_wrt_map sorted_wrt_filter)
  have mem: "last (take n ?xs) \<in> set ?xs"
    using assms(2,3) by (metis in_set_takeD last_in_set length_0_conv length_take min.absorb2 not_gr0)
  then have "?l \<noteq> []" using all_clients_nonempty_id [OF assms(1)] by (auto simp: remaining_def split: if_splits)
  moreover have "after < c_id c" if "after \<noteq> []" "?l < c_id c" for c
    using mem that by (auto simp: remaining_def)
  ultimately have "remaining r ?l = filter (\<lambda>c. ?l < c_id c) ?xs"
    by (auto simp: remaining_def filter_filter intro: filter_cong)
  with filter_after_take [OF strict assms(2,3)] show ?thesis by simp
qed

lemma list_pages_remaining:
  assumes "wf_clients r" and "ResolveClientPageLimit limit = Inr n"
  shows "DecodeClientCursor cursor = Inr after \<Longrightarrow> length (remaining r after) < fuel \<Longrightarrow>
     list_pages fuel r limit cursor = Some (Inr (remaining r after))"
proof (induction fuel arbitrary: cursor after)
  case (Suc fuel)
  let ?xs = "remaining r after"
  have n: "0 < nat n" using ResolveClientPageLimit_pos [OF assms(2)] by simp
  show ?case
  proof (cases "int (length ?xs) > n")
    case False
    then show ?thesis using ListClients_eq [OF assms(2) Suc.prems(1) assms(1)] by (simp add: Let_def)
  next
    case True
    let ?l = "c_id (last (take (nat n) ?xs))"
    have le: "nat n \<le> length ?xs" using True by simp
    have rest: "remaining r ?l = drop (nat n) ?xs" by (rule remaining_step [OF assms(1) n le])
    have "last (take (nat n) ?xs) \<in> set ?xs"
      using n le by (metis in_set_takeD last_in_set length_0_conv length_take min.absorb2 not_gr0)
    then have "?l \<noteq> []" using all_clients_nonempty_id [OF assms(1)] by (auto simp: remaining_def split: if_splits)
    then have "list_pages fuel r limit (EncodeClientCursor ?l) = Some (Inr (drop (nat n) ?xs))"
      using Suc.IH [OF DecodeClientCursor_encode, of ?l] Suc.prems(2) n le by (simp add: rest)
    with True show ?thesis
      using ListClients_eq [OF assms(2) Suc.prems(1) assms(1)]
      by (simp add: Let_def EncodeClientCursor_not_Nil)
  qed
qed simp

section \<open>Properties\<close>

text \<open>
  C26. Client secrets round trip, under either verifier: a client built with a secret accepts that
  secret and, when confidential, stores a verifier it can read back; a public client accepts
  none; and storing the client's fields and restoring them gives the same client.
\<close>
theorem client_secret_roundtrip:
  assumes "fst (NewClientWithVerifier parse ip_loopback now cid name typ secret redirects allowed policy t) = Inr c"
  shows "wf_client c
     \<and> (typ = ClientConfidential \<longrightarrow> validSecretHash (secretHash c) \<and> Authenticate c secret)
     \<and> (typ = ClientPublic \<longrightarrow> \<not> Authenticate c guess)
     \<and> (\<forall>r \<in> set (RedirectURIs c). validRedirectURI parse ip_loopback r = None)
     \<and> RestoreClientWithStatus (c_id c) (c_name c) (c_type c) (c_status c) (secretHash c)
         (RedirectURIs c) (AllowedScopes c) (c_created c) = Inr c"
proof -
  obtain t' where "newClient parse ip_loopback now cid name typ secret redirects allowed
      (if policy = VerifierGenerated then NewGeneratedSecretHash else NewSecretHash) t = (Inr c, t')"
    using assms unfolding NewClientWithVerifier_def by (metis prod.collapse)
  from newClient_Inr [OF this] have c: "wf_client c" "\<not> AllowMissingPKCE c" "c_type c = typ"
    "RedirectURIs c = redirects" "\<forall>r \<in> set redirects. validRedirectURI parse ip_loopback r = None"
    "typ = ClientConfidential \<longrightarrow> Authenticate c secret"
    by simp_all
  have "c\<lparr>AllowMissingPKCE := False\<rparr> = c" using c(2) by simp
  with RestoreClientWithStatus_inverse [OF c(1)] c Authenticate_public [OF c(1)] show ?thesis
    by (simp add: wf_client_def)
qed

theorem client_secret_roundtrip_witness:
  "\<exists>c. fst (NewClientWithVerifier
        (\<lambda>_. Some \<lparr>u_scheme = ''https'', u_opaque = [], u_user = False, u_host = ''a'', u_hostname = ''a'',
                  u_path = [], u_rawquery = [], u_fragment = []\<rparr>)
        (\<lambda>_. False) 1 ''app'' ''App'' ClientConfidential ''s3cret'' [''https://a''] []
        VerifierGenerated (replicate 16 (CHR ''x''))) = Inr c
     \<and> Authenticate c ''s3cret''"
proof -
  obtain c where c: "fst (NewClientWithVerifier
        (\<lambda>_. Some \<lparr>u_scheme = ''https'', u_opaque = [], u_user = False, u_host = ''a'', u_hostname = ''a'',
                  u_path = [], u_rawquery = [], u_fragment = []\<rparr>)
        (\<lambda>_. False) 1 ''app'' ''App'' ClientConfidential ''s3cret'' [''https://a''] []
        VerifierGenerated (replicate 16 (CHR ''x''))) = Inr c"
    by (simp add: NewClientWithVerifier_def newClient_def NewGeneratedSecretHash_def
        hashGeneratedSecret_def rand_read_def secretHashSaltBytes_def validRedirectURI_def Let_def
        to_lower_def lower_char_def char_in_def forbiddenRedirectSchemes_def)
  from client_secret_roundtrip [OF this] c show ?thesis by simp
qed

text \<open>
  Paging is complete: for a well-formed registry and an admissible page size, following the
  returned cursors from the start ends within one request per client plus one, and the pages
  concatenated are all registered clients, each once, in identifier order.
\<close>
theorem client_paging_complete:
  assumes "wf_clients r" and "is_ok (ResolveClientPageLimit limit)"
  shows "list_pages (Suc (fcard (fmdom r))) r limit [] = Some (Inr (all_clients r))
     \<and> set (all_clients r) = {c. \<exists>k. fmlookup r k = Some c}
     \<and> sorted_wrt (<) (map c_id (all_clients r))"
proof -
  from assms(2) obtain n where n: "ResolveClientPageLimit limit = Inr n"
    by (cases "ResolveClientPageLimit limit") auto
  have "list_pages (Suc (fcard (fmdom r))) r limit [] = Some (Inr (remaining r []))"
    by (rule list_pages_remaining [OF assms(1) n])
       (simp_all add: DecodeClientCursor_def remaining_def length_all_clients)
  then show ?thesis
    using all_clients_strict [OF assms(1)] set_all_clients [of r] by (simp add: remaining_def)
qed

theorem client_paging_complete_witness:
  "list_pages (Suc (fcard (fmdom (fmempty :: client_map)))) fmempty 1 [] = Some (Inr (all_clients fmempty))"
  using client_paging_complete [OF wf_clients_empty, of 1]
  by (simp add: ResolveClientPageLimit_def MaxClientPageSize_def)

text \<open>
  Redirects go only where the client registered: the redirect target looked up for a request
  is empty or exactly the requested string, which the client registered and whose scheme is
  none of the script-capable ones; a request whose URI does not parse is never admitted.
\<close>
theorem registered_redirect_safe:
  "RegisteredRedirect parse c uri = [] \<or>
     RegisteredRedirect parse c uri = uri \<and> uri \<in> set (RedirectURIs c)
     \<and> (\<exists>u. parse uri = Some u \<and> to_lower (u_scheme u) \<notin> set forbiddenRedirectSchemes)"
  by (auto simp: RegisteredRedirect_def forbiddenRedirectScheme_def find_Some_iff
      split: option.splits)

text \<open>
  Registry invariant: creating, suspending or resuming, rotating a secret and deleting keep
  every stored client well formed under its own identifier (a confidential client always has a
  readable verifier, a public one none), and a failing operation changes nothing.
\<close>
theorem client_registry_invariant:
  assumes "wf_clients r" and "wf_client c"
  shows "wf_clients (snd (mr_create c r)) \<and> wf_clients (snd (mr_set_status cid st r))
     \<and> wf_clients (snd (mr_rotate_secret cid sh r)) \<and> wf_clients (fmdrop cid r)
     \<and> (isl (fst (mr_create c r)) \<longrightarrow> snd (mr_create c r) = r)
     \<and> (isl (fst (mr_set_status cid st r)) \<longrightarrow> snd (mr_set_status cid st r) = r)
     \<and> (isl (fst (mr_rotate_secret cid sh r)) \<longrightarrow> snd (mr_rotate_secret cid sh r) = r)"
proof -
  have "isl (fst (mr_create c r)) \<longrightarrow> snd (mr_create c r) = r" by (simp add: mr_create_def)
  moreover have "isl (fst (mr_set_status cid st r)) \<longrightarrow> snd (mr_set_status cid st r) = r"
    by (simp add: mr_set_status_def split: option.split)
  moreover have "isl (fst (mr_rotate_secret cid sh r)) \<longrightarrow> snd (mr_rotate_secret cid sh r) = r"
    by (simp add: mr_rotate_secret_def split: option.split)
  ultimately show ?thesis
    using mr_create_wf [OF assms] mr_set_status_wf [OF assms(1)] mr_rotate_secret_wf [OF assms(1)]
      fmdrop_wf_clients [OF assms(1)] by simp
qed

theorem client_registry_invariant_witness:
  "wf_clients (snd (mr_create
     \<lparr>c_id = ''app'', c_name = ''App'', c_type = ClientPublic, c_status = ClientActive, c_created = 1,
      RedirectURIs = [''https://a''], AllowedScopes = [], AllowMissingPKCE = False, secretHash = []\<rparr> fmempty))"
  using client_registry_invariant [OF wf_clients_empty, of
     "\<lparr>c_id = ''app'', c_name = ''App'', c_type = ClientPublic, c_status = ClientActive, c_created = 1,
      RedirectURIs = [''https://a''], AllowedScopes = [], AllowMissingPKCE = False, secretHash = []\<rparr>"]
  by (simp add: wf_client_def)

end
