(* ===== verification/OAuth_Tokens.thy ===== *)
theory OAuth_Tokens
  imports OAuth_Client
begin

text \<open>
  The token store of \<^verbatim>\<open>src/oauth/tokens.go\<close> and \<^verbatim>\<open>src/oauth/grants.go\<close>: the records, the
  \<^verbatim>\<open>Store\<close> interface as a record of operations over a state \<open>'t\<close> (the two optional
  extensions are option-typed fields), the in-memory implementation \<open>MemoryStore\<close>, bulk
  revocation, and client deletion, which revokes through it.
  Every method of \<open>MemoryStore\<close> is one critical section and is one function here;
  \<^verbatim>\<open>cloneScopes\<close> disappears because HOL lists are values. The store's injected clock is the
  argument \<open>clock\<close>: \<open>None\<close> is the nil function, under which tombstones never expire.
  The interface contract is stated as the locales \<open>code_store\<close> and \<open>refresh_store\<close>, whose
  laws are those of the comment on \<^verbatim>\<open>Store\<close>; their lemmas are what the server builds on, and
  both are interpreted on \<open>MemoryStore\<close>.
\<close>

section \<open>Records\<close>

record access_token =
  at_client :: string
  at_subject :: string
  at_scopes :: "scope list"
  at_family :: string
  at_issued :: time
  at_expires :: time

record refresh_token =
  rt_client :: string
  rt_subject :: string
  rt_scopes :: "scope list"
  rt_family :: string
  rt_issued :: time
  rt_expires :: time

record authorization_code =
  ac_client :: string
  ac_subject :: string
  ac_scopes :: "scope list"
  ac_redirect :: string
  ac_challenge :: string
  ac_method :: string
  ac_expires :: time

record refresh_tombstone =
  tb_family :: string
  tb_client :: string
  tb_subject :: string
  tb_expires :: time

datatype token_kind = TokenKindAccess | TokenKindRefresh

record grant_record =
  gr_kind :: token_kind
  gr_client :: string
  gr_scopes :: "scope list"
  gr_issued :: time
  gr_expires :: time

record token_filter =
  tf_client :: string
  tf_subject :: string

definition Matches :: "token_filter \<Rightarrow> string \<Rightarrow> string \<Rightarrow> bool" where
  "Matches f cid subject \<longleftrightarrow>
     (tf_client f = [] \<or> tf_client f = cid) \<and> (tf_subject f = [] \<or> tf_subject f = subject)"

definition TokenHash :: "string \<Rightarrow> string" where
  "TokenHash v = hex_encode (sha256 v)"

section \<open>The Store interface\<close>

record 't token_store =
  st_save_code :: "string \<Rightarrow> authorization_code \<Rightarrow> 't \<Rightarrow> (oauth_error + unit) \<times> 't"
  st_get_code :: "string \<Rightarrow> 't \<Rightarrow> oauth_error + authorization_code"
  st_consume_code :: "string \<Rightarrow> 't \<Rightarrow> (oauth_error + authorization_code) \<times> 't"
  st_save_access :: "string \<Rightarrow> access_token \<Rightarrow> 't \<Rightarrow> (oauth_error + unit) \<times> 't"
  st_get_access :: "string \<Rightarrow> 't \<Rightarrow> oauth_error + access_token"
  st_delete_access :: "string \<Rightarrow> 't \<Rightarrow> (oauth_error + unit) \<times> 't"
  st_save_refresh :: "string \<Rightarrow> refresh_token \<Rightarrow> 't \<Rightarrow> (oauth_error + unit) \<times> 't"
  st_get_refresh :: "string \<Rightarrow> 't \<Rightarrow> oauth_error + refresh_token"
  st_consume_refresh :: "time \<Rightarrow> string \<Rightarrow> 't \<Rightarrow> (oauth_error + refresh_token) \<times> 't"
  st_delete_refresh :: "string \<Rightarrow> 't \<Rightarrow> (oauth_error + unit) \<times> 't"
  st_revoke_family :: "string \<Rightarrow> 't \<Rightarrow> (oauth_error + nat) \<times> 't"
  st_list_by_subject :: "string \<Rightarrow> 't \<Rightarrow> oauth_error + grant_record list"
  st_delete_by_subject_client :: "string \<Rightarrow> string \<Rightarrow> 't \<Rightarrow> (oauth_error + unit) \<times> 't"
  st_token_owner :: "string \<Rightarrow> 't \<Rightarrow> oauth_error + string"
  st_refresh_family :: "(time \<Rightarrow> string \<Rightarrow> 't \<Rightarrow> oauth_error + string) option"
  st_spent_owner :: "(time \<Rightarrow> string \<Rightarrow> 't \<Rightarrow> oauth_error + string) option"

section \<open>MemoryStore\<close>

record memory_store =
  ms_codes :: "(string, authorization_code) fmap"
  ms_access :: "(string, access_token) fmap"
  ms_refresh :: "(string, refresh_token) fmap"
  ms_tombstones :: "(string, refresh_tombstone) fmap"

definition NewMemoryStore :: memory_store where
  "NewMemoryStore =
     \<lparr>ms_codes = fmempty, ms_access = fmempty, ms_refresh = fmempty, ms_tombstones = fmempty\<rparr>"

definition ms_sweep_expired :: "time \<Rightarrow> memory_store \<Rightarrow> nat \<times> memory_store" where
  "ms_sweep_expired now s =
     (fm_count (\<lambda>c. \<not> now < ac_expires c) (ms_codes s)
        + fm_count (\<lambda>t. \<not> now < at_expires t) (ms_access s)
        + fm_count (\<lambda>t. \<not> now < rt_expires t) (ms_refresh s)
        + fm_count (\<lambda>t. \<not> now < tb_expires t) (ms_tombstones s),
      s\<lparr>ms_codes := fm_drop_where (\<lambda>c. \<not> now < ac_expires c) (ms_codes s),
        ms_access := fm_drop_where (\<lambda>t. \<not> now < at_expires t) (ms_access s),
        ms_refresh := fm_drop_where (\<lambda>t. \<not> now < rt_expires t) (ms_refresh s),
        ms_tombstones := fm_drop_where (\<lambda>t. \<not> now < tb_expires t) (ms_tombstones s)\<rparr>)"

definition ms_save_code ::
  "string \<Rightarrow> authorization_code \<Rightarrow> memory_store \<Rightarrow> (oauth_error + unit) \<times> memory_store" where
  [store_simps]: "ms_save_code v c s = (Inr (), s\<lparr>ms_codes := fmupd (TokenHash v) c (ms_codes s)\<rparr>)"

definition ms_get_code :: "string \<Rightarrow> memory_store \<Rightarrow> oauth_error + authorization_code" where
  [store_simps]: "ms_get_code v s =
     (case fmlookup (ms_codes s) (TokenHash v) of None \<Rightarrow> Inl ErrTokenNotFound | Some c \<Rightarrow> Inr c)"

definition ms_consume_code ::
  "string \<Rightarrow> memory_store \<Rightarrow> (oauth_error + authorization_code) \<times> memory_store" where
  [store_simps]: "ms_consume_code v s =
     (let key = TokenHash v in
      case fmlookup (ms_codes s) key of
        None \<Rightarrow> (Inl ErrTokenNotFound, s)
      | Some c \<Rightarrow> (Inr c, s\<lparr>ms_codes := fmdrop key (ms_codes s)\<rparr>))"

definition ms_save_access ::
  "string \<Rightarrow> access_token \<Rightarrow> memory_store \<Rightarrow> (oauth_error + unit) \<times> memory_store" where
  [store_simps]: "ms_save_access v t s = (Inr (), s\<lparr>ms_access := fmupd (TokenHash v) t (ms_access s)\<rparr>)"

definition ms_get_access :: "string \<Rightarrow> memory_store \<Rightarrow> oauth_error + access_token" where
  [store_simps]: "ms_get_access v s =
     (case fmlookup (ms_access s) (TokenHash v) of None \<Rightarrow> Inl ErrTokenNotFound | Some t \<Rightarrow> Inr t)"

definition ms_delete_access ::
  "string \<Rightarrow> memory_store \<Rightarrow> (oauth_error + unit) \<times> memory_store" where
  [store_simps]: "ms_delete_access v s = (Inr (), s\<lparr>ms_access := fmdrop (TokenHash v) (ms_access s)\<rparr>)"

definition ms_token_owner :: "string \<Rightarrow> memory_store \<Rightarrow> oauth_error + string" where
  [store_simps]: "ms_token_owner v s =
     (let key = TokenHash v in
      case fmlookup (ms_access s) key of
        Some t \<Rightarrow> Inr (at_client t)
      | None \<Rightarrow> (case fmlookup (ms_refresh s) key of
            Some t \<Rightarrow> Inr (rt_client t)
          | None \<Rightarrow> Inl ErrTokenNotFound))"

definition tombstone_dead :: "time option \<Rightarrow> refresh_tombstone \<Rightarrow> bool" where
  "tombstone_dead clock tomb =
     (case clock of None \<Rightarrow> False | Some now \<Rightarrow> \<not> now < tb_expires tomb)"

definition ms_spent_refresh_owner ::
  "time option \<Rightarrow> string \<Rightarrow> memory_store \<Rightarrow> oauth_error + string" where
  [store_simps]: "ms_spent_refresh_owner clock v s =
     (case fmlookup (ms_tombstones s) (TokenHash v) of
        None \<Rightarrow> Inl ErrTokenNotFound
      | Some tomb \<Rightarrow> if tombstone_dead clock tomb then Inl ErrTokenNotFound else Inr (tb_client tomb))"

definition ms_save_refresh ::
  "string \<Rightarrow> refresh_token \<Rightarrow> memory_store \<Rightarrow> (oauth_error + unit) \<times> memory_store" where
  [store_simps]: "ms_save_refresh v t s = (Inr (), s\<lparr>ms_refresh := fmupd (TokenHash v) t (ms_refresh s)\<rparr>)"

definition ms_get_refresh :: "string \<Rightarrow> memory_store \<Rightarrow> oauth_error + refresh_token" where
  [store_simps]: "ms_get_refresh v s =
     (case fmlookup (ms_refresh s) (TokenHash v) of None \<Rightarrow> Inl ErrTokenNotFound | Some t \<Rightarrow> Inr t)"

definition ms_consume_refresh ::
  "time option \<Rightarrow> string \<Rightarrow> memory_store \<Rightarrow> (oauth_error + refresh_token) \<times> memory_store" where
  [store_simps]: "ms_consume_refresh clock v s =
     (let key = TokenHash v in
      case fmlookup (ms_refresh s) key of
        None \<Rightarrow> (case fmlookup (ms_tombstones s) key of
            Some tomb \<Rightarrow>
              if tombstone_dead clock tomb then (Inl ErrTokenNotFound, s)
              else (Inl (RefreshReuseError (tb_family tomb)), s)
          | None \<Rightarrow> (Inl ErrTokenNotFound, s))
      | Some t \<Rightarrow>
          (Inr t,
           s\<lparr>ms_refresh := fmdrop key (ms_refresh s),
             ms_tombstones := fmupd key
               \<lparr>tb_family = rt_family t, tb_client = rt_client t, tb_subject = rt_subject t,
                tb_expires = rt_expires t\<rparr> (ms_tombstones s)\<rparr>))"

definition ms_delete_refresh ::
  "string \<Rightarrow> memory_store \<Rightarrow> (oauth_error + unit) \<times> memory_store" where
  [store_simps]: "ms_delete_refresh v s =
     (let key = TokenHash v in
      (Inr (), s\<lparr>ms_refresh := fmdrop key (ms_refresh s), ms_tombstones := fmdrop key (ms_tombstones s)\<rparr>))"

definition ms_revoke_refresh_family ::
  "string \<Rightarrow> memory_store \<Rightarrow> (oauth_error + nat) \<times> memory_store" where
  [store_simps]: "ms_revoke_refresh_family family s =
     (if family = [] then (Inr 0, s)
      else (Inr (fm_count (\<lambda>t. rt_family t = family) (ms_refresh s)
                 + fm_count (\<lambda>t. at_family t = family) (ms_access s)),
            s\<lparr>ms_refresh := fm_drop_where (\<lambda>t. rt_family t = family) (ms_refresh s),
              ms_access := fm_drop_where (\<lambda>t. at_family t = family) (ms_access s),
              ms_tombstones := fm_drop_where (\<lambda>t. tb_family t = family) (ms_tombstones s)\<rparr>))"

definition ms_refresh_family ::
  "time option \<Rightarrow> string \<Rightarrow> memory_store \<Rightarrow> oauth_error + string" where
  [store_simps]: "ms_refresh_family clock v s =
     (let key = TokenHash v in
      case fmlookup (ms_refresh s) key of
        Some t \<Rightarrow> Inr (rt_family t)
      | None \<Rightarrow> (case fmlookup (ms_tombstones s) key of
            Some tomb \<Rightarrow> if tombstone_dead clock tomb then Inl ErrTokenNotFound else Inr (tb_family tomb)
          | None \<Rightarrow> Inl ErrTokenNotFound))"

subsection \<open>Enumeration and bulk revocation (grants.go)\<close>

definition ms_list_by_subject :: "string \<Rightarrow> memory_store \<Rightarrow> oauth_error + grant_record list" where
  [store_simps]: "ms_list_by_subject subject s =
     Inr (map (\<lambda>t. \<lparr>gr_kind = TokenKindAccess, gr_client = at_client t, gr_scopes = at_scopes t,
                   gr_issued = at_issued t, gr_expires = at_expires t\<rparr>)
            (filter (\<lambda>t. at_subject t = subject) (fm_values (ms_access s)))
        @ map (\<lambda>t. \<lparr>gr_kind = TokenKindRefresh, gr_client = rt_client t, gr_scopes = rt_scopes t,
                   gr_issued = rt_issued t, gr_expires = rt_expires t\<rparr>)
            (filter (\<lambda>t. rt_subject t = subject) (fm_values (ms_refresh s))))"

definition ms_delete_by_subject_client ::
  "string \<Rightarrow> string \<Rightarrow> memory_store \<Rightarrow> (oauth_error + unit) \<times> memory_store" where
  [store_simps]: "ms_delete_by_subject_client subject cid s =
     (Inr (),
      s\<lparr>ms_access := fm_drop_where (\<lambda>t. at_subject t = subject \<and> at_client t = cid) (ms_access s),
        ms_refresh := fm_drop_where (\<lambda>t. rt_subject t = subject \<and> rt_client t = cid) (ms_refresh s),
        ms_codes := fm_drop_where (\<lambda>c. ac_subject c = subject \<and> ac_client c = cid) (ms_codes s),
        ms_tombstones :=
          fm_drop_where (\<lambda>t. tb_subject t = subject \<and> tb_client t = cid) (ms_tombstones s)\<rparr>)"

definition ms_revoke_tokens ::
  "token_filter \<Rightarrow> memory_store \<Rightarrow> (oauth_error + nat) \<times> memory_store" where
  [store_simps]: "ms_revoke_tokens f s =
     (Inr (fm_count (\<lambda>t. Matches f (at_client t) (at_subject t)) (ms_access s)
           + fm_count (\<lambda>t. Matches f (rt_client t) (rt_subject t)) (ms_refresh s)),
      s\<lparr>ms_access := fm_drop_where (\<lambda>t. Matches f (at_client t) (at_subject t)) (ms_access s),
        ms_refresh := fm_drop_where (\<lambda>t. Matches f (rt_client t) (rt_subject t)) (ms_refresh s),
        ms_codes := fm_drop_where (\<lambda>c. Matches f (ac_client c) (ac_subject c)) (ms_codes s),
        ms_tombstones :=
          fm_drop_where (\<lambda>t. Matches f (tb_client t) (tb_subject t)) (ms_tombstones s)\<rparr>)"

definition memory_token_store :: "memory_store token_store" where
  "memory_token_store =
     \<lparr>st_save_code = ms_save_code, st_get_code = ms_get_code, st_consume_code = ms_consume_code,
      st_save_access = ms_save_access, st_get_access = ms_get_access,
      st_delete_access = ms_delete_access, st_save_refresh = ms_save_refresh,
      st_get_refresh = ms_get_refresh,
      st_consume_refresh = (\<lambda>now. ms_consume_refresh (Some now)),
      st_delete_refresh = ms_delete_refresh, st_revoke_family = ms_revoke_refresh_family,
      st_list_by_subject = ms_list_by_subject,
      st_delete_by_subject_client = ms_delete_by_subject_client,
      st_token_owner = ms_token_owner,
      st_refresh_family = Some (\<lambda>now. ms_refresh_family (Some now)),
      st_spent_owner = Some (\<lambda>now. ms_spent_refresh_owner (Some now))\<rparr>"

section \<open>Several token engines; deleting a client\<close>

text \<open>\<open>TokenAdmins\<close>: every engine is asked even when one fails; counts are summed, the first error is kept.\<close>

type_synonym 't token_admin = "token_filter \<Rightarrow> 't \<Rightarrow> (nat \<times> oauth_error option) \<times> 't"

fun admins_revoke_tokens :: "('t token_admin \<times> 't) list \<Rightarrow> token_filter
    \<Rightarrow> (nat \<times> oauth_error option) \<times> ('t token_admin \<times> 't) list" where
  "admins_revoke_tokens [] f = ((0, None), [])"
| "admins_revoke_tokens ((adm, t) # rest) f =
     (let ((n, err), t') = adm f t;
          ((total, firstErr), rest') = admins_revoke_tokens rest f
      in ((n + total, (case err of Some e \<Rightarrow> Some e | None \<Rightarrow> firstErr)), (adm, t') # rest'))"

text \<open>\<open>MemoryClientRegistry.Delete\<close>: the wired engine revokes first, then the registration goes.\<close>

definition mr_delete ::
  "(token_filter \<Rightarrow> 't \<Rightarrow> (oauth_error + nat) \<times> 't) option \<Rightarrow> string \<Rightarrow> client_map \<times> 't
   \<Rightarrow> (oauth_error + unit) \<times> client_map \<times> 't" where
  "mr_delete revoker cid = (\<lambda>(r, t).
     case revoker of
       None \<Rightarrow> (Inr (), fmdrop cid r, t)
     | Some revoke \<Rightarrow> (case revoke \<lparr>tf_client = cid, tf_subject = []\<rparr> t of
           (Inl e, t') \<Rightarrow> (Inl e, r, t')
         | (Inr n, t') \<Rightarrow> (Inr (), fmdrop cid r, t')))"

text \<open>
  The abstract life cycle of a refresh value, which the store contract describes in prose: a
  value is unknown, live, or spent (retired, its family still reachable). \<open>refresh_cmd\<close> are
  the store calls that touch it, \<open>spec_exec\<close> what they promise on this view, \<open>ms_exec\<close>
  what \<open>MemoryStore\<close> does, both reporting the answer the caller sees.
\<close>

datatype refresh_status = Unissued | Live refresh_token | Spent refresh_tombstone

datatype refresh_cmd =
    SaveRefresh string refresh_token
  | GetRefresh string
  | ConsumeRefresh "time option" string
  | DeleteRefresh string
  | RevokeRefreshFamily string
  | RefreshFamily "time option" string

datatype refresh_reply = Done | Record refresh_token | Family string | Failed oauth_error

type_synonym refresh_view = "string \<Rightarrow> refresh_status"

fun status_family :: "refresh_status \<Rightarrow> string option" where
  "status_family Unissued = None"
| "status_family (Live t) = Some (rt_family t)"
| "status_family (Spent tomb) = Some (tb_family tomb)"

definition retire :: "refresh_token \<Rightarrow> refresh_tombstone" where
  "retire t = \<lparr>tb_family = rt_family t, tb_client = rt_client t, tb_subject = rt_subject t,
               tb_expires = rt_expires t\<rparr>"

fun spec_exec :: "refresh_cmd \<Rightarrow> refresh_view \<Rightarrow> refresh_reply \<times> refresh_view" where
  "spec_exec (SaveRefresh v t) \<sigma> = (Done, \<sigma>(TokenHash v := Live t))"
| "spec_exec (GetRefresh v) \<sigma> =
     (case \<sigma> (TokenHash v) of Live t \<Rightarrow> (Record t, \<sigma>) | _ \<Rightarrow> (Failed ErrTokenNotFound, \<sigma>))"
| "spec_exec (ConsumeRefresh clock v) \<sigma> =
     (case \<sigma> (TokenHash v) of
        Unissued \<Rightarrow> (Failed ErrTokenNotFound, \<sigma>)
      | Live t \<Rightarrow> (Record t, \<sigma>(TokenHash v := Spent (retire t)))
      | Spent tomb \<Rightarrow>
          (if tombstone_dead clock tomb then (Failed ErrTokenNotFound, \<sigma>)
           else (Failed (RefreshReuseError (tb_family tomb)), \<sigma>)))"
| "spec_exec (DeleteRefresh v) \<sigma> = (Done, \<sigma>(TokenHash v := Unissued))"
| "spec_exec (RevokeRefreshFamily f) \<sigma> =
     (Done, if f = [] then \<sigma> else (\<lambda>h. if status_family (\<sigma> h) = Some f then Unissued else \<sigma> h))"
| "spec_exec (RefreshFamily clock v) \<sigma> =
     (case \<sigma> (TokenHash v) of
        Unissued \<Rightarrow> (Failed ErrTokenNotFound, \<sigma>)
      | Live t \<Rightarrow> (Family (rt_family t), \<sigma>)
      | Spent tomb \<Rightarrow>
          (if tombstone_dead clock tomb then (Failed ErrTokenNotFound, \<sigma>)
           else (Family (tb_family tomb), \<sigma>)))"

definition reply :: "('a \<Rightarrow> refresh_reply) \<Rightarrow> oauth_error + 'a \<Rightarrow> refresh_reply" where
  "reply f r = (case r of Inl e \<Rightarrow> Failed e | Inr x \<Rightarrow> f x)"

fun ms_exec :: "refresh_cmd \<Rightarrow> memory_store \<Rightarrow> refresh_reply \<times> memory_store" where
  "ms_exec (SaveRefresh v t) s = apfst (reply (\<lambda>_. Done)) (ms_save_refresh v t s)"
| "ms_exec (GetRefresh v) s = (reply Record (ms_get_refresh v s), s)"
| "ms_exec (ConsumeRefresh clock v) s = apfst (reply Record) (ms_consume_refresh clock v s)"
| "ms_exec (DeleteRefresh v) s = apfst (reply (\<lambda>_. Done)) (ms_delete_refresh v s)"
| "ms_exec (RevokeRefreshFamily f) s = apfst (reply (\<lambda>_. Done)) (ms_revoke_refresh_family f s)"
| "ms_exec (RefreshFamily clock v) s = (reply Family (ms_refresh_family clock v s), s)"

definition abs_refresh :: "memory_store \<Rightarrow> refresh_view" where
  "abs_refresh s h =
     (case fmlookup (ms_refresh s) h of
        Some t \<Rightarrow> Live t
      | None \<Rightarrow> (case fmlookup (ms_tombstones s) h of Some tomb \<Rightarrow> Spent tomb | None \<Rightarrow> Unissued))"

text \<open>A schedule of store calls and the answers it gives.\<close>

fun run_calls :: "('c \<Rightarrow> 's \<Rightarrow> 'r \<times> 's) \<Rightarrow> 'c list \<Rightarrow> 's \<Rightarrow> 'r list \<times> 's" where
  "run_calls step [] s = ([], s)"
| "run_calls step (c # cs) s =
     (let (r, s') = step c s; (rs, s'') = run_calls step cs s' in (r # rs, s''))"

text \<open>
  Saving over a spent value is what a store client never does (values are fresh random
  strings); then a hash is never both live and spent.
\<close>

definition ms_disjoint :: "memory_store \<Rightarrow> bool" where
  "ms_disjoint s \<longleftrightarrow> fmdom (ms_refresh s) |\<inter>| fmdom (ms_tombstones s) = {||}"

fun fresh_save :: "refresh_cmd \<Rightarrow> refresh_view \<Rightarrow> bool" where
  "fresh_save (SaveRefresh v t) \<sigma> \<longleftrightarrow> (case \<sigma> (TokenHash v) of Spent _ \<Rightarrow> False | _ \<Rightarrow> True)"
| "fresh_save _ \<sigma> \<longleftrightarrow> True"

fun fresh_saves :: "refresh_cmd list \<Rightarrow> refresh_view \<Rightarrow> bool" where
  "fresh_saves [] \<sigma> \<longleftrightarrow> True"
| "fresh_saves (c # cs) \<sigma> \<longleftrightarrow> fresh_save c \<sigma> \<and> fresh_saves cs (snd (spec_exec c \<sigma>))"

text \<open>The two claims as calls that carry their clock reading; a record for examples.\<close>

definition code_claim ::
  "unit \<times> string \<Rightarrow> memory_store \<Rightarrow> (oauth_error + authorization_code) \<times> memory_store" where
  [store_simps]: "code_claim c = ms_consume_code (snd c)"

definition refresh_claim ::
  "time \<times> string \<Rightarrow> memory_store \<Rightarrow> (oauth_error + refresh_token) \<times> memory_store" where
  [store_simps]: "refresh_claim c = ms_consume_refresh (Some (fst c)) (snd c)"

definition sample_refresh :: refresh_token where
  "sample_refresh = \<lparr>rt_client = ''app'', rt_subject = ''user'', rt_scopes = [], rt_family = ''fam'',
                     rt_issued = 1, rt_expires = 100\<rparr>"

section \<open>Lemmas\<close>

lemma tombstone_dead_simps [simp]:
  "tombstone_dead None tomb = False"
  "tombstone_dead (Some now) tomb \<longleftrightarrow> \<not> now < tb_expires tomb"
  by (simp_all add: tombstone_dead_def)


lemma ms_disjoint_iff:
  "ms_disjoint s \<longleftrightarrow>
     (\<forall>h. fmlookup (ms_refresh s) h = None \<or> fmlookup (ms_tombstones s) h = None)"
  unfolding ms_disjoint_def fset_eq_iff by (auto simp: fmlookup_None_iff)

lemma ms_exec_reply: "fst (ms_exec c s) = fst (spec_exec c (abs_refresh s))"
  by (cases c) (simp_all add: store_simps reply_def abs_refresh_def Let_def split: option.split)

lemma ms_exec_abs:
  assumes "ms_disjoint s"
  shows "abs_refresh (snd (ms_exec c s)) = snd (spec_exec c (abs_refresh s))"
proof
  fix h
  have d: "fmlookup (ms_refresh s) h = None \<or> fmlookup (ms_tombstones s) h = None" for h
    using assms by (simp add: ms_disjoint_iff)
  show "abs_refresh (snd (ms_exec c s)) h = snd (spec_exec c (abs_refresh s)) h"
    using d [of h]
    by (cases c) (auto simp: store_simps abs_refresh_def retire_def Let_def split: option.split)
qed

lemma ms_exec_disjoint:
  assumes "ms_disjoint s" and "fresh_save c (abs_refresh s)"
  shows "ms_disjoint (snd (ms_exec c s))"
  unfolding ms_disjoint_iff
proof
  fix h
  have d: "fmlookup (ms_refresh s) h = None \<or> fmlookup (ms_tombstones s) h = None" for h
    using assms by (simp add: ms_disjoint_iff)
  show "fmlookup (ms_refresh (snd (ms_exec c s))) h = None \<or>
        fmlookup (ms_tombstones (snd (ms_exec c s))) h = None"
    using d [of h] assms(2)
    by (cases c) (auto simp: store_simps abs_refresh_def Let_def split: option.split option.split_asm)
qed

lemma run_calls_refines:
  assumes "ms_disjoint s" and "fresh_saves cs (abs_refresh s)"
  shows "fst (run_calls ms_exec cs s) = fst (run_calls spec_exec cs (abs_refresh s)) \<and>
         abs_refresh (snd (run_calls ms_exec cs s)) = snd (run_calls spec_exec cs (abs_refresh s))"
  using assms
proof (induction cs arbitrary: s)
  case Nil
  then show ?case by simp
next
  case (Cons c cs)
  note abs = ms_exec_abs [OF Cons.prems(1), of c]
  from Cons.prems have "ms_disjoint (snd (ms_exec c s))" by (intro ms_exec_disjoint) simp_all
  moreover from Cons.prems(2) have "fresh_saves cs (abs_refresh (snd (ms_exec c s)))"
    by (simp add: abs)
  ultimately show ?case
    using Cons.IH [of "snd (ms_exec c s)"] by (simp add: case_prod_unfold Let_def ms_exec_reply abs)
qed

section \<open>The store contracts\<close>

text \<open>
  \<open>single_use\<close> is what \<^verbatim>\<open>Store\<close> asks of both consume operations: the claim returns exactly what
  the read peer shows, and a claimed value is gone. \<open>refresh_store\<close> adds what rotation
  needs: a spent value is reported as a replay of its family for the spent token's own
  lifetime, a failed claim changes nothing, and revoking a family stops it entirely while an
  empty family revokes nothing.
\<close>

locale single_use =
  fixes get :: "string \<Rightarrow> 't \<Rightarrow> oauth_error + 'r"
    and claim :: "'now \<times> string \<Rightarrow> 't \<Rightarrow> (oauth_error + 'r) \<times> 't"
  assumes claim_reads: "fst (claim (now, v) t) = Inr r \<longleftrightarrow> get v t = Inr r"
    and claim_retires: "get v t = Inr r \<Longrightarrow> \<not> is_ok (get v (snd (claim (now, v) t)))"
    and claim_never_revives: "\<not> is_ok (get v t) \<Longrightarrow> \<not> is_ok (get v (snd (claim c t)))"
begin

lemma claim_is_ok: "is_ok (fst (claim (now, v) t)) \<longleftrightarrow> is_ok (get v t)"
proof (cases "get v t")
  case (Inr r)
  then have "fst (claim (now, v) t) = Inr r" by (simp add: claim_reads)
  with Inr show ?thesis by simp
next
  case (Inl e)
  show ?thesis
  proof (cases "fst (claim (now, v) t)")
    case (Inr r)
    then have "get v t = Inr r" by (simp add: claim_reads)
    with Inr show ?thesis by simp
  qed (simp add: Inl)
qed

lemma dead_stays_dead:
  "\<not> is_ok (get v t) \<Longrightarrow>
     filter (\<lambda>(c, r). snd c = v \<and> is_ok r) (zip cs (fst (run_calls claim cs t))) = []"
proof (induction cs arbitrary: t)
  case (Cons c cs)
  from Cons.prems have "\<not> (snd c = v \<and> is_ok (fst (claim c t)))" by (cases c) (auto simp: claim_is_ok)
  with Cons.IH [OF claim_never_revives [OF Cons.prems, of c]] show ?case
    by (simp add: case_prod_unfold Let_def)
qed simp

lemma at_most_once:
  "length (filter (\<lambda>(c, r). snd c = v \<and> is_ok r) (zip cs (fst (run_calls claim cs t)))) \<le> 1"
proof (induction cs arbitrary: t)
  case (Cons c cs)
  show ?case
  proof (cases "snd c = v \<and> is_ok (fst (claim c t))")
    case True
    then obtain r where "get v t = Inr r" by (cases c; cases "get v t") (auto simp: claim_is_ok)
    with True have "\<not> is_ok (get v (snd (claim c t)))" by (cases c) (auto dest: claim_retires)
    from dead_stays_dead [OF this] show ?thesis by (simp add: case_prod_unfold Let_def)
  next
    case False
    with Cons.IH [of "snd (claim c t)"] show ?thesis by (auto simp: case_prod_unfold Let_def)
  qed
qed simp

end

locale refresh_store = single_use get claim
  for get :: "string \<Rightarrow> 't \<Rightarrow> oauth_error + refresh_token"
    and claim :: "time \<times> string \<Rightarrow> 't \<Rightarrow> (oauth_error + refresh_token) \<times> 't" +
  fixes revoke :: "string \<Rightarrow> 't \<Rightarrow> (oauth_error + nat) \<times> 't"
  assumes replay: "get v t = Inr r \<Longrightarrow> now' < rt_expires r \<Longrightarrow>
      fst (claim (now', v) (snd (claim (now, v) t))) = Inl (RefreshReuseError (rt_family r))"
    and replay_kept: "fst (claim (now, v) t) = Inl (RefreshReuseError f) \<Longrightarrow>
      fst (claim (now, v) (snd (claim c t))) = Inl (RefreshReuseError f)"
    and failed_claim: "\<not> is_ok (fst (claim c t)) \<Longrightarrow> snd (claim c t) = t"
    and revoke_empty: "snd (revoke [] t) = t"
    and revoke_live: "f \<noteq> [] \<Longrightarrow> get v (snd (revoke f t)) = Inr r \<Longrightarrow> get v t = Inr r \<and> rt_family r \<noteq> f"
    and revoke_disarms: "f \<noteq> [] \<Longrightarrow> fst (claim c (snd (revoke f t))) \<noteq> Inl (RefreshReuseError f)"
begin

lemma replay_kept_run:
  "fst (claim (now, v) t) = Inl (RefreshReuseError f) \<Longrightarrow>
     fst (claim (now, v) (snd (run_calls claim cs t))) = Inl (RefreshReuseError f)"
  by (induction cs arbitrary: t) (auto simp: case_prod_unfold Let_def replay_kept)

lemma replay_always_detected:
  assumes "get v t = Inr r" and "now' < rt_expires r"
  shows "fst (claim (now', v) (snd (run_calls claim ((now, v) # cs) t)))
           = Inl (RefreshReuseError (rt_family r))"
  using replay_kept_run [OF replay [OF assms, of now], of cs] by (simp add: case_prod_unfold Let_def)

lemma revoked_family_stopped:
  assumes "f \<noteq> []" and "fst (claim (now, v) (snd (revoke f t))) = Inr r"
  shows "rt_family r \<noteq> f"
proof -
  from assms(2) have "get v (snd (revoke f t)) = Inr r" by (simp only: claim_reads)
  from revoke_live [OF assms(1) this] show ?thesis by simp
qed

end

interpretation codes: single_use ms_get_code code_claim
  by unfold_locales (auto simp: store_simps Let_def split: option.split option.split_asm)

interpretation refreshes: refresh_store ms_get_refresh refresh_claim ms_revoke_refresh_family
proof unfold_locales
  fix now now' :: time and v :: string and t :: memory_store and r and c :: "time \<times> string" and f :: string
  show "fst (refresh_claim (now, v) t) = Inr r \<longleftrightarrow> ms_get_refresh v t = Inr r"
    by (auto simp: store_simps Let_def split: option.split)
  show "ms_get_refresh v t = Inr r \<Longrightarrow> \<not> is_ok (ms_get_refresh v (snd (refresh_claim (now, v) t)))"
    by (auto simp: store_simps Let_def split: option.split_asm)
  show "\<not> is_ok (ms_get_refresh v t) \<Longrightarrow> \<not> is_ok (ms_get_refresh v (snd (refresh_claim c t)))"
    by (auto simp: store_simps Let_def split: option.split option.split_asm)
  show "ms_get_refresh v t = Inr r \<Longrightarrow> now' < rt_expires r \<Longrightarrow>
      fst (refresh_claim (now', v) (snd (refresh_claim (now, v) t)))
        = Inl (RefreshReuseError (rt_family r))"
    by (auto simp: store_simps Let_def split: option.split_asm)
  show "fst (refresh_claim (now, v) t) = Inl (RefreshReuseError f) \<Longrightarrow>
      fst (refresh_claim (now, v) (snd (refresh_claim c t))) = Inl (RefreshReuseError f)"
    by (auto simp: store_simps Let_def split: option.split option.split_asm if_split_asm)
  show "\<not> is_ok (fst (refresh_claim c t)) \<Longrightarrow> snd (refresh_claim c t) = t"
    by (auto simp: store_simps Let_def split: option.split option.split_asm)
  show "snd (ms_revoke_refresh_family [] t) = t"
    by (simp add: store_simps)
  show "f \<noteq> [] \<Longrightarrow> ms_get_refresh v (snd (ms_revoke_refresh_family f t)) = Inr r \<Longrightarrow>
      ms_get_refresh v t = Inr r \<and> rt_family r \<noteq> f"
    by (auto simp: store_simps split: option.split_asm if_split_asm)
  show "f \<noteq> [] \<Longrightarrow>
      fst (refresh_claim c (snd (ms_revoke_refresh_family f t))) \<noteq> Inl (RefreshReuseError f)"
    by (auto simp: store_simps Let_def split: option.split if_split_asm)
qed

section \<open>Bulk revocation and sweeping\<close>

lemma ms_revoke_tokens_live:
  "fmlookup (ms_access (snd (ms_revoke_tokens f s))) h = Some t \<longleftrightarrow>
     fmlookup (ms_access s) h = Some t \<and> \<not> Matches f (at_client t) (at_subject t)"
  "fmlookup (ms_refresh (snd (ms_revoke_tokens f s))) h = Some u \<longleftrightarrow>
     fmlookup (ms_refresh s) h = Some u \<and> \<not> Matches f (rt_client u) (rt_subject u)"
  "fmlookup (ms_codes (snd (ms_revoke_tokens f s))) h = Some c \<longleftrightarrow>
     fmlookup (ms_codes s) h = Some c \<and> \<not> Matches f (ac_client c) (ac_subject c)"
  "fmlookup (ms_tombstones (snd (ms_revoke_tokens f s))) h = Some b \<longleftrightarrow>
     fmlookup (ms_tombstones s) h = Some b \<and> \<not> Matches f (tb_client b) (tb_subject b)"
  by (auto simp: store_simps split: option.splits if_splits)

lemma ms_revoke_tokens_idem:
  "ms_revoke_tokens f (snd (ms_revoke_tokens f s)) = (Inr 0, snd (ms_revoke_tokens f s))"
  by (simp add: store_simps)

lemma ms_delete_is_revoke:
  assumes "subject \<noteq> []" and "cid \<noteq> []"
  shows "snd (ms_delete_by_subject_client subject cid s)
           = snd (ms_revoke_tokens \<lparr>tf_client = cid, tf_subject = subject\<rparr> s)"
  using assms by (simp add: store_simps Matches_def conj_commute eq_commute)

lemma ms_sweep_keeps_unexpired:
  "fmlookup (ms_codes (snd (ms_sweep_expired now s))) h = Some c \<longleftrightarrow>
     fmlookup (ms_codes s) h = Some c \<and> now < ac_expires c"
  "fmlookup (ms_access (snd (ms_sweep_expired now s))) h = Some t \<longleftrightarrow>
     fmlookup (ms_access s) h = Some t \<and> now < at_expires t"
  "fmlookup (ms_refresh (snd (ms_sweep_expired now s))) h = Some u \<longleftrightarrow>
     fmlookup (ms_refresh s) h = Some u \<and> now < rt_expires u"
  "fmlookup (ms_tombstones (snd (ms_sweep_expired now s))) h = Some b \<longleftrightarrow>
     fmlookup (ms_tombstones s) h = Some b \<and> now < tb_expires b"
  by (auto simp: ms_sweep_expired_def split: option.splits if_splits)

lemma ms_revoke_tokens_count:
  "\<exists>n. fst (ms_revoke_tokens f s) = Inr n \<and>
     fcard (fmdom (ms_access (snd (ms_revoke_tokens f s))))
       + fcard (fmdom (ms_refresh (snd (ms_revoke_tokens f s)))) + n
       = fcard (fmdom (ms_access s)) + fcard (fmdom (ms_refresh s))"
  using fm_count_drop_where [of "\<lambda>t. Matches f (at_client t) (at_subject t)" "ms_access s"]
    fm_count_drop_where [of "\<lambda>t. Matches f (rt_client t) (rt_subject t)" "ms_refresh s"]
  by (simp add: store_simps)

text \<open>
  \<open>Delete\<close> does not check its identifier: with the empty one the filter has no criterion, so
  it matches, and removes, every record of every client.
\<close>

lemma delete_empty_id_wipes:
  "mr_delete (Some ms_revoke_tokens) [] (r, s) = (Inr (), fmdrop [] r, NewMemoryStore)"
  by (simp add: mr_delete_def store_simps Matches_def NewMemoryStore_def)

section \<open>Properties\<close>

text \<open>
  C4. Refinement: on any schedule of refresh-token calls that never saves over a spent value,
  \<open>MemoryStore\<close> gives the same answers as the abstract three-state life cycle (unissued, live,
  spent), and ends in a state whose abstraction is the life cycle's end state.
\<close>
theorem memory_store_refines_lifecycle:
  assumes "ms_disjoint s" and "fresh_saves cs (abs_refresh s)"
  shows "fst (run_calls ms_exec cs s) = fst (run_calls spec_exec cs (abs_refresh s)) \<and>
         abs_refresh (snd (run_calls ms_exec cs s)) = snd (run_calls spec_exec cs (abs_refresh s))"
  using run_calls_refines [OF assms] .

theorem memory_store_refines_lifecycle_witness:
  "fst (run_calls ms_exec
      [SaveRefresh ''a'' sample_refresh, ConsumeRefresh (Some 5) ''a'', ConsumeRefresh (Some 6) ''a'',
       RevokeRefreshFamily ''fam'', ConsumeRefresh (Some 7) ''a''] NewMemoryStore)
     = [Done, Record sample_refresh, Failed (RefreshReuseError ''fam''), Done, Failed ErrTokenNotFound]"
  using memory_store_refines_lifecycle [of NewMemoryStore
      "[SaveRefresh ''a'' sample_refresh, ConsumeRefresh (Some 5) ''a'', ConsumeRefresh (Some 6) ''a'',
        RevokeRefreshFamily ''fam'', ConsumeRefresh (Some 7) ''a'']"]
  by (simp add: ms_disjoint_def NewMemoryStore_def abs_refresh_def sample_refresh_def retire_def)

text \<open>
  C23. Single use of authorization codes: in any schedule of consume calls on \<open>MemoryStore\<close>, a
  given code value is handed out at most once.
\<close>
theorem code_consumed_at_most_once:
  "length (filter (\<lambda>(c, r). snd c = v \<and> is_ok r) (zip cs (fst (run_calls code_claim cs s)))) \<le> 1"
  by (rule codes.at_most_once)

text \<open>
  Replay detection: once a live refresh value has been consumed, then whatever other
  values are consumed in between, presenting it again before the spent token's own expiry is
  answered with the reuse error that carries its family.
\<close>
theorem refresh_replay_detected:
  assumes "ms_get_refresh v s = Inr r" and "now' < rt_expires r"
  shows "fst (refresh_claim (now', v) (snd (run_calls refresh_claim ((now, v) # cs) s)))
           = Inl (RefreshReuseError (rt_family r))"
  using refreshes.replay_always_detected [OF assms] .

theorem refresh_replay_detected_witness:
  "fst (refresh_claim (50, ''a'') (snd (run_calls refresh_claim [(5, ''a''), (6, ''b'')]
      (snd (ms_save_refresh ''a'' sample_refresh NewMemoryStore))))) = Inl (RefreshReuseError ''fam'')"
  using refresh_replay_detected [of "''a''"
      "snd (ms_save_refresh ''a'' sample_refresh NewMemoryStore)" sample_refresh 50 5 "[(6, ''b'')]"]
  by (simp add: ms_save_refresh_def ms_get_refresh_def sample_refresh_def)

text \<open>
  Kill switch: \<open>RevokeTokens\<close> keeps exactly the records the filter does not match, in all
  four tables; it reports the number of access and refresh records it removed, and repeating
  it removes nothing more.
\<close>
theorem revoke_tokens_exact:
  "(fmlookup (ms_access (snd (ms_revoke_tokens f s))) h = Some t \<longleftrightarrow>
      fmlookup (ms_access s) h = Some t \<and> \<not> Matches f (at_client t) (at_subject t))
   \<and> (fmlookup (ms_refresh (snd (ms_revoke_tokens f s))) h = Some u \<longleftrightarrow>
      fmlookup (ms_refresh s) h = Some u \<and> \<not> Matches f (rt_client u) (rt_subject u))
   \<and> (fmlookup (ms_codes (snd (ms_revoke_tokens f s))) h = Some c \<longleftrightarrow>
      fmlookup (ms_codes s) h = Some c \<and> \<not> Matches f (ac_client c) (ac_subject c))
   \<and> (fmlookup (ms_tombstones (snd (ms_revoke_tokens f s))) h = Some b \<longleftrightarrow>
      fmlookup (ms_tombstones s) h = Some b \<and> \<not> Matches f (tb_client b) (tb_subject b))
   \<and> (\<exists>n. fst (ms_revoke_tokens f s) = Inr n \<and>
        fcard (fmdom (ms_access (snd (ms_revoke_tokens f s))))
          + fcard (fmdom (ms_refresh (snd (ms_revoke_tokens f s)))) + n
          = fcard (fmdom (ms_access s)) + fcard (fmdom (ms_refresh s)))
   \<and> ms_revoke_tokens f (snd (ms_revoke_tokens f s)) = (Inr 0, snd (ms_revoke_tokens f s))"
  by (intro conjI ms_revoke_tokens_live ms_revoke_tokens_count ms_revoke_tokens_idem)

text \<open>
  Deleting a client with a wired token engine leaves no registration and no access token,
  refresh token, code or tombstone of that client.
\<close>
theorem client_delete_revokes:
  "cid \<noteq> [] \<Longrightarrow>
     (case mr_delete (Some ms_revoke_tokens) cid (r, s) of (res, r', s') \<Rightarrow>
        res = Inr () \<and> fmlookup r' cid = None
        \<and> (\<forall>h t. fmlookup (ms_access s') h = Some t \<longrightarrow> at_client t \<noteq> cid)
        \<and> (\<forall>h t. fmlookup (ms_refresh s') h = Some t \<longrightarrow> rt_client t \<noteq> cid)
        \<and> (\<forall>h c. fmlookup (ms_codes s') h = Some c \<longrightarrow> ac_client c \<noteq> cid)
        \<and> (\<forall>h b. fmlookup (ms_tombstones s') h = Some b \<longrightarrow> tb_client b \<noteq> cid))"
  by (auto simp: mr_delete_def store_simps Matches_def split: option.split_asm if_split_asm)

theorem client_delete_revokes_witness:
  "fst (mr_delete (Some ms_revoke_tokens) ''app''
      (fmempty, snd (ms_save_refresh ''a'' sample_refresh NewMemoryStore))) = Inr ()
   \<and> \<not> (\<exists>h t. fmlookup (ms_refresh (snd (snd (mr_delete (Some ms_revoke_tokens) ''app''
        (fmempty, snd (ms_save_refresh ''a'' sample_refresh NewMemoryStore)))))) h = Some t
        \<and> rt_client t = ''app'')"
  using client_delete_revokes [of "''app''" fmempty
      "snd (ms_save_refresh ''a'' sample_refresh NewMemoryStore)"]
  by (auto simp: case_prod_unfold)

end
