(* ===== verification/OAuth_Device.thy ===== *)
theory OAuth_Device
  imports OAuth_Tokens
begin

text \<open>
  The device-authorization store of \<^verbatim>\<open>src/oauth/device.go\<close>: the records, user codes, the
  \<^verbatim>\<open>DeviceStore\<close> interface as a record of operations over a state \<open>'d\<close>, and
  \<open>MemoryDeviceStore\<close> with its two maps. The device endpoints of the service are in
  \<open>OAuth_Service\<close>.
  Shown: the two maps stay inverse to each other under every operation, a user code names at
  most one request, user codes are drawn uniformly and have the documented shape, the first
  decision on a request is final and one approval is redeemed at most once. The last two
  are proved from the contract, the locale \<open>device_lifecycle\<close>, interpreted on the
  in-memory store.
\<close>

section \<open>Records\<close>

definition defaultDeviceCodeTTL :: duration where "defaultDeviceCodeTTL = 10 * minute"
definition defaultDevicePollInterval :: duration where "defaultDevicePollInterval = 5 * second"
definition defaultVerificationPath :: string where "defaultVerificationPath = ''/device''"
definition userCodeLen :: nat where "userCodeLen = 8"
definition userCodeAlphabet :: string where "userCodeAlphabet = ''BCDFGHJKLMNPQRSTVWXZ''"

datatype device_status = DevicePending | DeviceApproved | DeviceDenied

record device_record =
  dv_hash :: string
  dv_user_code :: string
  dv_client :: string
  dv_scopes :: "scope list"
  dv_status :: device_status
  dv_subject :: string
  dv_explicit :: "scope list"
  dv_expires :: time
  dv_last_poll :: time

record device_decision =
  dd_status :: device_status
  dd_subject :: string
  dd_scopes :: "scope list"
  dd_explicit :: "scope list"

section \<open>User codes\<close>

definition NormalizeUserCode :: "string \<Rightarrow> string" where
  "NormalizeUserCode s = filter (\<lambda>c. c \<noteq> CHR ''-'') (to_upper (trim_space s))"

definition userCodeMax :: nat where
  "userCodeMax = 256 - 256 mod length userCodeAlphabet"

text \<open>The rejection-sampling loop reads one byte of the tape per turn.\<close>

fun userCode_loop :: "string \<Rightarrow> tape \<Rightarrow> (oauth_error + string) \<times> tape" where
  "userCode_loop raw [] = (if length raw < userCodeLen then (Inl ErrRandom, []) else (Inr raw, []))"
| "userCode_loop raw (b # t) =
     (if \<not> length raw < userCodeLen then (Inr raw, b # t)
      else if userCodeMax \<le> of_char b then userCode_loop raw t
      else userCode_loop
             (raw @ [userCodeAlphabet ! ((of_char b :: nat) mod length userCodeAlphabet)]) t)"

definition newUserCode :: "tape \<Rightarrow> (oauth_error + string) \<times> tape" where
  "newUserCode t =
     (case userCode_loop [] t of
        (Inl e, t') \<Rightarrow> (Inl e, t')
      | (Inr raw, t') \<Rightarrow>
          (Inr (take (userCodeLen div 2) raw @ ''-'' @ drop (userCodeLen div 2) raw), t'))"

section \<open>The DeviceStore interface\<close>

record 'd device_store =
  ds_save :: "string \<Rightarrow> device_record \<Rightarrow> 'd \<Rightarrow> (oauth_error + unit) \<times> 'd"
  ds_get :: "string \<Rightarrow> 'd \<Rightarrow> oauth_error + device_record"
  ds_get_by_user :: "string \<Rightarrow> 'd \<Rightarrow> oauth_error + device_record"
  ds_poll :: "string \<Rightarrow> time \<Rightarrow> 'd \<Rightarrow> (oauth_error + unit) \<times> 'd"
  ds_decide :: "string \<Rightarrow> device_decision \<Rightarrow> 'd \<Rightarrow> (oauth_error + bool) \<times> 'd"
  ds_consume :: "string \<Rightarrow> 'd \<Rightarrow> (oauth_error + device_record option) \<times> 'd"

section \<open>MemoryDeviceStore\<close>

record memory_devices =
  byDev :: "(string, device_record) fmap"
  byUser :: "(string, string) fmap"

definition NewMemoryDeviceStore :: memory_devices where
  "NewMemoryDeviceStore = \<lparr>byDev = fmempty, byUser = fmempty\<rparr>"

definition md_save ::
  "string \<Rightarrow> device_record \<Rightarrow> memory_devices \<Rightarrow> (oauth_error + unit) \<times> memory_devices" where
  [store_simps]: "md_save deviceCode d s =
     (let d = d\<lparr>dv_hash := TokenHash deviceCode\<rparr>;
          canonical = NormalizeUserCode (dv_user_code d)
      in if fmlookup (byDev s) (dv_hash d) \<noteq> None
           then (Inl (Plain ''oauth: device code already stored''), s)
         else if fmlookup (byUser s) canonical \<noteq> None
           then (Inl (ErrUserCodeConflict canonical), s)
         else (Inr (), s\<lparr>byDev := fmupd (dv_hash d) d (byDev s),
                         byUser := fmupd canonical (dv_hash d) (byUser s)\<rparr>))"

definition md_get :: "string \<Rightarrow> memory_devices \<Rightarrow> oauth_error + device_record" where
  [store_simps]: "md_get deviceCode s =
     (case fmlookup (byDev s) (TokenHash deviceCode) of
        None \<Rightarrow> Inl ErrDeviceNotFound | Some d \<Rightarrow> Inr d)"

definition md_get_by_user :: "string \<Rightarrow> memory_devices \<Rightarrow> oauth_error + device_record" where
  [store_simps]: "md_get_by_user userCode s =
     (case fmlookup (byUser s) (NormalizeUserCode userCode) of
        None \<Rightarrow> Inl ErrDeviceNotFound
      | Some hash \<Rightarrow> (case fmlookup (byDev s) hash of
            None \<Rightarrow> Inl ErrDeviceNotFound | Some d \<Rightarrow> Inr d))"

definition md_poll ::
  "string \<Rightarrow> time \<Rightarrow> memory_devices \<Rightarrow> (oauth_error + unit) \<times> memory_devices" where
  [store_simps]: "md_poll hash at s =
     (case fmlookup (byDev s) hash of
        None \<Rightarrow> (Inl ErrDeviceNotFound, s)
      | Some d \<Rightarrow> (Inr (), s\<lparr>byDev := fmupd hash (d\<lparr>dv_last_poll := at\<rparr>) (byDev s)\<rparr>))"

definition md_decide ::
  "string \<Rightarrow> device_decision \<Rightarrow> memory_devices \<Rightarrow> (oauth_error + bool) \<times> memory_devices" where
  [store_simps]: "md_decide hash dec s =
     (case fmlookup (byDev s) hash of
        None \<Rightarrow> (Inr False, s)
      | Some d \<Rightarrow>
          if dv_status d \<noteq> DevicePending then (Inr False, s)
          else (Inr True,
                s\<lparr>byDev := fmupd hash
                    (d\<lparr>dv_status := dd_status dec, dv_subject := dd_subject dec,
                       dv_scopes := dd_scopes dec, dv_explicit := dd_explicit dec\<rparr>) (byDev s)\<rparr>))"

text \<open>\<^verbatim>\<open>if s.byUser[key] == hash { delete(s.byUser, key) }\<close>, with the zero value of a missing key.\<close>

definition drop_user_index :: "string \<Rightarrow> string \<Rightarrow> (string, string) fmap \<Rightarrow> (string, string) fmap" where
  "drop_user_index key hash m =
     (if (case fmlookup m key of None \<Rightarrow> [] | Some h \<Rightarrow> h) = hash then fmdrop key m else m)"

definition md_consume ::
  "string \<Rightarrow> memory_devices \<Rightarrow> (oauth_error + device_record option) \<times> memory_devices" where
  [store_simps]: "md_consume hash s =
     (case fmlookup (byDev s) hash of
        None \<Rightarrow> (Inr None, s)
      | Some d \<Rightarrow>
          if dv_status d \<noteq> DeviceApproved then (Inr None, s)
          else (Inr (Some d),
                s\<lparr>byUser := drop_user_index (NormalizeUserCode (dv_user_code d)) hash (byUser s),
                  byDev := fmdrop hash (byDev s)\<rparr>))"

definition md_sweep_one ::
  "time \<Rightarrow> string \<times> device_record \<Rightarrow> nat \<times> memory_devices \<Rightarrow> nat \<times> memory_devices" where
  "md_sweep_one now = (\<lambda>(devHash, rec) (removed, s).
     if now < dv_expires rec then (removed, s)
     else (removed + 1,
           s\<lparr>byUser := drop_user_index (NormalizeUserCode (dv_user_code rec)) devHash (byUser s),
             byDev := fmdrop devHash (byDev s)\<rparr>))"

definition md_sweep_expired :: "time \<Rightarrow> memory_devices \<Rightarrow> nat \<times> memory_devices" where
  "md_sweep_expired now s = fold (md_sweep_one now) (sorted_list_of_fmap (byDev s)) (0, s)"

definition memory_device_store :: "memory_devices device_store" where
  "memory_device_store =
     \<lparr>ds_save = md_save, ds_get = md_get, ds_get_by_user = md_get_by_user, ds_poll = md_poll,
      ds_decide = md_decide, ds_consume = md_consume\<rparr>"

section \<open>Definitions for the properties\<close>

text \<open>The index invariant: the two maps are inverse to each other, and every record knows its hash.\<close>

definition wf_devices :: "memory_devices \<Rightarrow> bool" where
  "wf_devices s \<longleftrightarrow>
     (\<forall>h d. fmlookup (byDev s) h = Some d \<longrightarrow> dv_hash d = h)
     \<and> (\<forall>u h. fmlookup (byUser s) u = Some h \<longleftrightarrow>
          (\<exists>d. fmlookup (byDev s) h = Some d \<and> NormalizeUserCode (dv_user_code d) = u))"

text \<open>The calls that can change one stored request, and what they answer.\<close>

datatype device_call = CallPoll time | CallDecide device_decision | CallConsume

datatype device_reply = Polled | Decided bool | Redeemed device_record | NotRedeemed | CallFailed oauth_error

definition device_step ::
  "('h \<Rightarrow> time \<Rightarrow> 'd \<Rightarrow> (oauth_error + unit) \<times> 'd)
   \<Rightarrow> ('h \<Rightarrow> device_decision \<Rightarrow> 'd \<Rightarrow> (oauth_error + bool) \<times> 'd)
   \<Rightarrow> ('h \<Rightarrow> 'd \<Rightarrow> (oauth_error + device_record option) \<times> 'd)
   \<Rightarrow> 'h \<times> device_call \<Rightarrow> 'd \<Rightarrow> device_reply \<times> 'd" where
  "device_step poll decide consume = (\<lambda>(h, c) d.
     case c of
       CallPoll at \<Rightarrow> (case poll h at d of (Inl e, d') \<Rightarrow> (CallFailed e, d') | (Inr _, d') \<Rightarrow> (Polled, d'))
     | CallDecide dec \<Rightarrow>
         (case decide h dec d of (Inl e, d') \<Rightarrow> (CallFailed e, d') | (Inr b, d') \<Rightarrow> (Decided b, d'))
     | CallConsume \<Rightarrow>
         (case consume h d of
            (Inl e, d') \<Rightarrow> (CallFailed e, d')
          | (Inr None, d') \<Rightarrow> (NotRedeemed, d')
          | (Inr (Some r), d') \<Rightarrow> (Redeemed r, d')))"

definition same_decision :: "device_record \<Rightarrow> device_record \<Rightarrow> bool" where
  "same_decision r r' \<longleftrightarrow>
     dv_status r' = dv_status r \<and> dv_subject r' = dv_subject r \<and> dv_scopes r' = dv_scopes r
     \<and> dv_explicit r' = dv_explicit r"

text \<open>The record carries a decision.\<close>

definition carries :: "device_decision \<Rightarrow> device_record \<Rightarrow> bool" where
  "carries dec r \<longleftrightarrow> dv_status r = dd_status dec \<and> dv_subject r = dd_subject dec \<and> dv_scopes r = dd_scopes dec
     \<and> dv_explicit r = dd_explicit dec"

fun is_redeemed :: "device_reply \<Rightarrow> bool" where
  "is_redeemed (Redeemed r) = True"
| "is_redeemed _ = False"

abbreviation replies_to ::
  "'h \<Rightarrow> (device_reply \<Rightarrow> bool) \<Rightarrow> ('h \<times> device_call) list \<Rightarrow> device_reply list \<Rightarrow> device_reply list" where
  "replies_to h P cs rs \<equiv> map snd (filter (\<lambda>(c, r). fst c = h \<and> P r) (zip cs rs))"

text \<open>A denied request, for examples.\<close>

definition sample_device :: device_record where
  "sample_device =
     \<lparr>dv_hash = ''h'', dv_user_code = ''BCDF-GHJK'', dv_client = ''tv'', dv_scopes = [ScopeAccountID],
      dv_status = DeviceDenied, dv_subject = [], dv_explicit = [], dv_expires = 100,
      dv_last_poll = 0\<rparr>"

section \<open>The life cycle of a request\<close>

locale device_lifecycle =
  fixes lookup :: "'d \<Rightarrow> 'h \<Rightarrow> device_record option"
    and poll :: "'h \<Rightarrow> time \<Rightarrow> 'd \<Rightarrow> (oauth_error + unit) \<times> 'd"
    and decide :: "'h \<Rightarrow> device_decision \<Rightarrow> 'd \<Rightarrow> (oauth_error + bool) \<times> 'd"
    and consume :: "'h \<Rightarrow> 'd \<Rightarrow> (oauth_error + device_record option) \<times> 'd"
  assumes poll_keeps: "lookup (snd (poll h at d)) k = lookup d k \<or>
      (\<exists>r. lookup d k = Some r \<and> lookup (snd (poll h at d)) k = Some (r\<lparr>dv_last_poll := at\<rparr>))"
    and decide_applied: "fst (decide h dec d) = Inr True \<Longrightarrow>
      (\<exists>r. lookup d h = Some r \<and> dv_status r = DevicePending \<and>
         lookup (snd (decide h dec d)) h
           = Some (r\<lparr>dv_status := dd_status dec, dv_subject := dd_subject dec,
                    dv_scopes := dd_scopes dec, dv_explicit := dd_explicit dec\<rparr>))"
    and decide_other: "k \<noteq> h \<or> fst (decide h dec d) \<noteq> Inr True \<Longrightarrow>
      lookup (snd (decide h dec d)) k = lookup d k"
    and consume_redeemed: "fst (consume h d) = Inr (Some r) \<Longrightarrow>
      lookup d h = Some r \<and> dv_status r = DeviceApproved \<and> lookup (snd (consume h d)) h = None"
    and consume_other: "k \<noteq> h \<or> (\<forall>r. fst (consume h d) \<noteq> Inr (Some r)) \<Longrightarrow>
      lookup (snd (consume h d)) k = lookup d k"
begin

lemma reply_decided:
  "fst (device_step poll decide consume (h, c) d) = Decided True \<Longrightarrow>
     \<exists>dec r. c = CallDecide dec \<and> lookup d h = Some r \<and> dv_status r = DevicePending \<and>
       lookup (snd (device_step poll decide consume (h, c) d)) h
         = Some (r\<lparr>dv_status := dd_status dec, dv_subject := dd_subject dec,
                  dv_scopes := dd_scopes dec, dv_explicit := dd_explicit dec\<rparr>)"
  using decide_applied [of h _ d]
  by (auto simp: device_step_def case_prod_unfold split: device_call.splits sum.splits option.splits)

lemma reply_redeemed:
  "fst (device_step poll decide consume (h, c) d) = Redeemed r \<Longrightarrow>
     lookup d h = Some r \<and> dv_status r = DeviceApproved \<and>
     lookup (snd (device_step poll decide consume (h, c) d)) h = None"
  using consume_redeemed [of h d r]
  by (auto simp: device_step_def case_prod_unfold split: device_call.splits sum.splits option.splits)

lemma step_otherwise:
  assumes "\<not> (h = k \<and> (fst (device_step poll decide consume (h, c) d) = Decided True
                    \<or> is_redeemed (fst (device_step poll decide consume (h, c) d))))"
  shows "lookup (snd (device_step poll decide consume (h, c) d)) k = lookup d k \<or>
         (\<exists>r r'. lookup d k = Some r \<and> same_decision r r' \<and>
            lookup (snd (device_step poll decide consume (h, c) d)) k = Some r')"
proof (cases c)
  case (CallPoll at)
  then show ?thesis
    using poll_keeps [of h at d k]
    by (auto simp: device_step_def case_prod_unfold same_decision_def split: sum.splits)
next
  case (CallDecide dec)
  with assms have "k \<noteq> h \<or> fst (decide h dec d) \<noteq> Inr True"
    by (auto simp: device_step_def case_prod_unfold split: sum.splits)
  from decide_other [OF this] CallDecide show ?thesis
    by (auto simp: device_step_def case_prod_unfold split: sum.splits)
next
  case CallConsume
  with assms have "k \<noteq> h \<or> (\<forall>r. fst (consume h d) \<noteq> Inr (Some r))"
    by (auto simp: device_step_def case_prod_unfold split: sum.splits option.splits)
  from consume_other [OF this] CallConsume show ?thesis
    by (auto simp: device_step_def case_prod_unfold split: sum.splits option.splits)
qed

lemma gone_is_silent:
  "lookup d k = None \<Longrightarrow>
     replies_to k (\<lambda>r. r = Decided True \<or> is_redeemed r) cs
       (fst (run_calls (device_step poll decide consume) cs d)) = []"
proof (induction cs arbitrary: d)
  case (Cons c cs)
  obtain h b where c: "c = (h, b)" by (cases c)
  let ?s = "device_step poll decide consume (h, b) d"
  have quiet: "\<not> (h = k \<and> (fst ?s = Decided True \<or> is_redeemed (fst ?s)))"
    using Cons.prems reply_decided [of h b d] reply_redeemed [of h b d]
    by (cases "fst ?s") auto
  with step_otherwise [OF this] Cons.prems have "lookup (snd ?s) k = None" by auto
  from Cons.IH [OF this] quiet show ?case by (auto simp: c case_prod_unfold Let_def)
qed simp

lemma decided_is_final:
  "lookup d k = Some r \<Longrightarrow> dv_status r \<noteq> DevicePending \<Longrightarrow>
     (\<forall>rep \<in> set (replies_to k (\<lambda>_. True) cs
         (fst (run_calls (device_step poll decide consume) cs d))).
        rep \<noteq> Decided True \<and> (\<forall>r'. rep = Redeemed r' \<longrightarrow> same_decision r r'))
     \<and> length (replies_to k is_redeemed cs (fst (run_calls (device_step poll decide consume) cs d))) \<le> 1"
proof (induction cs arbitrary: d r)
  case (Cons c cs)
  obtain h b where c: "c = (h, b)" by (cases c)
  let ?s = "device_step poll decide consume (h, b) d"
  have no_dec: "\<not> (h = k \<and> fst ?s = Decided True)"
    using Cons.prems reply_decided [of h b d] by auto
  show ?case
  proof (cases "h = k \<and> is_redeemed (fst ?s)")
    case True
    then obtain r0 where r0: "fst ?s = Redeemed r0" by (cases "fst ?s") auto
    from reply_redeemed [OF this] True Cons.prems
    have "r0 = r" and gone: "lookup (snd ?s) k = None" by auto
    have "\<forall>rep \<in> set (replies_to k (\<lambda>_. True) cs
              (fst (run_calls (device_step poll decide consume) cs (snd ?s)))).
            \<not> (rep = Decided True \<or> is_redeemed rep)"
      using gone_is_silent [OF gone, of cs] by (auto simp: filter_empty_conv)
    with gone_is_silent [OF gone, of cs] True r0 \<open>r0 = r\<close> show ?thesis
      by (force simp: c case_prod_unfold Let_def same_decision_def filter_empty_conv)
  next
    case False
    with no_dec have "\<not> (h = k \<and> (fst ?s = Decided True \<or> is_redeemed (fst ?s)))" by auto
    from step_otherwise [OF this] Cons.prems
    obtain r' where r': "lookup (snd ?s) k = Some r'" "same_decision r r'"
      by (auto simp: same_decision_def)
    with Cons.prems have "dv_status r' \<noteq> DevicePending" by (simp add: same_decision_def)
    from Cons.IH [OF r'(1) this] False no_dec r'(2) show ?thesis
      by (auto simp: c case_prod_unfold Let_def same_decision_def)
  qed
qed simp

lemma decided_at_most_once:
  "length (replies_to k (\<lambda>r. r = Decided True) cs
     (fst (run_calls (device_step poll decide consume) cs d))) \<le> 1" if "\<forall>(h, c) \<in> set cs. \<forall>dec. c = CallDecide dec \<longrightarrow> dd_status dec \<noteq> DevicePending"
  using that
proof (induction cs arbitrary: d)
  case (Cons c cs)
  obtain h b where c: "c = (h, b)" by (cases c)
  let ?s = "device_step poll decide consume (h, b) d"
  show ?case
  proof (cases "h = k \<and> fst ?s = Decided True")
    case True
    with reply_decided [of h b d] Cons.prems c obtain r' where
      "lookup (snd ?s) k = Some r'" "dv_status r' \<noteq> DevicePending" by auto
    from decided_is_final [OF this, of cs] True show ?thesis
      by (force simp: c case_prod_unfold Let_def filter_empty_conv)
  next
    case False
    with Cons.IH [of "snd ?s"] Cons.prems show ?thesis
      by (auto simp: c case_prod_unfold Let_def)
  qed
qed simp

lemma redeemed_at_most_once:
  "length (replies_to k is_redeemed cs (fst (run_calls (device_step poll decide consume) cs d))) \<le> 1"
proof (induction cs arbitrary: d)
  case (Cons c cs)
  obtain h b where c: "c = (h, b)" by (cases c)
  let ?s = "device_step poll decide consume (h, b) d"
  show ?case
  proof (cases "h = k \<and> is_redeemed (fst ?s)")
    case True
    then obtain r0 where r0: "fst ?s = Redeemed r0" by (cases "fst ?s") auto
    with reply_redeemed [OF this] True have "lookup (snd ?s) k = None" by auto
    from gone_is_silent [OF this, of cs] True show ?thesis
      by (force simp: c case_prod_unfold Let_def filter_empty_conv)
  next
    case False
    with Cons.IH [of "snd ?s"] show ?thesis by (auto simp: c case_prod_unfold Let_def)
  qed
qed simp

end

interpretation devices: device_lifecycle "\<lambda>s. fmlookup (byDev s)" md_poll md_decide md_consume
  by unfold_locales
    (auto simp: store_simps split: option.splits if_splits)

section \<open>The index invariant\<close>

lemma wf_devices_new: "wf_devices NewMemoryDeviceStore"
  by (simp add: wf_devices_def NewMemoryDeviceStore_def)

lemma wf_devicesD:
  assumes "wf_devices s" and "fmlookup (byDev s) h = Some d"
  shows "dv_hash d = h" and "fmlookup (byUser s) (NormalizeUserCode (dv_user_code d)) = Some h"
  using assms by (auto simp: wf_devices_def)

lemma wf_devices_userD:
  assumes "wf_devices s" and "fmlookup (byUser s) u = Some h"
  obtains d where "fmlookup (byDev s) h = Some d" and "NormalizeUserCode (dv_user_code d) = u"
proof -
  from assms have "\<exists>d. fmlookup (byDev s) h = Some d \<and> NormalizeUserCode (dv_user_code d) = u"
    unfolding wf_devices_def by simp
  with that show thesis by blast
qed

lemma wf_devices_user:
  assumes "wf_devices s"
  shows "fmlookup (byUser s) u = Some h \<longleftrightarrow>
     (\<exists>d. fmlookup (byDev s) h = Some d \<and> NormalizeUserCode (dv_user_code d) = u)"
  using assms unfolding wf_devices_def by simp

lemma wf_devices_update:
  assumes "wf_devices s" and "fmlookup (byDev s) h = Some d"
    and "dv_hash d' = dv_hash d" and "dv_user_code d' = dv_user_code d"
  shows "wf_devices (s\<lparr>byDev := fmupd h d' (byDev s)\<rparr>)"
proof -
  have "(\<exists>c. fmlookup (fmupd h d' (byDev s)) k = Some c \<and> NormalizeUserCode (dv_user_code c) = u)
      \<longleftrightarrow> (\<exists>c. fmlookup (byDev s) k = Some c \<and> NormalizeUserCode (dv_user_code c) = u)" for k u
    using assms(2,4) by (cases "k = h") auto
  with assms show ?thesis by (simp add: wf_devices_def)
qed

lemma md_user_code_unique:
  assumes "wf_devices s" and "fmlookup (byDev s) h = Some d" and "fmlookup (byDev s) h' = Some d'"
    and "NormalizeUserCode (dv_user_code d) = NormalizeUserCode (dv_user_code d')"
  shows "h = h'"
  using wf_devicesD(2) [OF assms(1,2)] wf_devicesD(2) [OF assms(1,3)] assms(4) by simp

lemma wf_devices_remove:
  assumes wf: "wf_devices s" and d: "fmlookup (byDev s) h = Some d"
  shows "wf_devices (s\<lparr>byUser := drop_user_index (NormalizeUserCode (dv_user_code d)) h (byUser s),
                       byDev := fmdrop h (byDev s)\<rparr>)"
proof -
  let ?k = "NormalizeUserCode (dv_user_code d)"
  have "drop_user_index ?k h (byUser s) = fmdrop ?k (byUser s)"
    by (simp add: drop_user_index_def wf_devicesD(2) [OF wf d])
  moreover have "fmlookup (fmdrop ?k (byUser s)) u = Some g \<longleftrightarrow>
      (\<exists>c. fmlookup (fmdrop h (byDev s)) g = Some c \<and> NormalizeUserCode (dv_user_code c) = u)" for u g
  proof (cases "u = ?k")
    case True
    have "g = h" if "fmlookup (byDev s) g = Some c" "NormalizeUserCode (dv_user_code c) = ?k" for c
      using md_user_code_unique [OF wf that(1) d that(2)] .
    with True show ?thesis by auto
  next
    case False
    then show ?thesis using d by (cases "g = h") (simp_all add: wf_devices_user [OF wf])
  qed
  ultimately show ?thesis using wf by (simp add: wf_devices_def)
qed

lemma md_save_wf: "wf_devices s \<Longrightarrow> wf_devices (snd (md_save code d s))"
  by (auto simp: md_save_def Let_def wf_devices_def split: if_splits)

lemma md_poll_wf: "wf_devices s \<Longrightarrow> wf_devices (snd (md_poll h at s))"
  by (auto simp: md_poll_def wf_devices_update split: option.split)

lemma md_decide_wf: "wf_devices s \<Longrightarrow> wf_devices (snd (md_decide h dec s))"
  by (auto simp: md_decide_def wf_devices_update split: option.split)

lemma md_consume_wf: "wf_devices s \<Longrightarrow> wf_devices (snd (md_consume h s))"
  by (auto simp: md_consume_def wf_devices_remove split: option.split)

lemma md_sweep_one_wf:
  assumes "wf_devices s" and "fmlookup (byDev s) h = Some d"
  shows "wf_devices (snd (md_sweep_one now (h, d) (n, s)))"
  using wf_devices_remove [OF assms] assms by (simp add: md_sweep_one_def)

lemma md_sweep_fold:
  assumes "wf_devices s" and "distinct (map fst l)"
    and "\<forall>(h, d) \<in> set l. fmlookup (byDev s) h = Some d"
  shows "wf_devices (snd (fold (md_sweep_one now) l (n, s))) \<and>
     (\<forall>h. fmlookup (byDev (snd (fold (md_sweep_one now) l (n, s)))) h
        = (if \<exists>d. (h, d) \<in> set l \<and> \<not> now < dv_expires d then None else fmlookup (byDev s) h)) \<and>
     fst (fold (md_sweep_one now) l (n, s)) = n + length (filter (\<lambda>(h, d). \<not> now < dv_expires d) l)"
  using assms
proof (induction l arbitrary: n s)
  case (Cons e l)
  obtain h d where e: "e = (h, d)" by (cases e)
  let ?s = "snd (md_sweep_one now (h, d) (n, s))"
  have wf: "wf_devices ?s" using Cons.prems e by (intro md_sweep_one_wf) auto
  have look: "fmlookup (byDev ?s) k
      = (if k = h \<and> \<not> now < dv_expires d then None else fmlookup (byDev s) k)" for k
    by (simp add: md_sweep_one_def)
  have "\<forall>(k, c) \<in> set l. fmlookup (byDev ?s) k = Some c"
    using Cons.prems e by (force simp: look)
  from Cons.IH [OF wf _ this, of "fst (md_sweep_one now (h, d) (n, s))"] Cons.prems(2) e
  show ?case by (auto simp: look md_sweep_one_def)
qed auto

lemma md_sweep_wf:
  assumes "wf_devices s"
  shows "wf_devices (snd (md_sweep_expired now s))"
    and "byDev (snd (md_sweep_expired now s)) = fm_drop_where (\<lambda>d. \<not> now < dv_expires d) (byDev s)"
proof -
  let ?l = "sorted_list_of_fmap (byDev s)"
  have l: "distinct (map fst ?l)" "\<forall>(h, d) \<in> set ?l. fmlookup (byDev s) h = Some d"
    by (auto simp: sorted_list_of_fmap_def comp_def fmlookup_dom_iff sorted_list_of_fset.rep_eq)
  have mem: "(h, d) \<in> set ?l \<longleftrightarrow> fmlookup (byDev s) h = Some d" for h d
    by (force simp: sorted_list_of_fmap_def fmlookup_dom_iff image_iff)
  note sw = md_sweep_fold [OF assms l, of now 0]
  show "wf_devices (snd (md_sweep_expired now s))"
    using sw by (simp add: md_sweep_expired_def)
  show "byDev (snd (md_sweep_expired now s)) = fm_drop_where (\<lambda>d. \<not> now < dv_expires d) (byDev s)"
    using sw by (intro fmap_ext) (auto simp: md_sweep_expired_def mem split: option.split)
qed

lemma md_get_by_user_Inr:
  assumes "wf_devices s"
  shows "md_get_by_user u s = Inr d \<longleftrightarrow>
     (\<exists>h. fmlookup (byDev s) h = Some d \<and> NormalizeUserCode (dv_user_code d) = NormalizeUserCode u)"
proof (cases "fmlookup (byUser s) (NormalizeUserCode u)")
  case None
  have "fmlookup (byDev s) h = Some d \<Longrightarrow> NormalizeUserCode (dv_user_code d) \<noteq> NormalizeUserCode u" for h
    using wf_devicesD(2) [OF assms, of h d] None by auto
  with None show ?thesis by (auto simp: md_get_by_user_def)
next
  case (Some g)
  have "fmlookup (byDev s) h = Some d \<Longrightarrow> NormalizeUserCode (dv_user_code d) = NormalizeUserCode u \<Longrightarrow> h = g" for h
    using wf_devicesD(2) [OF assms, of h d] Some by simp
  moreover obtain c where "fmlookup (byDev s) g = Some c" "NormalizeUserCode (dv_user_code c) = NormalizeUserCode u"
    using wf_devices_userD [OF assms Some] .
  ultimately show ?thesis using Some by (auto simp: md_get_by_user_def)
qed

section \<open>User codes\<close>

lemma userCodeMax_eq [simp]: "userCodeMax = 240"
  by (simp add: userCodeMax_def userCodeAlphabet_def)

lemma length_userCodeAlphabet [simp]: "length userCodeAlphabet = 20"
  by (simp add: userCodeAlphabet_def)

lemma userCode_loop_Inr:
  "userCode_loop raw t = (Inr r, t') \<Longrightarrow> length raw \<le> userCodeLen \<Longrightarrow>
     set raw \<subseteq> set userCodeAlphabet \<Longrightarrow> length r = userCodeLen \<and> set r \<subseteq> set userCodeAlphabet"
proof (induction raw t rule: userCode_loop.induct)
  case (2 raw b t)
  have "userCodeAlphabet ! ((of_char b :: nat) mod 20) \<in> set userCodeAlphabet"
    by (rule nth_mem) simp
  with 2 show ?case by (auto split: if_splits)
qed (auto split: if_splits)

lemma userCode_loop_returns:
  "userCodeLen \<le> length raw + length (filter (\<lambda>b. (of_char b :: nat) < userCodeMax) t) \<Longrightarrow>
     \<exists>r t'. userCode_loop raw t = (Inr r, t')"
  by (induction raw t rule: userCode_loop.induct) auto

text \<open>Counting the tapes behind one user code.\<close>

definition draws :: "char \<Rightarrow> char \<Rightarrow> bool" where
  "draws b c \<longleftrightarrow> (of_char b :: nat) < userCodeMax \<and> userCodeAlphabet ! ((of_char b :: nat) mod 20) = c"

lemma card_list_all2: "card {t. list_all2 P t w} = (\<Prod>c\<leftarrow>w. card {b. P b c})"
proof (induction w)
  case (Cons c w)
  have "{t. list_all2 P t (c # w)} = (\<lambda>(b, t). b # t) ` ({b. P b c} \<times> {t. list_all2 P t w})"
    by (auto simp: list_all2_Cons2 image_iff)
  moreover have "inj_on (\<lambda>(b, t). b # t) ({b. P b c} \<times> {t. list_all2 P t w})"
    by (auto intro: inj_onI)
  ultimately show ?case by (simp add: card_image card_cartesian_product Cons.IH)
qed simp

lemma card_draws:
  assumes "c \<in> set userCodeAlphabet"
  shows "card {b. draws b c} = 12"
proof -
  from assms obtain i where i: "i < 20" "userCodeAlphabet ! i = c"
    by (auto simp: in_set_conv_nth)
  have dist: "distinct userCodeAlphabet" by (simp add: userCodeAlphabet_def)
  have "draws b c \<longleftrightarrow> (of_char b :: nat) < 240 \<and> (of_char b :: nat) mod 20 = i" for b
    using nth_eq_iff_index_eq [OF dist, of "of_char b mod 20" i] i by (auto simp: draws_def)
  then have "of_char ` {b. draws b c} = {n :: nat. n < 240 \<and> n mod 20 = i}"
  proof -
    assume *: "\<And>b. draws b c \<longleftrightarrow> (of_char b :: nat) < 240 \<and> (of_char b :: nat) mod 20 = i"
    show ?thesis
    proof (intro set_eqI iffI)
      fix n assume "n \<in> {n :: nat. n < 240 \<and> n mod 20 = i}"
      then have "n = of_char (char_of n)" "draws (char_of n) c" by (auto simp: *)
      then show "n \<in> of_char ` {b. draws b c}" by blast
    qed (auto simp: *)
  qed
  moreover have "{n :: nat. n < 240 \<and> n mod 20 = i} = (\<lambda>j. 20 * j + i) ` {..<12}"
  proof (intro set_eqI iffI)
    fix n assume "n \<in> {n :: nat. n < 240 \<and> n mod 20 = i}"
    then have "n = 20 * (n div 20) + i" "n div 20 < 12" by auto
    then show "n \<in> (\<lambda>j. 20 * j + i) ` {..<12}" by blast
  qed (use i in auto)
  moreover have "card ((\<lambda>j. 20 * j + i) ` {..<12 :: nat}) = 12"
    by (subst card_image) (auto intro: inj_onI)
  moreover have "card (of_char ` {b. draws b c} :: nat set) = card {b. draws b c}"
    by (rule card_image) (auto intro: inj_onI)
  ultimately show ?thesis by simp
qed

lemma userCode_loop_all_drawn:
  "length raw + length t = userCodeLen \<Longrightarrow>
     fst (userCode_loop raw t) = Inr w \<longleftrightarrow> (\<exists>u. w = raw @ u \<and> list_all2 draws t u)"
proof (induction t arbitrary: raw)
  case (Cons b t)
  have short: "userCode_loop raw' t = (Inl ErrRandom, [])" if "length raw' + length t < userCodeLen" for raw'
    using that by (induction t arbitrary: raw') auto
  show ?case
  proof (cases "(of_char b :: nat) < userCodeMax")
    case True
    with Cons show ?thesis by (auto simp: draws_def list_all2_Cons1)
  next
    case False
    with Cons.prems show ?thesis by (auto simp: draws_def short list_all2_Cons1)
  qed
qed auto

lemma dash_inject:
  assumes "length r = length w"
  shows "take 4 r @ x @ drop 4 r = take 4 w @ x @ drop 4 w \<longleftrightarrow> r = w"
proof
  assume "take 4 r @ x @ drop 4 r = take 4 w @ x @ drop 4 w"
  with assms have "take 4 r @ drop 4 r = take 4 w @ drop 4 w" by (simp add: append_eq_append_conv)
  then show "r = w" by (simp only: append_take_drop_id)
qed simp

lemma newUserCode_drawn:
  assumes w: "length w = 8"
  shows "length t = 8 \<and> fst (newUserCode t) = Inr (take 4 w @ ''-'' @ drop 4 w) \<longleftrightarrow> list_all2 draws t w"
proof (cases "length t = 8")
  case True
  then have drawn: "fst (userCode_loop [] t) = Inr r \<longleftrightarrow> list_all2 draws t r" for r
    using userCode_loop_all_drawn [of "[]" t r] by (simp add: userCodeLen_def)
  show ?thesis
  proof (cases "fst (userCode_loop [] t)")
    case (Inl e)
    then have "\<not> list_all2 draws t w" using drawn [of w] by simp
    with Inl True show ?thesis by (simp add: newUserCode_def case_prod_unfold)
  next
    case (Inr r)
    with drawn [of r] have "length r = length w" using True w list_all2_lengthD [of draws t r] by simp
    note same = dash_inject [OF this, of "''-''"]
    from Inr have "list_all2 draws t w \<longleftrightarrow> r = w" using drawn [of w] by simp
    with Inr True same show ?thesis
      by (simp add: newUserCode_def userCodeLen_def case_prod_unfold)
  qed
next
  case False
  then show ?thesis using w list_all2_lengthD [of draws t w] by auto
qed

section \<open>Properties\<close>

text \<open>
  The index invariant: every operation of \<open>MemoryDeviceStore\<close>, the sweep included, keeps its
  two maps inverse to each other (a user code names exactly the record that carries it), and
  the sweep removes exactly the expired records.
\<close>
theorem device_index_invariant:
  assumes "wf_devices s"
  shows "wf_devices (snd (md_save code d s)) \<and> wf_devices (snd (md_poll h at s))
     \<and> wf_devices (snd (md_decide h dec s)) \<and> wf_devices (snd (md_consume h s))
     \<and> wf_devices (snd (md_sweep_expired now s))
     \<and> byDev (snd (md_sweep_expired now s)) = fm_drop_where (\<lambda>d. \<not> now < dv_expires d) (byDev s)"
  by (intro conjI md_save_wf md_poll_wf md_decide_wf md_consume_wf md_sweep_wf assms)

theorem device_index_invariant_witness:
  "wf_devices (snd (md_consume ''h'' NewMemoryDeviceStore))
   \<and> byDev (snd (md_sweep_expired 5 NewMemoryDeviceStore)) = fmempty"
  using device_index_invariant [OF wf_devices_new, of "''c''" sample_device "''h''" 1 undefined 5]
  by (simp add: NewMemoryDeviceStore_def)

text \<open>
  C18. A request is decided and redeemed at most once. A decision applies exactly to a request that
  is pending, and it is then stored: the record carries its status, subject, scopes and ticks. In
  any schedule of polls, decisions (each an approval or a denial) and redemptions, on this and on
  other requests, at most one decision applies and at most one redemption of a given request
  succeeds; after a decision has applied no other does, and whatever is redeemed carries it.
\<close>
theorem device_first_decision_final:
  fixes s :: memory_devices and k :: string
  assumes "dd_status dec \<noteq> DevicePending" and "\<forall>(h, c) \<in> set cs. \<forall>dec. c = CallDecide dec \<longrightarrow> dd_status dec \<noteq> DevicePending"
  defines "step \<equiv> device_step md_poll md_decide md_consume" and "s' \<equiv> snd (md_decide k dec s)"
  shows "(fst (md_decide k dec s) = Inr True \<longleftrightarrow> (\<exists>r. fmlookup (byDev s) k = Some r \<and> dv_status r = DevicePending))
    \<and> (fst (md_decide k dec s) = Inr True \<longrightarrow>
         (\<exists>r. fmlookup (byDev s') k = Some r \<and> carries dec r)
         \<and> (\<forall>rep \<in> set (replies_to k (\<lambda>_. True) cs (fst (run_calls step cs s'))).
              rep \<noteq> Decided True \<and> (\<forall>r. rep = Redeemed r \<longrightarrow> carries dec r)))
    \<and> length (replies_to k (\<lambda>rep. rep = Decided True) cs (fst (run_calls step cs s))) \<le> 1
    \<and> length (replies_to k is_redeemed cs (fst (run_calls step cs s))) \<le> 1"
proof (intro conjI impI)
  assume applied: "fst (md_decide k dec s) = Inr True"
  then obtain r where r: "fmlookup (byDev s') k = Some r" "carries dec r"
    using devices.decide_applied [of k dec s] by (auto simp: s'_def carries_def)
  then show "\<exists>r. fmlookup (byDev s') k = Some r \<and> carries dec r" by blast
  have "dv_status r \<noteq> DevicePending" using r(2) assms(1) by (simp add: carries_def)
  from conjunct1 [OF devices.decided_is_final [OF r(1) this]]
  show "\<forall>rep \<in> set (replies_to k (\<lambda>_. True) cs (fst (run_calls step cs s'))).
      rep \<noteq> Decided True \<and> (\<forall>r. rep = Redeemed r \<longrightarrow> carries dec r)"
    using r(2) by (fastforce simp: step_def carries_def same_decision_def)
next
  show "fst (md_decide k dec s) = Inr True \<longleftrightarrow> (\<exists>r. fmlookup (byDev s) k = Some r \<and> dv_status r = DevicePending)"
    by (auto simp: md_decide_def split: option.split if_split)
  show "length (replies_to k (\<lambda>rep. rep = Decided True) cs (fst (run_calls step cs s))) \<le> 1"
    unfolding step_def by (rule devices.decided_at_most_once [OF assms(2)])
  show "length (replies_to k is_redeemed cs (fst (run_calls step cs s))) \<le> 1"
    unfolding step_def by (rule devices.redeemed_at_most_once)
qed

theorem device_first_decision_final_witness:
  "(let approve = \<lparr>dd_status = DeviceApproved, dd_subject = ''u'', dd_scopes = [ScopeAccountID], dd_explicit = []\<rparr>;
        s = \<lparr>byDev = fmupd ''h'' (sample_device\<lparr>dv_status := DevicePending\<rparr>) fmempty, byUser = fmupd ''BCDFGHJK'' ''h'' fmempty\<rparr>;
        cs = [(''h'', CallDecide \<lparr>dd_status = DeviceDenied, dd_subject = [], dd_scopes = [], dd_explicit = []\<rparr>), (''h'', CallConsume)];
        replies = replies_to ''h'' (\<lambda>_. True) cs (fst (run_calls (device_step md_poll md_decide md_consume) cs (snd (md_decide ''h'' approve s))))
    in fst (md_decide ''h'' approve s) = Inr True \<and> Decided True \<notin> set replies \<and> (\<exists>r. Redeemed r \<in> set replies \<and> carries approve r))"
proof -
  let ?ap = "\<lparr>dd_status = DeviceApproved, dd_subject = ''u'', dd_scopes = [ScopeAccountID], dd_explicit = []\<rparr>"
  let ?s = "\<lparr>byDev = fmupd ''h'' (sample_device\<lparr>dv_status := DevicePending\<rparr>) fmempty, byUser = fmupd ''BCDFGHJK'' ''h'' fmempty\<rparr>"
  let ?cs = "[(''h'', CallDecide \<lparr>dd_status = DeviceDenied, dd_subject = [], dd_scopes = [], dd_explicit = []\<rparr>), (''h'', CallConsume)]"
  have "dd_status ?ap \<noteq> DevicePending" "\<forall>(h, c) \<in> set ?cs. \<forall>dec. c = CallDecide dec \<longrightarrow> dd_status dec \<noteq> DevicePending" by simp_all
  note final = device_first_decision_final [OF this, of "''h''" ?s]
  have red: "\<exists>r. Redeemed r \<in> set (replies_to ''h'' (\<lambda>_. True) ?cs
      (fst (run_calls (device_step md_poll md_decide md_consume) ?cs (snd (md_decide ''h'' ?ap ?s)))))"
    by (simp add: md_decide_def md_consume_def device_step_def sample_device_def)
  have "fst (md_decide ''h'' ?ap ?s) = Inr True" by (simp add: md_decide_def)
  with final red show ?thesis unfolding Let_def by blast
qed

text \<open>
  User codes are drawn uniformly: for every code of eight alphabet characters, exactly
  \<open>12 ^ 8\<close> of the eight-byte tapes produce it, so no character and no code is favoured.
\<close>
theorem newUserCode_uniform:
  assumes "length w = 8" and "set w \<subseteq> set userCodeAlphabet"
  shows "card {t. length t = 8 \<and> fst (newUserCode t) = Inr (take 4 w @ ''-'' @ drop 4 w)} = 12 ^ 8"
proof -
  have "card {t. length t = 8 \<and> fst (newUserCode t) = Inr (take 4 w @ ''-'' @ drop 4 w)}
      = prod_list (map (\<lambda>c. card {b. draws b c}) w)"
    by (simp only: newUserCode_drawn [OF assms(1)] card_list_all2)
  also have "map (\<lambda>c. card {b. draws b c}) w = replicate 8 12"
  proof -
    have "map (\<lambda>c. card {b. draws b c}) w = map (\<lambda>_. 12) w"
      using assms(2) card_draws by (intro map_cong) auto
    then show ?thesis using assms(1) by (simp add: map_replicate_const)
  qed
  finally show ?thesis by (simp only: prod_list_replicate)
qed

theorem newUserCode_uniform_witness:
  "card {t. length t = 8 \<and> fst (newUserCode t) = Inr ''BCDF-GHJK''} = 12 ^ 8"
  using newUserCode_uniform [of "''BCDFGHJK''"] by (simp add: userCodeAlphabet_def)

end
