(* ===== verification/Audit_Log.thy ===== *)
theory Audit_Log
  imports R0_Prelude
begin

text \<open>
  The audit log of \<^verbatim>\<open>audit/audit.go\<close>: the event record, the \<open>Logger\<close> interface as a record of
  operations over a log state, and \<open>MemoryLogger\<close>, the bounded ring buffer behind a deployment
  without a database.
  Shown: the ring refines the plain log. After any sequence of records it reports exactly the
  most recent \<open>max\<close> of them, in the order they were written, so the splice in \<open>Events\<close> and the
  overwrite in \<open>Record\<close> agree about which slot is the oldest.
\<close>

section \<open>Events and loggers\<close>

definition OutcomeOK :: string where "OutcomeOK = ''ok''"
definition OutcomeDenied :: string where "OutcomeDenied = ''denied''"
definition OutcomeError :: string where "OutcomeError = ''error''"

record audit_event =
  ev_time :: time
  ev_action :: string
  ev_subject :: string
  ev_provider :: string
  ev_outcome :: string
  ev_detail :: "(string \<times> string) list"

text \<open>\<open>Logger\<close>: one operation, which may fail; a failure carries its message.\<close>

record 'l logger =
  lg_record :: "time \<Rightarrow> audit_event \<Rightarrow> 'l \<Rightarrow> (string + unit) \<times> 'l"

section \<open>The in-memory ring\<close>

definition DefaultMaxEvents :: int where "DefaultMaxEvents = 10000"

record memory_log =
  ml_max :: nat
  ml_buf :: "audit_event list"
  ml_next :: nat
  ml_count :: nat

definition NewMemoryLoggerWithCapacity :: "int \<Rightarrow> memory_log" where
  "NewMemoryLoggerWithCapacity cap =
     \<lparr>ml_max = nat (if cap \<le> 0 then DefaultMaxEvents else cap), ml_buf = [], ml_next = 0, ml_count = 0\<rparr>"

definition NewMemoryLogger :: memory_log where
  "NewMemoryLogger = NewMemoryLoggerWithCapacity DefaultMaxEvents"

definition stamp :: "time \<Rightarrow> audit_event \<Rightarrow> audit_event" where
  "stamp now e = (if is_zero (ev_time e) then e\<lparr>ev_time := now\<rparr> else e)"

definition ml_record :: "time \<Rightarrow> audit_event \<Rightarrow> memory_log \<Rightarrow> (string + unit) \<times> memory_log" where
  "ml_record now e l =
     (let e = stamp now e in
      if ml_count l < ml_max l
      then (Inr (), l\<lparr>ml_buf := ml_buf l @ [e], ml_count := ml_count l + 1\<rparr>)
      else (Inr (), l\<lparr>ml_buf := (ml_buf l)[ml_next l := e], ml_next := (ml_next l + 1) mod ml_max l\<rparr>))"

definition ml_events :: "memory_log \<Rightarrow> audit_event list" where
  "ml_events l =
     (if ml_count l < ml_max l then ml_buf l
      else drop (ml_next l) (ml_buf l) @ take (ml_next l) (ml_buf l))"

definition memory_logger :: "memory_log logger" where
  "memory_logger = \<lparr>lg_record = ml_record\<rparr>"

section \<open>The contract of a bounded log\<close>

text \<open>
  What a reader of a bounded log relies on: recording appends, and only ever drops from the old
  end, never below the bound.
\<close>

locale bounded_log =
  fixes put :: "'i \<Rightarrow> 'l \<Rightarrow> 'l" and entry :: "'i \<Rightarrow> 'e" and view :: "'l \<Rightarrow> 'e list"
    and ok :: "'l \<Rightarrow> bool" and cap :: "'l \<Rightarrow> nat"
  assumes put_ok: "ok l \<Longrightarrow> ok (put e l)"
    and put_cap: "ok l \<Longrightarrow> cap (put e l) = cap l"
    and cap_pos: "ok l \<Longrightarrow> 0 < cap l"
    and put_view: "ok l \<Longrightarrow> view (put e l) = drop (Suc (length (view l)) - cap l) (view l @ [entry e])"
    and view_bound: "ok l \<Longrightarrow> length (view l) \<le> cap l"
begin

lemma view_puts:
  "ok l \<Longrightarrow> view (fold put es l) = drop (length (view l) + length es - cap l) (view l @ map entry es)
     \<and> ok (fold put es l)"
proof (induction es arbitrary: l)
  case Nil
  then show ?case using view_bound by simp
next
  case (Cons e es)
  let ?n = "length (view l)" and ?c = "cap l"
  have view': "view (put e l) = drop (Suc ?n - ?c) (view l @ [entry e])" by (simp add: put_view Cons.prems)
  have "view (fold put es (put e l)) =
      drop (length (view (put e l)) + length es - ?c) (view (put e l) @ map entry es)"
    using Cons.IH [OF put_ok [OF Cons.prems]] put_cap [OF Cons.prems] by simp
  also have "view (put e l) @ map entry es = drop (Suc ?n - ?c) (view l @ map entry (e # es))"
    using cap_pos [OF Cons.prems] by (simp add: view' Suc_diff_le)
  also have "drop (length (view (put e l)) + length es - ?c) (drop (Suc ?n - ?c) (view l @ map entry (e # es)))
      = drop (?n + length (e # es) - ?c) (view l @ map entry (e # es))"
  proof -
    have "length (view (put e l)) + length es - ?c + (Suc ?n - ?c) = ?n + length (e # es) - ?c"
      using view_bound [OF Cons.prems] cap_pos [OF Cons.prems] by (simp add: view')
    then show ?thesis by (simp only: drop_drop)
  qed
  finally show ?case using Cons.IH [OF put_ok [OF Cons.prems]] by simp
qed

end

definition ring_ok :: "memory_log \<Rightarrow> bool" where
  "ring_ok l \<longleftrightarrow> 0 < ml_max l \<and> ml_count l = length (ml_buf l) \<and> ml_count l \<le> ml_max l
     \<and> (if ml_count l < ml_max l then ml_next l = 0 else ml_next l < ml_max l)"

definition ml_put :: "time \<times> audit_event \<Rightarrow> memory_log \<Rightarrow> memory_log" where
  "ml_put te l = snd (ml_record (fst te) (snd te) l)"

lemma ring_ok_new: "ring_ok (NewMemoryLoggerWithCapacity cap)"
  by (simp add: ring_ok_def NewMemoryLoggerWithCapacity_def DefaultMaxEvents_def)

lemma ml_put_full:
  assumes "ring_ok l" and "ml_count l = ml_max l"
  shows "ml_events (ml_put te l) = tl (ml_events l) @ [stamp (fst te) (snd te)]"
proof -
  let ?i = "ml_next l" and ?b = "ml_buf l" and ?e = "stamp (fst te) (snd te)"
  have len: "length ?b = ml_max l" and i: "?i < length ?b" using assms by (auto simp: ring_ok_def)
  have put: "ml_buf (ml_put te l) = take ?i ?b @ ?e # drop (Suc ?i) ?b"
      "ml_next (ml_put te l) = Suc ?i mod length ?b" "ml_count (ml_put te l) = ml_max (ml_put te l)"
    using assms i len by (simp_all add: ml_put_def ml_record_def Let_def upd_conv_take_nth_drop)
  have split: "drop ?i ?b = ?b ! ?i # drop (Suc ?i) ?b" using i by (simp add: Cons_nth_drop_Suc)
  have "ml_events (ml_put te l) = drop (Suc ?i) ?b @ take ?i ?b @ [?e]"
    using i put by (cases "Suc ?i = length ?b") (simp_all add: ml_events_def)
  with assms(2) split show ?thesis by (simp add: ml_events_def)
qed

lemma ml_put_ok: "ring_ok l \<Longrightarrow> ring_ok (ml_put te l) \<and> ml_max (ml_put te l) = ml_max l"
  by (auto simp: ring_ok_def ml_put_def ml_record_def Let_def)

lemma length_ml_events: "ring_ok l \<Longrightarrow> length (ml_events l) = ml_count l"
  by (auto simp: ring_ok_def ml_events_def)

lemma ml_put_events:
  assumes "ring_ok l"
  shows "ml_events (ml_put te l) =
     drop (Suc (length (ml_events l)) - ml_max l) (ml_events l @ [stamp (fst te) (snd te)])"
proof (cases "ml_count l < ml_max l")
  case True
  then have "ml_events (ml_put te l) = ml_events l @ [stamp (fst te) (snd te)]"
    using assms by (auto simp: ml_events_def ml_put_def ml_record_def Let_def ring_ok_def)
  with True show ?thesis by (simp add: length_ml_events [OF assms])
next
  case False
  with assms have full: "ml_count l = ml_max l" and "ml_events l \<noteq> []"
    using length_ml_events [OF assms] by (auto simp: ring_ok_def)
  moreover have "0 < ml_max l" using assms by (simp add: ring_ok_def)
  ultimately show ?thesis
    using ml_put_full [OF assms full, of te] by (simp add: length_ml_events [OF assms] drop_Suc)
qed

text \<open>The ring meets the contract, on events as they are stamped.\<close>

interpretation ring: bounded_log ml_put "\<lambda>(now, e). stamp now e" ml_events ring_ok ml_max
  by unfold_locales
     (auto simp: ml_put_ok ml_put_events length_ml_events case_prod_unfold, auto simp: ring_ok_def)

section \<open>Properties\<close>

text \<open>
  The ring buffer is a bounded log: after any sequence of \<open>Record\<close> calls on a fresh logger,
  every call reported success and \<open>Events\<close> returns exactly the most recent events, at most the
  capacity (the default for a capacity that is not positive), oldest first, each stamped with
  the time of its call unless it carried one.
\<close>
theorem memory_log_keeps_recent:
  "ml_events (fold ml_put es (NewMemoryLoggerWithCapacity cap)) =
     drop (length es - nat (if cap \<le> 0 then 10000 else cap)) (map (\<lambda>(now, e). stamp now e) es)
   \<and> fst (ml_record now e (fold ml_put es (NewMemoryLoggerWithCapacity cap))) = Inr ()"
  using ring.view_puts [OF ring_ok_new, of es cap]
  by (simp add: NewMemoryLoggerWithCapacity_def DefaultMaxEvents_def ml_events_def ml_record_def Let_def)

end
