(* ===== verification/OAuth_Service.thy ===== *)
theory OAuth_Service
  imports OAuth_Device Go_Net Audit_Log
begin

text \<open>
  The authorization server of \<^verbatim>\<open>src/oauth/as.go\<close> and the device endpoints of
  \<^verbatim>\<open>src/oauth/device.go\<close>: one definition per method of \<open>service\<close>, in the order of the
  source, over the store interfaces of the component theories.
  \<^item> \<open>service\<close> holds what \<open>NewService\<close> fixes (the interfaces' operations, the scope catalogue,
    the lifetimes); \<open>world\<close> holds what changes: the states of the three stores, the audit
    events submitted, the random tape, and the revocation generations \<open>grantEpochs\<close> at
    their 64-bit width.
  \<^item> An operation takes the clock reading \<open>now\<close> it runs at and the world, and returns its
    result (an error or a value) with the world it leaves, including on every error path.
  \<^item> The points where another request can interleave are cut out as definitions of their own
    (\<open>exchange_claim\<close>, \<open>refresh_act\<close>, the parts of \<open>issue\<close> and of its guard), composed here without
    interleaving and one by one in \<open>OAuth_Interleaving\<close>. The refresh-family lock has no effect on
    a request that runs alone and is left out.
  \<^item> The publication of the token store to the client registry (\<^verbatim>\<open>SetTokenRevoker\<close>) is left out:
    the revoker a registry deletes clients through is an argument of \<open>mr_delete\<close>.
\<close>

section \<open>Requests and responses\<close>

record authorization_request =
  ar_client :: string
  ar_redirect :: string
  ar_subject :: string
  ar_scopes :: "scope list"
  ar_explicit :: "scope list"
  ar_state :: string
  ar_challenge :: string
  ar_method :: string

record authorization_response =
  ax_code :: string
  ax_state :: string
  ax_redirect :: string

record code_exchange_request =
  cx_client :: string
  cx_secret :: string
  cx_code :: string
  cx_redirect :: string
  cx_verifier :: string

record refresh_request =
  rr_client :: string
  rr_secret :: string
  rr_token :: string
  rr_scopes :: "scope list"

record revoke_request =
  rv_client :: string
  rv_secret :: string
  rv_token :: string
  rv_hint :: string

record token_response =
  tr_access :: string
  tr_type :: string
  tr_expires_in :: int
  tr_refresh :: string
  tr_scope :: string

record token_info =
  ti_active :: bool
  ti_subject :: string
  ti_client :: string
  ti_scopes :: "scope list"
  ti_expires :: time

record device_request =
  dr_client :: string
  dr_secret :: string
  dr_scopes :: "scope list"

record device_response =
  dx_device_code :: string
  dx_user_code :: string
  dx_uri :: string
  dx_uri_complete :: string
  dx_expires_in :: int
  dx_interval :: int

record device_exchange_request =
  de_client :: string
  de_secret :: string
  de_code :: string

record device_authorization =
  da_user_code :: string
  da_client :: client
  da_scopes :: "descriptor list"
  da_expires :: time

section \<open>The service and its world\<close>

record ('c, 't, 'd) service =
  sv_clients :: "'c client_registry"
  sv_tokens :: "'t token_store"
  sv_devices :: "'d device_store"
  sv_scopes :: registry
  sv_issuer :: string
  atTTL :: duration
  rtTTL :: duration
  codeTTL :: duration
  deviceTTL :: duration
  pollInterval :: duration
  verifyPath :: string
  sv_parse :: "string \<Rightarrow> url option"

record ('c, 't, 'd) world =
  w_clients :: 'c
  w_tokens :: 't
  w_devices :: 'd
  w_audit :: "audit_event list"
  w_tape :: tape
  grantEpochs :: "(string, 64 word) fmap"

definition defaultAccessTokenTTL :: duration where "defaultAccessTokenTTL = hour"
definition defaultRefreshTokenTTL :: duration where "defaultRefreshTokenTTL = 30 * 24 * hour"
definition defaultCodeTTL :: duration where "defaultCodeTTL = 5 * minute"

record config =
  cf_issuer :: string
  cf_scopes :: "registry option"
  cf_access_ttl :: duration
  cf_refresh_ttl :: duration
  cf_code_ttl :: duration
  cf_devices :: "memory_devices device_store option"
  cf_device_ttl :: duration
  cf_poll :: duration
  cf_path :: string

definition NewService ::
  "(string \<Rightarrow> url option) \<Rightarrow> 'c client_registry option \<Rightarrow> 't token_store option \<Rightarrow> bool \<Rightarrow> config
   \<Rightarrow> oauth_error + ('c, 't, memory_devices) service" where
  "NewService parse clients tokens has_logger cfg =
     (case clients of
        None \<Rightarrow> Inl (Plain ''oauth: ClientRegistry is required'')
      | Some reg \<Rightarrow> (case tokens of
          None \<Rightarrow> Inl (Plain ''oauth: token Store is required'')
        | Some store \<Rightarrow>
            if \<not> has_logger then Inl (Plain ''oauth: audit.Logger is required'')
            else if cf_issuer cfg = [] then Inl (Plain ''oauth: Config.Issuer is required'')
            else (case cf_scopes cfg of
                None \<Rightarrow> Inl (Plain ''oauth: Config.Scopes registry is required'')
              | Some sc \<Rightarrow>
                  Inr \<lparr>sv_clients = reg, sv_tokens = store,
                       sv_devices = (case cf_devices cfg of None \<Rightarrow> memory_device_store | Some d \<Rightarrow> d),
                       sv_scopes = sc, sv_issuer = cf_issuer cfg,
                       atTTL = (if cf_access_ttl cfg \<le> 0 then defaultAccessTokenTTL else cf_access_ttl cfg),
                       rtTTL = (if cf_refresh_ttl cfg \<le> 0 then defaultRefreshTokenTTL else cf_refresh_ttl cfg),
                       codeTTL = (if cf_code_ttl cfg \<le> 0 then defaultCodeTTL else cf_code_ttl cfg),
                       deviceTTL = (if cf_device_ttl cfg \<le> 0 then defaultDeviceCodeTTL else cf_device_ttl cfg),
                       pollInterval = (if cf_poll cfg \<le> 0 then defaultDevicePollInterval else cf_poll cfg),
                       verifyPath = (if cf_path cfg = [] then defaultVerificationPath else cf_path cfg),
                       sv_parse = parse\<rparr>)))"

section \<open>Error inspection\<close>

text \<open>\<^verbatim>\<open>errors.Is\<close> and \<^verbatim>\<open>errors.As\<close>, which look through wrapping.\<close>

fun errors_is :: "oauth_error \<Rightarrow> oauth_error \<Rightarrow> bool" where
  "errors_is (Wrapped s e) target \<longleftrightarrow> Wrapped s e = target \<or> errors_is e target"
| "errors_is e target \<longleftrightarrow> e = target"

fun errors_as_reuse :: "oauth_error \<Rightarrow> string option" where
  "errors_as_reuse (RefreshReuseError f) = Some f"
| "errors_as_reuse (Wrapped s e) = errors_as_reuse e"
| "errors_as_reuse _ = None"

fun errors_is_conflict :: "oauth_error \<Rightarrow> bool" where
  "errors_is_conflict (ErrUserCodeConflict u) = True"
| "errors_is_conflict (Wrapped s e) = errors_is_conflict e"
| "errors_is_conflict _ = False"

section \<open>Helpers\<close>

definition record_event ::
  "string \<Rightarrow> string \<Rightarrow> string \<Rightarrow> string \<Rightarrow> ('c, 't, 'd) world \<Rightarrow> ('c, 't, 'd) world" where
  "record_event action subject cid outcome w =
     w\<lparr>w_audit := w_audit w @
         [\<lparr>ev_time = 0, ev_action = action, ev_subject = subject, ev_provider = ''oauth'', ev_outcome = outcome,
           ev_detail = [(''client_id'', cid)]\<rparr>]\<rparr>"

definition validPKCEChallenge :: "string \<Rightarrow> bool" where
  "validPKCEChallenge challenge \<longleftrightarrow>
     length challenge = 43 \<and>
     (\<forall>c \<in> set challenge. is_upper c \<or> is_lower c \<or> is_digit c \<or> c = CHR ''-'' \<or> c = CHR ''_'')"

definition verifyPKCE :: "string \<Rightarrow> string \<Rightarrow> string \<Rightarrow> bool" where
  "verifyPKCE verifier challenge meth =
     (if verifier = [] \<or> \<not> validPKCEChallenge challenge \<or> meth \<noteq> ''S256'' then False
      else base64_encode URLAlphabet (sha256 verifier) = challenge)"

definition newToken :: "tape \<Rightarrow> (oauth_error + string) \<times> tape" where
  "newToken t =
     (case rand_read 32 t of
        None \<Rightarrow> (Inl ErrRandom, t)
      | Some (b, t') \<Rightarrow> (Inr (base64_encode URLAlphabet b), t'))"

definition sv_client ::
  "('c, 't, 'd) service \<Rightarrow> ('c, 't, 'd) world \<Rightarrow> string \<Rightarrow> string \<Rightarrow> bool \<Rightarrow> oauth_error + client" where
  "sv_client sv w cid secret auth =
     (case reg_get (sv_clients sv) (w_clients w) cid of
        Inl e \<Rightarrow>
          if errors_is e ErrClientNotFound
          then Inl (protocolError ''invalid_client'' ''invalid client credentials'')
          else Inl e
      | Inr c \<Rightarrow>
          if auth \<and> c_type c = ClientConfidential \<and> \<not> Authenticate c secret
          then Inl (protocolError ''invalid_client'' ''invalid client credentials'')
          else Inr c)"

definition AuthenticateClient ::
  "('c, 't, 'd) service \<Rightarrow> ('c, 't, 'd) world \<Rightarrow> string \<Rightarrow> string \<Rightarrow> oauth_error + unit" where
  "AuthenticateClient sv w cid secret =
     (case sv_client sv w cid secret True of
        Inl e \<Rightarrow> Inl e
      | Inr c \<Rightarrow>
          if c_type c \<noteq> ClientConfidential
          then Inl (protocolError ''invalid_client'' ''public clients cannot authenticate'')
          else Inr ())"

definition resolveScopes ::
  "('c, 't, 'd) service \<Rightarrow> client \<Rightarrow> scope list \<Rightarrow> oauth_error + (client \<times> descriptor list)" where
  "resolveScopes sv c scopes =
     (case Resolve (sv_scopes sv) scopes (c_id c) of
        Inl e \<Rightarrow> Inl (ProtocolErr ''invalid_scope'' e)
      | Inr descriptors \<Rightarrow>
          (case first_error (\<lambda>sc. if AllowsScope c sc then None
                else Some (protocolError ''invalid_scope'' (''client is not registered for '' @ sc))) scopes of
             Some e \<Rightarrow> Inl e
           | None \<Rightarrow> Inr (c, descriptors)))"

definition checkExplicit :: "descriptor list \<Rightarrow> scope list \<Rightarrow> oauth_error option" where
  "checkExplicit descriptors explicit =
     first_error (\<lambda>d. if ExplicitConsent d \<and> \<not> List.member explicit (d_scope d)
         then Some (protocolError ''access_denied'' (''explicit consent is required for '' @ d_scope d))
         else None) descriptors"

section \<open>Authorization requests\<close>

definition describe ::
  "('c, 't, 'd) service \<Rightarrow> ('c, 't, 'd) world \<Rightarrow> authorization_request
   \<Rightarrow> oauth_error + (client \<times> descriptor list)" where
  "describe sv w req =
     (case sv_client sv w (ar_client req) [] False of
        Inl e \<Rightarrow> Inl e
      | Inr c \<Rightarrow>
          if \<not> AllowsRedirect (sv_parse sv) c (ar_redirect req)
            then Inl (protocolError ''invalid_request'' ''redirect_uri is not registered'')
          else if \<not> validPKCEChallenge (ar_challenge req) \<or> ar_method req \<noteq> ''S256''
            then Inl (protocolError ''invalid_request'' ''PKCE with S256 is required'')
          else resolveScopes sv c (ar_scopes req))"

definition DescribeAuthorization ::
  "('c, 't, 'd) service \<Rightarrow> ('c, 't, 'd) world \<Rightarrow> authorization_request
   \<Rightarrow> oauth_error + (client \<times> descriptor list)" where
  "DescribeAuthorization sv w req = describe sv w req"

definition Authorize ::
  "('c, 't, 'd) service \<Rightarrow> time \<Rightarrow> authorization_request \<Rightarrow> ('c, 't, 'd) world
   \<Rightarrow> (oauth_error + authorization_response) \<times> ('c, 't, 'd) world" where
  "Authorize sv now req w =
     (case describe sv w req of
        Inl e \<Rightarrow> (Inl e, w)
      | Inr (c, descriptors) \<Rightarrow>
          if ar_subject req = []
            then (Inl (protocolError ''access_denied'' ''user is not authenticated''), w)
          else (case checkExplicit descriptors (ar_explicit req) of
              Some e \<Rightarrow> (Inl e, w)
            | None \<Rightarrow> (case newToken (w_tape w) of
                (Inl e, t) \<Rightarrow> (Inl e, w\<lparr>w_tape := t\<rparr>)
              | (Inr code, t) \<Rightarrow>
                  (let rec = \<lparr>ac_client = c_id c, ac_subject = ar_subject req, ac_scopes = ar_scopes req,
                              ac_redirect = ar_redirect req, ac_challenge = ar_challenge req,
                              ac_method = ar_method req, ac_expires = now + codeTTL sv\<rparr>
                   in case st_save_code (sv_tokens sv) code rec (w_tokens w) of
                        (Inl e, ts) \<Rightarrow> (Inl e, w\<lparr>w_tape := t, w_tokens := ts\<rparr>)
                      | (Inr _, ts) \<Rightarrow>
                          (Inr \<lparr>ax_code = code, ax_state = ar_state req, ax_redirect = ar_redirect req\<rparr>,
                           record_event ''oauth.authorize'' (ar_subject req) (c_id c) OutcomeOK
                             (w\<lparr>w_tape := t, w_tokens := ts\<rparr>))))))"

section \<open>Revocation generations\<close>

definition grantEpochKey :: "string \<Rightarrow> string \<Rightarrow> string" where
  "grantEpochKey subject cid = subject @ [CHR 0x00] @ cid"

definition grantEpoch :: "('c, 't, 'd) world \<Rightarrow> string \<Rightarrow> string \<Rightarrow> 64 word" where
  "grantEpoch w subject cid =
     (case fmlookup (grantEpochs w) (grantEpochKey subject cid) of None \<Rightarrow> 0 | Some n \<Rightarrow> n)"

definition bumpGrantEpoch :: "string \<Rightarrow> string \<Rightarrow> ('c, 't, 'd) world \<Rightarrow> ('c, 't, 'd) world" where
  "bumpGrantEpoch subject cid w =
     w\<lparr>grantEpochs := fmupd (grantEpochKey subject cid) (grantEpoch w subject cid + 1) (grantEpochs w)\<rparr>"

section \<open>Issuing tokens\<close>

text \<open>
  \<open>issue\<close> in the order of its store calls: draw the values, save the access record, save the
  refresh record (undoing the access record when that fails).
\<close>

definition issue_draw :: "string \<Rightarrow> tape \<Rightarrow> (oauth_error + string \<times> string \<times> string) \<times> tape" where
  "issue_draw familyID t =
     (case newToken t of
        (Inl e, t) \<Rightarrow> (Inl e, t)
      | (Inr at, t) \<Rightarrow> (case newToken t of
          (Inl e, t) \<Rightarrow> (Inl e, t)
        | (Inr rt, t) \<Rightarrow> (case (if familyID = [] then newToken t else (Inr familyID, t)) of
            (Inl e, t) \<Rightarrow> (Inl e, t)
          | (Inr family, t) \<Rightarrow> (Inr (at, rt, family), t))))"

definition issue_access ::
  "('c, 't, 'd) service \<Rightarrow> time \<Rightarrow> string \<Rightarrow> string \<Rightarrow> scope list \<Rightarrow> string \<Rightarrow> string
   \<Rightarrow> 't \<Rightarrow> (oauth_error + unit) \<times> 't" where
  "issue_access sv now cid subject scopes family at ts =
     st_save_access (sv_tokens sv) at
       \<lparr>at_client = cid, at_subject = subject, at_scopes = scopes, at_family = family,
        at_issued = now, at_expires = now + atTTL sv\<rparr> ts"

definition issue_refresh ::
  "('c, 't, 'd) service \<Rightarrow> time \<Rightarrow> string \<Rightarrow> string \<Rightarrow> scope list \<Rightarrow> string \<Rightarrow> string \<Rightarrow> string
   \<Rightarrow> ('c, 't, 'd) world \<Rightarrow> (oauth_error + token_response) \<times> ('c, 't, 'd) world" where
  "issue_refresh sv now cid subject scopes family at rt w =
     (case st_save_refresh (sv_tokens sv) rt
             \<lparr>rt_client = cid, rt_subject = subject, rt_scopes = scopes, rt_family = family,
              rt_issued = now, rt_expires = now + rtTTL sv\<rparr> (w_tokens w) of
        (Inl e, ts) \<Rightarrow> (case st_delete_access (sv_tokens sv) at ts of
            (Inl _, ts) \<Rightarrow>
              (Inl (Wrapped ''oauth: save refresh token (access-token rollback also failed)'' e),
               w\<lparr>w_tokens := ts\<rparr>)
          | (Inr _, ts) \<Rightarrow> (Inl e, w\<lparr>w_tokens := ts\<rparr>))
      | (Inr _, ts) \<Rightarrow>
          (Inr \<lparr>tr_access = at, tr_type = ''Bearer'', tr_expires_in = atTTL sv div second,
                tr_refresh = rt, tr_scope = joinScopes scopes\<rparr>,
           record_event ''oauth.token'' subject cid OutcomeOK (w\<lparr>w_tokens := ts\<rparr>)))"

definition issue ::
  "('c, 't, 'd) service \<Rightarrow> time \<Rightarrow> string \<Rightarrow> string \<Rightarrow> scope list \<Rightarrow> string \<Rightarrow> ('c, 't, 'd) world
   \<Rightarrow> (oauth_error + token_response) \<times> ('c, 't, 'd) world" where
  "issue sv now cid subject scopes familyID w =
     (case issue_draw familyID (w_tape w) of
        (Inl e, t) \<Rightarrow> (Inl e, w\<lparr>w_tape := t\<rparr>)
      | (Inr (at, rt, family), t) \<Rightarrow>
          (case issue_access sv now cid subject scopes family at (w_tokens w) of
             (Inl e, ts) \<Rightarrow> (Inl e, w\<lparr>w_tape := t, w_tokens := ts\<rparr>)
           | (Inr _, ts) \<Rightarrow>
               issue_refresh sv now cid subject scopes family at rt (w\<lparr>w_tape := t, w_tokens := ts\<rparr>)))"

text \<open>
  The second half of \<^verbatim>\<open>issueGuarded\<close>: the re-check after the pair is written, and the rollback
  of the pair (its two deletes) when the generation moved.
\<close>

definition rollback_pair ::
  "('c, 't, 'd) service \<Rightarrow> string \<Rightarrow> string \<Rightarrow> token_response \<Rightarrow> oauth_error + unit \<Rightarrow> ('c, 't, 'd) world
   \<Rightarrow> (oauth_error + token_response) \<times> ('c, 't, 'd) world" where
  "rollback_pair sv cid subject resp accessErr w =
     (case st_delete_refresh (sv_tokens sv) (tr_refresh resp) (w_tokens w) of
        (refreshErr, ts) \<Rightarrow>
          if isl accessErr \<or> isl refreshErr
          then (Inl (Plain ''oauth: grant revoked during issuance; rolling the pair back failed''),
                w\<lparr>w_tokens := ts\<rparr>)
          else (Inl (protocolError ''invalid_grant'' ''the grant was revoked while this request was in flight''),
                record_event ''oauth.issue_revoked'' subject cid OutcomeDenied (w\<lparr>w_tokens := ts\<rparr>)))"

definition guard_issued ::
  "('c, 't, 'd) service \<Rightarrow> string \<Rightarrow> string \<Rightarrow> 64 word \<Rightarrow> token_response \<Rightarrow> ('c, 't, 'd) world
   \<Rightarrow> (oauth_error + token_response) \<times> ('c, 't, 'd) world" where
  "guard_issued sv cid subject epoch resp w =
     (if grantEpoch w subject cid = epoch then (Inr resp, w)
      else (case st_delete_access (sv_tokens sv) (tr_access resp) (w_tokens w) of
        (accessErr, ts) \<Rightarrow> rollback_pair sv cid subject resp accessErr (w\<lparr>w_tokens := ts\<rparr>)))"

definition issueGuarded ::
  "('c, 't, 'd) service \<Rightarrow> time \<Rightarrow> string \<Rightarrow> string \<Rightarrow> scope list \<Rightarrow> string \<Rightarrow> 64 word
   \<Rightarrow> ('c, 't, 'd) world \<Rightarrow> (oauth_error + token_response) \<times> ('c, 't, 'd) world" where
  "issueGuarded sv now cid subject scopes familyID epoch w =
     (case issue sv now cid subject scopes familyID w of
        (Inl e, w) \<Rightarrow> (Inl e, w)
      | (Inr resp, w) \<Rightarrow> guard_issued sv cid subject epoch resp w)"

section \<open>Code exchange\<close>

definition checkCodeBinding ::
  "time \<Rightarrow> client \<Rightarrow> authorization_code \<Rightarrow> code_exchange_request \<Rightarrow> oauth_error option" where
  "checkCodeBinding now c code req =
     (if \<not> now < ac_expires code then
        Some (protocolError ''invalid_grant'' ''authorization code has expired'')
      else if ac_client code \<noteq> c_id c then
        Some (protocolError ''invalid_grant'' ''authorization code was issued to another client'')
      else if ac_redirect code \<noteq> cx_redirect req then
        Some (protocolError ''invalid_grant'' ''redirect_uri mismatch'')
      else if \<not> verifyPKCE (cx_verifier req) (ac_challenge code) (ac_method code) then
        Some (protocolError ''invalid_grant'' ''PKCE verification failed'')
      else None)"

definition code_unknown :: oauth_error where
  "code_unknown = protocolError ''invalid_grant'' ''authorization code is unknown or already used''"

text \<open>The pre-flight half: authenticate, read, judge, and capture the generation.\<close>

definition exchange_check ::
  "('c, 't, 'd) service \<Rightarrow> time \<Rightarrow> code_exchange_request \<Rightarrow> ('c, 't, 'd) world
   \<Rightarrow> (oauth_error + client \<times> authorization_code \<times> 64 word) \<times> ('c, 't, 'd) world" where
  "exchange_check sv now req w =
     (case sv_client sv w (cx_client req) (cx_secret req) True of
        Inl e \<Rightarrow> (Inl e, w)
      | Inr c \<Rightarrow> (case st_get_code (sv_tokens sv) (cx_code req) (w_tokens w) of
          Inl e \<Rightarrow> (Inl (if errors_is e ErrTokenNotFound then code_unknown else e), w)
        | Inr code \<Rightarrow> (case checkCodeBinding now c code req of
            Some e \<Rightarrow> (Inl e, record_event ''oauth.exchange_failed'' (ac_subject code) (c_id c) OutcomeDenied w)
          | None \<Rightarrow> (Inr (c, code, grantEpoch w (ac_subject code) (c_id c)), w))))"

text \<open>The atomic claim and the second judgement, on the record actually consumed.\<close>

definition exchange_claim ::
  "('c, 't, 'd) service \<Rightarrow> time \<Rightarrow> client \<Rightarrow> code_exchange_request \<Rightarrow> ('c, 't, 'd) world
   \<Rightarrow> (oauth_error + authorization_code) \<times> ('c, 't, 'd) world" where
  "exchange_claim sv now c req w =
     (case st_consume_code (sv_tokens sv) (cx_code req) (w_tokens w) of
        (Inl e, ts) \<Rightarrow> (Inl (if errors_is e ErrTokenNotFound then code_unknown else e), w\<lparr>w_tokens := ts\<rparr>)
      | (Inr claimed, ts) \<Rightarrow> (case checkCodeBinding now c claimed req of
          Some e \<Rightarrow>
            (Inl e, record_event ''oauth.exchange_failed'' (ac_subject claimed) (c_id c) OutcomeDenied
                      (w\<lparr>w_tokens := ts\<rparr>))
        | None \<Rightarrow> (Inr claimed, w\<lparr>w_tokens := ts\<rparr>)))"

definition Exchange ::
  "('c, 't, 'd) service \<Rightarrow> time \<Rightarrow> code_exchange_request \<Rightarrow> ('c, 't, 'd) world
   \<Rightarrow> (oauth_error + token_response) \<times> ('c, 't, 'd) world" where
  "Exchange sv now req w =
     (case exchange_check sv now req w of
        (Inl e, w) \<Rightarrow> (Inl e, w)
      | (Inr (c, code, epoch), w) \<Rightarrow> (case exchange_claim sv now c req w of
          (Inl e, w) \<Rightarrow> (Inl e, w)
        | (Inr claimed, w) \<Rightarrow>
            issueGuarded sv now (c_id c) (ac_subject claimed) (ac_scopes claimed) [] epoch w))"

section \<open>Refresh\<close>

definition refreshFamilyKey ::
  "('c, 't, 'd) service \<Rightarrow> time \<Rightarrow> ('c, 't, 'd) world \<Rightarrow> string \<Rightarrow> oauth_error + string" where
  "refreshFamilyKey sv now w v =
     (case st_refresh_family (sv_tokens sv) of
        None \<Rightarrow> Inr ''refresh:global''
      | Some resolver \<Rightarrow> (case resolver now v (w_tokens w) of
          Inr family \<Rightarrow>
            if family \<noteq> [] then Inr (''refresh:family:'' @ family)
            else Inr (''refresh:value:'' @ TokenHash v)
        | Inl e \<Rightarrow>
            if errors_is e ErrTokenNotFound then Inr (''refresh:value:'' @ TokenHash v) else Inl e))"

definition refresh_unknown :: oauth_error where
  "refresh_unknown = protocolError ''invalid_grant'' ''refresh token is unknown or already used''"

text \<open>
  The first part: authenticate, refuse a foreign token, capture the generation, and name the
  lock the rest runs under.
\<close>

definition refresh_check ::
  "('c, 't, 'd) service \<Rightarrow> time \<Rightarrow> refresh_request \<Rightarrow> ('c, 't, 'd) world
   \<Rightarrow> oauth_error + client \<times> 64 word \<times> string" where
  "refresh_check sv now req w =
     (case sv_client sv w (rr_client req) (rr_secret req) True of
        Inl e \<Rightarrow> Inl e
      | Inr c \<Rightarrow>
          (let owner = st_token_owner (sv_tokens sv) (rr_token req) (w_tokens w);
               epoch = (case st_get_refresh (sv_tokens sv) (rr_token req) (w_tokens w) of
                          Inl _ \<Rightarrow> 0 | Inr held \<Rightarrow> grantEpoch w (rt_subject held) (c_id c));
               key = refreshFamilyKey sv now w (rr_token req)
           in if (case owner of Inl _ \<Rightarrow> False | Inr o' \<Rightarrow> o' \<noteq> c_id c)
                then Inl (protocolError ''invalid_grant'' ''refresh token was issued to another client'')
              else (case (case owner of Inl e \<Rightarrow> if errors_is e ErrTokenNotFound then None else Some e
                                      | Inr _ \<Rightarrow> None) of
                Some e \<Rightarrow> Inl e
              | None \<Rightarrow> (case key of Inl e \<Rightarrow> Inl e | Inr k \<Rightarrow> Inr (c, epoch, k)))))"

text \<open>
  The claim under the family lock: a replay revokes the family, a live token is judged and its
  owner, scopes and family are handed to the mint.
\<close>

definition refresh_act ::
  "('c, 't, 'd) service \<Rightarrow> time \<Rightarrow> client \<Rightarrow> refresh_request \<Rightarrow> ('c, 't, 'd) world
   \<Rightarrow> (oauth_error + refresh_token \<times> scope list) \<times> ('c, 't, 'd) world" where
  "refresh_act sv now c req w =
     (case st_consume_refresh (sv_tokens sv) now (rr_token req) (w_tokens w) of
        (Inl e, ts) \<Rightarrow> (case errors_as_reuse e of
            Some family \<Rightarrow> (case st_revoke_family (sv_tokens sv) family ts of
                (Inl revErr, ts) \<Rightarrow> (Inl revErr, w\<lparr>w_tokens := ts\<rparr>)
              | (Inr _, ts) \<Rightarrow>
                  (Inl refresh_unknown,
                   record_event ''oauth.reuse_detected'' [] (c_id c) OutcomeDenied (w\<lparr>w_tokens := ts\<rparr>)))
          | None \<Rightarrow>
              (Inl (if errors_is e ErrTokenNotFound then refresh_unknown else e), w\<lparr>w_tokens := ts\<rparr>))
      | (Inr rt, ts) \<Rightarrow>
          if \<not> now < rt_expires rt then
            (Inl (protocolError ''invalid_grant'' ''refresh token has expired''), w\<lparr>w_tokens := ts\<rparr>)
          else if rt_client rt \<noteq> c_id c then
            (Inl (protocolError ''invalid_grant'' ''refresh token was issued to another client''),
             w\<lparr>w_tokens := ts\<rparr>)
          else if rr_scopes req \<noteq> [] then
            (if \<exists>sc \<in> set (rr_scopes req). \<not> List.member (rt_scopes rt) sc
             then (Inl (protocolError ''invalid_scope'' ''refresh cannot widen the granted scope''),
                   w\<lparr>w_tokens := ts\<rparr>)
             else (Inr (rt, rr_scopes req), w\<lparr>w_tokens := ts\<rparr>))
          else (Inr (rt, rt_scopes rt), w\<lparr>w_tokens := ts\<rparr>))"

definition Refresh ::
  "('c, 't, 'd) service \<Rightarrow> time \<Rightarrow> refresh_request \<Rightarrow> ('c, 't, 'd) world
   \<Rightarrow> (oauth_error + token_response) \<times> ('c, 't, 'd) world" where
  "Refresh sv now req w =
     (case refresh_check sv now req w of
        Inl e \<Rightarrow> (Inl e, w)
      | Inr (c, epoch, key) \<Rightarrow> (case refresh_act sv now c req w of
          (Inl e, w) \<Rightarrow> (Inl e, w)
        | (Inr (rt, scopes), w) \<Rightarrow>
            issueGuarded sv now (c_id c) (rt_subject rt) scopes (rt_family rt) epoch w))"

section \<open>Revocation and introspection\<close>

definition revocableOwner ::
  "('c, 't, 'd) service \<Rightarrow> time \<Rightarrow> ('c, 't, 'd) world \<Rightarrow> string \<Rightarrow> oauth_error + string" where
  "revocableOwner sv now w v =
     (case st_token_owner (sv_tokens sv) v (w_tokens w) of
        Inr owner \<Rightarrow> Inr owner
      | Inl e \<Rightarrow>
          if \<not> errors_is e ErrTokenNotFound then Inl e
          else (case st_spent_owner (sv_tokens sv) of
              Some spent \<Rightarrow> spent now v (w_tokens w)
            | None \<Rightarrow> Inl ErrTokenNotFound))"

definition Revoke ::
  "('c, 't, 'd) service \<Rightarrow> time \<Rightarrow> revoke_request \<Rightarrow> ('c, 't, 'd) world
   \<Rightarrow> (oauth_error + unit) \<times> ('c, 't, 'd) world" where
  "Revoke sv now req w =
     (case sv_client sv w (rv_client req) (rv_secret req) True of
        Inl e \<Rightarrow> (Inl e, w)
      | Inr c \<Rightarrow> (case revocableOwner sv now w (rv_token req) of
          Inl e \<Rightarrow> if errors_is e ErrTokenNotFound then (Inr (), w) else (Inl e, w)
        | Inr owner \<Rightarrow>
            if owner \<noteq> c_id c then (Inr (), w)
            else (case st_delete_access (sv_tokens sv) (rv_token req) (w_tokens w) of
                (Inl e, ts) \<Rightarrow> (Inl e, w\<lparr>w_tokens := ts\<rparr>)
              | (Inr _, ts) \<Rightarrow> (case st_delete_refresh (sv_tokens sv) (rv_token req) ts of
                  (Inl e, ts) \<Rightarrow> (Inl e, w\<lparr>w_tokens := ts\<rparr>)
                | (Inr _, ts) \<Rightarrow>
                    (Inr (), record_event ''oauth.revoke'' [] (c_id c) OutcomeOK (w\<lparr>w_tokens := ts\<rparr>))))))"

definition inactive :: token_info where
  "inactive = \<lparr>ti_active = False, ti_subject = [], ti_client = [], ti_scopes = [], ti_expires = 0\<rparr>"

definition Introspect ::
  "('c, 't, 'd) service \<Rightarrow> time \<Rightarrow> string \<Rightarrow> ('c, 't, 'd) world \<Rightarrow> oauth_error + token_info" where
  "Introspect sv now v w =
     (case st_get_access (sv_tokens sv) v (w_tokens w) of
        Inl e \<Rightarrow> if errors_is e ErrTokenNotFound then Inr inactive else Inl e
      | Inr at \<Rightarrow>
          if \<not> now < at_expires at then Inr inactive
          else (case reg_get (sv_clients sv) (w_clients w) (at_client at) of
              Inl e \<Rightarrow> if errors_is e ErrClientNotFound then Inr inactive else Inl e
            | Inr _ \<Rightarrow>
                Inr \<lparr>ti_active = True, ti_subject = at_subject at, ti_client = at_client at,
                     ti_scopes = at_scopes at, ti_expires = at_expires at\<rparr>))"

section \<open>The device flow\<close>

definition describeScopes ::
  "('c, 't, 'd) service \<Rightarrow> ('c, 't, 'd) world \<Rightarrow> string \<Rightarrow> scope list
   \<Rightarrow> oauth_error + (client \<times> descriptor list)" where
  "describeScopes sv w cid scopes =
     (case sv_client sv w cid [] False of Inl e \<Rightarrow> Inl e | Inr c \<Rightarrow> resolveScopes sv c scopes)"

definition describeAuthenticatedScopes ::
  "('c, 't, 'd) service \<Rightarrow> ('c, 't, 'd) world \<Rightarrow> string \<Rightarrow> string \<Rightarrow> scope list
   \<Rightarrow> oauth_error + (client \<times> descriptor list)" where
  "describeAuthenticatedScopes sv w cid secret scopes =
     (case sv_client sv w cid secret True of Inl e \<Rightarrow> Inl e | Inr c \<Rightarrow> resolveScopes sv c scopes)"

definition no_user_code :: oauth_error where
  "no_user_code = Plain ''oauth: could not allocate a unique user code''"

text \<open>Both loops are bounded by the source's eight attempts, the first argument.\<close>

fun freeUserCode ::
  "nat \<Rightarrow> ('c, 't, 'd) service \<Rightarrow> ('c, 't, 'd) world \<Rightarrow> (oauth_error + string) \<times> ('c, 't, 'd) world" where
  "freeUserCode 0 sv w = (Inl no_user_code, w)"
| "freeUserCode (Suc n) sv w =
     (case newUserCode (w_tape w) of
        (Inl e, t) \<Rightarrow> (Inl e, w\<lparr>w_tape := t\<rparr>)
      | (Inr code, t) \<Rightarrow>
          (case ds_get_by_user (sv_devices sv) code (w_devices w) of
             Inr _ \<Rightarrow> freeUserCode n sv (w\<lparr>w_tape := t\<rparr>)
           | Inl e \<Rightarrow>
               if errors_is_conflict e then freeUserCode n sv (w\<lparr>w_tape := t\<rparr>)
               else if errors_is e ErrDeviceNotFound then (Inr code, w\<lparr>w_tape := t\<rparr>)
               else (Inl e, w\<lparr>w_tape := t\<rparr>)))"

fun saveDeviceAuthorization ::
  "nat \<Rightarrow> ('c, 't, 'd) service \<Rightarrow> string \<Rightarrow> device_record \<Rightarrow> ('c, 't, 'd) world
   \<Rightarrow> (oauth_error + string) \<times> ('c, 't, 'd) world" where
  "saveDeviceAuthorization 0 sv deviceCode base w = (Inl no_user_code, w)"
| "saveDeviceAuthorization (Suc n) sv deviceCode base w =
     (case freeUserCode 8 sv w of
        (Inl e, w) \<Rightarrow> (Inl e, w)
      | (Inr userCode, w) \<Rightarrow>
          (case ds_save (sv_devices sv) deviceCode (base\<lparr>dv_user_code := userCode\<rparr>) (w_devices w) of
             (Inr _, ds) \<Rightarrow> (Inr userCode, w\<lparr>w_devices := ds\<rparr>)
           | (Inl e, ds) \<Rightarrow>
               if errors_is_conflict e
               then saveDeviceAuthorization n sv deviceCode base (w\<lparr>w_devices := ds\<rparr>)
               else (Inl e, w\<lparr>w_devices := ds\<rparr>)))"

definition trim_right_slash :: "string \<Rightarrow> string" where
  "trim_right_slash s = rev (dropWhile (\<lambda>c. c = CHR ''/'') (rev s))"

definition BeginDeviceAuthorization ::
  "('c, 't, 'd) service \<Rightarrow> time \<Rightarrow> device_request \<Rightarrow> ('c, 't, 'd) world
   \<Rightarrow> (oauth_error + device_response) \<times> ('c, 't, 'd) world" where
  "BeginDeviceAuthorization sv now req w =
     (if dr_scopes req = [] then (Inl (protocolError ''invalid_scope'' ''scope is required''), w)
      else (case describeAuthenticatedScopes sv w (dr_client req) (dr_secret req) (dr_scopes req) of
          Inl e \<Rightarrow> (Inl e, w)
        | Inr (c, _) \<Rightarrow> (case newToken (w_tape w) of
            (Inl e, t) \<Rightarrow> (Inl e, w\<lparr>w_tape := t\<rparr>)
          | (Inr deviceCode, t) \<Rightarrow>
              (case saveDeviceAuthorization 8 sv deviceCode
                      \<lparr>dv_hash = [], dv_user_code = [], dv_client = c_id c, dv_scopes = dr_scopes req,
                       dv_status = DevicePending, dv_subject = [], dv_explicit = [],
                       dv_expires = now + deviceTTL sv, dv_last_poll = 0\<rparr> (w\<lparr>w_tape := t\<rparr>) of
                 (Inl e, w) \<Rightarrow> (Inl e, w)
               | (Inr userCode, w) \<Rightarrow>
                   (let verify = trim_right_slash (sv_issuer sv) @ verifyPath sv;
                        interval = (pollInterval sv + second - 1) div second
                    in (Inr \<lparr>dx_device_code = deviceCode, dx_user_code = userCode, dx_uri = verify,
                             dx_uri_complete = verify @ ''?user_code='' @ query_escape userCode,
                             dx_expires_in = deviceTTL sv div second,
                             dx_interval = (if interval < 1 then 1 else interval)\<rparr>,
                        record_event ''oauth.device.begin'' [] (c_id c) OutcomeOK w))))))"

text \<open>
  The poll up to the consume: either it has its answer, or it saw an approval and carries the
  captured generation on. \<open>poll_redeem\<close> is the consume.
\<close>

definition poll_check ::
  "('c, 't, 'd) service \<Rightarrow> time \<Rightarrow> device_exchange_request \<Rightarrow> ('c, 't, 'd) world
   \<Rightarrow> (oauth_error + client \<times> device_record \<times> 64 word) \<times> ('c, 't, 'd) world" where
  "poll_check sv now req w =
     (case sv_client sv w (de_client req) (de_secret req) True of
        Inl e \<Rightarrow> (Inl e, w)
      | Inr c \<Rightarrow> (case ds_get (sv_devices sv) (de_code req) (w_devices w) of
          Inl e \<Rightarrow>
            (Inl (if errors_is e ErrDeviceNotFound
                  then protocolError ''invalid_grant'' ''device code is unknown'' else e), w)
        | Inr rec \<Rightarrow>
            if dv_client rec \<noteq> c_id c then
              (Inl (protocolError ''invalid_grant'' ''device code was issued to another client''), w)
            else if \<not> now < dv_expires rec then
              (Inl (protocolError ''expired_token'' ''the device code has expired''), w)
            else (case dv_status rec of
                DeviceDenied \<Rightarrow> (Inl (protocolError ''access_denied'' ''the user denied the request''), w)
              | DevicePending \<Rightarrow>
                  if \<not> is_zero (dv_last_poll rec) \<and> now < dv_last_poll rec + pollInterval sv then
                    (Inl (protocolError ''slow_down'' ''polling faster than the advertised interval''), w)
                  else (case ds_poll (sv_devices sv) (dv_hash rec) now (w_devices w) of
                      (Inl e, ds) \<Rightarrow> (Inl e, w\<lparr>w_devices := ds\<rparr>)
                    | (Inr _, ds) \<Rightarrow>
                        (Inl (protocolError ''authorization_pending'' ''the user has not decided yet''),
                         w\<lparr>w_devices := ds\<rparr>))
              | DeviceApproved \<Rightarrow> (Inr (c, rec, grantEpoch w (dv_subject rec) (c_id c)), w))))"

definition poll_redeem ::
  "('c, 't, 'd) service \<Rightarrow> string \<Rightarrow> ('c, 't, 'd) world
   \<Rightarrow> (oauth_error + device_record) \<times> ('c, 't, 'd) world" where
  "poll_redeem sv hash w =
     (case ds_consume (sv_devices sv) hash (w_devices w) of
        (Inl e, ds) \<Rightarrow> (Inl e, w\<lparr>w_devices := ds\<rparr>)
      | (Inr None, ds) \<Rightarrow>
          (Inl (protocolError ''invalid_grant'' ''device code has already been redeemed''),
           w\<lparr>w_devices := ds\<rparr>)
      | (Inr (Some consumed), ds) \<Rightarrow> (Inr consumed, w\<lparr>w_devices := ds\<rparr>))"

definition PollDeviceAuthorization ::
  "('c, 't, 'd) service \<Rightarrow> time \<Rightarrow> device_exchange_request \<Rightarrow> ('c, 't, 'd) world
   \<Rightarrow> (oauth_error + token_response) \<times> ('c, 't, 'd) world" where
  "PollDeviceAuthorization sv now req w =
     (case poll_check sv now req w of
        (Inl e, w) \<Rightarrow> (Inl e, w)
      | (Inr (c, rec, epoch), w) \<Rightarrow> (case poll_redeem sv (dv_hash rec) w of
          (Inl e, w) \<Rightarrow> (Inl e, w)
        | (Inr consumed, w) \<Rightarrow>
            issueGuarded sv now (c_id c) (dv_subject consumed) (dv_scopes consumed) [] epoch w))"

definition DescribeDeviceAuthorization ::
  "('c, 't, 'd) service \<Rightarrow> time \<Rightarrow> string \<Rightarrow> ('c, 't, 'd) world \<Rightarrow> oauth_error + device_authorization" where
  "DescribeDeviceAuthorization sv now userCode w =
     (case ds_get_by_user (sv_devices sv) userCode (w_devices w) of
        Inl e \<Rightarrow> if errors_is e ErrDeviceNotFound then Inl ErrDeviceNotFound else Inl e
      | Inr rec \<Rightarrow>
          if \<not> now < dv_expires rec then Inl ErrDeviceNotFound
          else if dv_status rec \<noteq> DevicePending then Inl ErrDeviceNotFound
          else (case describeScopes sv w (dv_client rec) (dv_scopes rec) of
              Inl e \<Rightarrow> Inl e
            | Inr (c, descriptors) \<Rightarrow>
                Inr \<lparr>da_user_code = dv_user_code rec, da_client = c, da_scopes = descriptors,
                     da_expires = dv_expires rec\<rparr>))"

definition already_decided :: oauth_error where
  "already_decided = protocolError ''invalid_request'' ''the request has already been decided''"

text \<open>The scopes a decision names are an option: nil asks for the requested set.\<close>

definition DecideDeviceAuthorization ::
  "('c, 't, 'd) service \<Rightarrow> time \<Rightarrow> string \<Rightarrow> string \<Rightarrow> bool \<Rightarrow> scope list option \<Rightarrow> scope list
   \<Rightarrow> ('c, 't, 'd) world \<Rightarrow> (oauth_error + unit) \<times> ('c, 't, 'd) world" where
  "DecideDeviceAuthorization sv now userCode subject approve scopes explicit w =
     (if subject = [] then (Inl (protocolError ''access_denied'' ''user is not authenticated''), w)
      else (case ds_get_by_user (sv_devices sv) userCode (w_devices w) of
          Inl e \<Rightarrow> (Inl (if errors_is e ErrDeviceNotFound then ErrDeviceNotFound else e), w)
        | Inr rec \<Rightarrow>
            if \<not> now < dv_expires rec then (Inl ErrDeviceNotFound, w)
            else if dv_status rec \<noteq> DevicePending then (Inl already_decided, w)
            else if \<not> approve then
              (case ds_decide (sv_devices sv) (dv_hash rec)
                      \<lparr>dd_status = DeviceDenied, dd_subject = [], dd_scopes = [], dd_explicit = []\<rparr>
                      (w_devices w) of
                 (Inl e, ds) \<Rightarrow> (Inl e, w\<lparr>w_devices := ds\<rparr>)
               | (Inr applied, ds) \<Rightarrow>
                   if \<not> applied then (Inl already_decided, w\<lparr>w_devices := ds\<rparr>)
                   else (Inr (), record_event ''oauth.device.deny'' subject (dv_client rec) OutcomeDenied
                           (w\<lparr>w_devices := ds\<rparr>)))
            else (case (case scopes of
                    None \<Rightarrow> Inr (dv_scopes rec)
                  | Some scs \<Rightarrow>
                      if scs = [] then
                        Inl (protocolError ''invalid_request'' ''an approval must grant at least one scope; omit scopes to grant the requested set'')
                      else if \<exists>sc \<in> set scs. \<not> List.member (dv_scopes rec) sc then
                        Inl (protocolError ''invalid_scope'' ''the decision cannot widen the requested scope'')
                      else Inr scs) of
                Inl e \<Rightarrow> (Inl e, w)
              | Inr granted \<Rightarrow> (case describeScopes sv w (dv_client rec) granted of
                  Inl e \<Rightarrow> (Inl e, w)
                | Inr (_, descriptors) \<Rightarrow> (case checkExplicit descriptors explicit of
                    Some e \<Rightarrow> (Inl e, w)
                  | None \<Rightarrow>
                      (case ds_decide (sv_devices sv) (dv_hash rec)
                              \<lparr>dd_status = DeviceApproved, dd_subject = subject, dd_scopes = granted,
                               dd_explicit = explicit\<rparr> (w_devices w) of
                         (Inl e, ds) \<Rightarrow> (Inl e, w\<lparr>w_devices := ds\<rparr>)
                       | (Inr applied, ds) \<Rightarrow>
                           if \<not> applied then (Inl already_decided, w\<lparr>w_devices := ds\<rparr>)
                           else (Inr (), record_event ''oauth.device.approve'' subject (dv_client rec) OutcomeOK
                                   (w\<lparr>w_devices := ds\<rparr>))))))))"

end
