(* ===== verification/OAuth_Grants.thy ===== *)
theory OAuth_Grants
  imports OAuth_Service
begin

text \<open>
  The grants view of \<^verbatim>\<open>src/oauth/grants.go\<close>: \<open>Grants\<close>, which derives what each client can
  still do from the live token records, \<open>unionScopes\<close>, and \<open>RevokeGrant\<close>.
  Go builds the view in a map and sorts it at the end, because neither the record order nor
  the map order is fixed; \<open>grants_fold\<close> is the loop body over one record.
  Shown: the view equals a specification that does not mention the loop (per client: the
  union of the scopes, the earliest issue, the latest expiry, whether a refresh token
  exists), so it does not depend on the order the store enumerates records in.
\<close>

section \<open>Definitions\<close>

record grant =
  g_client :: string
  g_name :: string
  g_scopes :: "scope list"
  HasRefresh :: bool
  g_issued :: time
  g_expires :: time

definition unionScopes :: "scope list \<Rightarrow> scope list \<Rightarrow> scope list" where
  "unionScopes a b = sorted_list_of_set (set a \<union> set b)"

definition grants_fold ::
  "time \<Rightarrow> grant_record \<Rightarrow> (string, grant) fmap \<Rightarrow> (string, grant) fmap" where
  "grants_fold now r byClient =
     (if \<not> now < gr_expires r then byClient
      else (let g = (case fmlookup byClient (gr_client r) of
                       Some g \<Rightarrow> g
                     | None \<Rightarrow> \<lparr>g_client = gr_client r, g_name = [], g_scopes = [], HasRefresh = False,
                                g_issued = gr_issued r, g_expires = gr_expires r\<rparr>)
            in fmupd (gr_client r)
                 (g\<lparr>g_scopes := unionScopes (g_scopes g) (gr_scopes r),
                    g_issued := (if gr_issued r < g_issued g then gr_issued r else g_issued g),
                    g_expires := (if g_expires g < gr_expires r then gr_expires r else g_expires g),
                    HasRefresh := (HasRefresh g \<or> gr_kind r = TokenKindRefresh)\<rparr>) byClient))"

definition Grants ::
  "('c, 't, 'd) service \<Rightarrow> time \<Rightarrow> string \<Rightarrow> ('c, 't, 'd) world \<Rightarrow> oauth_error + grant list" where
  "Grants sv now subject w =
     (if subject = [] then Inl (Plain ''oauth: subject is required'')
      else (case st_list_by_subject (sv_tokens sv) subject (w_tokens w) of
          Inl e \<Rightarrow> Inl e
        | Inr records \<Rightarrow>
            (let byClient = fold (grants_fold now) records fmempty;
                 ids = sorted_list_of_fset (fmdom byClient);
                 names = LookupClientNames (sv_clients sv) (w_clients w) ids
             in Inr (sort_key g_client
                  (map (\<lambda>g. g\<lparr>g_name := (case fmlookup names (g_client g) of None \<Rightarrow> [] | Some n \<Rightarrow> n)\<rparr>)
                    (fm_values byClient))))))"

definition RevokeGrant ::
  "('c, 't, 'd) service \<Rightarrow> string \<Rightarrow> string \<Rightarrow> ('c, 't, 'd) world
   \<Rightarrow> (oauth_error + unit) \<times> ('c, 't, 'd) world" where
  "RevokeGrant sv subject cid w =
     (if subject = [] \<or> cid = [] then
        (Inl (Plain ''oauth: subject and client id are required''), w)
      else (let w = bumpGrantEpoch subject cid w in
        case st_delete_by_subject_client (sv_tokens sv) subject cid (w_tokens w) of
          (Inl e, ts) \<Rightarrow> (Inl e, w\<lparr>w_tokens := ts\<rparr>)
        | (Inr _, ts) \<Rightarrow>
            (Inr (), record_event ''oauth.grant.revoke'' subject cid OutcomeOK (w\<lparr>w_tokens := ts\<rparr>))))"

text \<open>The specification of one client's entry, over the set of its live records.\<close>

definition live_for :: "time \<Rightarrow> string \<Rightarrow> grant_record list \<Rightarrow> grant_record set" where
  "live_for now cid rs = {r \<in> set rs. now < gr_expires r \<and> gr_client r = cid}"

definition grant_spec :: "time \<Rightarrow> string \<Rightarrow> grant_record list \<Rightarrow> grant option" where
  "grant_spec now cid rs =
     (let live = live_for now cid rs in
      if live = {} then None
      else Some \<lparr>g_client = cid, g_name = [],
                 g_scopes = sorted_list_of_set (\<Union>r \<in> live. set (gr_scopes r)),
                 HasRefresh = (\<exists>r \<in> live. gr_kind r = TokenKindRefresh),
                 g_issued = Min (gr_issued ` live), g_expires = Max (gr_expires ` live)\<rparr>)"

section \<open>The view is its specification\<close>

lemma if_less_min: "(if x < y then x else y) = min x (y :: 'a :: linorder)"
  by (auto simp: min_def)

lemma if_less_max: "(if y < x then x else y) = max x (y :: 'a :: linorder)"
  by (auto simp: max_def)

lemma finite_live_for [simp]: "finite (live_for now cid rs)"
  by (simp add: live_for_def)

lemma live_for_snoc:
  "live_for now cid (rs @ [r]) =
     (if now < gr_expires r \<and> gr_client r = cid then insert r (live_for now cid rs) else live_for now cid rs)"
  by (auto simp: live_for_def)

lemma live_for_empty_iff:
  "live_for now cid rs = {} \<longleftrightarrow> (\<forall>r \<in> set rs. now < gr_expires r \<longrightarrow> gr_client r \<noteq> cid)"
  by (auto simp: live_for_def)

lemma grant_spec_snoc_other:
  "\<not> (now < gr_expires r \<and> gr_client r = cid) \<Longrightarrow> grant_spec now cid (rs @ [r]) = grant_spec now cid rs"
  by (simp only: grant_spec_def live_for_snoc if_False)

lemma grants_fold_other:
  "\<not> (now < gr_expires r \<and> gr_client r = cid) \<Longrightarrow>
     fmlookup (grants_fold now r m) cid = fmlookup m cid"
  by (auto simp: grants_fold_def Let_def)

lemma grants_fold_first:
  assumes "now < gr_expires r" and "gr_client r = cid" and "fmlookup m cid = None" and "live_for now cid rs = {}"
  shows "fmlookup (grants_fold now r m) cid = grant_spec now cid (rs @ [r])"
  using assms by (simp add: grants_fold_def grant_spec_def live_for_snoc unionScopes_def)

lemma grants_fold_again:
  assumes "now < gr_expires r" and "gr_client r = cid" and "live_for now cid rs \<noteq> {}"
    and "fmlookup m cid = grant_spec now cid rs"
  shows "fmlookup (grants_fold now r m) cid = grant_spec now cid (rs @ [r])"
proof -
  let ?L = "live_for now cid rs"
  let ?S = "\<Union>x \<in> ?L. set (gr_scopes x)"
  have fin: "finite ?S" by simp
  have scopes: "unionScopes (sorted_list_of_set ?S) (gr_scopes r)
      = sorted_list_of_set (\<Union>x \<in> insert r ?L. set (gr_scopes x))"
    using fin by (simp add: unionScopes_def Un_commute)
  have issued: "(if gr_issued r < Min (gr_issued ` ?L) then gr_issued r else Min (gr_issued ` ?L))
      = Min (gr_issued ` insert r ?L)"
    unfolding if_less_min image_insert by (rule Min_insert [symmetric]) (use assms(3) in simp_all)
  have expires: "(if Max (gr_expires ` ?L) < gr_expires r then gr_expires r else Max (gr_expires ` ?L))
      = Max (gr_expires ` insert r ?L)"
    unfolding if_less_max image_insert by (rule Max_insert [symmetric]) (use assms(3) in simp_all)
  have kind: "((\<exists>x \<in> ?L. gr_kind x = TokenKindRefresh) \<or> gr_kind r = TokenKindRefresh)
      \<longleftrightarrow> (\<exists>x \<in> insert r ?L. gr_kind x = TokenKindRefresh)"
    by auto
  have "fmlookup m cid = Some \<lparr>g_client = cid, g_name = [], g_scopes = sorted_list_of_set ?S,
      HasRefresh = (\<exists>x \<in> ?L. gr_kind x = TokenKindRefresh),
      g_issued = Min (gr_issued ` ?L), g_expires = Max (gr_expires ` ?L)\<rparr>"
    using assms(3,4) by (simp add: grant_spec_def Let_def)
  with assms(1,2) have "fmlookup (grants_fold now r m) cid = Some \<lparr>g_client = cid, g_name = [],
      g_scopes = unionScopes (sorted_list_of_set ?S) (gr_scopes r),
      HasRefresh = ((\<exists>x \<in> ?L. gr_kind x = TokenKindRefresh) \<or> gr_kind r = TokenKindRefresh),
      g_issued = (if gr_issued r < Min (gr_issued ` ?L) then gr_issued r else Min (gr_issued ` ?L)),
      g_expires = (if Max (gr_expires ` ?L) < gr_expires r then gr_expires r else Max (gr_expires ` ?L))\<rparr>"
    by (simp add: grants_fold_def)
  moreover have "live_for now cid (rs @ [r]) = insert r ?L"
    using assms(1,2) by (simp only: live_for_snoc if_True simp_thms)
  ultimately show ?thesis
    by (simp only: scopes issued expires kind grant_spec_def Let_def insert_not_empty if_False)
qed

lemma grants_fold_spec:
  "fmlookup (fold (grants_fold now) rs fmempty) cid = grant_spec now cid rs"
proof (induction rs arbitrary: cid rule: rev_induct)
  case Nil
  then show ?case by (simp add: grant_spec_def live_for_def)
next
  case (snoc r rs)
  show ?case
  proof (cases "now < gr_expires r \<and> gr_client r = cid")
    case False
    with snoc.IH show ?thesis by (simp add: grants_fold_other grant_spec_snoc_other)
  next
    case True
    show ?thesis
    proof (cases "live_for now cid rs = {}")
      case empty: True
      then have "fmlookup (fold (grants_fold now) rs fmempty) cid = None"
        using snoc.IH [of cid] by (simp add: grant_spec_def)
      with True empty show ?thesis by (simp add: grants_fold_first)
    next
      case False
      with True snoc.IH [of cid] show ?thesis by (simp add: grants_fold_again)
    qed
  qed
qed

lemma grants_map_keys:
  "fmdom (fold (grants_fold now) rs fmempty) = Abs_fset (gr_client ` {r \<in> set rs. now < gr_expires r})"
proof -
  have "cid |\<in>| fmdom (fold (grants_fold now) rs fmempty) \<longleftrightarrow>
      cid \<in> gr_client ` {r \<in> set rs. now < gr_expires r}" for cid
    using grants_fold_spec [of now rs cid] live_for_empty_iff [of now cid rs]
    by (auto simp: fmlookup_dom_iff grant_spec_def Let_def live_for_def)
  then show ?thesis by (auto simp: fset_eq_iff Abs_fset_inverse)
qed

lemma grant_spec_client: "grant_spec now cid rs = Some g \<Longrightarrow> g_client g = cid \<and> g_name g = []"
  by (auto simp: grant_spec_def Let_def split: if_splits)

lemma Grants_view:
  assumes "subject \<noteq> []" and "st_list_by_subject (sv_tokens sv) subject (w_tokens w) = Inr rs"
  shows "\<exists>gs. Grants sv now subject w = Inr gs
     \<and> map g_client gs = sorted_list_of_set (gr_client ` {r \<in> set rs. now < gr_expires r})
     \<and> (\<forall>g \<in> set gs. grant_spec now (g_client g) rs = Some (g\<lparr>g_name := []\<rparr>))"
proof -
  let ?m = "fold (grants_fold now) rs fmempty"
  let ?named = "\<lambda>names g. g\<lparr>g_name := (case fmlookup names (g_client g) of None \<Rightarrow> [] | Some n \<Rightarrow> n)\<rparr>"
  obtain names where gs: "Grants sv now subject w = Inr (sort_key g_client (map (?named names) (fm_values ?m)))"
    using assms by (simp add: Grants_def Let_def)
  have keys: "fmlookup ?m k = Some g \<Longrightarrow> g_client g = k" for k g
    using grant_spec_client by (auto simp: grants_fold_spec)
  then have "map g_client (map (?named names) (fm_values ?m)) = sorted_list_of_fset (fmdom ?m)"
    by (simp add: comp_def fm_values_keys)
  also have "\<dots> = sorted_list_of_set (gr_client ` {r \<in> set rs. now < gr_expires r})"
    by (simp add: grants_map_keys sorted_list_of_fset.rep_eq Abs_fset_inverse)
  finally have cl: "map g_client (map (?named names) (fm_values ?m))
      = sorted_list_of_set (gr_client ` {r \<in> set rs. now < gr_expires r})" .
  then have sorted: "sort_key g_client (map (?named names) (fm_values ?m)) = map (?named names) (fm_values ?m)"
    by (intro sort_key_id_if_sorted) (simp only: cl sorted_sorted_list_of_set)
  have "grant_spec now (g_client g) rs = Some (g\<lparr>g_name := []\<rparr>)"
    if "g \<in> set (map (?named names) (fm_values ?m))" for g
  proof -
    from that obtain g0 k where g: "g = ?named names g0" and k: "fmlookup ?m k = Some g0"
      by (auto simp: set_fm_values)
    then show ?thesis using keys [OF k] grant_spec_client [of now k rs g0] by (simp add: grants_fold_spec)
  qed
  with gs cl sorted show ?thesis by auto
qed

end
