(* ===== verification/OAuth_Flow.thy ===== *)
theory OAuth_Flow
  imports OAuth_Grants
begin

text \<open>
  The authorization server run end to end on its in-memory stores, one request at a time.
  \<open>mem_wired\<close> says a service was built over \<open>MemoryClientRegistry\<close>, \<open>MemoryStore\<close> and
  \<open>MemoryDeviceStore\<close>. The lemmas \<open>Exchange_mem\<close> and \<open>Refresh_mem\<close> give the code and refresh
  endpoints in closed form; the properties follow from them.
\<close>

section \<open>Wiring\<close>

type_synonym mem_service = "(client_map, memory_store, memory_devices) service"
type_synonym mem_world = "(client_map, memory_store, memory_devices) world"

definition mem_wired :: "mem_service \<Rightarrow> bool" where
  "mem_wired sv \<longleftrightarrow>
     sv_clients sv = memory_registry \<and> sv_tokens sv = memory_token_store
     \<and> sv_devices sv = memory_device_store"

text \<open>The \<open>i\<close>-th token drawn from a tape, and the state after saving a pair.\<close>

definition draw :: "nat \<Rightarrow> tape \<Rightarrow> string" where
  "draw i t = base64_encode URLAlphabet (take 32 (drop (32 * i) t))"

definition access_of ::
  "('c, 't, 'd) service \<Rightarrow> time \<Rightarrow> string \<Rightarrow> string \<Rightarrow> scope list \<Rightarrow> string \<Rightarrow> access_token" where
  "access_of sv now cid subject scopes family =
     \<lparr>at_client = cid, at_subject = subject, at_scopes = scopes, at_family = family,
      at_issued = now, at_expires = now + atTTL sv\<rparr>"

definition refresh_of ::
  "('c, 't, 'd) service \<Rightarrow> time \<Rightarrow> string \<Rightarrow> string \<Rightarrow> scope list \<Rightarrow> string \<Rightarrow> refresh_token" where
  "refresh_of sv now cid subject scopes family =
     \<lparr>rt_client = cid, rt_subject = subject, rt_scopes = scopes, rt_family = family,
      rt_issued = now, rt_expires = now + rtTTL sv\<rparr>"

definition with_pair ::
  "mem_service \<Rightarrow> time \<Rightarrow> string \<Rightarrow> string \<Rightarrow> scope list \<Rightarrow> string \<Rightarrow> string \<Rightarrow> string
   \<Rightarrow> memory_store \<Rightarrow> memory_store" where
  "with_pair sv now cid subject scopes family at rt s =
     s\<lparr>ms_access := fmupd (TokenHash at) (access_of sv now cid subject scopes family) (ms_access s),
       ms_refresh := fmupd (TokenHash rt) (refresh_of sv now cid subject scopes family) (ms_refresh s)\<rparr>"

lemma mem_ops:
  assumes "mem_wired sv"
  shows "st_save_code (sv_tokens sv) = ms_save_code" "st_get_code (sv_tokens sv) = ms_get_code"
    "st_consume_code (sv_tokens sv) = ms_consume_code" "st_save_access (sv_tokens sv) = ms_save_access"
    "st_get_access (sv_tokens sv) = ms_get_access" "st_delete_access (sv_tokens sv) = ms_delete_access"
    "st_save_refresh (sv_tokens sv) = ms_save_refresh" "st_get_refresh (sv_tokens sv) = ms_get_refresh"
    "st_consume_refresh (sv_tokens sv) = (\<lambda>now. ms_consume_refresh (Some now))"
    "st_delete_refresh (sv_tokens sv) = ms_delete_refresh"
    "st_revoke_family (sv_tokens sv) = ms_revoke_refresh_family"
    "st_list_by_subject (sv_tokens sv) = ms_list_by_subject"
    "st_delete_by_subject_client (sv_tokens sv) = ms_delete_by_subject_client"
    "st_token_owner (sv_tokens sv) = ms_token_owner"
    "st_refresh_family (sv_tokens sv) = Some (\<lambda>now. ms_refresh_family (Some now))"
    "st_spent_owner (sv_tokens sv) = Some (\<lambda>now. ms_spent_refresh_owner (Some now))"
    "reg_get (sv_clients sv) = mr_get"
    "ds_save (sv_devices sv) = md_save" "ds_get (sv_devices sv) = md_get"
    "ds_get_by_user (sv_devices sv) = md_get_by_user" "ds_poll (sv_devices sv) = md_poll"
    "ds_decide (sv_devices sv) = md_decide" "ds_consume (sv_devices sv) = md_consume"
  using assms
  by (simp_all add: mem_wired_def memory_token_store_def memory_registry_def memory_device_store_def)

section \<open>Framing\<close>

lemma record_event_frame [simp]:
  "w_clients (record_event a s c k w) = w_clients w" "w_tokens (record_event a s c k w) = w_tokens w"
  "w_devices (record_event a s c k w) = w_devices w" "w_tape (record_event a s c k w) = w_tape w"
  "grantEpochs (record_event a s c k w) = grantEpochs w"
  by (simp_all add: record_event_def)

lemma grantEpoch_frame [simp]:
  "grantEpoch (w\<lparr>w_tokens := ts\<rparr>) s c = grantEpoch w s c"
  "grantEpoch (w\<lparr>w_devices := ds\<rparr>) s c = grantEpoch w s c"
  "grantEpoch (w\<lparr>w_tape := t\<rparr>) s c = grantEpoch w s c"
  "grantEpoch (record_event a s' c' k w) s c = grantEpoch w s c"
  by (simp_all add: grantEpoch_def)

lemma sv_client_frame [simp]:
  "sv_client sv (w\<lparr>w_tokens := ts\<rparr>) cid secret auth = sv_client sv w cid secret auth"
  "sv_client sv (w\<lparr>w_devices := ds\<rparr>) cid secret auth = sv_client sv w cid secret auth"
  "sv_client sv (w\<lparr>w_tape := t\<rparr>) cid secret auth = sv_client sv w cid secret auth"
  "sv_client sv (record_event a s c k w) cid secret auth = sv_client sv w cid secret auth"
  by (simp_all add: sv_client_def)

lemma guard_issued_same [simp]:
  "grantEpoch w subject cid = epoch \<Longrightarrow> guard_issued sv cid subject epoch resp w = (Inr resp, w)"
  by (simp add: guard_issued_def)

section \<open>Tokens drawn and pairs issued\<close>

lemma newToken_ok: "32 \<le> length t \<Longrightarrow> newToken t = (Inr (draw 0 t), drop 32 t)"
  by (simp add: newToken_def rand_read_def draw_def)

lemma newToken_short: "length t < 32 \<Longrightarrow> newToken t = (Inl ErrRandom, t)"
  by (simp add: newToken_def rand_read_def)

lemma draw_drop [simp]: "draw i (drop 32 t) = draw (Suc i) t"
  by (simp add: draw_def add.commute)

lemma draw_drop_64 [simp]: "draw 0 (drop 64 t) = draw 2 t"
  by (simp add: draw_def)

definition issue_need :: "string \<Rightarrow> nat" where
  "issue_need familyID = (if familyID = [] then 96 else 64)"

definition issue_family :: "string \<Rightarrow> tape \<Rightarrow> string" where
  "issue_family familyID t = (if familyID = [] then draw 2 t else familyID)"

definition issue_response :: "('c, 't, 'd) service \<Rightarrow> scope list \<Rightarrow> tape \<Rightarrow> token_response" where
  "issue_response sv scopes t =
     \<lparr>tr_access = draw 0 t, tr_type = ''Bearer'', tr_expires_in = atTTL sv div second,
      tr_refresh = draw 1 t, tr_scope = joinScopes scopes\<rparr>"

lemmas issue_defs = issue_def issue_draw_def issue_access_def issue_refresh_def

lemma issue_ok:
  assumes "mem_wired sv" and "issue_need familyID \<le> length (w_tape w)"
  shows "issue sv now cid subject scopes familyID w =
     (Inr (issue_response sv scopes (w_tape w)),
      record_event ''oauth.token'' subject cid OutcomeOK
        (w\<lparr>w_tape := drop (issue_need familyID) (w_tape w),
           w_tokens := with_pair sv now cid subject scopes (issue_family familyID (w_tape w))
             (draw 0 (w_tape w)) (draw 1 (w_tape w)) (w_tokens w)\<rparr>))"
  using assms
  by (simp add: issue_defs newToken_ok mem_ops store_simps issue_need_def issue_response_def
      issue_family_def with_pair_def access_of_def refresh_of_def Let_def split: if_split_asm)

lemma issue_short:
  assumes "mem_wired sv" and "length (w_tape w) < issue_need familyID"
  shows "\<exists>t. issue sv now cid subject scopes familyID w = (Inl ErrRandom, w\<lparr>w_tape := t\<rparr>)"
proof -
  consider "length (w_tape w) < 32" | "32 \<le> length (w_tape w)" "length (w_tape w) < 64"
    | "64 \<le> length (w_tape w)" "length (w_tape w) < 96" "familyID = []"
    using assms(2) by (cases "familyID = []"; simp add: issue_need_def; linarith)
  then show ?thesis
  proof cases
    case 1
    then show ?thesis by (intro exI [of _ "w_tape w"]) (simp add: issue_defs newToken_short)
  qed (auto simp: issue_defs newToken_ok newToken_short)
qed

section \<open>Closed forms of the token endpoints\<close>

text \<open>Run alone, the generation captured before the claim is still the current one after the mint.\<close>

lemma issueGuarded_alone:
  assumes "mem_wired sv" and "epoch = grantEpoch w subject cid"
  shows "issueGuarded sv now cid subject scopes familyID epoch w = issue sv now cid subject scopes familyID w"
proof (cases "issue_need familyID \<le> length (w_tape w)")
  case True
  with assms show ?thesis by (simp add: issueGuarded_def issue_ok)
next
  case False
  with assms issue_short [OF assms(1), of w familyID now cid subject scopes] show ?thesis
    by (auto simp: issueGuarded_def)
qed

lemma Exchange_mem:
  assumes "mem_wired sv"
  shows "Exchange sv now req w =
    (case sv_client sv w (cx_client req) (cx_secret req) True of
       Inl e \<Rightarrow> (Inl e, w)
     | Inr c \<Rightarrow> (case fmlookup (ms_codes (w_tokens w)) (TokenHash (cx_code req)) of
         None \<Rightarrow> (Inl code_unknown, w)
       | Some code \<Rightarrow> (case checkCodeBinding now c code req of
           Some e \<Rightarrow> (Inl e, record_event ''oauth.exchange_failed'' (ac_subject code) (c_id c) OutcomeDenied w)
         | None \<Rightarrow>
             issue sv now (c_id c) (ac_subject code) (ac_scopes code) []
               (w\<lparr>w_tokens := (w_tokens w)\<lparr>ms_codes :=
                  fmdrop (TokenHash (cx_code req)) (ms_codes (w_tokens w))\<rparr>\<rparr>))))"
  by (simp add: Exchange_def exchange_check_def exchange_claim_def mem_ops [OF assms] store_simps Let_def
      issueGuarded_alone [OF assms] split: sum.split option.split)

lemma refreshFamilyKey_mem:
  assumes "mem_wired sv"
  shows "\<exists>k. refreshFamilyKey sv now w v = Inr k"
  by (simp add: refreshFamilyKey_def mem_ops [OF assms] store_simps Let_def split: option.split)

definition narrowed :: "scope list \<Rightarrow> scope list \<Rightarrow> scope list" where
  "narrowed asked granted = (if asked = [] then granted else asked)"

lemma Refresh_mem:
  assumes "mem_wired sv"
  shows "Refresh sv now req w =
    (case sv_client sv w (rr_client req) (rr_secret req) True of
       Inl e \<Rightarrow> (Inl e, w)
     | Inr c \<Rightarrow> (case ms_token_owner (rr_token req) (w_tokens w) of
         Inr o' \<Rightarrow>
           if o' \<noteq> c_id c
           then (Inl (protocolError ''invalid_grant'' ''refresh token was issued to another client''), w)
           else (case refresh_act sv now c req w of
               (Inl e, w') \<Rightarrow> (Inl e, w')
             | (Inr (rt, scopes), w') \<Rightarrow> issue sv now (c_id c) (rt_subject rt) scopes (rt_family rt) w')
       | Inl _ \<Rightarrow> (case refresh_act sv now c req w of
               (Inl e, w') \<Rightarrow> (Inl e, w')
             | (Inr (rt, scopes), w') \<Rightarrow> issue sv now (c_id c) (rt_subject rt) scopes (rt_family rt) w')))"
proof -
  have guard: "issueGuarded sv now (c_id c) (rt_subject rt) scopes (rt_family rt)
        (case ms_get_refresh (rr_token req) (w_tokens w) of
           Inl _ \<Rightarrow> 0 | Inr held \<Rightarrow> grantEpoch w (rt_subject held) (c_id c)) w'
      = issue sv now (c_id c) (rt_subject rt) scopes (rt_family rt) w'"
    if "refresh_act sv now c req w = (Inr (rt, scopes), w')" for c rt scopes w'
  proof -
    from that have "ms_get_refresh (rr_token req) (w_tokens w) = Inr rt \<and> grantEpoch w' = grantEpoch w"
      by (auto simp: refresh_act_def mem_ops [OF assms] store_simps Let_def fun_eq_iff
          split: option.splits if_splits)
    then show ?thesis by (simp add: issueGuarded_alone [OF assms])
  qed
  obtain k where k: "refreshFamilyKey sv now w (rr_token req) = Inr k"
    using refreshFamilyKey_mem [OF assms] by blast
  have owner: "ms_token_owner (rr_token req) (w_tokens w) = Inl e \<Longrightarrow> e = ErrTokenNotFound" for e
    by (simp add: store_simps Let_def split: option.splits)
  show ?thesis
    using guard
    by (auto simp: Refresh_def refresh_check_def mem_ops [OF assms] k Let_def dest: owner
        split: sum.split prod.split)
qed

section \<open>Clients at the door\<close>

lemma errors_is_refl [simp]: "errors_is ErrClientNotFound ErrClientNotFound" "errors_is ErrTokenNotFound ErrTokenNotFound"
  by simp_all

lemma sv_client_mem:
  assumes "mem_wired sv"
  shows "sv_client sv w cid secret auth =
    (case fmlookup (w_clients w) cid of
       None \<Rightarrow> Inl (protocolError ''invalid_client'' ''invalid client credentials'')
     | Some c \<Rightarrow>
         if c_status c = ClientSuspended
            \<or> auth \<and> c_type c = ClientConfidential \<and> \<not> Authenticate c secret
         then Inl (protocolError ''invalid_client'' ''invalid client credentials'') else Inr c)"
  by (simp add: sv_client_def mem_ops [OF assms] mr_get_def split: option.split)

lemma sv_client_Inr:
  assumes "mem_wired sv" and "sv_client sv w cid secret auth = Inr c"
  shows "fmlookup (w_clients w) cid = Some c \<and> c_status c \<noteq> ClientSuspended"
  using assms(2) by (auto simp: sv_client_mem [OF assms(1)] split: option.splits if_splits)

section \<open>PKCE\<close>

lemma length_b64_sextets: "length (b64_sextets xs) = (4 * length xs + 2) div 3"
  by (induction xs rule: b64_sextets.induct) auto

lemma b64_char_url:
  assumes "n < 64"
  shows "is_upper (b64_char URLAlphabet n) \<or> is_lower (b64_char URLAlphabet n) \<or>
     is_digit (b64_char URLAlphabet n) \<or> b64_char URLAlphabet n = CHR ''-'' \<or>
     b64_char URLAlphabet n = CHR ''_''"
  using assms by (auto simp: b64_char_def char_in_def Let_def)

lemma validPKCEChallenge_encode:
  assumes "length s = 32"
  shows "validPKCEChallenge (base64_encode URLAlphabet s)"
proof -
  have "n < 64" if "n \<in> set (b64_sextets (map of_char s))" for n
    using b64_sextets_bound [of "map of_char s"] that of_char_less_256 by auto
  then show ?thesis
    using assms b64_char_url
    by (auto simp: validPKCEChallenge_def base64_encode_def length_b64_sextets)
qed

lemma verifyPKCE_challenge:
  "v \<noteq> [] \<Longrightarrow> verifyPKCE v (base64_encode URLAlphabet (sha256 v)) ''S256''"
  by (simp add: verifyPKCE_def validPKCEChallenge_encode length_sha256)

section \<open>Authorization\<close>

lemma resolveScopes_Inr:
  "resolveScopes sv c scopes = Inr (c', ds) \<longleftrightarrow>
     c' = c \<and> Resolve (sv_scopes sv) scopes (c_id c) = Inr ds \<and> (\<forall>sc \<in> set scopes. AllowsScope c sc)"
proof (cases "first_error (\<lambda>sc. if AllowsScope c sc then None
    else Some (protocolError ''invalid_scope'' (''client is not registered for '' @ sc))) scopes")
  case None
  then have "\<forall>sc \<in> set scopes. AllowsScope c sc"
    by (auto simp: first_error_None split: if_split_asm)
  with None show ?thesis by (auto simp: resolveScopes_def split: sum.splits)
next
  case (Some e)
  from first_error_Some [OF this] have "\<not> (\<forall>sc \<in> set scopes. AllowsScope c sc)"
    by (auto split: if_split_asm)
  with Some show ?thesis by (auto simp: resolveScopes_def split: sum.splits)
qed

lemma describe_Inr:
  "describe sv w req = Inr (c, ds) \<longleftrightarrow>
     sv_client sv w (ar_client req) [] False = Inr c
     \<and> AllowsRedirect (sv_parse sv) c (ar_redirect req) \<and> validPKCEChallenge (ar_challenge req)
     \<and> ar_method req = ''S256'' \<and> Resolve (sv_scopes sv) (ar_scopes req) (c_id c) = Inr ds
     \<and> (\<forall>sc \<in> set (ar_scopes req). AllowsScope c sc)"
  by (auto simp: describe_def resolveScopes_Inr split: sum.split)

lemma checkExplicit_None:
  "checkExplicit ds explicit = None \<longleftrightarrow>
     (\<forall>d \<in> set ds. ExplicitConsent d \<longrightarrow> d_scope d \<in> set explicit)"
  by (auto simp: checkExplicit_def first_error_None split: if_split_asm)

definition code_record :: "('c, 't, 'd) service \<Rightarrow> time \<Rightarrow> client \<Rightarrow> authorization_request \<Rightarrow> authorization_code" where
  "code_record sv now c req =
     \<lparr>ac_client = c_id c, ac_subject = ar_subject req, ac_scopes = ar_scopes req,
      ac_redirect = ar_redirect req, ac_challenge = ar_challenge req, ac_method = ar_method req,
      ac_expires = now + codeTTL sv\<rparr>"

lemma Authorize_Inr:
  assumes "mem_wired sv"
  shows "Authorize sv now req w = (Inr resp, w') \<longleftrightarrow>
     (\<exists>c ds. describe sv w req = Inr (c, ds) \<and> ar_subject req \<noteq> []
        \<and> checkExplicit ds (ar_explicit req) = None \<and> 32 \<le> length (w_tape w)
        \<and> resp = \<lparr>ax_code = draw 0 (w_tape w), ax_state = ar_state req, ax_redirect = ar_redirect req\<rparr>
        \<and> w' = record_event ''oauth.authorize'' (ar_subject req) (c_id c) OutcomeOK
             (w\<lparr>w_tape := drop 32 (w_tape w),
                w_tokens := (w_tokens w)\<lparr>ms_codes := fmupd (TokenHash (draw 0 (w_tape w)))
                  (code_record sv now c req) (ms_codes (w_tokens w))\<rparr>\<rparr>))"
  using newToken_ok [of "w_tape w"] newToken_short [of "w_tape w"]
  by (cases "32 \<le> length (w_tape w)")
     (auto simp: Authorize_def mem_ops [OF assms] store_simps code_record_def
       split: sum.split option.split)

section \<open>Code exchange\<close>

lemma Exchange_Inr:
  assumes "mem_wired sv" and "Exchange sv now req w = (Inr resp, w')"
  obtains c code where
    "sv_client sv w (cx_client req) (cx_secret req) True = Inr c"
    "fmlookup (ms_codes (w_tokens w)) (TokenHash (cx_code req)) = Some code"
    "checkCodeBinding now c code req = None"
    "96 \<le> length (w_tape w)"
    "resp = issue_response sv (ac_scopes code) (w_tape w)"
    "w_tokens w' = with_pair sv now (c_id c) (ac_subject code) (ac_scopes code) (draw 2 (w_tape w))
       (draw 0 (w_tape w)) (draw 1 (w_tape w))
       ((w_tokens w)\<lparr>ms_codes := fmdrop (TokenHash (cx_code req)) (ms_codes (w_tokens w))\<rparr>)"
    "w_clients w' = w_clients w"
proof -
  from assms obtain c code where c: "sv_client sv w (cx_client req) (cx_secret req) True = Inr c"
    and code: "fmlookup (ms_codes (w_tokens w)) (TokenHash (cx_code req)) = Some code"
    and bind: "checkCodeBinding now c code req = None"
    and iss: "issue sv now (c_id c) (ac_subject code) (ac_scopes code) []
       (w\<lparr>w_tokens := (w_tokens w)\<lparr>ms_codes :=
          fmdrop (TokenHash (cx_code req)) (ms_codes (w_tokens w))\<rparr>\<rparr>) = (Inr resp, w')" (is "issue _ _ _ _ _ _ ?w = _")
    by (auto simp: Exchange_mem split: sum.splits option.splits)
  have enough: "issue_need [] \<le> length (w_tape ?w)"
    using issue_short [OF assms(1), of ?w "[]" now "c_id c" "ac_subject code" "ac_scopes code"] iss
    by (cases "issue_need [] \<le> length (w_tape ?w)") auto
  from iss issue_ok [OF assms(1) enough] that [OF c code bind] enough show thesis
    by (auto simp: issue_need_def issue_family_def)
qed

lemma checkCodeBinding_None:
  "checkCodeBinding now c code req = None \<longleftrightarrow>
     now < ac_expires code \<and> ac_client code = c_id c \<and> ac_redirect code = cx_redirect req
     \<and> verifyPKCE (cx_verifier req) (ac_challenge code) (ac_method code)"
  by (simp add: checkCodeBinding_def)

lemma with_pair_lookup [simp]:
  "ms_codes (with_pair sv now cid sub scs fam at rt s) = ms_codes s"
  "ms_tombstones (with_pair sv now cid sub scs fam at rt s) = ms_tombstones s"
  "fmlookup (ms_access (with_pair sv now cid sub scs fam at rt s)) h =
     (if h = TokenHash at then Some (access_of sv now cid sub scs fam) else fmlookup (ms_access s) h)"
  "fmlookup (ms_refresh (with_pair sv now cid sub scs fam at rt s)) h =
     (if h = TokenHash rt then Some (refresh_of sv now cid sub scs fam) else fmlookup (ms_refresh s) h)"
  by (simp_all add: with_pair_def)

lemma issue_response_simps [simp]:
  "tr_access (issue_response sv scs t) = draw 0 t" "tr_refresh (issue_response sv scs t) = draw 1 t"
  "tr_scope (issue_response sv scs t) = joinScopes scs"
  by (simp_all add: issue_response_def)

lemma Exchange_spent_code:
  assumes "mem_wired sv" and "fmlookup (ms_codes (w_tokens w)) (TokenHash (cx_code req)) = None"
  shows "\<exists>e. Exchange sv now req w = (Inl e, w)"
  using assms by (simp add: Exchange_mem split: sum.split)

lemma Exchange_Inl:
  assumes "mem_wired sv" and "Exchange sv now req w = (Inl e, w')"
  shows "e = ErrRandom \<or> w_tokens w' = w_tokens w"
proof -
  have "e = ErrRandom" if "issue sv now cid sub scs fam v = (Inl e, w')" for cid sub scs fam v
  proof (cases "issue_need fam \<le> length (w_tape v)")
    case True
    from that issue_ok [OF assms(1) True] show ?thesis by simp
  next
    case False
    with that issue_short [OF assms(1), of v fam now cid sub scs] show ?thesis by auto
  qed
  with assms(2) show ?thesis
    by (auto simp: Exchange_mem [OF assms(1)] split: sum.splits option.splits)
qed

section \<open>Refresh\<close>

definition spend :: "string \<Rightarrow> refresh_token \<Rightarrow> memory_store \<Rightarrow> memory_store" where
  "spend v rt s =
     s\<lparr>ms_refresh := fmdrop (TokenHash v) (ms_refresh s),
       ms_tombstones := fmupd (TokenHash v) (retire rt) (ms_tombstones s)\<rparr>"

lemma refresh_act_Inr:
  assumes "mem_wired sv"
  shows "refresh_act sv now c req w = (Inr (rt, scopes), w') \<longleftrightarrow>
     fmlookup (ms_refresh (w_tokens w)) (TokenHash (rr_token req)) = Some rt
     \<and> now < rt_expires rt \<and> rt_client rt = c_id c
     \<and> set (rr_scopes req) \<subseteq> set (rt_scopes rt) \<and> scopes = narrowed (rr_scopes req) (rt_scopes rt)
     \<and> w' = w\<lparr>w_tokens := spend (rr_token req) rt (w_tokens w)\<rparr>"
  by (cases "fmlookup (ms_refresh (w_tokens w)) (TokenHash (rr_token req))")
     (auto simp: refresh_act_def mem_ops [OF assms] store_simps Let_def narrowed_def spend_def retire_def
       split: option.splits if_splits)

lemma Refresh_Inr:
  assumes "mem_wired sv" and "Refresh sv now req w = (Inr resp, w')"
  obtains c rt where
    "sv_client sv w (rr_client req) (rr_secret req) True = Inr c"
    "fmlookup (ms_refresh (w_tokens w)) (TokenHash (rr_token req)) = Some rt"
    "now < rt_expires rt" "rt_client rt = c_id c" "set (rr_scopes req) \<subseteq> set (rt_scopes rt)"
    "resp = issue_response sv (narrowed (rr_scopes req) (rt_scopes rt)) (w_tape w)"
    "w_tokens w' = with_pair sv now (c_id c) (rt_subject rt) (narrowed (rr_scopes req) (rt_scopes rt))
       (issue_family (rt_family rt) (w_tape w)) (draw 0 (w_tape w)) (draw 1 (w_tape w))
       (spend (rr_token req) rt (w_tokens w))"
proof -
  from assms obtain c rt scopes w1 where c: "sv_client sv w (rr_client req) (rr_secret req) True = Inr c"
    and act: "refresh_act sv now c req w = (Inr (rt, scopes), w1)"
    and iss: "issue sv now (c_id c) (rt_subject rt) scopes (rt_family rt) w1 = (Inr resp, w')"
    by (auto simp: Refresh_mem split: sum.splits prod.splits if_splits)
  have enough: "issue_need (rt_family rt) \<le> length (w_tape w1)"
    using issue_short [OF assms(1), of w1 "rt_family rt" now "c_id c" "rt_subject rt" scopes] iss
    by (cases "issue_need (rt_family rt) \<le> length (w_tape w1)") auto
  from act have rt: "fmlookup (ms_refresh (w_tokens w)) (TokenHash (rr_token req)) = Some rt"
    "now < rt_expires rt" "rt_client rt = c_id c" "set (rr_scopes req) \<subseteq> set (rt_scopes rt)"
    and w1: "scopes = narrowed (rr_scopes req) (rt_scopes rt)"
      "w1 = w\<lparr>w_tokens := spend (rr_token req) rt (w_tokens w)\<rparr>"
    by (simp_all add: refresh_act_Inr [OF assms(1)])
  from iss issue_ok [OF assms(1) enough, of now "c_id c" "rt_subject rt" scopes] w1
  show thesis by (intro that [OF c rt]) simp_all
qed

lemma narrowed_subset: "set asked \<subseteq> set granted \<Longrightarrow> set (narrowed asked granted) \<subseteq> set granted"
  by (simp add: narrowed_def)

lemma Refresh_replay:
  assumes wired: "mem_wired sv"
    and c: "sv_client sv w (rr_client req) (rr_secret req) True = Inr c"
    and spent: "fmlookup (ms_refresh (w_tokens w)) (TokenHash (rr_token req)) = None"
    and no_access: "fmlookup (ms_access (w_tokens w)) (TokenHash (rr_token req)) = None"
    and tomb: "fmlookup (ms_tombstones (w_tokens w)) (TokenHash (rr_token req)) = Some tomb"
    and armed: "now < tb_expires tomb"
  shows "Refresh sv now req w =
     (Inl refresh_unknown,
      record_event ''oauth.reuse_detected'' [] (c_id c) OutcomeDenied
        (w\<lparr>w_tokens := snd (ms_revoke_refresh_family (tb_family tomb) (w_tokens w))\<rparr>))"
proof -
  have "ms_token_owner (rr_token req) (w_tokens w) = Inl ErrTokenNotFound"
    using spent no_access by (simp add: store_simps)
  moreover have "refresh_act sv now c req w = (Inl refresh_unknown,
      record_event ''oauth.reuse_detected'' [] (c_id c) OutcomeDenied
        (w\<lparr>w_tokens := snd (ms_revoke_refresh_family (tb_family tomb) (w_tokens w))\<rparr>))"
    using spent tomb armed
    by (simp add: refresh_act_def mem_ops [OF wired] ms_consume_refresh_def ms_revoke_refresh_family_def)
  ultimately show ?thesis by (simp add: Refresh_mem [OF wired] c)
qed

lemma revoke_family_empties:
  assumes "f \<noteq> []" and "s' = snd (ms_revoke_refresh_family f s)"
  shows "fmlookup (ms_access s') h = Some a \<Longrightarrow> at_family a \<noteq> f"
    and "fmlookup (ms_refresh s') h = Some r \<Longrightarrow> rt_family r \<noteq> f"
    and "fmlookup (ms_tombstones s') h = Some b \<Longrightarrow> tb_family b \<noteq> f"
    and "ms_codes s' = ms_codes s"
  using assms by (auto simp: store_simps split: option.splits if_splits)

section \<open>Introspection and revocation\<close>

lemma Introspect_mem:
  assumes "mem_wired sv"
  shows "Introspect sv now v w =
    (case fmlookup (ms_access (w_tokens w)) (TokenHash v) of
       None \<Rightarrow> Inr inactive
     | Some at \<Rightarrow>
         if now < at_expires at
            \<and> (\<exists>c. fmlookup (w_clients w) (at_client at) = Some c \<and> c_status c \<noteq> ClientSuspended)
         then Inr \<lparr>ti_active = True, ti_subject = at_subject at, ti_client = at_client at,
                   ti_scopes = at_scopes at, ti_expires = at_expires at\<rparr>
         else Inr inactive)"
  by (simp add: Introspect_def mem_ops [OF assms] store_simps mr_get_def split: option.split)

lemma Revoke_mem:
  assumes "mem_wired sv" and "sv_client sv w (rv_client req) (rv_secret req) True = Inr c"
  shows "Revoke sv now req w =
    (if revocableOwner sv now w (rv_token req) = Inr (c_id c)
     then (Inr (), record_event ''oauth.revoke'' [] (c_id c) OutcomeOK
             (w\<lparr>w_tokens := snd (ms_delete_refresh (rv_token req)
                  (snd (ms_delete_access (rv_token req) (w_tokens w))))\<rparr>))
     else (Inr (), w))"
proof -
  have "revocableOwner sv now w (rv_token req) = Inl e \<Longrightarrow> e = ErrTokenNotFound" for e
    by (auto simp: revocableOwner_def mem_ops [OF assms(1)] store_simps Let_def split: option.splits if_splits)
  then show ?thesis
    using assms(2)
    by (auto simp: Revoke_def mem_ops [OF assms(1)] ms_delete_access_def ms_delete_refresh_def Let_def
        split: sum.split)
qed

lemma ms_list_clients:
  assumes "ms_list_by_subject subject s = Inr rs" and "x \<in> set rs"
  shows "(\<exists>h t. fmlookup (ms_access s) h = Some t \<and> at_subject t = subject \<and> at_client t = gr_client x)
     \<or> (\<exists>h t. fmlookup (ms_refresh s) h = Some t \<and> rt_subject t = subject \<and> rt_client t = gr_client x)"
proof -
  from assms consider t where "t \<in> set (fm_values (ms_access s))" "at_subject t = subject" "at_client t = gr_client x"
    | t where "t \<in> set (fm_values (ms_refresh s))" "rt_subject t = subject" "rt_client t = gr_client x"
    by (auto simp: ms_list_by_subject_def)
  then show ?thesis by cases (auto simp: set_fm_values)
qed

lemma RevokeGrant_mem:
  assumes "mem_wired sv" and "subject \<noteq> []" and "cid \<noteq> []"
  shows "RevokeGrant sv subject cid w =
     (Inr (), record_event ''oauth.grant.revoke'' subject cid OutcomeOK
        ((bumpGrantEpoch subject cid w)\<lparr>w_tokens :=
           snd (ms_revoke_tokens \<lparr>tf_client = cid, tf_subject = subject\<rparr> (w_tokens w))\<rparr>))"
  using assms ms_delete_is_revoke [of subject cid "w_tokens w"]
  by (simp add: RevokeGrant_def mem_ops [OF assms(1)] ms_delete_by_subject_client_def bumpGrantEpoch_def)

section \<open>A small deployment for the examples\<close>

text \<open>
  One public client with one redirect URI and one scope, a URL parser that sees an https URL,
  and a store holding one code, one refresh token and one tombstone.
\<close>

definition demo_client :: client where
  "demo_client =
     \<lparr>c_id = ''app'', c_name = ''App'', c_type = ClientPublic, c_status = ClientActive, c_created = 1,
      RedirectURIs = [''https://app''], AllowedScopes = [ScopeAccountID], AllowMissingPKCE = False,
      secretHash = []\<rparr>"

definition demo_descriptor :: descriptor where
  "demo_descriptor =
     \<lparr>d_scope = ScopeAccountID, d_title = ''Account'', d_description = [], d_risk = RiskLow,
      ExplicitConsent = False, AllowedClients = []\<rparr>"

definition demo_service :: mem_service where
  "demo_service =
     \<lparr>sv_clients = memory_registry, sv_tokens = memory_token_store, sv_devices = memory_device_store,
      sv_scopes = fmupd ScopeAccountID demo_descriptor fmempty, sv_issuer = ''https://as'',
      atTTL = 1000, rtTTL = 5000, codeTTL = 300, deviceTTL = 600, pollInterval = 5,
      verifyPath = ''/device'',
      sv_parse = (\<lambda>_. Some \<lparr>u_scheme = ''https'', u_opaque = [], u_user = False, u_host = ''app'',
                             u_hostname = ''app'', u_path = [], u_rawquery = [], u_fragment = []\<rparr>)\<rparr>"

definition demo_code :: authorization_code where
  "demo_code =
     \<lparr>ac_client = ''app'', ac_subject = ''user'', ac_scopes = [ScopeAccountID],
      ac_redirect = ''https://app'', ac_challenge = base64_encode URLAlphabet (sha256 ''verifier''),
      ac_method = ''S256'', ac_expires = 310\<rparr>"

definition demo_store :: memory_store where
  "demo_store =
     \<lparr>ms_codes = fmupd (TokenHash ''code'') demo_code fmempty, ms_access = fmempty,
      ms_refresh = fmupd (TokenHash ''live'')
        \<lparr>rt_client = ''app'', rt_subject = ''user'', rt_scopes = [ScopeAccountID], rt_family = ''fam'',
         rt_issued = 1, rt_expires = 100\<rparr> fmempty,
      ms_tombstones = fmempty\<rparr>"

definition demo_world :: mem_world where
  "demo_world =
     \<lparr>w_clients = fmupd ''app'' demo_client fmempty, w_tokens = demo_store,
      w_devices = NewMemoryDeviceStore, w_audit = [], w_tape = replicate 1000 (CHR ''r''),
      grantEpochs = fmempty\<rparr>"

definition demo_exchange :: code_exchange_request where
  "demo_exchange =
     \<lparr>cx_client = ''app'', cx_secret = [], cx_code = ''code'', cx_redirect = ''https://app'',
      cx_verifier = ''verifier''\<rparr>"

definition demo_authorize :: authorization_request where
  "demo_authorize =
     \<lparr>ar_client = ''app'', ar_redirect = ''https://app'', ar_subject = ''user'',
      ar_scopes = [ScopeAccountID], ar_explicit = [], ar_state = ''xyz'',
      ar_challenge = base64_encode URLAlphabet (sha256 ''verifier''), ar_method = ''S256''\<rparr>"

definition demo_refresh :: refresh_request where
  "demo_refresh = \<lparr>rr_client = ''app'', rr_secret = [], rr_token = ''live'', rr_scopes = []\<rparr>"

definition demo_revoke :: revoke_request where
  "demo_revoke = \<lparr>rv_client = ''app'', rv_secret = [], rv_token = ''live'', rv_hint = []\<rparr>"

lemma demo_authorize_sel:
  "ar_client demo_authorize = ''app''" "ar_redirect demo_authorize = ''https://app''"
  "ar_subject demo_authorize = ''user''" "ar_scopes demo_authorize = [ScopeAccountID]"
  "ar_explicit demo_authorize = []" "ar_state demo_authorize = ''xyz''"
  "ar_challenge demo_authorize = base64_encode URLAlphabet (sha256 ''verifier'')"
  "ar_method demo_authorize = ''S256''"
  by (simp_all add: demo_authorize_def)

lemma demo_exchange_sel:
  "cx_client demo_exchange = ''app''" "cx_secret demo_exchange = []" "cx_code demo_exchange = ''code''"
  "cx_redirect demo_exchange = ''https://app''" "cx_verifier demo_exchange = ''verifier''"
  by (simp_all add: demo_exchange_def)

lemma demo_numbers [simp]:
  "atTTL demo_service = 1000" "rtTTL demo_service = 5000" "codeTTL demo_service = 300"
  "deviceTTL demo_service = 600" "pollInterval demo_service = 5" "length (w_tape demo_world) = 1000"
  "w_tokens demo_world = demo_store" "w_clients demo_world = fmupd ''app'' demo_client fmempty"
  "w_devices demo_world = NewMemoryDeviceStore"
  by (simp_all add: demo_service_def demo_world_def)

lemma demo_client_id [simp]: "c_id demo_client = ''app''"
  by (simp add: demo_client_def)

lemma demo_wired [simp]: "mem_wired demo_service"
  by (simp add: mem_wired_def demo_service_def)

lemma demo_client_ok [simp]:
  "sv_client demo_service demo_world ''app'' secret auth = Inr demo_client"
  by (simp add: sv_client_mem demo_world_def demo_client_def)

lemma demo_exchange_ok:
  "fst (Exchange demo_service 10 demo_exchange demo_world)
     = Inr (issue_response demo_service [ScopeAccountID] (w_tape demo_world))"
proof -
  have "checkCodeBinding 10 demo_client demo_code demo_exchange = None"
    by (simp add: checkCodeBinding_None demo_client_def demo_code_def demo_exchange_def verifyPKCE_challenge)
  then show ?thesis
    by (simp add: Exchange_mem demo_exchange_def demo_client_ok issue_ok issue_need_def)
       (simp add: demo_world_def demo_store_def demo_code_def issue_ok issue_need_def)
qed

section \<open>Properties\<close>

text \<open>
  C2. Code exchange is sound: tokens are issued only to a client that passed authentication, for
  a stored code that has not expired, was issued to that client for that redirect URI and
  whose PKCE challenge the verifier meets; afterwards the code is gone, and the two returned
  values name records with the code's subject and scopes, the client, one common family, and
  the configured lifetimes.
\<close>
theorem exchange_sound:
  assumes "mem_wired sv" and "fst (Exchange sv now req w) = Inr resp"
  defines "s' \<equiv> w_tokens (snd (Exchange sv now req w))"
  shows "\<exists>c code fam. sv_client sv w (cx_client req) (cx_secret req) True = Inr c
     \<and> fmlookup (ms_codes (w_tokens w)) (TokenHash (cx_code req)) = Some code
     \<and> now < ac_expires code \<and> ac_client code = c_id c \<and> ac_redirect code = cx_redirect req
     \<and> verifyPKCE (cx_verifier req) (ac_challenge code) (ac_method code)
     \<and> fmlookup (ms_codes s') (TokenHash (cx_code req)) = None
     \<and> ms_get_access (tr_access resp) s'
          = Inr (access_of sv now (c_id c) (ac_subject code) (ac_scopes code) fam)
     \<and> ms_get_refresh (tr_refresh resp) s'
          = Inr (refresh_of sv now (c_id c) (ac_subject code) (ac_scopes code) fam)"
proof -
  have "Exchange sv now req w = (Inr resp, snd (Exchange sv now req w))"
    using assms(2) by (metis prod.collapse)
  from Exchange_Inr [OF assms(1) this] obtain c code where
    "sv_client sv w (cx_client req) (cx_secret req) True = Inr c"
    "fmlookup (ms_codes (w_tokens w)) (TokenHash (cx_code req)) = Some code"
    "checkCodeBinding now c code req = None"
    "resp = issue_response sv (ac_scopes code) (w_tape w)"
    "s' = with_pair sv now (c_id c) (ac_subject code) (ac_scopes code) (draw 2 (w_tape w))
       (draw 0 (w_tape w)) (draw 1 (w_tape w))
       ((w_tokens w)\<lparr>ms_codes := fmdrop (TokenHash (cx_code req)) (ms_codes (w_tokens w))\<rparr>)"
    unfolding s'_def by metis
  then show ?thesis
    by (intro exI [of _ c] exI [of _ code] exI [of _ "draw 2 (w_tape w)"])
       (simp add: checkCodeBinding_None ms_get_access_def ms_get_refresh_def)
qed

theorem exchange_sound_witness:
  "fst (Exchange demo_service 10 demo_exchange demo_world)
     = Inr (issue_response demo_service [ScopeAccountID] (w_tape demo_world))
   \<and> fmlookup (ms_codes (w_tokens (snd (Exchange demo_service 10 demo_exchange demo_world)))) (TokenHash ''code'')
     = None"
  using exchange_sound [OF demo_wired demo_exchange_ok] demo_exchange_ok
  by (auto simp: demo_exchange_def)

text \<open>
  A refused exchange spends nothing: unless the random source failed after the claim, an
  exchange that returns an error leaves every code and token as it was, so knowing a code is
  not enough to burn it.
\<close>
theorem exchange_refusal_spends_nothing:
  assumes "mem_wired sv" and "fst (Exchange sv now req w) = Inl e" and "e \<noteq> ErrRandom"
  shows "w_tokens (snd (Exchange sv now req w)) = w_tokens w"
  using Exchange_Inl [OF assms(1), of now req w e "snd (Exchange sv now req w)"] assms(2,3)
  by (metis prod.collapse)

theorem exchange_refusal_spends_nothing_witness:
  "w_tokens (snd (Exchange demo_service 10 (demo_exchange\<lparr>cx_redirect := ''https://evil''\<rparr>) demo_world))
     = demo_store"
proof -
  have "fst (Exchange demo_service 10 (demo_exchange\<lparr>cx_redirect := ''https://evil''\<rparr>) demo_world)
      = Inl (protocolError ''invalid_grant'' ''redirect_uri mismatch'')"
    by (simp add: Exchange_mem demo_exchange_def)
       (simp add: demo_world_def demo_store_def checkCodeBinding_def demo_client_def demo_code_def)
  from exchange_refusal_spends_nothing [OF demo_wired this] show ?thesis
    by (simp add: protocolError_def demo_world_def)
qed

text \<open>
  A code buys one token pair: after a successful exchange, every later exchange of the same
  code value, by any client at any time, is refused and changes nothing.
\<close>
theorem exchange_once:
  assumes "mem_wired sv" and "fst (Exchange sv now req w) = Inr resp" and "cx_code req' = cx_code req"
  shows "\<exists>e. Exchange sv now' req' (snd (Exchange sv now req w)) = (Inl e, snd (Exchange sv now req w))"
proof -
  have "Exchange sv now req w = (Inr resp, snd (Exchange sv now req w))"
    using assms(2) by (metis prod.collapse)
  then have "fmlookup (ms_codes (w_tokens (snd (Exchange sv now req w)))) (TokenHash (cx_code req)) = None"
    by (rule Exchange_Inr [OF assms(1)]) simp
  then show ?thesis using assms by (intro Exchange_spent_code) simp_all
qed

theorem exchange_once_witness:
  "\<exists>e. fst (Exchange demo_service 11 demo_exchange
        (snd (Exchange demo_service 10 demo_exchange demo_world))) = Inl e"
  using exchange_once [OF demo_wired demo_exchange_ok, of demo_exchange 11] by auto

text \<open>
  C19. Authorization is sound: a code is issued only for an authenticated user, an active client, a
  redirect URI that client registered, an S256 challenge of the right shape, and scopes that
  are all in the catalogue, open to this client and registered for it, with every scope that
  asks for explicit consent ticked; the stored record binds exactly those values.
\<close>
theorem authorize_sound:
  assumes "mem_wired sv" and "fst (Authorize sv now req w) = Inr resp"
  shows "\<exists>c. fmlookup (w_clients w) (ar_client req) = Some c \<and> c_status c \<noteq> ClientSuspended
     \<and> ar_subject req \<noteq> [] \<and> RegisteredRedirect (sv_parse sv) c (ar_redirect req) \<noteq> []
     \<and> validPKCEChallenge (ar_challenge req) \<and> ar_method req = ''S256''
     \<and> (\<forall>sc \<in> set (ar_scopes req). List.member (AllowedScopes c) sc \<and>
          (\<exists>d. fmlookup (sv_scopes sv) sc = Some d \<and> allowsClient d (c_id c)
             \<and> (ExplicitConsent d \<longrightarrow> d_scope d \<in> set (ar_explicit req))))
     \<and> ms_get_code (ax_code resp) (w_tokens (snd (Authorize sv now req w))) = Inr (code_record sv now c req)"
proof -
  have "Authorize sv now req w = (Inr resp, snd (Authorize sv now req w))"
    using assms(2) by (metis prod.collapse)
  then obtain c ds where d: "describe sv w req = Inr (c, ds)" and sub: "ar_subject req \<noteq> []"
    and ex: "checkExplicit ds (ar_explicit req) = None"
    and resp: "resp = \<lparr>ax_code = draw 0 (w_tape w), ax_state = ar_state req, ax_redirect = ar_redirect req\<rparr>"
    and w': "snd (Authorize sv now req w) = record_event ''oauth.authorize'' (ar_subject req) (c_id c) OutcomeOK
             (w\<lparr>w_tape := drop 32 (w_tape w),
                w_tokens := (w_tokens w)\<lparr>ms_codes := fmupd (TokenHash (draw 0 (w_tape w)))
                  (code_record sv now c req) (ms_codes (w_tokens w))\<rparr>\<rparr>)"
    unfolding Authorize_Inr [OF assms(1)] by blast
  from d have parts: "sv_client sv w (ar_client req) [] False = Inr c"
    "AllowsRedirect (sv_parse sv) c (ar_redirect req)" "validPKCEChallenge (ar_challenge req)"
    "ar_method req = ''S256''" "Resolve (sv_scopes sv) (ar_scopes req) (c_id c) = Inr ds"
    "\<forall>sc \<in> set (ar_scopes req). AllowsScope c sc"
    by (simp_all add: describe_Inr)
  have "\<exists>d. fmlookup (sv_scopes sv) sc = Some d \<and> allowsClient d (c_id c)
      \<and> (ExplicitConsent d \<longrightarrow> d_scope d \<in> set (ar_explicit req))" if "sc \<in> set (ar_scopes req)" for sc
    using Resolve_known [OF parts(5) that] ex by (auto simp: checkExplicit_None)
  with parts sv_client_Inr [OF assms(1) parts(1)] sub show ?thesis
    by (intro exI [of _ c]) (simp add: resp w' ms_get_code_def AllowsRedirect_def AllowsScope_def)
qed

lemma demo_authorize_ok:
  "fst (Authorize demo_service 10 demo_authorize demo_world)
     = Inr \<lparr>ax_code = draw 0 (w_tape demo_world), ax_state = ''xyz'', ax_redirect = ''https://app''\<rparr>"
proof -
  have "describe demo_service demo_world demo_authorize = Inr (demo_client, [demo_descriptor])"
    by (simp add: describe_Inr demo_authorize_sel validPKCEChallenge_encode length_sha256)
       (simp add: demo_service_def demo_client_def demo_descriptor_def AllowsRedirect_def
         RegisteredRedirect_def forbiddenRedirectScheme_def forbiddenRedirectSchemes_def to_lower_def
         lower_char_def char_in_def Resolve_def allowsClient_def AllowsScope_def)
  moreover have "checkExplicit [demo_descriptor] [] = None"
    by (simp add: checkExplicit_None demo_descriptor_def)
  moreover have "32 \<le> length (w_tape demo_world)" by (simp add: demo_world_def)
  ultimately have "\<exists>w'. Authorize demo_service 10 demo_authorize demo_world
      = (Inr \<lparr>ax_code = draw 0 (w_tape demo_world), ax_state = ''xyz'', ax_redirect = ''https://app''\<rparr>, w')"
    unfolding Authorize_Inr [OF demo_wired] by (auto simp: demo_authorize_sel)
  then show ?thesis by auto
qed

theorem authorize_sound_witness:
  "\<exists>c. fmlookup (w_clients demo_world) ''app'' = Some c \<and>
     ms_get_code (draw 0 (w_tape demo_world)) (w_tokens (snd (Authorize demo_service 10 demo_authorize demo_world)))
       = Inr (code_record demo_service 10 c demo_authorize)"
  using authorize_sound [OF demo_wired demo_authorize_ok]
  by (auto simp: demo_authorize_sel)

text \<open>
  C1. The code flow end to end: when an authorization was granted and the same client, properly
  authenticated, presents the code before it expires with the redirect URI and the verifier
  behind the challenge, and the random source delivers, the exchange succeeds and the access
  token it returns introspects as active with exactly the authorized user, client and scopes.
\<close>
theorem code_flow_end_to_end:
  assumes wired: "mem_wired sv" and "wf_clients (w_clients w)"
    and auth: "fst (Authorize sv now areq w) = Inr ares"
    and cl: "sv_client sv w (ar_client areq) (cx_secret req) True = Inr c"
    and "cx_client req = ar_client areq" "cx_code req = ax_code ares" "cx_redirect req = ar_redirect areq"
    and "ar_challenge areq = base64_encode URLAlphabet (sha256 (cx_verifier req))" "cx_verifier req \<noteq> []"
    and "now' < now + codeTTL sv" "0 < atTTL sv" "128 \<le> length (w_tape w)"
  shows "\<exists>resp. fst (Exchange sv now' req (snd (Authorize sv now areq w))) = Inr resp
     \<and> tr_scope resp = joinScopes (ar_scopes areq)
     \<and> Introspect sv now' (tr_access resp) (snd (Exchange sv now' req (snd (Authorize sv now areq w))))
         = Inr \<lparr>ti_active = True, ti_subject = ar_subject areq, ti_client = ar_client areq,
                ti_scopes = ar_scopes areq, ti_expires = now' + atTTL sv\<rparr>"
proof -
  let ?w1 = "snd (Authorize sv now areq w)"
  have "Authorize sv now areq w = (Inr ares, ?w1)" using auth by (metis prod.collapse)
  then obtain c' ds where d: "describe sv w areq = Inr (c', ds)"
    and ares: "ax_code ares = draw 0 (w_tape w)"
    and w1: "?w1 = record_event ''oauth.authorize'' (ar_subject areq) (c_id c') OutcomeOK
             (w\<lparr>w_tape := drop 32 (w_tape w),
                w_tokens := (w_tokens w)\<lparr>ms_codes := fmupd (TokenHash (draw 0 (w_tape w)))
                  (code_record sv now c' areq) (ms_codes (w_tokens w))\<rparr>\<rparr>)"
    unfolding Authorize_Inr [OF wired] by force
  have look: "fmlookup (w_clients w) (ar_client areq) = Some c" "c_status c \<noteq> ClientSuspended"
    using sv_client_Inr [OF wired cl] by simp_all
  with d have c': "c' = c" and meth: "ar_method areq = ''S256''"
    using sv_client_Inr [OF wired, of w "ar_client areq" "[]" False c'] by (auto simp: describe_Inr)
  have cid: "c_id c = ar_client areq" using assms(2) look by (auto simp: wf_clients_def)
  have client1: "sv_client sv ?w1 (cx_client req) (cx_secret req) True = Inr c"
    using cl assms(5) by (simp add: w1)
  have code1: "fmlookup (ms_codes (w_tokens ?w1)) (TokenHash (cx_code req)) = Some (code_record sv now c areq)"
    using assms(6) ares c' by (simp add: w1)
  have bind: "checkCodeBinding now' c (code_record sv now c areq) req = None"
    using assms(7-10) meth by (simp add: checkCodeBinding_None code_record_def verifyPKCE_challenge)
  define w2 where "w2 = ?w1\<lparr>w_tokens := (w_tokens ?w1)\<lparr>ms_codes :=
      fmdrop (TokenHash (cx_code req)) (ms_codes (w_tokens ?w1))\<rparr>\<rparr>"
  have "Exchange sv now' req ?w1 = issue sv now' (c_id c) (ar_subject areq) (ar_scopes areq) [] w2"
    using client1 code1 bind by (simp add: Exchange_mem [OF wired] w2_def code_record_def)
  moreover have "issue_need [] \<le> length (w_tape w2)"
    using assms(12) by (simp add: w2_def w1 issue_need_def)
  moreover have "w_clients w2 = w_clients w" by (simp add: w2_def w1)
  ultimately show ?thesis
    using look cid assms(11)
    by (simp add: issue_ok [OF wired] Introspect_mem [OF wired] access_of_def)
qed

theorem code_flow_end_to_end_witness:
  "\<exists>resp. fst (Exchange demo_service 20 (demo_exchange\<lparr>cx_code := draw 0 (w_tape demo_world)\<rparr>)
       (snd (Authorize demo_service 10 demo_authorize demo_world))) = Inr resp
     \<and> tr_scope resp = joinScopes [ScopeAccountID]"
proof -
  have "wf_clients (w_clients demo_world)"
    by (simp add: wf_clients_def wf_client_def demo_world_def demo_client_def)
  from code_flow_end_to_end [OF demo_wired this demo_authorize_ok, of
      "demo_exchange\<lparr>cx_code := draw 0 (w_tape demo_world)\<rparr>" demo_client 20]
  show ?thesis by (auto simp: demo_authorize_sel demo_exchange_sel)
qed

text \<open>
  C8. Rotation: a successful refresh had a live, unexpired token issued to the authenticated
  client; it retires that value (its tombstone names its family and owner), and the new pair
  stays with the same subject, client and family, with scopes inside the granted ones.
\<close>
theorem refresh_rotates:
  assumes "mem_wired sv" and "fst (Refresh sv now req w) = Inr resp"
  defines "s' \<equiv> w_tokens (snd (Refresh sv now req w))"
  shows "\<exists>c rt scopes fam. sv_client sv w (rr_client req) (rr_secret req) True = Inr c
     \<and> ms_get_refresh (rr_token req) (w_tokens w) = Inr rt
     \<and> now < rt_expires rt \<and> rt_client rt = c_id c
     \<and> set scopes \<subseteq> set (rt_scopes rt)
     \<and> scopes = (if rr_scopes req = [] then rt_scopes rt else rr_scopes req)
     \<and> (rt_family rt \<noteq> [] \<longrightarrow> fam = rt_family rt)
     \<and> fmlookup (ms_tombstones s') (TokenHash (rr_token req)) = Some (retire rt)
     \<and> ms_get_access (tr_access resp) s' = Inr (access_of sv now (c_id c) (rt_subject rt) scopes fam)
     \<and> ms_get_refresh (tr_refresh resp) s' = Inr (refresh_of sv now (c_id c) (rt_subject rt) scopes fam)
     \<and> (TokenHash (tr_refresh resp) \<noteq> TokenHash (rr_token req) \<longrightarrow>
          ms_get_refresh (rr_token req) s' = Inl ErrTokenNotFound)"
proof -
  have "Refresh sv now req w = (Inr resp, snd (Refresh sv now req w))"
    using assms(2) by (metis prod.collapse)
  from Refresh_Inr [OF assms(1) this] obtain c rt where
    "sv_client sv w (rr_client req) (rr_secret req) True = Inr c"
    "fmlookup (ms_refresh (w_tokens w)) (TokenHash (rr_token req)) = Some rt"
    "now < rt_expires rt" "rt_client rt = c_id c" and sub: "set (rr_scopes req) \<subseteq> set (rt_scopes rt)"
    "resp = issue_response sv (narrowed (rr_scopes req) (rt_scopes rt)) (w_tape w)"
    "s' = with_pair sv now (c_id c) (rt_subject rt) (narrowed (rr_scopes req) (rt_scopes rt))
       (issue_family (rt_family rt) (w_tape w)) (draw 0 (w_tape w)) (draw 1 (w_tape w))
       (spend (rr_token req) rt (w_tokens w))"
    unfolding s'_def by metis
  then show ?thesis
    using narrowed_subset [OF sub(1)]
    by (intro exI [of _ c] exI [of _ rt] exI [of _ "narrowed (rr_scopes req) (rt_scopes rt)"]
        exI [of _ "issue_family (rt_family rt) (w_tape w)"])
       (auto simp: ms_get_access_def ms_get_refresh_def spend_def issue_family_def narrowed_def)
qed

lemma demo_refresh_ok:
  "fst (Refresh demo_service 10 demo_refresh demo_world)
     = Inr (issue_response demo_service [ScopeAccountID] (w_tape demo_world))"
proof -
  have "refresh_act demo_service 10 demo_client demo_refresh demo_world
      = (Inr (\<lparr>rt_client = ''app'', rt_subject = ''user'', rt_scopes = [ScopeAccountID], rt_family = ''fam'',
         rt_issued = 1, rt_expires = 100\<rparr>, [ScopeAccountID]),
         demo_world\<lparr>w_tokens := spend ''live'' \<lparr>rt_client = ''app'', rt_subject = ''user'',
           rt_scopes = [ScopeAccountID], rt_family = ''fam'', rt_issued = 1, rt_expires = 100\<rparr> demo_store\<rparr>)"
    unfolding refresh_act_Inr [OF demo_wired]
    by (simp add: demo_refresh_def demo_store_def demo_client_def narrowed_def)
  moreover have "ms_token_owner ''live'' demo_store = Inr ''app''"
    by (simp add: ms_token_owner_def demo_store_def)
  ultimately show ?thesis
    by (simp add: Refresh_mem demo_refresh_def issue_ok issue_need_def)
qed

theorem refresh_rotates_witness:
  "\<exists>rt. ms_get_refresh ''live'' demo_store = Inr rt
     \<and> fmlookup (ms_tombstones (w_tokens (snd (Refresh demo_service 10 demo_refresh demo_world)))) (TokenHash ''live'')
         = Some (retire rt)
     \<and> ms_get_access (draw 0 (w_tape demo_world)) (w_tokens (snd (Refresh demo_service 10 demo_refresh demo_world)))
         = Inr (access_of demo_service 10 ''app'' ''user'' [ScopeAccountID] ''fam'')"
  using refresh_rotates [OF demo_wired demo_refresh_ok]
  by (auto simp: demo_refresh_def ms_get_refresh_def demo_store_def)

text \<open>
  C9. Replay response: presenting a spent refresh value while its tombstone is armed is refused
  with \<^verbatim>\<open>invalid_grant\<close>, audited, and leaves no access token, refresh token or tombstone of
  its family; codes and the records of other families stay.
\<close>
theorem replay_revokes_family:
  assumes "mem_wired sv" and "sv_client sv w (rr_client req) (rr_secret req) True = Inr c"
    and "ms_token_owner (rr_token req) (w_tokens w) = Inl ErrTokenNotFound"
    and "fmlookup (ms_tombstones (w_tokens w)) (TokenHash (rr_token req)) = Some tomb"
    and "now < tb_expires tomb" and fam: "tb_family tomb \<noteq> []"
  defines "s' \<equiv> w_tokens (snd (Refresh sv now req w))"
  shows "fst (Refresh sv now req w) = Inl refresh_unknown
     \<and> (\<forall>h t. fmlookup (ms_access s') h = Some t \<longleftrightarrow>
          fmlookup (ms_access (w_tokens w)) h = Some t \<and> at_family t \<noteq> tb_family tomb)
     \<and> (\<forall>h t. fmlookup (ms_refresh s') h = Some t \<longleftrightarrow>
          fmlookup (ms_refresh (w_tokens w)) h = Some t \<and> rt_family t \<noteq> tb_family tomb)
     \<and> (\<forall>h b. fmlookup (ms_tombstones s') h = Some b \<longleftrightarrow>
          fmlookup (ms_tombstones (w_tokens w)) h = Some b \<and> tb_family b \<noteq> tb_family tomb)
     \<and> ms_codes s' = ms_codes (w_tokens w)"
proof -
  from assms(3) have "fmlookup (ms_access (w_tokens w)) (TokenHash (rr_token req)) = None"
    "fmlookup (ms_refresh (w_tokens w)) (TokenHash (rr_token req)) = None"
    by (auto simp: ms_token_owner_def Let_def split: option.splits)
  note r = Refresh_replay [OF assms(1,2) this(2,1) assms(4,5)]
  have s': "s' = snd (ms_revoke_refresh_family (tb_family tomb) (w_tokens w))"
    by (simp add: s'_def r)
  show ?thesis
    unfolding s' using fam by (auto simp: r ms_revoke_refresh_family_def split: option.splits if_splits)
qed

theorem replay_revokes_family_witness:
  "fst (Refresh demo_service 20 demo_refresh
      (demo_world\<lparr>w_tokens := spend ''live'' sample_refresh demo_store\<rparr>)) = Inl refresh_unknown"
  using replay_revokes_family [OF demo_wired, of
      "demo_world\<lparr>w_tokens := spend ''live'' sample_refresh demo_store\<rparr>" demo_refresh demo_client
      "retire sample_refresh" 20]
  by (simp add: demo_refresh_def spend_def demo_store_def ms_token_owner_def sample_refresh_def retire_def)

text \<open>
  Revocation is uniform and owner-only: an authenticated client always gets success. If the
  value (live, or spent but remembered) is its own, the value is gone in every form, and the
  access token introspects as inactive; otherwise nothing at all changes.
\<close>
theorem revoke_owner_only:
  assumes "mem_wired sv" and "sv_client sv w (rv_client req) (rv_secret req) True = Inr c"
  shows "fst (Revoke sv now req w) = Inr ()
     \<and> (revocableOwner sv now w (rv_token req) \<noteq> Inr (c_id c) \<longrightarrow> snd (Revoke sv now req w) = w)
     \<and> (revocableOwner sv now w (rv_token req) = Inr (c_id c) \<longrightarrow>
          Introspect sv now' (rv_token req) (snd (Revoke sv now req w)) = Inr inactive
          \<and> fst (ms_consume_refresh clock (rv_token req) (w_tokens (snd (Revoke sv now req w))))
              = Inl ErrTokenNotFound)"
  by (simp add: Revoke_mem [OF assms] Introspect_mem [OF assms(1)] ms_delete_access_def
      ms_delete_refresh_def ms_consume_refresh_def Let_def)

theorem revoke_owner_only_witness:
  "fst (Revoke demo_service 10 demo_revoke demo_world) = Inr ()
   \<and> fst (ms_consume_refresh None ''live'' (w_tokens (snd (Revoke demo_service 10 demo_revoke demo_world))))
       = Inl ErrTokenNotFound"
  using revoke_owner_only [OF demo_wired, of demo_world demo_revoke demo_client 10 20 None]
  by (simp add: demo_revoke_def revocableOwner_def mem_ops [OF demo_wired] ms_token_owner_def demo_store_def)

text \<open>
  Introspection: a token is active exactly while its record exists, has not expired and its
  client is registered and not suspended; it never answers an error, an inactive answer carries
  nothing, and sweeping expired records earlier never changes the answer.
\<close>
theorem introspect_exact:
  assumes "mem_wired sv"
  shows "(\<exists>i. Introspect sv now v w = Inr i \<and>
       (if \<exists>t c. fmlookup (ms_access (w_tokens w)) (TokenHash v) = Some t \<and> now < at_expires t
             \<and> fmlookup (w_clients w) (at_client t) = Some c \<and> c_status c \<noteq> ClientSuspended
        then ti_active i else i = inactive))
     \<and> (swept \<le> now \<longrightarrow>
          Introspect sv now v (w\<lparr>w_tokens := snd (ms_sweep_expired swept (w_tokens w))\<rparr>) = Introspect sv now v w)"
  by (auto simp: Introspect_mem [OF assms] ms_sweep_expired_def split: option.split)

theorem introspect_exact_witness:
  "Introspect demo_service 50 ''x'' (demo_world\<lparr>w_tokens := snd (ms_sweep_expired 40 demo_store)\<rparr>)
     = Introspect demo_service 50 ''x'' demo_world"
  using introspect_exact [OF demo_wired, of 50 "''x''" demo_world 40] by simp

text \<open>
  C25. The grants view is exact, whatever order the store lists its records in: one entry per
  client with a live record, in client order, and each entry is the specified summary of
  that client's live records (union of scopes, earliest issue, latest expiry, whether it
  can refresh), its name apart. Expired records contribute nothing.
\<close>
theorem grants_exact:
  assumes "subject \<noteq> []" and "st_list_by_subject (sv_tokens sv) subject (w_tokens w) = Inr rs"
  shows "\<exists>gs. Grants sv now subject w = Inr gs
     \<and> map g_client gs = sorted_list_of_set (gr_client ` {r \<in> set rs. now < gr_expires r})
     \<and> (\<forall>g \<in> set gs. grant_spec now (g_client g) rs = Some (g\<lparr>g_name := []\<rparr>))"
  using Grants_view [OF assms] .

theorem grants_exact_witness:
  "\<exists>gs. Grants demo_service 10 ''user'' demo_world = Inr gs \<and> map g_client gs = [''app'']"
proof -
  have "st_list_by_subject (sv_tokens demo_service) ''user'' (w_tokens demo_world)
      = Inr [\<lparr>gr_kind = TokenKindRefresh, gr_client = ''app'', gr_scopes = [ScopeAccountID], gr_issued = 1,
              gr_expires = 100\<rparr>]"
    by (simp add: mem_ops [OF demo_wired] ms_list_by_subject_def demo_store_def fm_values_def
        sorted_list_of_fmap_def sorted_list_of_fset.rep_eq)
  from grants_exact [OF _ this, of 10] show ?thesis by (auto simp: Collect_conv_if)
qed

text \<open>
  C24. Revoking a grant removes every access token, refresh token, unspent code and tombstone of
  that user and client and nothing else, advances that grant's generation, so a request that
  captured the old one is caught, and the client disappears from the user's grants view.
\<close>
theorem revoke_grant_complete:
  fixes w :: mem_world
  assumes "mem_wired sv" and "subject \<noteq> []" and "cid \<noteq> []"
  defines "w' \<equiv> snd (RevokeGrant sv subject cid w)"
  shows "fst (RevokeGrant sv subject cid w) = Inr ()
     \<and> (fmlookup (ms_access (w_tokens w')) h = Some t \<longleftrightarrow>
          fmlookup (ms_access (w_tokens w)) h = Some t \<and> \<not> (at_subject t = subject \<and> at_client t = cid))
     \<and> (fmlookup (ms_refresh (w_tokens w')) h = Some u \<longleftrightarrow>
          fmlookup (ms_refresh (w_tokens w)) h = Some u \<and> \<not> (rt_subject u = subject \<and> rt_client u = cid))
     \<and> (fmlookup (ms_codes (w_tokens w')) h = Some k \<longleftrightarrow>
          fmlookup (ms_codes (w_tokens w)) h = Some k \<and> \<not> (ac_subject k = subject \<and> ac_client k = cid))
     \<and> (fmlookup (ms_tombstones (w_tokens w')) h = Some b \<longleftrightarrow>
          fmlookup (ms_tombstones (w_tokens w)) h = Some b \<and> \<not> (tb_subject b = subject \<and> tb_client b = cid))
     \<and> grantEpoch w' subject cid = grantEpoch w subject cid + 1
     \<and> grantEpoch w' subject cid \<noteq> grantEpoch w subject cid
     \<and> (\<exists>gs. Grants sv now subject w' = Inr gs \<and> cid \<notin> g_client ` set gs)"
proof -
  note r = RevokeGrant_mem [OF assms(1-3), of w]
  have tok: "w_tokens w' = snd (ms_revoke_tokens \<lparr>tf_client = cid, tf_subject = subject\<rparr> (w_tokens w))"
    by (simp add: w'_def r)
  have m: "Matches \<lparr>tf_client = cid, tf_subject = subject\<rparr> c s \<longleftrightarrow> s = subject \<and> c = cid" for c s
    using assms(2,3) by (auto simp: Matches_def)
  have ep: "grantEpoch w' subject cid = grantEpoch w subject cid + 1"
    by (simp add: w'_def r) (simp add: grantEpoch_def bumpGrantEpoch_def)
  obtain rs where rs: "st_list_by_subject (sv_tokens sv) subject (w_tokens w') = Inr rs"
    by (simp add: mem_ops [OF assms(1)] ms_list_by_subject_def)
  then have out: "gr_client x \<noteq> cid" if "x \<in> set rs" for x
    using ms_list_clients [of subject "w_tokens w'" rs x] that
    by (auto simp: mem_ops [OF assms(1)] tok m ms_revoke_tokens_live)
  from Grants_view [OF assms(2) rs, of now] obtain gs where gs: "Grants sv now subject w' = Inr gs"
    and keys: "map g_client gs = sorted_list_of_set (gr_client ` {r \<in> set rs. now < gr_expires r})"
    by blast
  have "g_client ` set gs = gr_client ` {r \<in> set rs. now < gr_expires r}"
    using arg_cong [OF keys, of set] by simp
  with out have "cid \<notin> g_client ` set gs" by auto
  with gs ep show ?thesis by (simp add: tok ms_revoke_tokens_live m r)
qed

theorem revoke_grant_complete_witness:
  "fst (RevokeGrant demo_service ''user'' ''app'' demo_world) = Inr ()
   \<and> fmlookup (ms_codes (w_tokens (snd (RevokeGrant demo_service ''user'' ''app'' demo_world)))) (TokenHash ''code'')
       \<noteq> Some demo_code"
  using revoke_grant_complete [OF demo_wired, of "''user''" "''app''" demo_world "TokenHash ''code''" _ _ demo_code]
  by (simp add: demo_code_def)

text \<open>
  Client refusals are uniform: whether the client is unknown, suspended or presented a wrong
  secret, the answer is the same \<^verbatim>\<open>invalid_client\<close>; and the credential check passes exactly for a
  registered, active, confidential client whose secret verifies.
\<close>
theorem client_refusals_uniform:
  assumes "mem_wired sv"
  shows "(sv_client sv w cid secret auth = Inl e \<longrightarrow>
        e = protocolError ''invalid_client'' ''invalid client credentials'')
     \<and> (AuthenticateClient sv w cid secret = Inr () \<longleftrightarrow>
        (\<exists>c. fmlookup (w_clients w) cid = Some c \<and> c_status c \<noteq> ClientSuspended
           \<and> c_type c = ClientConfidential \<and> Authenticate c secret))"
  by (auto simp: AuthenticateClient_def sv_client_mem [OF assms] split: option.splits if_splits)

theorem client_refusals_uniform_witness:
  "AuthenticateClient demo_service demo_world ''app'' ''guess'' \<noteq> Inr ()"
  using client_refusals_uniform [OF demo_wired, of demo_world "''app''" "''guess''"]
  by (simp add: demo_client_def)

end
