(* ===== verification/OAuth_Device_Flow.thy ===== *)
theory OAuth_Device_Flow
  imports OAuth_Flow
begin

text \<open>
  The device flow of \<^verbatim>\<open>src/oauth/device.go\<close> run on the in-memory stores: what the begin
  endpoint stores, what a decision may change, what each poll answers, and the whole flow end
  to end. The last section shows what a grant revocation does not reach.
\<close>

section \<open>Starting a request\<close>

lemma freeUserCode_frame: "\<exists>t. snd (freeUserCode n sv w) = w\<lparr>w_tape := t\<rparr>"
proof (induction n arbitrary: w)
  case 0
  then show ?case by (intro exI [of _ "w_tape w"]) simp
next
  case (Suc n)
  obtain r t where nu: "newUserCode (w_tape w) = (r, t)" by (cases "newUserCode (w_tape w)")
  from Suc.IH [of "w\<lparr>w_tape := t\<rparr>"] obtain t' where "snd (freeUserCode n sv (w\<lparr>w_tape := t\<rparr>)) = w\<lparr>w_tape := t'\<rparr>"
    by auto
  with nu show ?case by (auto split: sum.split)
qed

lemma saveDeviceAuthorization_Inr:
  assumes "mem_wired sv"
  shows "saveDeviceAuthorization n sv code base w = (Inr uc, w') \<Longrightarrow>
     \<exists>t ds. md_save code (base\<lparr>dv_user_code := uc\<rparr>) (w_devices w) = (Inr (), ds)
       \<and> w' = w\<lparr>w_tape := t, w_devices := ds\<rparr>"
proof (induction n arbitrary: w)
  case (Suc n)
  obtain r where fc: "freeUserCode 8 sv w = (r, snd (freeUserCode 8 sv w))" by (metis prod.collapse)
  obtain t where t: "snd (freeUserCode 8 sv w) = w\<lparr>w_tape := t\<rparr>" using freeUserCode_frame by blast
  from Suc.prems fc t obtain u where r: "r = Inr u" by (cases r) auto
  let ?s = "md_save code (base\<lparr>dv_user_code := u\<rparr>) (w_devices w)"
  show ?case
  proof (cases "fst ?s")
    case (Inl e)
    then have same: "snd ?s = w_devices w" by (auto simp: md_save_def Let_def split: if_splits)
    from Inl have "?s = (Inl e, w_devices w)" using same by (metis prod.collapse)
    with Suc.prems fc t r have "saveDeviceAuthorization n sv code base (w\<lparr>w_tape := t\<rparr>) = (Inr uc, w')"
      by (auto simp: mem_ops [OF assms] split: if_splits)
    from Suc.IH [OF this] show ?thesis by auto
  next
    case (Inr x)
    then obtain devs where "?s = (Inr (), devs)" by (cases ?s) auto
    with Suc.prems fc t r show ?thesis by (auto simp: mem_ops [OF assms])
  qed
qed simp

definition begun :: "('c, 't, 'd) service \<Rightarrow> time \<Rightarrow> client \<Rightarrow> device_request \<Rightarrow> string \<Rightarrow> device_record" where
  "begun sv now c req uc =
     \<lparr>dv_hash = [], dv_user_code = uc, dv_client = c_id c, dv_scopes = dr_scopes req,
      dv_status = DevicePending, dv_subject = [], dv_explicit = [], dv_expires = now + deviceTTL sv,
      dv_last_poll = 0\<rparr>"

lemma Begin_Inr:
  assumes "mem_wired sv" and "BeginDeviceAuthorization sv now req w = (Inr resp, w')"
  obtains c ds devs where "dr_scopes req \<noteq> []"
    "describeAuthenticatedScopes sv w (dr_client req) (dr_secret req) (dr_scopes req) = Inr (c, ds)"
    "md_save (dx_device_code resp) (begun sv now c req (dx_user_code resp)) (w_devices w) = (Inr (), devs)"
    "w_devices w' = devs" "w_clients w' = w_clients w"
proof -
  from assms(2) obtain c ds dc t uc w1 where *: "dr_scopes req \<noteq> []"
    "describeAuthenticatedScopes sv w (dr_client req) (dr_secret req) (dr_scopes req) = Inr (c, ds)"
    and save: "saveDeviceAuthorization 8 sv dc (begun sv now c req []) (w\<lparr>w_tape := t\<rparr>) = (Inr uc, w1)"
    and out: "dx_device_code resp = dc" "dx_user_code resp = uc"
      "w' = record_event ''oauth.device.begin'' [] (c_id c) OutcomeOK w1"
    by (auto simp: BeginDeviceAuthorization_def begun_def Let_def split: if_splits sum.splits prod.splits)
  have base: "(begun sv now c req [])\<lparr>dv_user_code := uc\<rparr> = begun sv now c req uc"
    by (simp add: begun_def)
  from saveDeviceAuthorization_Inr [OF assms(1) save] base obtain t' devs where
    "md_save dc (begun sv now c req uc) (w_devices w) = (Inr (), devs)"
    "w1 = w\<lparr>w_tape := t', w_devices := devs\<rparr>" by auto
  with * out that show thesis by auto
qed

lemma md_save_Inr:
  "md_save code d s = (Inr (), s') \<Longrightarrow>
     fmlookup (byDev s') (TokenHash code) = Some (d\<lparr>dv_hash := TokenHash code\<rparr>)
     \<and> fmlookup (byUser s') (NormalizeUserCode (dv_user_code d)) = Some (TokenHash code)"
  by (auto simp: md_save_def Let_def split: if_splits)

section \<open>Deciding\<close>

definition decided :: "device_record \<Rightarrow> string \<Rightarrow> scope list \<Rightarrow> scope list \<Rightarrow> device_record" where
  "decided rec subject granted explicit =
     rec\<lparr>dv_status := DeviceApproved, dv_subject := subject, dv_scopes := granted, dv_explicit := explicit\<rparr>"

lemma Decide_approve:
  assumes wired: "mem_wired sv" and wf: "wf_devices (w_devices w)"
  shows "DecideDeviceAuthorization sv now uc subject True scopes explicit w = (Inr (), w') \<longleftrightarrow>
     (\<exists>rec granted c ds. subject \<noteq> [] \<and> md_get_by_user uc (w_devices w) = Inr rec
        \<and> now < dv_expires rec \<and> dv_status rec = DevicePending
        \<and> (case scopes of None \<Rightarrow> granted = dv_scopes rec
           | Some scs \<Rightarrow> granted = scs \<and> scs \<noteq> [] \<and> set scs \<subseteq> set (dv_scopes rec))
        \<and> describeScopes sv w (dv_client rec) granted = Inr (c, ds)
        \<and> checkExplicit ds explicit = None
        \<and> w' = record_event ''oauth.device.approve'' subject (dv_client rec) OutcomeOK
             (w\<lparr>w_devices := (w_devices w)\<lparr>byDev :=
                fmupd (dv_hash rec) (decided rec subject granted explicit) (byDev (w_devices w))\<rparr>\<rparr>))"
proof (cases "md_get_by_user uc (w_devices w)")
  case (Inl e)
  then show ?thesis by (simp add: DecideDeviceAuthorization_def mem_ops [OF wired])
next
  case (Inr rec)
  then obtain h where "fmlookup (byDev (w_devices w)) h = Some rec"
    using md_get_by_user_Inr [OF wf] by auto
  with wf_devicesD(1) [OF wf this] have here: "fmlookup (byDev (w_devices w)) (dv_hash rec) = Some rec" by simp
  show ?thesis
    using Inr here
    by (auto simp: DecideDeviceAuthorization_def mem_ops [OF wired] md_decide_def decided_def subset_iff
        split: option.splits sum.splits if_splits)
qed

section \<open>Polling\<close>

lemma poll_check_mem:
  assumes "mem_wired sv"
  shows "poll_check sv now req w =
    (case sv_client sv w (de_client req) (de_secret req) True of
       Inl e \<Rightarrow> (Inl e, w)
     | Inr c \<Rightarrow> (case fmlookup (byDev (w_devices w)) (TokenHash (de_code req)) of
         None \<Rightarrow> (Inl (protocolError ''invalid_grant'' ''device code is unknown''), w)
       | Some rec \<Rightarrow>
           if dv_client rec \<noteq> c_id c then
             (Inl (protocolError ''invalid_grant'' ''device code was issued to another client''), w)
           else if \<not> now < dv_expires rec then
             (Inl (protocolError ''expired_token'' ''the device code has expired''), w)
           else (case dv_status rec of
               DeviceDenied \<Rightarrow> (Inl (protocolError ''access_denied'' ''the user denied the request''), w)
             | DevicePending \<Rightarrow>
                 if dv_last_poll rec \<noteq> 0 \<and> now < dv_last_poll rec + pollInterval sv then
                   (Inl (protocolError ''slow_down'' ''polling faster than the advertised interval''), w)
                 else (case md_poll (dv_hash rec) now (w_devices w) of
                     (Inl e, ds) \<Rightarrow> (Inl e, w\<lparr>w_devices := ds\<rparr>)
                   | (Inr _, ds) \<Rightarrow>
                       (Inl (protocolError ''authorization_pending'' ''the user has not decided yet''),
                        w\<lparr>w_devices := ds\<rparr>))
             | DeviceApproved \<Rightarrow> (Inr (c, rec, grantEpoch w (dv_subject rec) (c_id c)), w))))"
  by (simp add: poll_check_def mem_ops [OF assms] md_get_def split: sum.split option.split device_status.split)

definition redeemed :: "device_record \<Rightarrow> memory_devices \<Rightarrow> memory_devices" where
  "redeemed rec s = snd (md_consume (dv_hash rec) s)"

lemma Poll_approved:
  assumes "mem_wired sv" and "wf_devices (w_devices w)"
    and c: "sv_client sv w (de_client req) (de_secret req) True = Inr c"
    and rec: "fmlookup (byDev (w_devices w)) (TokenHash (de_code req)) = Some rec"
    and "dv_client rec = c_id c" "now < dv_expires rec" "dv_status rec = DeviceApproved"
  shows "PollDeviceAuthorization sv now req w =
     issue sv now (c_id c) (dv_subject rec) (dv_scopes rec) []
       (w\<lparr>w_devices := redeemed rec (w_devices w)\<rparr>)"
proof -
  have h: "dv_hash rec = TokenHash (de_code req)" using wf_devicesD(1) [OF assms(2) rec] .
  have "md_consume (dv_hash rec) (w_devices w) = (Inr (Some rec), redeemed rec (w_devices w))"
    using rec assms(7) by (simp add: redeemed_def md_consume_def h)
  then show ?thesis
    using assms(3-7)
    by (simp add: PollDeviceAuthorization_def poll_check_mem [OF assms(1)] poll_redeem_def
        mem_ops [OF assms(1)] issueGuarded_alone [OF assms(1)])
qed

lemma poll_check_Inr:
  assumes "mem_wired sv"
  shows "poll_check sv now req w = (Inr (c, rec, ep), w') \<longleftrightarrow>
     sv_client sv w (de_client req) (de_secret req) True = Inr c
     \<and> fmlookup (byDev (w_devices w)) (TokenHash (de_code req)) = Some rec
     \<and> dv_client rec = c_id c \<and> now < dv_expires rec \<and> dv_status rec = DeviceApproved
     \<and> ep = grantEpoch w (dv_subject rec) (c_id c) \<and> w' = w"
  by (auto simp: poll_check_mem [OF assms] split: sum.splits option.splits device_status.splits if_splits prod.splits)

lemma Poll_Inr:
  assumes "mem_wired sv" and "wf_devices (w_devices w)"
    and "PollDeviceAuthorization sv now req w = (Inr resp, w')"
  obtains c rec where
    "sv_client sv w (de_client req) (de_secret req) True = Inr c"
    "fmlookup (byDev (w_devices w)) (TokenHash (de_code req)) = Some rec"
    "dv_client rec = c_id c" "now < dv_expires rec" "dv_status rec = DeviceApproved"
    "resp = issue_response sv (dv_scopes rec) (w_tape w)"
    "w_tokens w' = with_pair sv now (c_id c) (dv_subject rec) (dv_scopes rec) (draw 2 (w_tape w))
       (draw 0 (w_tape w)) (draw 1 (w_tape w)) (w_tokens w)"
    "w_devices w' = redeemed rec (w_devices w)" "w_clients w' = w_clients w"
proof -
  from assms(3) obtain c rec ep w1 where "poll_check sv now req w = (Inr (c, rec, ep), w1)"
    by (auto simp: PollDeviceAuthorization_def split: prod.splits sum.splits)
  then have c: "sv_client sv w (de_client req) (de_secret req) True = Inr c"
    and rec: "fmlookup (byDev (w_devices w)) (TokenHash (de_code req)) = Some rec"
    and more: "dv_client rec = c_id c" "now < dv_expires rec" "dv_status rec = DeviceApproved"
    by (simp_all add: poll_check_Inr [OF assms(1)])
  let ?w = "w\<lparr>w_devices := redeemed rec (w_devices w)\<rparr>"
  have iss: "issue sv now (c_id c) (dv_subject rec) (dv_scopes rec) [] ?w = (Inr resp, w')"
    using Poll_approved [OF assms(1,2) c rec more] assms(3) by simp
  have enough: "issue_need [] \<le> length (w_tape ?w)"
    using issue_short [OF assms(1), of ?w "[]" now "c_id c" "dv_subject rec" "dv_scopes rec"] iss
    by (cases "issue_need [] \<le> length (w_tape ?w)") auto
  from iss issue_ok [OF assms(1) enough] show thesis
    by (intro that [OF c rec more]) (auto simp: issue_family_def)
qed

lemma redeemed_gone:
  assumes "wf_devices s" and "fmlookup (byDev s) h = Some rec" and "dv_status rec = DeviceApproved"
  shows "fmlookup (byDev (redeemed rec s)) h = None" and "wf_devices (redeemed rec s)"
  using assms wf_devicesD(1) [OF assms(1,2)]
  by (simp_all add: redeemed_def md_consume_wf) (simp add: md_consume_def)

section \<open>The whole flow\<close>

definition pending_record :: "('c, 't, 'd) service \<Rightarrow> time \<Rightarrow> client \<Rightarrow> device_request \<Rightarrow> device_response \<Rightarrow> device_record" where
  "pending_record sv now c req resp =
     (begun sv now c req (dx_user_code resp))\<lparr>dv_hash := TokenHash (dx_device_code resp)\<rparr>"

lemma Begin_stored:
  assumes "mem_wired sv" and "wf_devices (w_devices w)"
    and "BeginDeviceAuthorization sv now req w = (Inr resp, w1)"
  obtains c ds where "sv_client sv w (dr_client req) (dr_secret req) True = Inr c"
    "resolveScopes sv c (dr_scopes req) = Inr (c, ds)" "wf_devices (w_devices w1)"
    "fmlookup (byDev (w_devices w1)) (TokenHash (dx_device_code resp)) = Some (pending_record sv now c req resp)"
    "w_clients w1 = w_clients w"
proof -
  from Begin_Inr [OF assms(1,3)] obtain c ds devs where
    d: "describeAuthenticatedScopes sv w (dr_client req) (dr_secret req) (dr_scopes req) = Inr (c, ds)"
    and save: "md_save (dx_device_code resp) (begun sv now c req (dx_user_code resp)) (w_devices w) = (Inr (), devs)"
    and w1: "w_devices w1 = devs" "w_clients w1 = w_clients w"
    by metis
  from d obtain c0 where c0: "sv_client sv w (dr_client req) (dr_secret req) True = Inr c0"
    and res: "resolveScopes sv c0 (dr_scopes req) = Inr (c, ds)"
    by (auto simp: describeAuthenticatedScopes_def split: sum.splits)
  from res have "c = c0" by (simp add: resolveScopes_Inr)
  have "wf_devices devs" using md_save_wf [OF assms(2)] save by (metis snd_conv)
  with that c0 res \<open>c = c0\<close> md_save_Inr [OF save] w1 show thesis
    by (simp add: pending_record_def)
qed

lemma decide_stored:
  assumes wired: "mem_wired sv" and wf: "wf_devices (w_devices w)"
    and rec: "fmlookup (byDev (w_devices w)) h = Some rec" and "dv_status rec = DevicePending"
    and "NormalizeUserCode uc = NormalizeUserCode (dv_user_code rec)"
    and "now < dv_expires rec" "subject \<noteq> []"
    and c: "sv_client sv w (dv_client rec) [] False = Inr c"
    and narrow: "case scopes of None \<Rightarrow> granted = dv_scopes rec
      | Some scs \<Rightarrow> granted = scs \<and> scs \<noteq> [] \<and> set scs \<subseteq> set (dv_scopes rec)"
    and res: "resolveScopes sv c granted = Inr (c, ds)" and "checkExplicit ds explicit = None"
  shows "DecideDeviceAuthorization sv now uc subject True scopes explicit w =
     (Inr (), record_event ''oauth.device.approve'' subject (dv_client rec) OutcomeOK
        (w\<lparr>w_devices := (w_devices w)\<lparr>byDev :=
           fmupd h (decided rec subject granted explicit) (byDev (w_devices w))\<rparr>\<rparr>))"
proof -
  have "md_get_by_user uc (w_devices w) = Inr rec"
    using md_get_by_user_Inr [OF wf] rec assms(5) by auto
  moreover have "describeScopes sv w (dv_client rec) granted = Inr (c, ds)"
    using c res by (simp add: describeScopes_def)
  ultimately show ?thesis
    unfolding Decide_approve [OF wired wf] using assms wf_devicesD(1) [OF wf rec]
    by (intro exI [of _ rec] exI [of _ granted] exI [of _ c] exI [of _ ds]) simp
qed

text \<open>Fewer scopes resolve when more do.\<close>

lemma resolveScopes_mono:
  assumes "resolveScopes sv c scopes = Inr (c, ds)" and "set fewer \<subseteq> set scopes"
  obtains ds' where "resolveScopes sv c fewer = Inr (c, ds')"
  using assms by (auto simp: resolveScopes_Inr Resolve_Inr)

section \<open>An example request\<close>

definition demo_device :: device_record where
  "demo_device =
     \<lparr>dv_hash = TokenHash ''dev'', dv_user_code = ''BCDF-GHJK'', dv_client = ''app'',
      dv_scopes = [ScopeAccountID], dv_status = DevicePending, dv_subject = [], dv_explicit = [],
      dv_expires = 100, dv_last_poll = 0\<rparr>"

definition demo_devices :: "device_record \<Rightarrow> memory_devices" where
  "demo_devices d =
     \<lparr>byDev = fmupd (TokenHash ''dev'') d fmempty,
      byUser = fmupd (NormalizeUserCode ''BCDF-GHJK'') (TokenHash ''dev'') fmempty\<rparr>"

definition demo_poll :: device_exchange_request where
  "demo_poll = \<lparr>de_client = ''app'', de_secret = [], de_code = ''dev''\<rparr>"

definition demo_begin :: device_request where
  "demo_begin = \<lparr>dr_client = ''app'', dr_secret = [], dr_scopes = [ScopeAccountID]\<rparr>"

lemma demo_devices_wf:
  "dv_hash d = TokenHash ''dev'' \<Longrightarrow> dv_user_code d = ''BCDF-GHJK'' \<Longrightarrow> wf_devices (demo_devices d)"
  by (auto simp: wf_devices_def demo_devices_def)

lemma demo_approved_wf: "wf_devices (demo_devices (decided demo_device ''user'' [ScopeAccountID] []))"
  by (rule demo_devices_wf) (simp_all add: decided_def demo_device_def)

lemma demo_poll_ok:
  "fst (PollDeviceAuthorization demo_service 50 demo_poll
      (demo_world\<lparr>w_devices := demo_devices (decided demo_device ''user'' [ScopeAccountID] [])\<rparr>))
     = Inr (issue_response demo_service [ScopeAccountID] (w_tape demo_world))"
proof -
  let ?rec = "decided demo_device ''user'' [ScopeAccountID] []"
  have wf: "wf_devices (w_devices (demo_world\<lparr>w_devices := demo_devices ?rec\<rparr>))"
    by (simp add: demo_approved_wf)
  have "PollDeviceAuthorization demo_service 50 demo_poll (demo_world\<lparr>w_devices := demo_devices ?rec\<rparr>)
      = issue demo_service 50 ''app'' ''user'' [ScopeAccountID] []
          (demo_world\<lparr>w_devices := redeemed ?rec (demo_devices ?rec)\<rparr>)"
    using Poll_approved [OF demo_wired wf, of demo_poll demo_client ?rec 50]
    by (simp add: demo_poll_def demo_devices_def) (simp add: decided_def demo_device_def)
  then show ?thesis by (simp add: issue_ok issue_need_def)
qed

lemma demo_describe:
  "describeScopes demo_service (demo_world\<lparr>w_devices := d\<rparr>) ''app'' [ScopeAccountID]
     = Inr (demo_client, [demo_descriptor])"
proof -
  have "resolveScopes demo_service demo_client [ScopeAccountID] = Inr (demo_client, [demo_descriptor])"
    unfolding resolveScopes_Inr
    by (simp add: demo_service_def demo_descriptor_def Resolve_def allowsClient_def AllowsScope_def
        demo_client_def)
  then show ?thesis by (simp add: describeScopes_def)
qed

text \<open>Starting the request on an empty device store; every random byte is the letter r.\<close>

definition demo_start :: mem_world where
  "demo_start = demo_world\<lparr>w_tape := replicate 32 (CHR ''r'') @ ''rrrrrrrr'' @ replicate 200 (CHR ''r'')\<rparr>"

definition demo_started :: device_response where
  "demo_started =
     \<lparr>dx_device_code = draw 0 (w_tape demo_start), dx_user_code = ''SSSS-SSSS'',
      dx_uri = ''https://as/device'', dx_uri_complete = ''https://as/device?user_code=SSSS-SSSS'',
      dx_expires_in = 0, dx_interval = 1\<rparr>"

lemma demo_user_code:
  "newUserCode (''rrrrrrrr'' @ t) = (Inr ''SSSS-SSSS'', t)"
proof -
  have "userCode_loop ''SSSSSSSS'' t = (Inr ''SSSSSSSS'', t)"
    by (cases t) (simp_all add: userCodeLen_def)
  then show ?thesis
    by (simp add: newUserCode_def userCodeLen_def userCodeAlphabet_def)
qed

lemma first_user_code:
  assumes "mem_wired sv" and "newUserCode (w_tape w) = (Inr code, t)"
    and "md_get_by_user code (w_devices w) = Inl ErrDeviceNotFound"
    and "md_save dc (base\<lparr>dv_user_code := code\<rparr>) (w_devices w) = (Inr (), devs)"
  shows "saveDeviceAuthorization 8 sv dc base w = (Inr code, w\<lparr>w_tape := t, w_devices := devs\<rparr>)"
proof -
  have "freeUserCode 8 sv w = (Inr code, w\<lparr>w_tape := t\<rparr>)"
    using assms(2,3) by (simp add: numeral_eq_Suc mem_ops [OF assms(1)])
  moreover have "saveDeviceAuthorization 8 sv dc base w = saveDeviceAuthorization (Suc 7) sv dc base w"
    by simp
  ultimately show ?thesis
    using assms(4) by (simp only: saveDeviceAuthorization.simps) (simp add: mem_ops [OF assms(1)])
qed

lemma demo_begin_ok:
  "\<exists>w1. BeginDeviceAuthorization demo_service 1 demo_begin demo_start = (Inr demo_started, w1)
     \<and> w_tape w1 = replicate 200 (CHR ''r'')"
proof -
  let ?t = "''rrrrrrrr'' @ replicate 200 (CHR ''r'')"
  have tape: "32 \<le> length (w_tape demo_start)" "drop 32 (w_tape demo_start) = ?t"
    by (simp_all add: demo_start_def)
  have cl: "describeAuthenticatedScopes demo_service demo_start ''app'' [] [ScopeAccountID]
      = Inr (demo_client, [demo_descriptor])"
    using demo_describe [of NewMemoryDeviceStore]
    by (simp add: describeAuthenticatedScopes_def describeScopes_def demo_start_def)
  have none: "md_get_by_user ''SSSS-SSSS'' NewMemoryDeviceStore = Inl ErrDeviceNotFound"
    by (simp add: md_get_by_user_def NewMemoryDeviceStore_def)
  have "\<exists>devs. saveDeviceAuthorization 8 demo_service (draw 0 (w_tape demo_start))
      (begun demo_service 1 demo_client demo_begin []) (demo_start\<lparr>w_tape := ?t\<rparr>)
      = (Inr ''SSSS-SSSS'', demo_start\<lparr>w_tape := replicate 200 (CHR ''r''), w_devices := devs\<rparr>)"
  proof -
    obtain devs where "md_save (draw 0 (w_tape demo_start))
        ((begun demo_service 1 demo_client demo_begin [])\<lparr>dv_user_code := ''SSSS-SSSS''\<rparr>) NewMemoryDeviceStore
        = (Inr (), devs)"
      by (simp add: md_save_def NewMemoryDeviceStore_def Let_def)
    with none show ?thesis
      by (subst first_user_code [OF demo_wired]) (auto simp: demo_start_def demo_user_code [simplified])
  qed
  with cl tape show ?thesis
    by (auto simp: BeginDeviceAuthorization_def demo_begin_def newToken_ok begun_def demo_started_def)
       (simp_all add: demo_service_def second_def trim_right_slash_def query_escape_unreserved
         unreserved_def char_in_def)
qed

section \<open>Properties\<close>

text \<open>
  A poll that returns tokens is sound and spends the approval: the request was approved, had
  not expired and belongs to the authenticated client; the tokens carry the approving user
  and the granted scopes; the request is gone, the index stays consistent, and every later
  poll of the same device code is refused.
\<close>
theorem device_poll_sound:
  assumes "mem_wired sv" and "wf_devices (w_devices w)"
    and "fst (PollDeviceAuthorization sv now req w) = Inr resp"
  defines "w' \<equiv> snd (PollDeviceAuthorization sv now req w)"
  shows "\<exists>c rec fam. sv_client sv w (de_client req) (de_secret req) True = Inr c
     \<and> md_get (de_code req) (w_devices w) = Inr rec
     \<and> dv_client rec = c_id c \<and> now < dv_expires rec \<and> dv_status rec = DeviceApproved
     \<and> ms_get_access (tr_access resp) (w_tokens w')
         = Inr (access_of sv now (c_id c) (dv_subject rec) (dv_scopes rec) fam)
     \<and> ms_get_refresh (tr_refresh resp) (w_tokens w')
         = Inr (refresh_of sv now (c_id c) (dv_subject rec) (dv_scopes rec) fam)
     \<and> wf_devices (w_devices w') \<and> md_get (de_code req) (w_devices w') = Inl ErrDeviceNotFound
     \<and> (de_code req' = de_code req \<longrightarrow> \<not> is_ok (fst (PollDeviceAuthorization sv now' req' w')))"
proof -
  have "PollDeviceAuthorization sv now req w = (Inr resp, w')"
    using assms(3) unfolding w'_def by (metis prod.collapse)
  from Poll_Inr [OF assms(1,2) this] obtain c rec where
    c: "sv_client sv w (de_client req) (de_secret req) True = Inr c"
    and rec: "fmlookup (byDev (w_devices w)) (TokenHash (de_code req)) = Some rec"
    and more: "dv_client rec = c_id c" "now < dv_expires rec" "dv_status rec = DeviceApproved"
    and out: "resp = issue_response sv (dv_scopes rec) (w_tape w)"
      "w_tokens w' = with_pair sv now (c_id c) (dv_subject rec) (dv_scopes rec) (draw 2 (w_tape w))
         (draw 0 (w_tape w)) (draw 1 (w_tape w)) (w_tokens w)"
      "w_devices w' = redeemed rec (w_devices w)"
    by metis
  note gone = redeemed_gone [OF assms(2) rec more(3)]
  have later: "\<not> is_ok (fst (PollDeviceAuthorization sv now' req' w'))" if "de_code req' = de_code req"
    using gone that out(3)
    by (simp add: PollDeviceAuthorization_def poll_check_mem [OF assms(1)] split: sum.split)
  show ?thesis
    using c rec more out gone later
    by (intro exI [of _ c] exI [of _ rec] exI [of _ "draw 2 (w_tape w)"])
       (simp add: md_get_def ms_get_access_def ms_get_refresh_def)
qed

theorem device_poll_sound_witness:
  "\<not> is_ok (fst (PollDeviceAuthorization demo_service 51 demo_poll
      (snd (PollDeviceAuthorization demo_service 50 demo_poll
        (demo_world\<lparr>w_devices := demo_devices (decided demo_device ''user'' [ScopeAccountID] [])\<rparr>)))))"
  using device_poll_sound [OF demo_wired _ demo_poll_ok, of demo_poll 51]
  by (auto simp: demo_approved_wf)

text \<open>
  An approval is sound and only narrows: recording one needs an authenticated user and a
  pending, unexpired request found by its user code; the granted scopes are a non-empty
  choice from the requested ones (or exactly those), every granted scope that asks for
  explicit consent was ticked, and only that request's decision fields change.
\<close>
theorem device_decision_sound:
  assumes "mem_wired sv" and "wf_devices (w_devices w)"
    and "fst (DecideDeviceAuthorization sv now uc subject True scopes explicit w) = Inr ()"
  defines "w' \<equiv> snd (DecideDeviceAuthorization sv now uc subject True scopes explicit w)"
  shows "\<exists>rec granted. subject \<noteq> [] \<and> md_get_by_user uc (w_devices w) = Inr rec
     \<and> now < dv_expires rec \<and> dv_status rec = DevicePending
     \<and> set granted \<subseteq> set (dv_scopes rec)
     \<and> (case scopes of None \<Rightarrow> granted = dv_scopes rec | Some scs \<Rightarrow> granted = scs \<and> scs \<noteq> [])
     \<and> (\<forall>sc \<in> set granted. \<exists>d. fmlookup (sv_scopes sv) sc = Some d
          \<and> (ExplicitConsent d \<longrightarrow> d_scope d \<in> set explicit))
     \<and> byUser (w_devices w') = byUser (w_devices w)
     \<and> byDev (w_devices w') = fmupd (dv_hash rec) (decided rec subject granted explicit) (byDev (w_devices w))
     \<and> w_tokens w' = w_tokens w"
proof -
  have "DecideDeviceAuthorization sv now uc subject True scopes explicit w = (Inr (), w')"
    using assms(3) unfolding w'_def by (metis prod.collapse)
  then obtain rec granted c ds where r: "subject \<noteq> []" "md_get_by_user uc (w_devices w) = Inr rec"
      "now < dv_expires rec" "dv_status rec = DevicePending"
    and g: "case scopes of None \<Rightarrow> granted = dv_scopes rec
       | Some scs \<Rightarrow> granted = scs \<and> scs \<noteq> [] \<and> set scs \<subseteq> set (dv_scopes rec)"
    and d: "describeScopes sv w (dv_client rec) granted = Inr (c, ds)" "checkExplicit ds explicit = None"
    and w': "w' = record_event ''oauth.device.approve'' subject (dv_client rec) OutcomeOK
             (w\<lparr>w_devices := (w_devices w)\<lparr>byDev :=
                fmupd (dv_hash rec) (decided rec subject granted explicit) (byDev (w_devices w))\<rparr>\<rparr>)"
    unfolding Decide_approve [OF assms(1,2)] by blast
  from d(1) have res: "Resolve (sv_scopes sv) granted (c_id c) = Inr ds"
    by (auto simp: describeScopes_def resolveScopes_Inr split: sum.splits)
  have "\<exists>d. fmlookup (sv_scopes sv) sc = Some d \<and> (ExplicitConsent d \<longrightarrow> d_scope d \<in> set explicit)"
    if "sc \<in> set granted" for sc
    using Resolve_known [OF res that] d(2) by (auto simp: checkExplicit_None)
  with r g w' show ?thesis
    by (intro exI [of _ rec] exI [of _ granted]) (auto split: option.splits)
qed

lemma demo_decide_ok:
  "fst (DecideDeviceAuthorization demo_service 50 ''bcdfghjk'' ''user'' True None []
      (demo_world\<lparr>w_devices := demo_devices demo_device\<rparr>)) = Inr ()"
proof -
  have norm: "NormalizeUserCode ''bcdfghjk'' = NormalizeUserCode ''BCDF-GHJK''" by code_simp
  have "md_get_by_user ''bcdfghjk'' (demo_devices demo_device) = Inr demo_device"
    by (simp add: md_get_by_user_def norm demo_devices_def)
  moreover have "checkExplicit [demo_descriptor] [] = None"
    by (simp add: checkExplicit_None demo_descriptor_def)
  moreover have "wf_devices (demo_devices demo_device)"
    by (rule demo_devices_wf) (simp_all add: demo_device_def)
  ultimately have "\<exists>w'. DecideDeviceAuthorization demo_service 50 ''bcdfghjk'' ''user'' True None []
      (demo_world\<lparr>w_devices := demo_devices demo_device\<rparr>) = (Inr (), w')"
    by (subst Decide_approve) (auto simp: demo_describe demo_device_def)
  then show ?thesis by auto
qed

theorem device_decision_sound_witness:
  "\<exists>rec. md_get_by_user ''bcdfghjk'' (demo_devices demo_device) = Inr rec \<and> dv_status rec = DevicePending"
  using device_decision_sound [OF demo_wired _ demo_decide_ok]
  by (auto simp: demo_devices_wf demo_device_def)

text \<open>
  C10. The device flow end to end: a request that was started, then approved under its user code
  (typed in any case, with or without the dash) with the consent ticks the catalogue asks
  for, and polled by the same authenticated client before it expires, yields a token pair;
  the access token is active for the approving user with exactly the scopes of the approval:
  those it names, if it narrows the request, and otherwise all that were requested.
\<close>
theorem device_flow_end_to_end:
  assumes wired: "mem_wired sv" and wf: "wf_devices (w_devices w)" and wfc: "wf_clients (w_clients w)"
    and started: "BeginDeviceAuthorization sv now0 breq w = (Inr bresp, w1)"
    and uc: "NormalizeUserCode uc = NormalizeUserCode (dx_user_code bresp)"
    and "subject \<noteq> []" "now1 < now0 + deviceTTL sv" "now2 < now0 + deviceTTL sv"
    and narrow: "case scopes of None \<Rightarrow> granted = dr_scopes breq
      | Some scs \<Rightarrow> granted = scs \<and> scs \<noteq> [] \<and> set scs \<subseteq> set (dr_scopes breq)"
    and ticks: "\<forall>sc \<in> set granted. \<forall>d. fmlookup (sv_scopes sv) sc = Some d \<longrightarrow>
       ExplicitConsent d \<longrightarrow> d_scope d \<in> set explicit"
    and poll: "de_client req = dr_client breq" "de_code req = dx_device_code bresp"
      "sv_client sv w (de_client req) (de_secret req) True = Inr c"
    and "0 < atTTL sv" "96 \<le> length (w_tape w1)"
  shows "\<exists>w2 resp w3. DecideDeviceAuthorization sv now1 uc subject True scopes explicit w1 = (Inr (), w2)
     \<and> PollDeviceAuthorization sv now2 req w2 = (Inr resp, w3)
     \<and> Introspect sv now2 (tr_access resp) w3
         = Inr \<lparr>ti_active = True, ti_subject = subject, ti_client = dr_client breq,
                ti_scopes = granted, ti_expires = now2 + atTTL sv\<rparr>"
proof -
  from Begin_stored [OF wired wf started] obtain c' ds where
    c': "sv_client sv w (dr_client breq) (dr_secret breq) True = Inr c'"
    and all: "resolveScopes sv c' (dr_scopes breq) = Inr (c', ds)" and wf1: "wf_devices (w_devices w1)"
    and rec: "fmlookup (byDev (w_devices w1)) (TokenHash (dx_device_code bresp))
        = Some (pending_record sv now0 c' breq bresp)" (is "_ = Some ?rec")
    and cl1: "w_clients w1 = w_clients w"
    by metis
  note look = sv_client_Inr [OF wired c']
  have cid: "c_id c' = dr_client breq" using wfc look by (auto simp: wf_clients_def)
  have cc: "c = c'" using sv_client_Inr [OF wired poll(3)] look poll(1) by simp
  have recs: "dv_status ?rec = DevicePending" "dv_user_code ?rec = dx_user_code bresp"
    "dv_expires ?rec = now0 + deviceTTL sv" "dv_client ?rec = c_id c'" "dv_scopes ?rec = dr_scopes breq"
    by (simp_all add: pending_record_def begun_def)
  have open1: "sv_client sv w1 (dv_client ?rec) [] False = Inr c'"
    using look cid recs cl1 by (simp add: sv_client_mem [OF wired])
  have "set granted \<subseteq> set (dr_scopes breq)" using narrow by (auto split: option.split_asm)
  then obtain ds' where res: "resolveScopes sv c' granted = Inr (c', ds')" using resolveScopes_mono [OF all] by blast
  have ex: "checkExplicit ds' explicit = None"
    using res ticks by (auto simp: checkExplicit_None resolveScopes_Inr Resolve_Inr resolve_error_def
        split: option.splits if_splits)
  let ?d = "decided ?rec subject granted explicit"
  define w2 where "w2 = record_event ''oauth.device.approve'' subject (dv_client ?rec) OutcomeOK
        (w1\<lparr>w_devices := (w_devices w1)\<lparr>byDev := fmupd (TokenHash (dx_device_code bresp)) ?d (byDev (w_devices w1))\<rparr>\<rparr>)"
  have dec: "DecideDeviceAuthorization sv now1 uc subject True scopes explicit w1 = (Inr (), w2)"
    unfolding w2_def
    by (rule decide_stored [OF wired wf1 rec, where ds = ds'])
      (use open1 res ex recs uc narrow assms(6,7) in \<open>simp_all split: option.splits\<close>)
  have wf2: "wf_devices (w_devices w2)"
    using wf_devices_update [OF wf1 rec, of ?d] by (simp add: w2_def decided_def)
  have "sv_client sv w2 (de_client req) (de_secret req) True = Inr c'"
    using poll(3) cc cl1 by (simp add: w2_def sv_client_mem [OF wired])
  moreover have "fmlookup (byDev (w_devices w2)) (TokenHash (de_code req)) = Some ?d"
    by (simp add: w2_def poll)
  moreover have d2: "dv_client ?d = c_id c'" "now2 < dv_expires ?d" "dv_status ?d = DeviceApproved"
    "dv_subject ?d = subject" "dv_scopes ?d = granted"
    using recs assms(8) by (simp_all add: decided_def)
  ultimately have "PollDeviceAuthorization sv now2 req w2
      = issue sv now2 (c_id c') subject granted [] (w2\<lparr>w_devices := redeemed ?d (w_devices w2)\<rparr>)"
    using Poll_approved [OF wired wf2, of req c' ?d now2] by simp
  moreover have "issue_need [] \<le> length (w_tape (w2\<lparr>w_devices := redeemed ?d (w_devices w2)\<rparr>))"
    using assms(15) by (simp add: w2_def issue_need_def)
  ultimately show ?thesis
    using dec look cid cl1 assms(14)
    by (simp add: issue_ok [OF wired] Introspect_mem [OF wired] access_of_def w2_def)
qed

theorem device_flow_end_to_end_witness:
  "\<exists>w1 w2 resp w3. BeginDeviceAuthorization demo_service 1 demo_begin demo_start = (Inr demo_started, w1)
     \<and> DecideDeviceAuthorization demo_service 5 ''ssssssss'' ''user'' True (Some [ScopeAccountID]) [] w1 = (Inr (), w2)
     \<and> PollDeviceAuthorization demo_service 9
         \<lparr>de_client = ''app'', de_secret = [], de_code = draw 0 (w_tape demo_start)\<rparr> w2 = (Inr resp, w3)"
proof -
  from demo_begin_ok obtain w1 where
    b: "BeginDeviceAuthorization demo_service 1 demo_begin demo_start = (Inr demo_started, w1)"
    and t: "w_tape w1 = replicate 200 (CHR ''r'')" by blast
  have norm: "NormalizeUserCode ''ssssssss'' = NormalizeUserCode (dx_user_code demo_started)"
    unfolding demo_started_def by simp code_simp
  have "wf_devices (w_devices demo_start)" by (simp add: demo_start_def wf_devices_new)
  moreover have "wf_clients (w_clients demo_start)"
    by (simp add: demo_start_def wf_clients_def wf_client_def demo_client_def)
  moreover have "sv_client demo_service demo_start ''app'' [] True = Inr demo_client"
    by (simp add: demo_start_def)
  moreover have "fmlookup (sv_scopes demo_service) ScopeAccountID = Some demo_descriptor"
    "\<not> ExplicitConsent demo_descriptor"
    by (simp_all add: demo_service_def demo_descriptor_def)
  ultimately show ?thesis
    using device_flow_end_to_end [OF demo_wired _ _ b norm, of "''user''" 5 9 "[ScopeAccountID]" "Some [ScopeAccountID]" "[]"
        "\<lparr>de_client = ''app'', de_secret = [], de_code = draw 0 (w_tape demo_start)\<rparr>" demo_client]
      b t
    by (auto simp: demo_begin_def demo_started_def)
qed

text \<open>
  Polling a pending request: a poll that comes within the interval of the last accepted one is
  told to slow down and is not stamped, so backing off converges; any other poll is told the
  decision is pending and only its time is recorded. Neither issues anything.
\<close>
theorem device_poll_pending:
  assumes "mem_wired sv" and "wf_devices (w_devices w)"
    and "sv_client sv w (de_client req) (de_secret req) True = Inr c"
    and "md_get (de_code req) (w_devices w) = Inr rec" and "dv_client rec = c_id c"
    and "now < dv_expires rec" and "dv_status rec = DevicePending"
  shows "PollDeviceAuthorization sv now req w =
     (if dv_last_poll rec \<noteq> 0 \<and> now < dv_last_poll rec + pollInterval sv
      then (Inl (protocolError ''slow_down'' ''polling faster than the advertised interval''), w)
      else (Inl (protocolError ''authorization_pending'' ''the user has not decided yet''),
            w\<lparr>w_devices := (w_devices w)\<lparr>byDev :=
               fmupd (dv_hash rec) (rec\<lparr>dv_last_poll := now\<rparr>) (byDev (w_devices w))\<rparr>\<rparr>))"
proof -
  from assms(4) have rec: "fmlookup (byDev (w_devices w)) (TokenHash (de_code req)) = Some rec"
    by (simp add: md_get_def split: option.splits)
  have "fmlookup (byDev (w_devices w)) (dv_hash rec) = Some rec"
    using wf_devicesD(1) [OF assms(2) rec] rec by simp
  then show ?thesis
    using rec assms(3,5-7)
    by (simp add: PollDeviceAuthorization_def poll_check_mem [OF assms(1)] md_poll_def)
qed

theorem device_poll_pending_witness:
  "fst (PollDeviceAuthorization demo_service 52 demo_poll
      (demo_world\<lparr>w_devices := demo_devices (demo_device\<lparr>dv_last_poll := 50\<rparr>)\<rparr>))
     = Inl (protocolError ''slow_down'' ''polling faster than the advertised interval'')"
  using device_poll_pending [OF demo_wired, of
      "demo_world\<lparr>w_devices := demo_devices (demo_device\<lparr>dv_last_poll := 50\<rparr>)\<rparr>" demo_poll demo_client
      "demo_device\<lparr>dv_last_poll := 50\<rparr>" 52]
  by (simp add: demo_poll_def demo_devices_wf demo_device_def) (simp add: md_get_def demo_devices_def)

text \<open>
  C27. A grant revocation does not reach approved device requests: \<open>RevokeGrant\<close>, of whatever grant and so
  of the request's own, leaves the device store as it was, and a poll that would have redeemed the
  approval before still redeems it afterwards. The pair it is issued is live: the access token is
  active for the approving user with the approved scopes, and the refresh token is stored with them.
\<close>
theorem device_approval_survives_revocation:
  fixes subject cid :: string
  assumes "mem_wired sv" and "wf_devices (w_devices w)" and wfc: "wf_clients (w_clients w)"
    and "fst (PollDeviceAuthorization sv now req w) = Inr resp"
    and "subject \<noteq> []" "cid \<noteq> []" and "0 < atTTL sv"
  defines "v \<equiv> snd (RevokeGrant sv subject cid w)"
  defines "w' \<equiv> snd (PollDeviceAuthorization sv now req v)"
  shows "w_devices v = w_devices w \<and> fst (PollDeviceAuthorization sv now req v) = Inr resp
     \<and> (\<exists>rec rt. md_get (de_code req) (w_devices w) = Inr rec \<and> dv_status rec = DeviceApproved
         \<and> Introspect sv now (tr_access resp) w'
             = Inr \<lparr>ti_active = True, ti_subject = dv_subject rec, ti_client = dv_client rec,
                    ti_scopes = dv_scopes rec, ti_expires = now + atTTL sv\<rparr>
         \<and> ms_get_refresh (tr_refresh resp) (w_tokens w') = Inr rt \<and> rt_subject rt = dv_subject rec
         \<and> rt_client rt = dv_client rec \<and> rt_scopes rt = dv_scopes rec)"
proof -
  have v: "w_devices v = w_devices w" "w_clients v = w_clients w" "w_tape v = w_tape w"
    using RevokeGrant_mem [OF assms(1,5,6), of w] by (simp_all add: v_def bumpGrantEpoch_def)
  have p: "PollDeviceAuthorization sv now req w = (Inr resp, snd (PollDeviceAuthorization sv now req w))"
    using assms(4) by (metis prod.collapse)
  from Poll_Inr [OF assms(1,2) p] obtain c rec where
    c: "sv_client sv w (de_client req) (de_secret req) True = Inr c"
    and rec: "fmlookup (byDev (w_devices w)) (TokenHash (de_code req)) = Some rec"
      "dv_client rec = c_id c" "now < dv_expires rec" "dv_status rec = DeviceApproved"
    and resp: "resp = issue_response sv (dv_scopes rec) (w_tape w)"
    by metis
  have enough: "issue_need [] \<le> length (w_tape w)"
  proof (rule ccontr)
    assume "\<not> issue_need [] \<le> length (w_tape w)"
    then have "\<exists>t. issue sv now (c_id c) (dv_subject rec) (dv_scopes rec) []
        (w\<lparr>w_devices := redeemed rec (w_devices w)\<rparr>) = (Inl ErrRandom, w\<lparr>w_devices := redeemed rec (w_devices w), w_tape := t\<rparr>)"
      using issue_short [OF assms(1), of "w\<lparr>w_devices := redeemed rec (w_devices w)\<rparr>" "[]"] by simp
    with Poll_approved [OF assms(1,2) c rec] p show False by auto
  qed
  have "sv_client sv v (de_client req) (de_secret req) True = Inr c"
    using c v by (simp add: sv_client_mem [OF assms(1)])
  from Poll_approved [OF assms(1) _ this] rec v assms(2) enough resp
  have poll: "PollDeviceAuthorization sv now req v = (Inr resp, w')"
    and tok: "w_tokens w' = with_pair sv now (c_id c) (dv_subject rec) (dv_scopes rec) (issue_family [] (w_tape w))
        (draw 0 (w_tape w)) (draw 1 (w_tape w)) (w_tokens v)" and cl: "w_clients w' = w_clients w"
    by (simp_all add: w'_def issue_ok [OF assms(1)])
  note look = sv_client_Inr [OF assms(1) c]
  have "c_id c = de_client req" using wfc look by (auto simp: wf_clients_def)
  with look have "fmlookup (w_clients w') (c_id c) = Some c" "c_status c \<noteq> ClientSuspended" using cl by simp_all
  then have "Introspect sv now (tr_access resp) w'
      = Inr \<lparr>ti_active = True, ti_subject = dv_subject rec, ti_client = dv_client rec, ti_scopes = dv_scopes rec, ti_expires = now + atTTL sv\<rparr>"
    using assms(7) rec(2) by (simp add: Introspect_mem [OF assms(1)] tok resp issue_response_def with_pair_def access_of_def)
  moreover have "\<exists>rt. ms_get_refresh (tr_refresh resp) (w_tokens w') = Inr rt \<and> rt_subject rt = dv_subject rec
      \<and> rt_client rt = dv_client rec \<and> rt_scopes rt = dv_scopes rec"
    using rec(2) by (simp add: ms_get_refresh_def tok resp issue_response_def with_pair_def refresh_of_def)
  moreover have "md_get (de_code req) (w_devices w) = Inr rec" using rec(1) by (simp add: md_get_def)
  moreover have "fst (PollDeviceAuthorization sv now req v) = Inr resp" using poll by simp
  ultimately show ?thesis using v(1) rec(4) by blast
qed

theorem device_approval_survives_revocation_witness:
  "\<exists>info. Introspect demo_service 50 (tr_access (issue_response demo_service [ScopeAccountID] (w_tape demo_world)))
       (snd (PollDeviceAuthorization demo_service 50 demo_poll (snd (RevokeGrant demo_service ''user'' ''app''
          (demo_world\<lparr>w_devices := demo_devices (decided demo_device ''user'' [ScopeAccountID] [])\<rparr>))))) = Inr info
     \<and> ti_active info"
proof -
  let ?w = "demo_world\<lparr>w_devices := demo_devices (decided demo_device ''user'' [ScopeAccountID] [])\<rparr>"
  have "wf_clients (w_clients ?w)" by (simp add: demo_world_def wf_clients_def wf_client_def demo_client_def)
  from device_approval_survives_revocation [OF demo_wired _ this demo_poll_ok, of "''user''" "''app''"] show ?thesis
    by (auto simp: demo_approved_wf)
qed

end
