(* ===== verification/OAuth_Interleaving.thy ===== *)
theory OAuth_Interleaving
  imports OAuth_Flow
begin

text \<open>
  Concurrent code exchanges and grant revocations. Every request is cut at its store calls,
  the points where the Go scheduler can switch; \<open>cstep\<close> runs one request from one such
  point to the next, on the definitions of \<open>OAuth_Service\<close>, and a schedule is any sequence of
  such steps, each with its own clock reading.
  The guard under study is the revocation generation (\<open>grantEpochs\<close>): an exchange captures it
  before it claims its code and compares it after its pair is written; \<open>RevokeGrant\<close> advances
  it before it deletes. \<open>cs_behind\<close> is a history variable: how often the grant of a request in
  flight has been advanced since the request captured it.
  Shown: an exchange overtaken by a revocation never succeeds and rolls its pair back, at the
  64-bit width of the counter; and the remaining window, in which a capture falls between
  the two halves of a revocation, as a concrete run.
\<close>

section \<open>Requests in flight\<close>

datatype proc =
    Idle
  | ExStart code_exchange_request
  | ExChecked code_exchange_request client authorization_code "64 word"
  | ExClaimed string string "scope list" "64 word"
  | ExAccess time string string "scope list" "64 word" string string string
  | ExMinted string string "64 word" token_response
  | ExStale string string token_response
  | ExHalf string string token_response "oauth_error + unit"
  | Finished "oauth_error + token_response"
  | RvStart string string
  | RvBumped string string
  | RvDone "oauth_error + unit"

record ('c, 't, 'd) csys =
  cs_world :: "('c, 't, 'd) world"
  cs_proc :: "nat \<Rightarrow> proc"
  cs_behind :: "nat \<Rightarrow> nat"

text \<open>The generation a request compares against, while it has one captured.\<close>

fun proc_epoch :: "proc \<Rightarrow> (string \<times> 64 word) option" where
  "proc_epoch (ExChecked req c code ep) = Some (grantEpochKey (ac_subject code) (c_id c), ep)"
| "proc_epoch (ExClaimed cid subject scs ep) = Some (grantEpochKey subject cid, ep)"
| "proc_epoch (ExAccess now cid subject scs ep at rt fam) = Some (grantEpochKey subject cid, ep)"
| "proc_epoch (ExMinted cid subject ep resp) = Some (grantEpochKey subject cid, ep)"
| "proc_epoch _ = None"

definition advance ::
  "nat \<Rightarrow> ('c, 't, 'd) world \<Rightarrow> proc \<Rightarrow> ('c, 't, 'd) csys \<Rightarrow> ('c, 't, 'd) csys" where
  "advance p w pr cs = cs\<lparr>cs_world := w, cs_proc := (cs_proc cs)(p := pr)\<rparr>"

definition note_bump :: "string \<Rightarrow> ('c, 't, 'd) csys \<Rightarrow> ('c, 't, 'd) csys" where
  "note_bump key cs =
     cs\<lparr>cs_behind := (\<lambda>q. if map_option fst (proc_epoch (cs_proc cs q)) = Some key
                         then Suc (cs_behind cs q) else cs_behind cs q)\<rparr>"

text \<open>One request's next step. The exchange follows \<open>Exchange\<close> and \<open>issueGuarded\<close>, the revocation \<open>RevokeGrant\<close>.\<close>

definition cstep ::
  "('c, 't, 'd) service \<Rightarrow> time \<Rightarrow> nat \<Rightarrow> ('c, 't, 'd) csys \<Rightarrow> ('c, 't, 'd) csys" where
  "cstep sv now p cs =
     (let w = cs_world cs in
      case cs_proc cs p of
        ExStart req \<Rightarrow> (case exchange_check sv now req w of
            (Inl e, w) \<Rightarrow> advance p w (Finished (Inl e)) cs
          | (Inr (c, code, ep), w) \<Rightarrow>
              (advance p w (ExChecked req c code ep) cs)\<lparr>cs_behind := (cs_behind cs)(p := 0)\<rparr>)
      | ExChecked req c code ep \<Rightarrow> (case exchange_claim sv now c req w of
            (Inl e, w) \<Rightarrow> advance p w (Finished (Inl e)) cs
          | (Inr claimed, w) \<Rightarrow>
              advance p w (ExClaimed (c_id c) (ac_subject claimed) (ac_scopes claimed) ep) cs)
      | ExClaimed cid subject scs ep \<Rightarrow> (case issue_draw [] (w_tape w) of
            (Inl e, t) \<Rightarrow> advance p (w\<lparr>w_tape := t\<rparr>) (Finished (Inl e)) cs
          | (Inr (at, rt, fam), t) \<Rightarrow> (case issue_access sv now cid subject scs fam at (w_tokens w) of
              (Inl e, ts) \<Rightarrow> advance p (w\<lparr>w_tape := t, w_tokens := ts\<rparr>) (Finished (Inl e)) cs
            | (Inr _, ts) \<Rightarrow>
                advance p (w\<lparr>w_tape := t, w_tokens := ts\<rparr>) (ExAccess now cid subject scs ep at rt fam) cs))
      | ExAccess issued cid subject scs ep at rt fam \<Rightarrow>
          (case issue_refresh sv issued cid subject scs fam at rt w of
             (Inl e, w) \<Rightarrow> advance p w (Finished (Inl e)) cs
           | (Inr resp, w) \<Rightarrow> advance p w (ExMinted cid subject ep resp) cs)
      | ExMinted cid subject ep resp \<Rightarrow>
          if grantEpoch w subject cid = ep then advance p w (Finished (Inr resp)) cs
          else advance p w (ExStale cid subject resp) cs
      | ExStale cid subject resp \<Rightarrow> (case st_delete_access (sv_tokens sv) (tr_access resp) (w_tokens w) of
            (accessErr, ts) \<Rightarrow> advance p (w\<lparr>w_tokens := ts\<rparr>) (ExHalf cid subject resp accessErr) cs)
      | ExHalf cid subject resp accessErr \<Rightarrow> (case rollback_pair sv cid subject resp accessErr w of
            (r, w) \<Rightarrow> advance p w (Finished r) cs)
      | RvStart subject cid \<Rightarrow>
          if subject = [] \<or> cid = []
          then advance p w (RvDone (Inl (Plain ''oauth: subject and client id are required''))) cs
          else advance p (bumpGrantEpoch subject cid w) (RvBumped subject cid)
                 (note_bump (grantEpochKey subject cid) cs)
      | RvBumped subject cid \<Rightarrow>
          (case st_delete_by_subject_client (sv_tokens sv) subject cid (w_tokens w) of
             (Inl e, ts) \<Rightarrow> advance p (w\<lparr>w_tokens := ts\<rparr>) (RvDone (Inl e)) cs
           | (Inr _, ts) \<Rightarrow>
               advance p (record_event ''oauth.grant.revoke'' subject cid OutcomeOK (w\<lparr>w_tokens := ts\<rparr>))
                 (RvDone (Inr ())) cs)
      | _ \<Rightarrow> cs)"

definition crun ::
  "('c, 't, 'd) service \<Rightarrow> (time \<times> nat) list \<Rightarrow> ('c, 't, 'd) csys \<Rightarrow> ('c, 't, 'd) csys" where
  "crun sv sched cs = fold (\<lambda>(now, p). cstep sv now p) sched cs"

text \<open>States a schedule starts from: nobody has captured anything.\<close>

definition cinit :: "('c, 't, 'd) csys \<Rightarrow> bool" where
  "cinit cs \<longleftrightarrow> (\<forall>p. cs_behind cs p = 0) \<and> (\<forall>p. case cs_proc cs p of Idle \<Rightarrow> True | ExStart _ \<Rightarrow> True | RvStart _ _ \<Rightarrow> True | _ \<Rightarrow> False)"

text \<open>The generation of a grant, by its key.\<close>

definition epoch_at :: "('c, 't, 'd) world \<Rightarrow> string \<Rightarrow> 64 word" where
  "epoch_at w key = (case fmlookup (grantEpochs w) key of None \<Rightarrow> 0 | Some n \<Rightarrow> n)"

text \<open>
  What holds of every request along a run: while it has a generation captured, the current one
  is ahead by exactly the noted number of revocations; a code it has read can only disappear;
  and if it succeeded, it was not overtaken.
\<close>

definition capture_ok :: "(client_map, memory_store, memory_devices) csys \<Rightarrow> nat \<Rightarrow> bool" where
  "capture_ok cs p \<longleftrightarrow>
     (\<forall>key ep. proc_epoch (cs_proc cs p) = Some (key, ep) \<longrightarrow>
        epoch_at (cs_world cs) key = ep + of_nat (cs_behind cs p))
     \<and> (\<forall>req c code ep claimed. cs_proc cs p = ExChecked req c code ep \<longrightarrow>
          fmlookup (ms_codes (w_tokens (cs_world cs))) (TokenHash (cx_code req)) = Some claimed \<longrightarrow>
          claimed = code)"

text \<open>The generation a request is about to advance.\<close>

fun revoking :: "proc \<Rightarrow> string option" where
  "revoking (RvStart subject cid) = (if subject = [] \<or> cid = [] then None else Some (grantEpochKey subject cid))"
| "revoking _ = None"

text \<open>A request that a revocation has overtaken.\<close>

fun overtaken :: "proc \<Rightarrow> nat \<Rightarrow> bool" where
  "overtaken (Finished r) n = isl r"
| "overtaken (ExStale cid subject resp) n = True"
| "overtaken (ExHalf cid subject resp e) n = True"
| "overtaken pr n = (proc_epoch pr \<noteq> None \<and> 0 < n)"

section \<open>What a step touches\<close>

lemma grantEpoch_key: "grantEpoch w subject cid = epoch_at w (grantEpochKey subject cid)"
  by (simp add: grantEpoch_def epoch_at_def)

lemma epoch_at_frame:
  "grantEpochs w' = grantEpochs w \<Longrightarrow> epoch_at w' = epoch_at w"
  by (rule ext) (simp add: epoch_at_def)

lemma epoch_at_bump:
  "epoch_at (bumpGrantEpoch subject cid w) key =
     epoch_at w key + (if key = grantEpochKey subject cid then 1 else 0)"
  by (simp add: epoch_at_def bumpGrantEpoch_def grantEpoch_def)

lemma exchange_check_frame:
  "exchange_check sv now req w = (r, w') \<Longrightarrow> w_tokens w' = w_tokens w \<and> grantEpochs w' = grantEpochs w"
  by (auto simp: exchange_check_def split: sum.splits option.splits)

lemma exchange_check_captures:
  assumes "mem_wired sv" and "exchange_check sv now req w = (Inr (c, code, ep), w')"
  shows "ep = epoch_at w (grantEpochKey (ac_subject code) (c_id c))"
    "fmlookup (ms_codes (w_tokens w)) (TokenHash (cx_code req)) = Some code"
  using assms(2)
  by (auto simp: exchange_check_def mem_ops [OF assms(1)] store_simps grantEpoch_key
      split: sum.splits option.splits)

lemma exchange_claim_mem:
  assumes "mem_wired sv"
  shows "exchange_claim sv now c req w =
    (case fmlookup (ms_codes (w_tokens w)) (TokenHash (cx_code req)) of
       None \<Rightarrow> (Inl code_unknown, w)
     | Some claimed \<Rightarrow>
         (let w' = w\<lparr>w_tokens := (w_tokens w)\<lparr>ms_codes :=
                     fmdrop (TokenHash (cx_code req)) (ms_codes (w_tokens w))\<rparr>\<rparr>
          in case checkCodeBinding now c claimed req of
               Some e \<Rightarrow> (Inl e, record_event ''oauth.exchange_failed'' (ac_subject claimed) (c_id c) OutcomeDenied w')
             | None \<Rightarrow> (Inr claimed, w')))"
  by (simp add: exchange_claim_def mem_ops [OF assms] store_simps Let_def split: option.split)

lemma exchange_claim_frame:
  assumes "mem_wired sv" and "exchange_claim sv now c req w = (r, w')"
  shows "grantEpochs w' = grantEpochs w"
    and "fmlookup (ms_codes (w_tokens w')) h = Some code \<Longrightarrow> fmlookup (ms_codes (w_tokens w)) h = Some code"
    and "r = Inr claimed \<Longrightarrow> fmlookup (ms_codes (w_tokens w)) (TokenHash (cx_code req)) = Some claimed"
  using assms(2)
  by (simp_all add: exchange_claim_mem [OF assms(1)] Let_def split: option.split_asm if_split_asm,
      safe, simp_all split: if_split_asm)

lemma issue_refresh_frame:
  assumes "mem_wired sv" and "issue_refresh sv now cid subject scs fam at rt w = (r, w')"
  shows "grantEpochs w' = grantEpochs w" "ms_codes (w_tokens w') = ms_codes (w_tokens w)"
  using assms(2) by (auto simp: issue_refresh_def mem_ops [OF assms(1)] store_simps)

lemma rollback_pair_frame:
  assumes "mem_wired sv" and "rollback_pair sv cid subject resp e w = (r, w')"
  shows "grantEpochs w' = grantEpochs w" "ms_codes (w_tokens w') = ms_codes (w_tokens w)" "isl r"
  using assms(2) by (auto simp: rollback_pair_def mem_ops [OF assms(1)] store_simps Let_def split: if_split_asm)

lemma advance_sel [simp]:
  "cs_world (advance p w pr cs) = w" "cs_proc (advance p w pr cs) = (cs_proc cs)(p := pr)"
  "cs_behind (advance p w pr cs) = cs_behind cs"
  by (simp_all add: advance_def)

lemma note_bump_sel [simp]:
  "cs_world (note_bump key cs) = cs_world cs" "cs_proc (note_bump key cs) = cs_proc cs"
  "cs_behind (note_bump key cs) q =
     (if map_option fst (proc_epoch (cs_proc cs q)) = Some key then Suc (cs_behind cs q) else cs_behind cs q)"
  by (simp_all add: note_bump_def)

lemma cstep_other: "q \<noteq> p \<Longrightarrow> cs_proc (cstep sv now p cs) q = cs_proc cs q"
  by (cases "cs_proc cs p") (simp_all add: cstep_def Let_def split: prod.split sum.split)

lemma cstep_behind_other:
  "q \<noteq> p \<Longrightarrow> cs_behind (cstep sv now p cs) q =
     (if revoking (cs_proc cs p) \<noteq> None \<and> map_option fst (proc_epoch (cs_proc cs q)) = revoking (cs_proc cs p)
      then Suc (cs_behind cs q) else cs_behind cs q)"
  by (cases "cs_proc cs p") (simp_all add: cstep_def Let_def split: prod.split sum.split)

lemma cstep_behind_self:
  "proc_epoch (cs_proc cs p) \<noteq> None \<Longrightarrow> cs_behind (cstep sv now p cs) p = cs_behind cs p"
  by (cases "cs_proc cs p") (simp_all add: cstep_def Let_def split: prod.split sum.split)

lemma cstep_behind_le: "cs_behind (cstep sv now p cs) q \<le> Suc (cs_behind cs q)"
  by (cases "cs_proc cs p") (simp_all add: cstep_def Let_def split: prod.split sum.split)

lemma cstep_codes:
  assumes "mem_wired sv"
    and "fmlookup (ms_codes (w_tokens (cs_world (cstep sv now p cs)))) h = Some code"
  shows "fmlookup (ms_codes (w_tokens (cs_world cs))) h = Some code"
proof (cases "cs_proc cs p")
  case (ExStart req)
  with assms(2) show ?thesis
    by (auto simp: cstep_def Let_def dest: exchange_check_frame split: prod.split_asm sum.split_asm)
next
  case (ExChecked req c code ep)
  with assms(2) show ?thesis
    by (auto simp: cstep_def Let_def dest: exchange_claim_frame(2) [OF assms(1)]
        split: prod.split_asm sum.split_asm)
next
  case (ExAccess now' cid subject scs ep at rt fam)
  with assms(2) show ?thesis
    by (auto simp: cstep_def Let_def issue_refresh_frame(2) [OF assms(1)] split: prod.split_asm sum.split_asm)
next
  case (ExHalf cid subject resp e)
  with assms(2) show ?thesis
    by (auto simp: cstep_def Let_def rollback_pair_frame(2) [OF assms(1)] split: prod.split_asm)
qed (use assms(2) in \<open>auto simp: cstep_def Let_def issue_access_def bumpGrantEpoch_def
      mem_ops [OF assms(1)] store_simps
      split: prod.split_asm sum.split_asm option.split_asm if_split_asm\<close>)

lemma cstep_epoch:
  assumes "mem_wired sv"
  shows "epoch_at (cs_world (cstep sv now p cs)) key =
     epoch_at (cs_world cs) key + (if revoking (cs_proc cs p) = Some key then 1 else 0)"
proof (cases "cs_proc cs p")
  case (RvStart subject cid)
  then show ?thesis by (auto simp: cstep_def Let_def epoch_at_bump)
next
  case (ExStart req)
  then show ?thesis
    by (auto simp: cstep_def Let_def epoch_at_def dest!: exchange_check_frame split: prod.split sum.split)
next
  case (ExChecked req c code ep)
  then show ?thesis
    by (auto simp: cstep_def Let_def epoch_at_def dest!: exchange_claim_frame(1) [OF assms]
        split: prod.split sum.split)
next
  case (ExAccess now' cid subject scs ep at rt fam)
  then show ?thesis
    by (auto simp: cstep_def Let_def epoch_at_def dest!: issue_refresh_frame(1) [OF assms]
        split: prod.split sum.split)
next
  case (ExHalf cid subject resp e)
  then show ?thesis
    by (auto simp: cstep_def Let_def epoch_at_def dest!: rollback_pair_frame(1) [OF assms] split: prod.split)
qed (auto simp: cstep_def Let_def epoch_at_def split: prod.split sum.split)

section \<open>The capture invariant\<close>

lemma capture_ok_other:
  assumes "mem_wired sv" and "capture_ok cs q" and "q \<noteq> p"
  shows "capture_ok (cstep sv now p cs) q"
  unfolding capture_ok_def cstep_other [OF assms(3)]
proof (intro conjI allI impI)
  fix key ep assume e: "proc_epoch (cs_proc cs q) = Some (key, ep)"
  with assms(2) show "epoch_at (cs_world (cstep sv now p cs)) key = ep + of_nat (cs_behind (cstep sv now p cs) q)"
    by (simp add: capture_ok_def cstep_epoch [OF assms(1)] cstep_behind_other [OF assms(3)])
next
  fix req c code ep claimed
  assume "cs_proc cs q = ExChecked req c code ep"
    and "fmlookup (ms_codes (w_tokens (cs_world (cstep sv now p cs)))) (TokenHash (cx_code req)) = Some claimed"
  with assms(2) cstep_codes [OF assms(1)] show "claimed = code"
    unfolding capture_ok_def by blast
qed

text \<open>While a request keeps its capture, it keeps the grant and the generation captured.\<close>

lemma claim_keeps_grant:
  assumes "mem_wired sv" and "capture_ok cs p" and "cs_proc cs p = ExChecked req c code ep"
    and "exchange_claim sv now c req (cs_world cs) = (Inr claimed, w')"
  shows "claimed = code"
  using assms(2,3) exchange_claim_frame(3) [OF assms(1,4) refl] by (auto simp: capture_ok_def)

lemma cstep_keeps_capture:
  assumes "mem_wired sv" and "capture_ok cs p" and "proc_epoch (cs_proc cs p) = Some ke"
  shows "proc_epoch (cs_proc (cstep sv now p cs) p) \<in> {Some ke, None}"
  using assms(3) claim_keeps_grant [OF assms(1,2)]
  by (cases "cs_proc cs p") (auto simp: cstep_def Let_def split: prod.split sum.split)

lemma cstep_new_capture:
  assumes "mem_wired sv" and "proc_epoch (cs_proc cs p) = None"
    and "proc_epoch (cs_proc (cstep sv now p cs) p) = Some (key, ep)"
  shows "ep = epoch_at (cs_world cs) key \<and> cs_behind (cstep sv now p cs) p = 0"
  using assms(2,3) exchange_check_captures(1) [OF assms(1)]
  by (cases "cs_proc cs p") (auto simp: cstep_def Let_def split: prod.split_asm sum.split_asm if_split_asm)

lemma cstep_checked:
  assumes "mem_wired sv" and "cs_proc (cstep sv now p cs) p = ExChecked req c code ep"
  shows "fmlookup (ms_codes (w_tokens (cs_world cs))) (TokenHash (cx_code req)) = Some code"
  using assms(2) exchange_check_captures(2) [OF assms(1)]
  by (cases "cs_proc cs p") (auto simp: cstep_def Let_def split: prod.split_asm sum.split_asm if_split_asm)

lemma captured_not_revoking: "proc_epoch (cs_proc cs p) \<noteq> None \<Longrightarrow> revoking (cs_proc cs p) = None"
  by (cases "cs_proc cs p") simp_all

lemma revoking_no_capture:
  "revoking (cs_proc cs p) \<noteq> None \<Longrightarrow> proc_epoch (cs_proc (cstep sv now p cs) p) = None"
  by (cases "cs_proc cs p") (simp_all add: cstep_def Let_def)

lemma capture_ok_self:
  assumes "mem_wired sv" and "capture_ok cs p"
  shows "capture_ok (cstep sv now p cs) p"
  unfolding capture_ok_def
proof (intro conjI allI impI)
  fix key ep assume e: "proc_epoch (cs_proc (cstep sv now p cs) p) = Some (key, ep)"
  show "epoch_at (cs_world (cstep sv now p cs)) key = ep + of_nat (cs_behind (cstep sv now p cs) p)"
  proof (cases "proc_epoch (cs_proc cs p)")
    case None
    have "revoking (cs_proc cs p) = None" using revoking_no_capture [of cs p sv now] e by (cases "revoking (cs_proc cs p)") simp_all
    with cstep_new_capture [OF assms(1) None e] show ?thesis by (simp add: cstep_epoch [OF assms(1)])
  next
    case (Some ke)
    with cstep_keeps_capture [OF assms this, of now] e have "ke = (key, ep)" by auto
    with Some assms(2) show ?thesis
      by (simp add: capture_ok_def cstep_epoch [OF assms(1)] cstep_behind_self captured_not_revoking)
  qed
next
  fix req c code ep claimed
  assume "cs_proc (cstep sv now p cs) p = ExChecked req c code ep"
    and "fmlookup (ms_codes (w_tokens (cs_world (cstep sv now p cs)))) (TokenHash (cx_code req)) = Some claimed"
  from cstep_checked [OF assms(1) this(1)] cstep_codes [OF assms(1) this(2)]
  show "claimed = code" by simp
qed

lemma capture_ok_step: "mem_wired sv \<Longrightarrow> capture_ok cs q \<Longrightarrow> capture_ok (cstep sv now p cs) q"
  using capture_ok_other capture_ok_self by (cases "q = p") blast+

lemma crun_simps [simp]:
  "crun sv [] cs = cs" "crun sv ((now, p) # sched) cs = crun sv sched (cstep sv now p cs)"
  "crun sv (xs @ ys) cs = crun sv ys (crun sv xs cs)"
  by (simp_all add: crun_def)

lemma capture_ok_run: "mem_wired sv \<Longrightarrow> capture_ok cs q \<Longrightarrow> capture_ok (crun sv sched cs) q"
  by (induction sched arbitrary: cs) (auto simp: capture_ok_step)

lemma capture_ok_init: "cinit cs \<Longrightarrow> capture_ok cs q"
  by (auto simp: cinit_def capture_ok_def split: proc.split_asm dest!: spec [of _ q])
     (cases "cs_proc cs q"; simp)+

lemma cs_behind_run: "cs_behind (crun sv sched cs) q \<le> cs_behind cs q + length sched"
proof (induction sched arbitrary: cs)
  case (Cons a sched)
  obtain now p where "a = (now, p)" by (cases a)
  with Cons [of "cstep sv now p cs"] cstep_behind_le [of sv now p cs q] show ?case by simp
qed simp

section \<open>Overtaken exchanges\<close>

lemma overtaken_mono: "overtaken pr m \<Longrightarrow> m \<le> n \<Longrightarrow> overtaken pr n"
  by (cases pr) auto

lemma overtaken_self:
  assumes "mem_wired sv" and "capture_ok cs p" and "cs_behind cs p < 2 ^ 64"
    and "overtaken (cs_proc cs p) (cs_behind cs p)"
  shows "overtaken (cs_proc (cstep sv now p cs) p) (cs_behind (cstep sv now p cs) p)"
proof (cases "cs_proc cs p")
  case (ExMinted cid subject ep resp)
  with assms(2,4) have "epoch_at (cs_world cs) (grantEpochKey subject cid) \<noteq> ep"
    using of_nat_64_nonzero [OF _ assms(3)] by (simp add: capture_ok_def)
  with ExMinted show ?thesis by (simp add: cstep_def Let_def grantEpoch_key)
next
  case (ExHalf cid subject resp e)
  then show ?thesis
    using rollback_pair_frame(3) [OF assms(1)] by (auto simp: cstep_def Let_def split: prod.split)
qed (use assms(4) in \<open>simp_all add: cstep_def Let_def split: prod.split sum.split\<close>)

lemma overtaken_step:
  assumes "mem_wired sv" and "capture_ok cs q" and "cs_behind cs q < 2 ^ 64"
    and "overtaken (cs_proc cs q) (cs_behind cs q)"
  shows "overtaken (cs_proc (cstep sv now p cs) q) (cs_behind (cstep sv now p cs) q)"
proof (cases "q = p")
  case False
  then show ?thesis
    using assms(4) by (auto simp: cstep_other cstep_behind_other elim: overtaken_mono)
qed (use overtaken_self assms in blast)

lemma overtaken_run:
  assumes "mem_wired sv" and "capture_ok cs q" and "cs_behind cs q + length sched < 2 ^ 64"
    and "overtaken (cs_proc cs q) (cs_behind cs q)"
  shows "overtaken (cs_proc (crun sv sched cs) q) (cs_behind (crun sv sched cs) q)"
  using assms(2-)
proof (induction sched arbitrary: cs)
  case (Cons a sched)
  obtain now p where a: "a = (now, p)" by (cases a)
  have "cs_behind (cstep sv now p cs) q + length sched < 2 ^ 64"
    using Cons.prems(2) cstep_behind_le [of sv now p cs q] by simp
  moreover have "cs_behind cs q < 2 ^ 64" using Cons.prems(2) by simp
  ultimately show ?case
    using Cons.IH [OF capture_ok_step [OF assms(1) Cons.prems(1)]]
      overtaken_step [OF assms(1) Cons.prems(1) _ Cons.prems(3)] by (simp add: a)
qed simp

lemma revocation_overtakes:
  assumes "proc_epoch (cs_proc cs p) = Some (grantEpochKey subject cid, ep)"
    and "cs_proc cs r = RvStart subject cid" and "subject \<noteq> []" "cid \<noteq> []"
  shows "overtaken (cs_proc (cstep sv now r cs) p) (cs_behind (cstep sv now r cs) p)"
proof -
  have "p \<noteq> r" using assms(1,2) by auto
  then show ?thesis
    using assms by (cases "cs_proc cs p") (simp_all add: cstep_other cstep_behind_other)
qed

section \<open>One request alone\<close>

definition solo ::
  "('c, 't, 'd) service \<Rightarrow> time \<Rightarrow> nat \<Rightarrow> nat \<Rightarrow> ('c, 't, 'd) csys
   \<Rightarrow> (oauth_error + token_response) \<times> ('c, 't, 'd) world \<Rightarrow> bool" where
  "solo sv now p n cs r \<longleftrightarrow>
     (let cs' = crun sv (replicate n (now, p)) cs
      in cs_proc cs' p = Finished (fst r) \<and> cs_world cs' = snd r)"

lemma solo_Suc: "solo sv now p (Suc n) cs r \<longleftrightarrow> solo sv now p n (cstep sv now p cs) r"
  by (simp add: solo_def)

lemma solo_done: "cs_proc cs p = Finished (fst r) \<Longrightarrow> cs_world cs = snd r \<Longrightarrow> solo sv now p n cs r"
proof (induction n)
  case (Suc n)
  then have "cstep sv now p cs = cs" by (simp add: cstep_def)
  with Suc show ?case by (simp add: solo_Suc)
qed (simp add: solo_def)

lemma solo_minted:
  "cs_proc cs p = ExMinted cid subject ep resp \<Longrightarrow>
     solo sv now p 3 cs (guard_issued sv cid subject ep resp (cs_world cs))"
  by (simp add: numeral_eq_Suc solo_Suc cstep_def [of _ _ _ cs] Let_def guard_issued_def solo_done)
     (auto simp: numeral_eq_Suc solo_Suc cstep_def Let_def solo_done split: prod.split)

lemma solo_accessed:
  assumes "cs_proc cs p = ExAccess issued cid subject scs ep at rt fam"
  shows "solo sv now p 4 cs
     (case issue_refresh sv issued cid subject scs fam at rt (cs_world cs) of
        (Inl e, w) \<Rightarrow> (Inl e, w)
      | (Inr resp, w) \<Rightarrow> guard_issued sv cid subject ep resp w)"
proof -
  obtain r w where r: "issue_refresh sv issued cid subject scs fam at rt (cs_world cs) = (r, w)"
    by (cases "issue_refresh sv issued cid subject scs fam at rt (cs_world cs)")
  have "solo sv now p (Suc 3) cs
     (case issue_refresh sv issued cid subject scs fam at rt (cs_world cs) of
        (Inl e, w) \<Rightarrow> (Inl e, w)
      | (Inr resp, w) \<Rightarrow> guard_issued sv cid subject ep resp w)"
  proof (cases r)
    case (Inl e)
    with assms r show ?thesis unfolding solo_Suc by (simp add: cstep_def solo_done)
  next
    case (Inr resp)
    with assms r have "cstep sv now p cs = advance p w (ExMinted cid subject ep resp) cs"
      by (simp add: cstep_def)
    with solo_minted [of "advance p w (ExMinted cid subject ep resp) cs" p cid subject ep resp sv now] r Inr
    show ?thesis unfolding solo_Suc by simp
  qed
  then show ?thesis by simp
qed

lemma solo_claimed:
  assumes "cs_proc cs p = ExClaimed cid subject scs ep"
  shows "solo sv now p 5 cs (issueGuarded sv now cid subject scs [] ep (cs_world cs))"
proof -
  let ?w = "cs_world cs"
  obtain d t where d: "issue_draw [] (w_tape ?w) = (d, t)" by (cases "issue_draw [] (w_tape ?w)")
  have "solo sv now p (Suc 4) cs (issueGuarded sv now cid subject scs [] ep ?w)"
  proof (cases d)
    case (Inl e)
    with assms d show ?thesis
      unfolding solo_Suc by (simp add: cstep_def issueGuarded_def issue_def solo_done)
  next
    case (Inr v)
    obtain at rt fam where v: "v = (at, rt, fam)" by (cases v)
    obtain a ts where a: "issue_access sv now cid subject scs fam at (w_tokens ?w) = (a, ts)"
      by (cases "issue_access sv now cid subject scs fam at (w_tokens ?w)")
    show ?thesis
    proof (cases a)
      case Inl
      with assms d Inr v a show ?thesis
        unfolding solo_Suc by (simp add: cstep_def issueGuarded_def issue_def solo_done)
    next
      case (Inr u)
      let ?cs = "advance p (?w\<lparr>w_tape := t, w_tokens := ts\<rparr>) (ExAccess now cid subject scs ep at rt fam) cs"
      from \<open>d = Inr v\<close> Inr assms d v a have "cstep sv now p cs = ?cs" by (simp add: cstep_def)
      with solo_accessed [of ?cs p now cid subject scs ep at rt fam sv now] \<open>d = Inr v\<close> Inr d v a
      show ?thesis unfolding solo_Suc by (simp add: issueGuarded_def issue_def)
    qed
  qed
  then show ?thesis by simp
qed

lemma solo_checked:
  assumes "cs_proc cs p = ExChecked req c code ep"
  shows "solo sv now p 6 cs
     (case exchange_claim sv now c req (cs_world cs) of
        (Inl e, w) \<Rightarrow> (Inl e, w)
      | (Inr claimed, w) \<Rightarrow>
          issueGuarded sv now (c_id c) (ac_subject claimed) (ac_scopes claimed) [] ep w)" (is "solo sv now p 6 cs ?r")
proof -
  obtain r w where r: "exchange_claim sv now c req (cs_world cs) = (r, w)"
    by (cases "exchange_claim sv now c req (cs_world cs)")
  have "solo sv now p (Suc 5) cs ?r"
  proof (cases r)
    case (Inl e)
    with assms r show ?thesis unfolding solo_Suc by (simp add: cstep_def solo_done)
  next
    case (Inr cd)
    let ?cs = "advance p w (ExClaimed (c_id c) (ac_subject cd) (ac_scopes cd) ep) cs"
    from Inr assms r have "cstep sv now p cs = ?cs" by (simp add: cstep_def)
    with solo_claimed [of ?cs p "c_id c" "ac_subject cd" "ac_scopes cd" ep sv now] r Inr
    show ?thesis unfolding solo_Suc by simp
  qed
  then show ?thesis by simp
qed

lemma solo_exchange:
  assumes "cs_proc cs p = ExStart req"
  shows "solo sv now p 7 cs (Exchange sv now req (cs_world cs))"
proof -
  obtain r w where r: "exchange_check sv now req (cs_world cs) = (r, w)"
    by (cases "exchange_check sv now req (cs_world cs)")
  have "solo sv now p (Suc 6) cs (Exchange sv now req (cs_world cs))"
  proof (cases r)
    case (Inl e)
    with assms r show ?thesis unfolding solo_Suc by (simp add: cstep_def Exchange_def solo_done)
  next
    case (Inr x)
    obtain c code ep where x: "x = (c, code, ep)" by (cases x)
    let ?cs = "(advance p w (ExChecked req c code ep) cs)\<lparr>cs_behind := (cs_behind cs)(p := 0)\<rparr>"
    from Inr x assms r have "cstep sv now p cs = ?cs" by (simp add: cstep_def)
    with solo_checked [of ?cs p req c code ep sv now] r Inr x
    show ?thesis unfolding solo_Suc by (simp add: Exchange_def)
  qed
  then show ?thesis by simp
qed

section \<open>Stepping a fixed schedule\<close>

lemma bump_frame [simp]:
  "w_clients (bumpGrantEpoch s c w) = w_clients w" "w_tokens (bumpGrantEpoch s c w) = w_tokens w"
  "w_tape (bumpGrantEpoch s c w) = w_tape w"
  "sv_client sv (bumpGrantEpoch s c w) cid secret auth = sv_client sv w cid secret auth"
  by (simp_all add: bumpGrantEpoch_def sv_client_def)

lemma issue_draw_ok:
  "96 \<le> length t \<Longrightarrow> issue_draw [] t = (Inr (draw 0 t, draw 1 t, draw 2 t), drop 96 t)"
  by (simp add: issue_draw_def newToken_ok)

lemma exchange_check_ok:
  assumes "mem_wired sv" and "sv_client sv w (cx_client req) (cx_secret req) True = Inr c"
    and "fmlookup (ms_codes (w_tokens w)) (TokenHash (cx_code req)) = Some code"
    and "checkCodeBinding now c code req = None"
  shows "exchange_check sv now req w = (Inr (c, code, grantEpoch w (ac_subject code) (c_id c)), w)"
  using assms by (simp add: exchange_check_def mem_ops store_simps)

section \<open>A concrete system\<close>

text \<open>One exchange (request 0) and one revocation of its grant (request 1).\<close>

definition demo_cs :: "(client_map, memory_store, memory_devices) csys" where
  "demo_cs =
     \<lparr>cs_world = demo_world,
      cs_proc = (\<lambda>p. if p = 0 then ExStart demo_exchange else if p = 1 then RvStart ''user'' ''app'' else Idle),
      cs_behind = (\<lambda>_. 0)\<rparr>"

lemma demo_cs_sel:
  "cs_world demo_cs = demo_world" "cs_proc demo_cs 0 = ExStart demo_exchange"
  "cs_proc demo_cs 1 = RvStart ''user'' ''app''" "cs_proc demo_cs (Suc 0) = RvStart ''user'' ''app''"
  by (simp_all add: demo_cs_def)

lemma demo_cs_init: "cinit demo_cs"
  by (simp add: cinit_def demo_cs_def)

lemma demo_binding: "checkCodeBinding 10 demo_client demo_code demo_exchange = None"
  by (simp add: checkCodeBinding_None demo_client_def demo_code_def demo_exchange_def verifyPKCE_challenge)

lemma demo_code_stored: "fmlookup (ms_codes demo_store) (TokenHash ''code'') = Some demo_code"
  by (simp add: demo_store_def)

lemma demo_code_sel: "ac_subject demo_code = ''user''" "ac_scopes demo_code = [ScopeAccountID]"
  by (simp_all add: demo_code_def)

lemma demo_checked:
  "cs_proc (crun demo_service [(10, 0)] demo_cs) 0 = ExChecked demo_exchange demo_client demo_code 0"
  by (simp add: cstep_def Let_def demo_cs_sel exchange_check_def mem_ops store_simps demo_exchange_sel
      demo_binding demo_code_stored grantEpoch_def)
     (simp add: demo_world_def)

section \<open>Properties\<close>

text \<open>
  The steps compose to the operations: an exchange that runs its seven steps without
  interruption ends with the answer and the state of \<open>Exchange\<close>, and an uninterrupted revocation
  with those of \<open>RevokeGrant\<close>, whatever stores the service is wired to.
\<close>
theorem steps_compose:
  assumes "cs_proc cs p = ExStart req" and "cs_proc cs r = RvStart subject cid"
  shows "cs_proc (crun sv (replicate 7 (now, p)) cs) p = Finished (fst (Exchange sv now req (cs_world cs)))
     \<and> cs_world (crun sv (replicate 7 (now, p)) cs) = snd (Exchange sv now req (cs_world cs))
     \<and> cs_proc (crun sv (replicate 2 (now, r)) cs) r = RvDone (fst (RevokeGrant sv subject cid (cs_world cs)))
     \<and> cs_world (crun sv (replicate 2 (now, r)) cs) = snd (RevokeGrant sv subject cid (cs_world cs))"
proof -
  have "cs_proc (crun sv (replicate 2 (now, r)) cs) r = RvDone (fst (RevokeGrant sv subject cid (cs_world cs)))
     \<and> cs_world (crun sv (replicate 2 (now, r)) cs) = snd (RevokeGrant sv subject cid (cs_world cs))"
    using assms(2)
    by (simp add: numeral_2_eq_2 cstep_def Let_def RevokeGrant_def bumpGrantEpoch_def split: prod.split sum.split)
  with solo_exchange [OF assms(1), of sv now] show ?thesis by (simp add: solo_def Let_def)
qed

theorem steps_compose_witness:
  "fst (Exchange demo_service 10 demo_exchange demo_world)
     = Inr (issue_response demo_service [ScopeAccountID] (w_tape demo_world))
   \<and> cs_proc (crun demo_service (replicate 7 (10, 0)) demo_cs) 0
       = Finished (Inr (issue_response demo_service [ScopeAccountID] (w_tape demo_world)))"
  using steps_compose [of demo_cs 0 demo_exchange 1 "''user''" "''app''" demo_service 10]
  by (simp add: demo_cs_sel demo_exchange_ok)

text \<open>
  C6. The guard is complete for revocations that start after the capture: on any schedule of
  fewer than \<open>2 ^ 64\<close> steps, an exchange that had captured the generation of its grant when a
  revocation of that grant advanced it never returns tokens, at any later point; and once it
  notices, its next two steps take both records of the pair out of the store and answer
  \<^verbatim>\<open>invalid_grant\<close>.
\<close>
theorem overtaken_exchange_refused:
  assumes "mem_wired sv" and "cinit cs" and "length (s1 @ (t, r) # s2) < 2 ^ 64"
    and "proc_epoch (cs_proc (crun sv s1 cs) p) = Some (grantEpochKey subject cid, ep)"
    and "cs_proc (crun sv s1 cs) r = RvStart subject cid" and "subject \<noteq> []" "cid \<noteq> []"
  defines "fin \<equiv> crun sv (s1 @ (t, r) # s2) cs"
  shows "cs_proc fin p \<noteq> Finished (Inr resp)
     \<and> (cs_proc fin p = ExStale cid' subject' resp' \<longrightarrow>
          (let fin' = crun sv [(t1, p), (t2, p)] fin; ts = w_tokens (cs_world fin') in
             cs_proc fin' p = Finished (Inl (protocolError ''invalid_grant''
               ''the grant was revoked while this request was in flight''))
             \<and> fmlookup (ms_access ts) (TokenHash (tr_access resp')) = None
             \<and> fmlookup (ms_refresh ts) (TokenHash (tr_refresh resp')) = None))"
proof -
  let ?cs1 = "crun sv s1 cs" and ?cs2 = "cstep sv t r (crun sv s1 cs)"
  have ok: "capture_ok ?cs2 p"
    using assms(1,2) by (intro capture_ok_step capture_ok_run capture_ok_init)
  have "cs_behind ?cs2 p \<le> Suc (length s1)"
    using cs_behind_run [of sv s1 cs p] cstep_behind_le [of sv t r ?cs1 p] assms(2)
    by (simp add: cinit_def)
  with assms(3) have "cs_behind ?cs2 p + length s2 < 2 ^ 64" by simp
  from overtaken_run [OF assms(1) ok this revocation_overtakes [OF assms(4-7)]]
  have "overtaken (cs_proc fin p) (cs_behind fin p)" by (simp add: fin_def)
  then have "cs_proc fin p \<noteq> Finished (Inr resp)" by auto
  then show ?thesis
    by (auto simp: cstep_def Let_def rollback_pair_def mem_ops [OF assms(1)] store_simps)
qed

theorem overtaken_exchange_refused_witness:
  "cs_proc (crun demo_service ([(10, 0)] @ (11, 1) # [(12, 0), (12, 0), (12, 0), (12, 0)]) demo_cs) 0
     \<noteq> Finished (Inr (issue_response demo_service [ScopeAccountID] (w_tape demo_world)))"
proof -
  have "cs_proc (crun demo_service [(10, 0)] demo_cs) 1 = RvStart ''user'' ''app''"
    by (simp add: cstep_other demo_cs_sel)
  with overtaken_exchange_refused [OF demo_wired demo_cs_init, of "[(10, 0)]" 11 1
      "[(12, 0), (12, 0), (12, 0), (12, 0)]" 0 "''user''" "''app''" 0]
  show ?thesis unfolding demo_checked by (simp add: demo_code_sel)
qed

text \<open>
  C28. The window that remains: whenever a code would exchange, there is a schedule in which a
  revocation of its grant reports success, the exchange reports success after it, and the access
  token is active. In that schedule the exchange checks the code, captures the generation and
  claims the code between the advance and the delete of the revocation, and writes its pair after
  the delete.
\<close>
theorem revocation_race:
  assumes "mem_wired sv" and "e \<noteq> r"
    and "cs_proc cs e = ExStart req" and "cs_proc cs r = RvStart (ac_subject code) (cx_client req)"
    and "ac_subject code \<noteq> []" "cx_client req \<noteq> []"
    and "sv_client sv (cs_world cs) (cx_client req) (cx_secret req) True = Inr c" and "c_id c = cx_client req"
    and "fmlookup (ms_codes (w_tokens (cs_world cs))) (TokenHash (cx_code req)) = Some code"
    and "checkCodeBinding now c code req = None" and "0 < atTTL sv"
    and "96 \<le> length (w_tape (cs_world cs))"
  defines "fin \<equiv> crun sv [(now, r), (now, e), (now, e), (now, r), (now, e), (now, e), (now, e)] cs"
    and "resp \<equiv> issue_response sv (ac_scopes code) (w_tape (cs_world cs))"
  shows "cs_proc fin r = RvDone (Inr ()) \<and> cs_proc fin e = Finished (Inr resp)
     \<and> Introspect sv now (tr_access resp) (cs_world fin)
         = Inr \<lparr>ti_active = True, ti_subject = ac_subject code, ti_client = cx_client req,
                ti_scopes = ac_scopes code, ti_expires = now + atTTL sv\<rparr>"
  using assms(2-11) sv_client_Inr [OF assms(1,7)] assms(12)
  by (simp add: fin_def resp_def cstep_def Let_def exchange_check_ok [OF assms(1)] exchange_claim_mem [OF assms(1)]
      issue_draw_ok issue_access_def issue_refresh_def mem_ops [OF assms(1)] store_simps issue_response_def
      Introspect_mem [OF assms(1)] access_of_def)

theorem revocation_race_witness:
  "let fin = crun demo_service [(10, 1), (10, 0), (10, 0), (10, 1), (10, 0), (10, 0), (10, 0)] demo_cs;
       resp = issue_response demo_service [ScopeAccountID] (w_tape demo_world)
   in cs_proc fin 1 = RvDone (Inr ()) \<and> cs_proc fin 0 = Finished (Inr resp)
      \<and> Introspect demo_service 10 (tr_access resp) (cs_world fin)
          = Inr \<lparr>ti_active = True, ti_subject = ''user'', ti_client = ''app'',
                 ti_scopes = [ScopeAccountID], ti_expires = 1010\<rparr>"
  using revocation_race [OF demo_wired, of 0 1 demo_cs demo_exchange demo_code demo_client 10]
  by (simp add: demo_cs_sel demo_exchange_sel demo_code_sel demo_code_stored demo_binding)

end
