(* ===== verification/Ordered_Slice.thy ===== *)
theory Ordered_Slice
  imports Go_Lib
begin

text \<open>
  The ordered slices several stores keep beside a map: keys in strict order, a key inserted or
  removed at the position \<^verbatim>\<open>sort.Search\<close> finds for it.
  Shown: on an ordered slice, insertion puts the key where it belongs and keeps the order, and
  removal drops exactly that key; the run of keys with one prefix is what a filter selects.
\<close>

definition slice_pos :: "'a::linorder list \<Rightarrow> 'a \<Rightarrow> nat" where
  "slice_pos xs x = sort_search (length xs) (\<lambda>k. \<not> xs ! k < x)"

definition slice_has :: "'a::linorder list \<Rightarrow> 'a \<Rightarrow> bool" where
  "slice_has xs x \<longleftrightarrow> slice_pos xs x < length xs \<and> xs ! slice_pos xs x = x"

definition slice_insert :: "'a::linorder \<Rightarrow> 'a list \<Rightarrow> 'a list" where
  "slice_insert x xs = take (slice_pos xs x) xs @ x # drop (slice_pos xs x) xs"

definition slice_remove :: "'a::linorder \<Rightarrow> 'a list \<Rightarrow> 'a list" where
  "slice_remove x xs =
     (if slice_has xs x then take (slice_pos xs x) xs @ drop (Suc (slice_pos xs x)) xs else xs)"

lemma slice_split:
  assumes "sorted_wrt (<) xs"
  shows "take (slice_pos xs x) xs = filter (\<lambda>k. k < x) xs" "drop (slice_pos xs x) xs = filter (\<lambda>k. x \<le> k) xs"
proof -
  have "sorted_wrt (\<lambda>a b. \<not> a < x \<longrightarrow> \<not> b < x) xs"
    by (rule sorted_wrt_mono_rel [OF _ assms]) auto
  note sp = sort_search_split [OF this, folded slice_pos_def]
  show "take (slice_pos xs x) xs = filter (\<lambda>k. k < x) xs" using sp(1) by simp
  show "drop (slice_pos xs x) xs = filter (\<lambda>k. x \<le> k) xs" using sp(2) by (simp add: not_less)
qed

lemma slice_insert_eq:
  "sorted_wrt (<) xs \<Longrightarrow> slice_insert x xs = filter (\<lambda>k. k < x) xs @ x # filter (\<lambda>k. x \<le> k) xs"
  by (simp add: slice_insert_def slice_split)

lemma slice_insert_ok:
  assumes "sorted_wrt (<) xs" and "x \<notin> set xs"
  shows "sorted_wrt (<) (slice_insert x xs)" "set (slice_insert x xs) = insert x (set xs)"
  using assms
  by (auto simp: slice_insert_def slice_split sorted_wrt_append order.order_iff_strict intro: sorted_wrt_filter)

lemma slice_has_iff:
  assumes "sorted_wrt (<) xs"
  shows "slice_has xs x \<longleftrightarrow> x \<in> set xs"
proof
  assume "x \<in> set xs"
  then have "x \<in> set (drop (slice_pos xs x) xs)" by (simp add: slice_split(2) [OF assms])
  then obtain k ks where ks: "drop (slice_pos xs x) xs = k # ks" by (cases "drop (slice_pos xs x) xs") auto
  have "k \<in> set (filter (\<lambda>k. x \<le> k) xs)" unfolding slice_split(2) [OF assms, symmetric] ks by simp
  moreover have "sorted_wrt (<) (k # ks)" using assms by (simp flip: ks add: sorted_wrt_drop)
  ultimately have "k = x" using \<open>x \<in> set (drop (slice_pos xs x) xs)\<close> ks by fastforce
  moreover have "slice_pos xs x < length xs" using ks by (metis drop_eq_Nil list.distinct(1) not_le)
  ultimately show "slice_has xs x" using ks by (simp add: slice_has_def flip: hd_drop_conv_nth)
qed (metis slice_has_def nth_mem)

lemma slice_remove_eq:
  assumes "sorted_wrt (<) xs"
  shows "slice_remove x xs = filter (\<lambda>k. k \<noteq> x) xs"
proof (cases "slice_has xs x")
  case True
  then have d: "drop (slice_pos xs x) xs = x # drop (Suc (slice_pos xs x)) xs"
    using Cons_nth_drop_Suc [of "slice_pos xs x" xs] by (simp add: slice_has_def)
  have "sorted_wrt (<) (x # drop (Suc (slice_pos xs x)) xs)"
    using assms by (simp flip: d add: sorted_wrt_drop)
  then have hi: "filter (\<lambda>k. k \<noteq> x) (drop (slice_pos xs x) xs) = drop (Suc (slice_pos xs x)) xs"
    by (auto simp: d filter_id_conv)
  have "filter (\<lambda>k. k \<noteq> x) (take (slice_pos xs x) xs) = take (slice_pos xs x) xs"
    by (auto simp: slice_split(1) [OF assms] filter_id_conv simp del: filter_filter)
  with hi True show ?thesis
    by (metis append_take_drop_id filter_append slice_remove_def)
next
  case False
  then have "x \<notin> set xs" using slice_has_iff [OF assms] by simp
  then have "filter (\<lambda>k. k \<noteq> x) xs = xs" by (auto simp: filter_id_conv)
  then show ?thesis using False by (simp add: slice_remove_def)
qed

lemma sort_search_cong:
  assumes "\<And>k. k < n \<Longrightarrow> f k = g k"
  shows "sort_search n f = sort_search n g"
proof -
  have "j \<le> n \<Longrightarrow> search_between f i j = search_between g i j" for i j
    using assms
  proof (induction f i j rule: search_between.induct)
    case (1 f i j)
    show ?case
    proof (cases "i < j")
      case True
      then have h: "(i + j) div 2 < n" using "1.prems"(1) by simp
      note IH = "1.IH" [OF True refl]
      show ?thesis
        using True h IH "1.prems"
        by (simp add: search_between.simps [of f i j] search_between.simps [of g i j] Let_def)
    qed (simp add: search_between.simps [of f i j] search_between.simps [of g i j])
  qed
  then show ?thesis by (simp add: sort_search_def)
qed

lemma takeWhile_prefix_filter:
  "sorted_wrt (\<lambda>a b. P b \<longrightarrow> P a) xs \<Longrightarrow> takeWhile P xs = filter P xs \<and> dropWhile P xs = filter (\<lambda>x. \<not> P x) xs"
  by (induction xs) (auto simp: filter_empty_conv filter_id_conv)

lemma fmlookup_fold_drop: "fmlookup (fold fmdrop xs m) k = (if k \<in> set xs then None else fmlookup m k)"
  by (induction xs arbitrary: m) auto

end
