(* ===== verification/Vault_Repo.thy ===== *)
theory Vault_Repo
  imports Ordered_Slice
begin

text \<open>
  The credential records of \<^verbatim>\<open>vault/repo.go\<close>: identities and their order, records, the \<open>Repo\<close>
  interface (with the optional pager) as a record of operations, and \<open>MemoryRepo\<close>, a map
  beside an ordered index of its keys that every mutation keeps in step.
  Shown: the index invariant is kept by every operation; under it the listing is the map in
  identity order, a page is a window of that listing, and erasing a subject removes exactly
  its run of the index. Records are values, so the defensive copies of the source
  (\<open>cloneRecord\<close>) are the identity, and the probe counter \<open>rowsCopied\<close> is left out.
\<close>

section \<open>Identities and errors\<close>

datatype identity = Identity (id_subject: string) (id_provider: string)

text \<open>
  What an error of the vault can carry. \<open>VRef\<close> is the rendering of \<open>identityRef\<close>: the provider
  and the length of the subject, never the subject.
\<close>

datatype vault_error =
    ErrInvalidIdentity
  | ErrNotFound
  | VPlain string
  | VRef string "string \<times> nat" string
  | VWrapped string vault_error
  | VJoin "vault_error list"

definition identityRef :: "identity \<Rightarrow> string \<times> nat" where
  "identityRef i = (id_provider i, length (id_subject i))"

definition maxIdentityFieldLen :: nat where "maxIdentityFieldLen = 1024"

definition id_validate :: "identity \<Rightarrow> vault_error option" where
  "id_validate i =
     (if id_subject i = [] then Some ErrInvalidIdentity
      else if id_provider i = [] then Some ErrInvalidIdentity
      else if length (id_subject i) > maxIdentityFieldLen \<or> length (id_provider i) > maxIdentityFieldLen
        then Some ErrInvalidIdentity
      else None)"

definition identityLess :: "identity \<Rightarrow> identity \<Rightarrow> bool" where
  "identityLess a b =
     (if id_subject a \<noteq> id_subject b then id_subject a < id_subject b else id_provider a < id_provider b)"

instantiation identity :: linorder
begin

definition less_identity_def: "a < b \<longleftrightarrow> identityLess a b"

definition less_eq_identity_def: "a \<le> b \<longleftrightarrow> a = b \<or> identityLess a b"

instance
  by standard
     (auto simp: less_identity_def less_eq_identity_def identityLess_def identity.expand split: if_splits)

end

section \<open>Records and the repository interface\<close>

record vault_record =
  vr_identity :: identity
  vr_version :: char
  vr_wrapped :: string
  vr_kek :: string
  vr_nonce :: string
  vr_ct :: string
  vr_meta :: "(string, string) fmap"
  vr_created :: time
  vr_updated :: time

record envelope =
  en_kek :: string
  en_wrapped :: string
  en_updated :: time

record 'r repo =
  rp_put :: "vault_record \<Rightarrow> 'r \<Rightarrow> (vault_error + unit) \<times> 'r"
  rp_get :: "identity \<Rightarrow> 'r \<Rightarrow> vault_error + vault_record"
  rp_delete :: "identity \<Rightarrow> 'r \<Rightarrow> (vault_error + unit) \<times> 'r"
  rp_rewrap :: "identity \<Rightarrow> string \<Rightarrow> envelope \<Rightarrow> 'r \<Rightarrow> (vault_error + bool) \<times> 'r"
  rp_list :: "'r \<Rightarrow> vault_error + vault_record list"
  rp_delete_subject :: "string \<Rightarrow> 'r \<Rightarrow> (vault_error + nat) \<times> 'r"
  rp_page :: "(string \<Rightarrow> string \<Rightarrow> int \<Rightarrow> 'r \<Rightarrow> vault_error + vault_record list) option"

section \<open>MemoryRepo\<close>

record memory_repo =
  mv_records :: "(identity, vault_record) fmap"
  mv_ids :: "identity list"

definition NewMemoryRepo :: memory_repo where
  "NewMemoryRepo = \<lparr>mv_records = fmempty, mv_ids = []\<rparr>"

definition indexOf :: "identity list \<Rightarrow> identity \<Rightarrow> nat \<times> bool" where
  "indexOf ids i =
     (let n = sort_search (length ids) (\<lambda>k. \<not> identityLess (ids ! k) i)
      in (n, n < length ids \<and> ids ! n = i))"

definition insertIndex :: "identity \<Rightarrow> identity list \<Rightarrow> identity list" where
  "insertIndex i ids = (let n = fst (indexOf ids i) in take n ids @ i # drop n ids)"

definition removeIndex :: "identity \<Rightarrow> identity list \<Rightarrow> identity list" where
  "removeIndex i ids =
     (case indexOf ids i of (n, found) \<Rightarrow> if found then take n ids @ drop (Suc n) ids else ids)"

definition mv_put :: "vault_record \<Rightarrow> memory_repo \<Rightarrow> (vault_error + unit) \<times> memory_repo" where
  "mv_put rec r =
     (Inr (),
      \<lparr>mv_records = fmupd (vr_identity rec) rec (mv_records r),
       mv_ids = (case fmlookup (mv_records r) (vr_identity rec) of
                   None \<Rightarrow> insertIndex (vr_identity rec) (mv_ids r) | Some _ \<Rightarrow> mv_ids r)\<rparr>)"

definition mv_rewrap ::
  "identity \<Rightarrow> string \<Rightarrow> envelope \<Rightarrow> memory_repo \<Rightarrow> (vault_error + bool) \<times> memory_repo" where
  "mv_rewrap i expect nxt r =
     (case fmlookup (mv_records r) i of
        None \<Rightarrow> (Inr False, r)
      | Some rec \<Rightarrow>
          if vr_wrapped rec \<noteq> expect then (Inr False, r)
          else (Inr True,
                r\<lparr>mv_records := fmupd i
                    (rec\<lparr>vr_wrapped := en_wrapped nxt, vr_kek := en_kek nxt, vr_updated := en_updated nxt\<rparr>)
                    (mv_records r)\<rparr>))"

definition mv_get :: "identity \<Rightarrow> memory_repo \<Rightarrow> vault_error + vault_record" where
  "mv_get i r = (case fmlookup (mv_records r) i of None \<Rightarrow> Inl ErrNotFound | Some rec \<Rightarrow> Inr rec)"

definition mv_delete :: "identity \<Rightarrow> memory_repo \<Rightarrow> (vault_error + unit) \<times> memory_repo" where
  "mv_delete i r =
     (case fmlookup (mv_records r) i of
        None \<Rightarrow> (Inl ErrNotFound, r)
      | Some _ \<Rightarrow> (Inr (), \<lparr>mv_records = fmdrop i (mv_records r), mv_ids = removeIndex i (mv_ids r)\<rparr>))"

text \<open>\<^verbatim>\<open>r.records[id]\<close>: a missing key would read as the zero record.\<close>

definition zero_record :: vault_record where
  "zero_record =
     \<lparr>vr_identity = Identity [] [], vr_version = CHR 0x00, vr_wrapped = [], vr_kek = [], vr_nonce = [],
      vr_ct = [], vr_meta = fmempty, vr_created = 0, vr_updated = 0\<rparr>"

definition record_at :: "memory_repo \<Rightarrow> identity \<Rightarrow> vault_record" where
  "record_at r i = (case fmlookup (mv_records r) i of None \<Rightarrow> zero_record | Some rec \<Rightarrow> rec)"

definition mv_list :: "memory_repo \<Rightarrow> vault_error + vault_record list" where
  "mv_list r = Inr (map (record_at r) (mv_ids r))"

definition recordAfter :: "string \<Rightarrow> string \<Rightarrow> identity \<Rightarrow> bool" where
  "recordAfter subject provider i =
     (if subject = [] \<and> provider = [] then True
      else if id_subject i \<noteq> subject then id_subject i > subject
      else id_provider i > provider)"

definition mv_page :: "string \<Rightarrow> string \<Rightarrow> int \<Rightarrow> memory_repo \<Rightarrow> vault_error + vault_record list" where
  "mv_page afterSubject afterProvider limit r =
     (let limit = (if limit \<le> 0 then 1 else limit);
          pos = sort_search (length (mv_ids r)) (\<lambda>k. recordAfter afterSubject afterProvider (mv_ids r ! k));
          end = min (pos + nat limit) (length (mv_ids r))
      in Inr (map (record_at r) (take (end - pos) (drop pos (mv_ids r)))))"

definition mv_delete_subject :: "string \<Rightarrow> memory_repo \<Rightarrow> (vault_error + nat) \<times> memory_repo" where
  "mv_delete_subject subject r =
     (if subject = [] then (Inl ErrInvalidIdentity, r)
      else (let ids = mv_ids r;
                lo = sort_search (length ids) (\<lambda>k. id_subject (ids ! k) \<ge> subject);
                run = takeWhile (\<lambda>i. id_subject i = subject) (drop lo ids);
                hi = lo + length run
            in (Inr (hi - lo),
                \<lparr>mv_records = fold fmdrop run (mv_records r), mv_ids = take lo ids @ drop hi ids\<rparr>)))"

definition memory_repo :: "memory_repo repo" where
  "memory_repo =
     \<lparr>rp_put = mv_put, rp_get = mv_get, rp_delete = mv_delete, rp_rewrap = mv_rewrap, rp_list = mv_list,
      rp_delete_subject = mv_delete_subject, rp_page = Some mv_page\<rparr>"

text \<open>The invariant: the index is strictly ordered and lists exactly the keys, and a record sits under its own identity.\<close>

definition repo_ok :: "memory_repo \<Rightarrow> bool" where
  "repo_ok r \<longleftrightarrow>
     sorted_wrt (<) (mv_ids r) \<and> set (mv_ids r) = fset (fmdom (mv_records r))
     \<and> (\<forall>i rec. fmlookup (mv_records r) i = Some rec \<longrightarrow> vr_identity rec = i)"

section \<open>The ordered index\<close>

lemma not_identityLess: "\<not> identityLess a b \<longleftrightarrow> b \<le> a"
  by (simp flip: less_identity_def add: not_less)

lemma indexOf_slice: "indexOf ids i = (slice_pos ids i, slice_has ids i)"
  by (simp add: indexOf_def slice_pos_def slice_has_def not_identityLess Let_def not_less)

lemma insertIndex_slice: "insertIndex i ids = slice_insert i ids"
  by (simp add: insertIndex_def slice_insert_def indexOf_slice Let_def)

lemma removeIndex_slice: "removeIndex i ids = slice_remove i ids"
  by (simp add: removeIndex_def slice_remove_def indexOf_slice)

lemmas index_slice = insertIndex_slice removeIndex_slice

section \<open>Every operation keeps the index in step\<close>

lemma repo_ok_new: "repo_ok NewMemoryRepo"
  by (simp add: repo_ok_def NewMemoryRepo_def)

lemma repo_ok_put: "repo_ok r \<Longrightarrow> repo_ok (snd (mv_put rec r))"
  by (auto simp: repo_ok_def mv_put_def index_slice slice_insert_ok fmlookup_None_iff fmdomI split: option.split if_split_asm)

lemma repo_ok_delete: "repo_ok r \<Longrightarrow> repo_ok (snd (mv_delete i r))"
  by (auto simp: repo_ok_def mv_delete_def index_slice slice_remove_eq intro: sorted_wrt_filter split: option.split if_split_asm)

lemma repo_ok_rewrap: "repo_ok r \<Longrightarrow> repo_ok (snd (mv_rewrap i expect nxt r))"
  by (auto simp: repo_ok_def mv_rewrap_def fmdomI split: option.split if_split_asm)

lemma mv_get_rules:
  "mv_get i (snd (mv_put rec r)) = (if i = vr_identity rec then Inr rec else mv_get i r)"
  "mv_get i (snd (mv_delete j r)) = (if i = j then Inl ErrNotFound else mv_get i r)"
  by (auto simp: mv_get_def mv_put_def mv_delete_def split: option.split)

section \<open>Listing and paging\<close>

lemma mv_ids_eq:
  assumes "repo_ok r"
  shows "mv_ids r = sorted_list_of_fset (fmdom (mv_records r))"
  using assms strict_sorted_equal [of "mv_ids r" "sorted_list_of_fset (fmdom (mv_records r))"]
  by (simp add: repo_ok_def sorted_list_of_fset.rep_eq)

lemma mv_list_eq:
  assumes "repo_ok r"
  shows "mv_list r = Inr (fm_values (mv_records r))"
proof -
  have "map (record_at r) (mv_ids r) = map (\<lambda>k. the (fmlookup (mv_records r) k)) (mv_ids r)"
    using assms by (auto simp: repo_ok_def record_at_def fmlookup_dom_iff)
  then show ?thesis
    by (simp add: mv_list_def fm_values_def sorted_list_of_fmap_def mv_ids_eq [OF assms] comp_def)
qed

lemma recordAfter_iff: "recordAfter s p i \<longleftrightarrow> (s = [] \<and> p = []) \<or> Identity s p < i"
  by (auto simp: recordAfter_def less_identity_def identityLess_def)

lemma mv_page_eq:
  assumes "repo_ok r"
  shows "mv_page s p limit r =
     Inr (take (nat (max 1 limit)) (filter (\<lambda>rec. recordAfter s p (vr_identity rec)) (fm_values (mv_records r))))"
proof -
  let ?after = "recordAfter s p"
  have srt: "sorted_wrt (\<lambda>a b. ?after a \<longrightarrow> ?after b) (mv_ids r)"
    using assms unfolding repo_ok_def recordAfter_iff by (auto intro: sorted_wrt_mono_rel [of _ "(<)"])
  note sp = sort_search_split [OF srt]
  have vals: "fm_values (mv_records r) = map (record_at r) (mv_ids r)"
    using mv_list_eq [OF assms] by (simp add: mv_list_def)
  have ident: "vr_identity (record_at r i) = i" if "i \<in> set (mv_ids r)" for i
    using assms that by (auto simp: repo_ok_def record_at_def fmlookup_dom_iff split: option.split)
  have "filter (\<lambda>rec. ?after (vr_identity rec)) (fm_values (mv_records r))
      = map (record_at r) (filter ?after (mv_ids r))"
    unfolding vals filter_map comp_def
    by (intro arg_cong [of _ _ "map (record_at r)"] filter_cong) (simp_all add: ident)
  moreover have "mv_page s p limit r = Inr (map (record_at r) (take (nat (max 1 limit))
      (drop (sort_search (length (mv_ids r)) (\<lambda>k. ?after (mv_ids r ! k))) (mv_ids r))))"
    by (auto simp: mv_page_def Let_def min_def max_def take_all intro!: arg_cong [of _ _ "map (record_at r)"])
  ultimately show ?thesis by (simp add: sp(2) take_map)
qed

section \<open>Erasing a subject\<close>

lemma subject_mono: "a < b \<Longrightarrow> id_subject a \<le> id_subject b"
  by (auto simp: less_identity_def identityLess_def split: if_split_asm)

lemma subject_run:
  fixes subject :: string
  assumes "sorted_wrt (<) ids"
  defines "lo \<equiv> sort_search (length ids) (\<lambda>k. id_subject (ids ! k) \<ge> subject)"
  defines "run \<equiv> takeWhile (\<lambda>i. id_subject i = subject) (drop lo ids)"
  shows "run = filter (\<lambda>i. id_subject i = subject) ids"
    and "take lo ids @ drop (lo + length run) ids = filter (\<lambda>i. id_subject i \<noteq> subject) ids"
proof -
  let ?ge = "\<lambda>i. subject \<le> id_subject i" and ?eq = "\<lambda>i. id_subject i = subject"
  have "sorted_wrt (\<lambda>a b. ?ge a \<longrightarrow> ?ge b) ids"
    by (rule sorted_wrt_mono_rel [OF _ assms(1)]) (auto dest!: subject_mono)
  note sp = sort_search_split [OF this, folded lo_def]
  have "sorted_wrt (<) (drop lo ids)" using assms(1) by (rule sorted_wrt_drop)
  then have "sorted_wrt (\<lambda>a b. ?eq b \<longrightarrow> ?eq a) (drop lo ids)"
    by (rule sorted_wrt_mono_rel [rotated]) (auto simp: sp(2) dest!: subject_mono)
  note run = takeWhile_prefix_filter [OF this]
  have upper: "filter ?eq (drop lo ids) = filter ?eq ids"
    unfolding sp(2) filter_filter by (rule filter_cong) auto
  then show "run = filter ?eq ids" using run by (simp add: run_def)
  have "drop (lo + length run) ids = dropWhile ?eq (drop lo ids)"
    by (simp add: run_def dropWhile_eq_drop flip: drop_drop) (simp add: add.commute)
  also have "\<dots> = filter (\<lambda>i. \<not> ?eq i) (drop lo ids)" using run by simp
  finally have upper: "drop (lo + length run) ids = filter (\<lambda>i. \<not> ?eq i) (drop lo ids)" .
  have "filter (\<lambda>i. \<not> ?eq i) (take lo ids) = take lo ids"
    unfolding filter_id_conv sp(1) by auto
  with upper have "take lo ids @ drop (lo + length run) ids =
      filter (\<lambda>i. \<not> ?eq i) (take lo ids) @ filter (\<lambda>i. \<not> ?eq i) (drop lo ids)" by simp
  also have "\<dots> = filter (\<lambda>i. \<not> ?eq i) ids" by (simp flip: filter_append)
  finally show "take lo ids @ drop (lo + length run) ids = filter (\<lambda>i. \<not> ?eq i) ids" .
qed

lemma mv_delete_subject_eq:
  assumes "repo_ok r" and "subject \<noteq> []"
  shows "mv_delete_subject subject r =
     (Inr (length (filter (\<lambda>i. id_subject i = subject) (mv_ids r))),
      \<lparr>mv_records = fold fmdrop (filter (\<lambda>i. id_subject i = subject) (mv_ids r)) (mv_records r),
       mv_ids = filter (\<lambda>i. id_subject i \<noteq> subject) (mv_ids r)\<rparr>)"
  using assms subject_run [of "mv_ids r" subject]
  by (simp add: mv_delete_subject_def Let_def repo_ok_def)

lemma repo_ok_delete_subject:
  assumes "repo_ok r"
  shows "repo_ok (snd (mv_delete_subject subject r))"
proof (cases "subject = []")
  case True
  with assms show ?thesis by (simp add: mv_delete_subject_def)
next
  case False
  then show ?thesis
    using assms
    by (auto simp: mv_delete_subject_eq repo_ok_def fmlookup_dom_iff fmlookup_fold_drop
        intro: sorted_wrt_filter split: if_split_asm)
qed

lemma delete_subject_get:
  assumes "repo_ok r" and "subject \<noteq> []"
  shows "mv_get i (snd (mv_delete_subject subject r)) =
     (if id_subject i = subject then Inl ErrNotFound else mv_get i r)"
  using assms
  by (auto simp: mv_delete_subject_eq mv_get_def fmlookup_fold_drop repo_ok_def split: option.split
      dest: fmdomI)

section \<open>What the vault asks of a repository\<close>

locale credential_repo =
  fixes rp :: "'r repo" and ok :: "'r \<Rightarrow> bool"
  assumes get_identity: "ok r \<Longrightarrow> rp_get rp i r = Inr rec \<Longrightarrow> vr_identity rec = i"
    and put_ok: "ok r \<Longrightarrow> rp_put rp rec r = (Inr (), r') \<Longrightarrow> ok r'"
    and put_get: "ok r \<Longrightarrow> rp_put rp rec r = (Inr (), r') \<Longrightarrow>
      rp_get rp i r' = (if i = vr_identity rec then Inr rec else rp_get rp i r)"
    and delete_ok: "ok r \<Longrightarrow> ok (snd (rp_delete rp i r))"
    and delete_get: "ok r \<Longrightarrow> fst (rp_delete rp i r) \<in> {Inr (), Inl ErrNotFound} \<Longrightarrow>
      rp_get rp j (snd (rp_delete rp i r)) = (if j = i then Inl ErrNotFound else rp_get rp j r)"

interpretation mem: credential_repo memory_repo repo_ok
proof
  fix r rec r' i
  assume "repo_ok r" "rp_put memory_repo rec r = (Inr (), r')"
  then show "repo_ok r'" using repo_ok_put [of r rec] by (simp add: memory_repo_def)
next
  fix r rec r' i
  assume "repo_ok r" "rp_put memory_repo rec r = (Inr (), r')"
  then show "rp_get memory_repo i r' = (if i = vr_identity rec then Inr rec else rp_get memory_repo i r)"
    using mv_get_rules(1) [of i rec r] by (simp add: memory_repo_def)
next
  fix r i rec
  assume "repo_ok r" "rp_get memory_repo i r = Inr rec"
  then show "vr_identity rec = i"
    by (auto simp: memory_repo_def mv_get_def repo_ok_def split: option.split_asm)
qed (simp_all add: memory_repo_def repo_ok_delete mv_get_rules(2))

section \<open>Properties\<close>

text \<open>
  The in-memory repository is a map with an ordered listing: every mutation keeps the index
  strictly ordered and equal to the key set; \<open>List\<close> is the map in identity order; a page is
  the window of that listing after the cursor; and erasing a subject removes exactly its
  records and nothing else.
\<close>
theorem memory_repo_index:
  assumes "repo_ok r" and "subject \<noteq> []"
  shows "repo_ok (snd (mv_put rec r)) \<and> repo_ok (snd (mv_delete i r))
     \<and> repo_ok (snd (mv_rewrap i expect nxt r)) \<and> repo_ok (snd (mv_delete_subject subject r))
     \<and> mv_list r = Inr (fm_values (mv_records r))
     \<and> mv_page s p limit r = Inr (take (nat (max 1 limit))
         (filter (\<lambda>rec. recordAfter s p (vr_identity rec)) (fm_values (mv_records r))))
     \<and> mv_get j (snd (mv_delete_subject subject r))
         = (if id_subject j = subject then Inl ErrNotFound else mv_get j r)"
  by (intro conjI repo_ok_put repo_ok_delete repo_ok_rewrap repo_ok_delete_subject
      mv_list_eq mv_page_eq delete_subject_get assms)

theorem memory_repo_index_witness:
  "mv_get (Identity ''u'' ''p'') (snd (mv_delete_subject ''u''
     (snd (mv_put (zero_record\<lparr>vr_identity := Identity ''u'' ''p''\<rparr>) NewMemoryRepo)))) = Inl ErrNotFound"
  using memory_repo_index [OF repo_ok_put [OF repo_ok_new], of "''u''"] by simp

end
