(* ===== verification/Go_AEAD.thy ===== *)
theory Go_AEAD
  imports Go_Crypto
begin

text \<open>
  The authenticated encryption of Go's standard library that the vault uses: the AES block
  cipher of \<^verbatim>\<open>crypto/aes\<close> at its three key sizes, and Galois/counter mode with the standard
  12-byte nonce and 16-byte tag of \<^verbatim>\<open>crypto/cipher\<close>. Bytes are numbers below 256 inside the
  cipher and characters at its interface.
  Proved here: what \<open>gcm_seal\<close> wrote, \<open>gcm_open\<close> returns under the same key, nonce and
  additional data. Nothing is claimed about what an adversary can forge.
  Go limits one message to about 64 GiB and panics above it; that bound is not modelled.
\<close>

unbundle bit_operations_syntax

definition groups :: "nat \<Rightarrow> 'a list \<Rightarrow> 'a list list" where
  "groups n xs = chunks (length xs) n xs"

section \<open>crypto/aes\<close>

definition aes_sbox :: "nat list" where
  "aes_sbox =
     [99, 124, 119, 123, 242, 107, 111, 197, 48, 1, 103, 43, 254, 215, 171, 118,
      202, 130, 201, 125, 250, 89, 71, 240, 173, 212, 162, 175, 156, 164, 114, 192,
      183, 253, 147, 38, 54, 63, 247, 204, 52, 165, 229, 241, 113, 216, 49, 21,
      4, 199, 35, 195, 24, 150, 5, 154, 7, 18, 128, 226, 235, 39, 178, 117,
      9, 131, 44, 26, 27, 110, 90, 160, 82, 59, 214, 179, 41, 227, 47, 132,
      83, 209, 0, 237, 32, 252, 177, 91, 106, 203, 190, 57, 74, 76, 88, 207,
      208, 239, 170, 251, 67, 77, 51, 133, 69, 249, 2, 127, 80, 60, 159, 168,
      81, 163, 64, 143, 146, 157, 56, 245, 188, 182, 218, 33, 16, 255, 243, 210,
      205, 12, 19, 236, 95, 151, 68, 23, 196, 167, 126, 61, 100, 93, 25, 115,
      96, 129, 79, 220, 34, 42, 144, 136, 70, 238, 184, 20, 222, 94, 11, 219,
      224, 50, 58, 10, 73, 6, 36, 92, 194, 211, 172, 98, 145, 149, 228, 121,
      231, 200, 55, 109, 141, 213, 78, 169, 108, 86, 244, 234, 101, 122, 174, 8,
      186, 120, 37, 46, 28, 166, 180, 198, 232, 221, 116, 31, 75, 189, 139, 138,
      112, 62, 181, 102, 72, 3, 246, 14, 97, 53, 87, 185, 134, 193, 29, 158,
      225, 248, 152, 17, 105, 217, 142, 148, 155, 30, 135, 233, 206, 85, 40, 223,
      140, 161, 137, 13, 191, 230, 66, 104, 65, 153, 45, 15, 176, 84, 187, 22]"

definition xtime :: "nat \<Rightarrow> nat" where
  "xtime b = (if b < 128 then 2 * b else (2 * b - 256) XOR 27)"

definition sub_byte :: "nat \<Rightarrow> nat" where
  "sub_byte b = aes_sbox ! (b mod 256)"

definition shift_rows :: "nat list \<Rightarrow> nat list" where
  "shift_rows s = map (\<lambda>i. s ! ((i + 4 * (i mod 4)) mod 16)) [0..<16]"

definition mix_column :: "nat \<Rightarrow> nat \<Rightarrow> nat \<Rightarrow> nat \<Rightarrow> nat list" where
  "mix_column a b c d =
     [xtime a XOR (xtime b XOR b) XOR c XOR d,
      a XOR xtime b XOR (xtime c XOR c) XOR d,
      a XOR b XOR xtime c XOR (xtime d XOR d),
      (xtime a XOR a) XOR b XOR c XOR xtime d]"

fun mix_columns :: "nat list \<Rightarrow> nat list" where
  "mix_columns (a # b # c # d # r) = mix_column a b c d @ mix_columns r"
| "mix_columns _ = []"

definition xor_list :: "nat list \<Rightarrow> nat list \<Rightarrow> nat list" where
  "xor_list = map2 (XOR)"

text \<open>The key schedule: words of four bytes, newest first; \<open>i\<close> is the index of the next word.\<close>

fun rcon :: "nat \<Rightarrow> nat" where
  "rcon 0 = 1"
| "rcon (Suc n) = xtime (rcon n)"

definition schedule_word :: "nat \<Rightarrow> nat \<Rightarrow> nat list list \<Rightarrow> nat list" where
  "schedule_word nk i ws =
     (let temp = ws ! 0;
          temp = (if i mod nk = 0
                  then xor_list (map sub_byte (rotate1 temp)) [rcon (i div nk - 1), 0, 0, 0]
                  else if 6 < nk \<and> i mod nk = 4 then map sub_byte temp
                  else temp)
      in xor_list (ws ! (nk - 1)) temp)"

fun schedule_words :: "nat \<Rightarrow> nat \<Rightarrow> nat \<Rightarrow> nat list list \<Rightarrow> nat list list" where
  "schedule_words 0 nk i ws = ws"
| "schedule_words (Suc n) nk i ws = schedule_words n nk (i + 1) (schedule_word nk i ws # ws)"

definition round_keys :: "string \<Rightarrow> nat list list" where
  "round_keys key =
     (let nk = length key div 4;
          w0 = rev (groups 4 (map of_char key))
      in map concat (groups 4 (rev (schedule_words (4 * (nk + 7) - nk) nk nk w0))))"

fun aes_rounds :: "nat list list \<Rightarrow> nat list \<Rightarrow> nat list" where
  "aes_rounds [] s = s"
| "aes_rounds [k] s = xor_list (shift_rows (map sub_byte s)) k"
| "aes_rounds (k # ks) s = aes_rounds ks (xor_list (mix_columns (shift_rows (map sub_byte s))) k)"

definition aes_encrypt :: "string \<Rightarrow> string \<Rightarrow> string" where
  "aes_encrypt key block =
     (let ks = round_keys key in
      map char_of (aes_rounds (tl ks) (xor_list (map of_char block) (hd ks))))"

text \<open>\<open>aes.NewCipher\<close> refuses every key size but these.\<close>

definition aes_key_ok :: "string \<Rightarrow> bool" where
  "aes_key_ok key \<longleftrightarrow> length key \<in> {16, 24, 32}"

section \<open>Galois/counter mode\<close>

definition bytes_val :: "string \<Rightarrow> nat" where
  "bytes_val s = foldl (\<lambda>n c. n * 256 + of_char c) 0 s"

definition val_bytes :: "nat \<Rightarrow> nat \<Rightarrow> string" where
  "val_bytes len n = map char_of (bytes_be len n)"

text \<open>Multiplication in the field of \<open>2 ^ 128\<close> elements, most significant bit first.\<close>

fun gf_mult_loop :: "nat \<Rightarrow> nat \<Rightarrow> nat \<Rightarrow> nat \<Rightarrow> nat" where
  "gf_mult_loop 0 x v z = z"
| "gf_mult_loop (Suc i) x v z =
     gf_mult_loop i x
       (if odd v then (v div 2) XOR 299076299051606071403356588563077529600 else v div 2)
       (if bit x i then z XOR v else z)"

definition gf_mult :: "nat \<Rightarrow> nat \<Rightarrow> nat" where
  "gf_mult x y = gf_mult_loop 128 x y 0"

definition pad16 :: "string \<Rightarrow> string" where
  "pad16 s = s @ replicate ((16 - length s mod 16) mod 16) (CHR 0x00)"

definition ghash :: "nat \<Rightarrow> string \<Rightarrow> string \<Rightarrow> nat" where
  "ghash h aad ct =
     foldl (\<lambda>y b. gf_mult (y XOR bytes_val b) h) 0
       (groups 16 (pad16 aad @ pad16 ct @ val_bytes 8 (8 * length aad) @ val_bytes 8 (8 * length ct)))"

definition counter_block :: "string \<Rightarrow> nat \<Rightarrow> string" where
  "counter_block nonce i = nonce @ val_bytes 4 (i mod 2 ^ 32)"

text \<open>The key stream: enough blocks for the message, from counter 2 on.\<close>

definition key_stream :: "(string \<Rightarrow> string) \<Rightarrow> string \<Rightarrow> nat \<Rightarrow> string" where
  "key_stream E nonce len = concat (map (\<lambda>i. E (counter_block nonce (i + 2))) [0..<(len + 15) div 16])"

definition gctr :: "(string \<Rightarrow> string) \<Rightarrow> string \<Rightarrow> string \<Rightarrow> string" where
  "gctr E nonce s = xor_bytes s (key_stream E nonce (length s))"

definition gcm_tag :: "(string \<Rightarrow> string) \<Rightarrow> string \<Rightarrow> string \<Rightarrow> string \<Rightarrow> string" where
  "gcm_tag E nonce aad ct =
     xor_bytes (E (counter_block nonce 1))
       (val_bytes 16 (ghash (bytes_val (E (replicate 16 (CHR 0x00)))) aad ct))"

definition gcm_seal :: "(string \<Rightarrow> string) \<Rightarrow> string \<Rightarrow> string \<Rightarrow> string \<Rightarrow> string" where
  "gcm_seal E nonce pt aad = (let ct = gctr E nonce pt in ct @ gcm_tag E nonce aad ct)"

definition gcm_open :: "(string \<Rightarrow> string) \<Rightarrow> string \<Rightarrow> string \<Rightarrow> string \<Rightarrow> string option" where
  "gcm_open E nonce sealed aad =
     (if length sealed < 16 then None
      else (let ct = take (length sealed - 16) sealed; tag = drop (length sealed - 16) sealed
            in if tag = gcm_tag E nonce aad ct then Some (gctr E nonce ct) else None))"

section \<open>Block lengths\<close>

lemma chunks_exact:
  "length xs = n * m \<Longrightarrow> 0 < n \<Longrightarrow> m \<le> f \<Longrightarrow>
     length (chunks f n xs) = m \<and> (\<forall>c \<in> set (chunks f n xs). length c = n)"
proof (induction m arbitrary: xs f)
  case 0
  then show ?case by (cases f) auto
next
  case (Suc m)
  obtain f' where f: "f = Suc f'" using Suc.prems(3) by (cases f) simp_all
  have "xs \<noteq> []" "length (take n xs) = n" using Suc.prems(1,2) by auto
  moreover have "length (drop n xs) = n * m" using Suc.prems(1) by simp
  from Suc.IH [OF this Suc.prems(2), of f'] Suc.prems(3) f
  have "length (chunks f' n (drop n xs)) = m \<and> (\<forall>c \<in> set (chunks f' n (drop n xs)). length c = n)"
    by simp
  ultimately show ?case by (simp add: f)
qed

lemma chunks_subset: "c \<in> set (chunks f n xs) \<Longrightarrow> set c \<subseteq> set xs"
proof (induction f arbitrary: xs)
  case (Suc f)
  show ?case
  proof (cases "c = take n xs")
    case True
    then show ?thesis by (simp add: set_take_subset)
  next
    case False
    with Suc.prems have "c \<in> set (chunks f n (drop n xs))" by (simp split: if_split_asm)
    from Suc.IH [OF this] show ?thesis using set_drop_subset [of n xs] by (rule subset_trans)
  qed
qed simp

lemma groups_exact:
  assumes "length xs = n * m" and "0 < n"
  shows "length (groups n xs) = m" "c \<in> set (groups n xs) \<Longrightarrow> length c = n"
proof -
  have "m \<le> length xs" using assms by simp
  with chunks_exact [OF assms this] show "length (groups n xs) = m" "c \<in> set (groups n xs) \<Longrightarrow> length c = n"
    by (simp_all add: groups_def)
qed

lemma length_xor_list [simp]: "length (xor_list a b) = min (length a) (length b)"
  by (simp add: xor_list_def)

lemma length_schedule_word:
  assumes "\<forall>w \<in> set ws. length w = 4" and "nk \<le> length ws" and "0 < nk"
  shows "length (schedule_word nk i ws) = 4"
proof -
  have "ws ! 0 \<in> set ws" "ws ! (nk - 1) \<in> set ws" using assms(2,3) by (auto intro!: nth_mem)
  with assms(1) show ?thesis by (simp add: schedule_word_def Let_def)
qed

lemma schedule_words_shape:
  "\<forall>w \<in> set ws. length w = 4 \<Longrightarrow> nk \<le> length ws \<Longrightarrow> 0 < nk \<Longrightarrow>
     length (schedule_words n nk i ws) = n + length ws
     \<and> (\<forall>w \<in> set (schedule_words n nk i ws). length w = 4)"
proof (induction n arbitrary: i ws)
  case (Suc n)
  from Suc.IH [of "schedule_word nk i ws # ws" "i + 1"] Suc.prems show ?case
    by (simp add: length_schedule_word)
qed simp

lemma length_concat_const: "\<forall>w \<in> set ws. length w = n \<Longrightarrow> length (concat ws) = n * length ws"
  by (induction ws) auto

lemma round_keys_shape:
  assumes "aes_key_ok key"
  shows "round_keys key \<noteq> []" "k \<in> set (round_keys key) \<Longrightarrow> length k = 16"
proof -
  define nk where "nk = length key div 4"
  have nk: "length key = 4 * nk" "0 < nk" using assms by (auto simp: aes_key_ok_def nk_def)
  define w0 where "w0 = rev (groups 4 (map of_char key :: nat list))"
  define ws where "ws = rev (schedule_words (4 * (nk + 7) - nk) nk nk w0)"
  have w0: "length w0 = nk" "\<forall>w \<in> set w0. length w = 4"
    using groups_exact [of "map of_char key :: nat list" 4 nk] nk by (auto simp: w0_def)
  then have ws: "length ws = 4 * (nk + 7)" "\<forall>w \<in> set ws. length w = 4"
    using schedule_words_shape [of w0 nk "4 * (nk + 7) - nk" nk] nk by (simp_all add: ws_def)
  have rk: "round_keys key = map concat (groups 4 ws)"
    by (simp add: round_keys_def Let_def ws_def w0_def nk_def)
  have g: "length (groups 4 ws) = nk + 7" "\<And>c. c \<in> set (groups 4 ws) \<Longrightarrow> length c = 4"
    using groups_exact [OF ws(1)] by simp_all
  show "round_keys key \<noteq> []" using g(1) by (auto simp: rk)
  have sub: "set c \<subseteq> set ws" if "c \<in> set (groups 4 ws)" for c
    using that unfolding groups_def by (rule chunks_subset)
  assume "k \<in> set (round_keys key)"
  then obtain c where c: "c \<in> set (groups 4 ws)" "k = concat c" by (auto simp: rk)
  with sub [OF c(1)] ws(2) have "\<forall>w \<in> set c. length w = 4" by blast
  from length_concat_const [OF this] c g(2) show "length k = 16" by simp
qed

lemma length_mix_columns: "length (mix_columns s) = 4 * (length s div 4)"
  by (induction s rule: mix_columns.induct) (simp_all add: mix_column_def)

lemma length_aes_rounds:
  "\<forall>k \<in> set ks. length k = 16 \<Longrightarrow> length s = 16 \<Longrightarrow> length (aes_rounds ks s) = 16"
  by (induction ks s rule: aes_rounds.induct) (simp_all add: shift_rows_def length_mix_columns)

lemma length_aes_encrypt:
  assumes "aes_key_ok key" and "length block = 16"
  shows "length (aes_encrypt key block) = 16"
proof -
  obtain k ks where rk: "round_keys key = k # ks" using round_keys_shape(1) [OF assms(1)] by (cases "round_keys key") auto
  then have "length k = 16" "\<forall>k \<in> set ks. length k = 16" using round_keys_shape(2) [OF assms(1)] by auto
  with rk assms(2) show ?thesis by (simp add: aes_encrypt_def Let_def length_aes_rounds)
qed

section \<open>Sealing and opening\<close>

lemma length_xor_bytes [simp]: "length (xor_bytes a b) = min (length a) (length b)"
  by (simp add: xor_bytes_def)

lemma xor_char_cancel:
  "char_of ((of_char (char_of ((of_char a :: nat) XOR of_char b)) :: nat) XOR of_char b) = a"
proof -
  have "of_char (char_of ((of_char a :: nat) XOR of_char b)) = take_bit 8 ((of_char a :: nat) XOR of_char b)"
    by (simp add: take_bit_eq_mod)
  moreover have "take_bit 8 (take_bit 8 ((of_char a :: nat) XOR of_char b) XOR of_char b) = of_char a"
    by (simp add: xor.assoc take_bit_xor) (simp add: take_bit_eq_mod)
  ultimately show ?thesis by (simp add: char_of_eq_iff)
qed

lemma xor_bytes_cancel: "length s \<le> length k \<Longrightarrow> xor_bytes (xor_bytes s k) k = s"
  by (rule nth_equalityI) (simp_all add: xor_bytes_def xor_char_cancel [unfolded of_char_of])

text \<open>What the vault relies on, whatever the cipher: \<open>ok\<close> are the keys it accepts.\<close>

locale aead =
  fixes ok :: "string \<Rightarrow> bool" and seal :: "string \<Rightarrow> string \<Rightarrow> string \<Rightarrow> string \<Rightarrow> string"
    and unseal :: "string \<Rightarrow> string \<Rightarrow> string \<Rightarrow> string \<Rightarrow> string option"
  assumes unseal_seal: "ok key \<Longrightarrow> length nonce = 12 \<Longrightarrow> unseal key nonce (seal key nonce pt aad) aad = Some pt"

locale block_cipher =
  fixes ok :: "string \<Rightarrow> bool" and E :: "string \<Rightarrow> string \<Rightarrow> string"
  assumes block: "ok key \<Longrightarrow> length b = 16 \<Longrightarrow> length (E key b) = 16"
begin

lemma key_stream_length:
  assumes "ok key" and "length nonce = 12"
  shows "len \<le> length (key_stream (E key) nonce len)"
proof -
  have "length (key_stream (E key) nonce len) = 16 * ((len + 15) div 16)"
    using assms block
    by (simp add: key_stream_def length_concat_const [of _ 16] counter_block_def val_bytes_def)
  then show ?thesis by simp
qed

lemma gctr_gctr: "ok key \<Longrightarrow> length nonce = 12 \<Longrightarrow> gctr (E key) nonce (gctr (E key) nonce s) = s"
  using key_stream_length [of key nonce "length s"] by (simp add: gctr_def min_absorb1 xor_bytes_cancel)

lemma length_gcm_tag: "ok key \<Longrightarrow> length nonce = 12 \<Longrightarrow> length (gcm_tag (E key) nonce aad ct) = 16"
  by (simp add: gcm_tag_def block counter_block_def val_bytes_def)

end

sublocale block_cipher < gcm: aead ok "\<lambda>key. gcm_seal (E key)" "\<lambda>key. gcm_open (E key)"
  by unfold_locales (simp add: gcm_seal_def gcm_open_def Let_def length_gcm_tag gctr_gctr)

text \<open>AES with the keys \<^verbatim>\<open>aes.NewCipher\<close> accepts is such a cipher.\<close>

interpretation aes: block_cipher aes_key_ok aes_encrypt
  by unfold_locales (rule length_aes_encrypt)

end
