(* ===== verification/Vault_Service.thy ===== *)
theory Vault_Service
  imports Vault_Repo Go_AEAD Audit_Log
begin

text \<open>
  The credential vault: the envelope of \<^verbatim>\<open>vault/envelope.go\<close>, the service of \<^verbatim>\<open>vault/service.go\<close>
  and the key rotation of \<^verbatim>\<open>vault/rotate.go\<close>.
  \<^item> \<open>key_wrapper\<close> is the \<open>KeyWrapper\<close> interface with the optional fingerprint;
    \<open>local_key_wrapper\<close> is the in-process AES-256-GCM one, the only implementation in the
    repository.
  \<^item> \<open>vault\<close> holds what \<open>NewService\<close> wires, over any repository and any audit logger (which may
    fail); \<open>vworld\<close> holds what changes: the repository, the log, the random tape and the
    metrics observed. Durations reported to the metrics are left out.
  \<^item> \<open>Use\<close> hands the plaintext to a callback that acts on the caller's state, so "the callback
    did not run" is visible as that state being unchanged. Zeroing a buffer after use
    (\<open>Scrub\<close>) has no counterpart for values.
  \<^item> An \<open>error\<close> result is an option; \<open>None\<close> is nil. A nonce of the wrong length makes Go's GCM
    panic; that is the error \<open>gcm_panic\<close> here.
  \<^item> The paging loop of \<open>Rotate\<close> runs as long as the repository hands out full pages, so it is a
    partial function; that it returns on \<open>MemoryRepo\<close> is proved.
  Shown here and in \<open>Vault_Rotation\<close>: what was enrolled is what \<open>Use\<close> hands over; no secret is handed over and no record is
  written when the audit log refuses the event; a revoked credential is gone; a rotation
  touches envelopes only, never a record that changed since it was read, and after a clean
  one every secret opens with the current key alone.
\<close>

section \<open>Envelopes\<close>

definition recordVersion :: char where "recordVersion = CHR 0x01"
definition dekSize :: nat where "dekSize = 32"
definition nonceSize :: nat where "nonceSize = 12"

record key_wrapper =
  kw_id :: string
  kw_wrap :: "string \<Rightarrow> string \<Rightarrow> tape \<Rightarrow> (vault_error + string) \<times> tape"
  kw_unwrap :: "string \<Rightarrow> string \<Rightarrow> vault_error + string"
  kw_fingerprint :: "string option"

definition keyFingerprint :: "string \<Rightarrow> string" where
  "keyFingerprint kek = sha256 (''r0semi/vault/kek-fingerprint'' @ [CHR 0x00] @ kek)"

definition read_random :: "nat \<Rightarrow> tape \<Rightarrow> (vault_error + string) \<times> tape" where
  "read_random n t =
     (case rand_read n t of None \<Rightarrow> (Inl (VPlain ''unexpected EOF''), t) | Some (b, t) \<Rightarrow> (Inr b, t))"

definition local_seal :: "string \<Rightarrow> string \<Rightarrow> string \<Rightarrow> tape \<Rightarrow> (vault_error + string \<times> string) \<times> tape" where
  "local_seal kek plaintext aad t =
     (case read_random nonceSize t of
        (Inl e, t) \<Rightarrow> (Inl e, t)
      | (Inr nonce, t) \<Rightarrow> (Inr (nonce, gcm_seal (aes_encrypt kek) nonce plaintext aad), t))"

definition local_open :: "string \<Rightarrow> string \<Rightarrow> string \<Rightarrow> string \<Rightarrow> vault_error + string" where
  "local_open kek nonce ct aad =
     (case gcm_open (aes_encrypt kek) nonce ct aad of
        None \<Rightarrow> Inl (VWrapped ''vault: open wrapped DEK'' (VPlain ''cipher: message authentication failed''))
      | Some pt \<Rightarrow> Inr pt)"

definition local_key_wrapper :: "string \<Rightarrow> string \<Rightarrow> key_wrapper" where
  "local_key_wrapper kid kek =
     \<lparr>kw_id = kid,
      kw_wrap = (\<lambda>dek aad t. case local_seal kek dek aad t of
                   (Inl e, t) \<Rightarrow> (Inl e, t) | (Inr (nonce, ct), t) \<Rightarrow> (Inr (nonce @ ct), t)),
      kw_unwrap = (\<lambda>wrapped aad.
                   if length wrapped < nonceSize then Inl (VPlain ''vault: wrapped DEK is too short'')
                   else local_open kek (take nonceSize wrapped) (drop nonceSize wrapped) aad),
      kw_fingerprint = Some (keyFingerprint kek)\<rparr>"

definition NewLocalKeyWrapper :: "string \<Rightarrow> string \<Rightarrow> vault_error + key_wrapper" where
  "NewLocalKeyWrapper kid kek =
     (if kid = [] then Inl (VPlain ''vault: KeyWrapper id is required'')
      else if length kek \<noteq> dekSize then Inl (VPlain ''vault: KEK must be 32 bytes'')
      else Inr (local_key_wrapper kid kek))"

fun append_uvarint :: "nat \<Rightarrow> string" where
  "append_uvarint n =
     (if n < 128 then [char_of n] else char_of (n mod 128 + 128) # append_uvarint (n div 128))"

declare append_uvarint.simps [simp del]

definition bindingAAD :: "char \<Rightarrow> string \<Rightarrow> string \<Rightarrow> string" where
  "bindingAAD version subject provider =
     version # append_uvarint (length subject) @ subject @ append_uvarint (length provider) @ provider"

definition bad_key :: vault_error where
  "bad_key = VWrapped ''vault: DEK'' (VPlain ''crypto/aes: invalid key size'')"

definition gcm_panic :: vault_error where
  "gcm_panic = VPlain ''panic: crypto/cipher: incorrect nonce length given to GCM''"

definition sealSecret :: "string \<Rightarrow> string \<Rightarrow> string \<Rightarrow> tape \<Rightarrow> (vault_error + string \<times> string) \<times> tape" where
  "sealSecret dek plaintext aad t =
     (if \<not> aes_key_ok dek then (Inl bad_key, t)
      else (case read_random 12 t of
          (Inl e, t) \<Rightarrow> (Inl e, t)
        | (Inr nonce, t) \<Rightarrow> (Inr (nonce, gcm_seal (aes_encrypt dek) nonce plaintext aad), t)))"

definition openSecret :: "string \<Rightarrow> string \<Rightarrow> string \<Rightarrow> string \<Rightarrow> vault_error + string" where
  "openSecret dek nonce ct aad =
     (if \<not> aes_key_ok dek then Inl bad_key
      else if length nonce \<noteq> 12 then Inl gcm_panic
      else (case gcm_open (aes_encrypt dek) nonce ct aad of
          None \<Rightarrow> Inl (VWrapped ''vault: decrypt credential'' (VPlain ''cipher: message authentication failed''))
        | Some pt \<Rightarrow> Inr pt))"

section \<open>The service\<close>

record ('r, 'l) vault =
  vs_repo :: "'r repo"
  vs_current :: key_wrapper
  vs_keys :: "(string, key_wrapper) fmap"
  vs_audit :: "'l logger"
  vs_metrics :: bool

record ('r, 'l) vworld =
  vw_repo :: 'r
  vw_log :: 'l
  vw_tape :: tape
  vw_obs :: "(string \<times> string) list"

fun verr_is :: "vault_error \<Rightarrow> vault_error \<Rightarrow> bool" where
  "verr_is (VWrapped m e) t = (VWrapped m e = t \<or> verr_is e t)"
| "verr_is (VJoin es) t = (VJoin es = t \<or> (\<exists>e \<in> set es. verr_is e t))"
| "verr_is e t = (e = t)"

definition errors_join :: "vault_error \<Rightarrow> vault_error option \<Rightarrow> vault_error" where
  "errors_join e ae = VJoin (e # (case ae of None \<Rightarrow> [] | Some a \<Rightarrow> [a]))"

definition observe :: "('r, 'l) vault \<Rightarrow> string \<Rightarrow> string \<Rightarrow> ('r, 'l) vworld \<Rightarrow> ('r, 'l) vworld" where
  "observe sv op res w = (if vs_metrics sv then w\<lparr>vw_obs := vw_obs w @ [(op, res)]\<rparr> else w)"

definition sameKeyMaterial :: "key_wrapper \<Rightarrow> key_wrapper \<Rightarrow> bool" where
  "sameKeyMaterial a b =
     (case (kw_fingerprint a, kw_fingerprint b) of (Some x, Some y) \<Rightarrow> x = y | _ \<Rightarrow> False)"

fun retired_loop ::
  "key_wrapper \<Rightarrow> key_wrapper option list \<Rightarrow> key_wrapper list \<Rightarrow> (string, key_wrapper) fmap
   \<Rightarrow> vault_error + (string, key_wrapper) fmap" where
  "retired_loop cur [] added keys = Inr keys"
| "retired_loop cur (None # ks) added keys = Inl (VPlain ''vault: a retired KeyWrapper must not be nil'')"
| "retired_loop cur (Some k # ks) added keys =
     (if kw_id k = kw_id cur then Inl (VPlain ''vault: retired key has the same id as the current key'')
      else if fmlookup keys (kw_id k) \<noteq> None then Inl (VPlain ''vault: retired key is declared twice'')
      else if sameKeyMaterial k cur then
        Inl (VPlain ''vault: retired key holds the same material as the current key'')
      else if \<exists>prev \<in> set added. sameKeyMaterial k prev then
        Inl (VPlain ''vault: retired key holds the same material as another retired key'')
      else retired_loop cur ks (added @ [k]) (fmupd (kw_id k) k keys))"

datatype vault_option = WithMetrics bool | WithRetiredKeys "key_wrapper option list"

fun apply_option :: "vault_option \<Rightarrow> ('r, 'l) vault \<Rightarrow> vault_error + ('r, 'l) vault" where
  "apply_option (WithMetrics m) s = Inr (s\<lparr>vs_metrics := m\<rparr>)"
| "apply_option (WithRetiredKeys ks) s =
     (case retired_loop (vs_current s) ks [] (vs_keys s) of
        Inl e \<Rightarrow> Inl e | Inr keys \<Rightarrow> Inr (s\<lparr>vs_keys := keys\<rparr>))"

fun apply_options :: "vault_option list \<Rightarrow> ('r, 'l) vault \<Rightarrow> vault_error + ('r, 'l) vault" where
  "apply_options [] s = Inr s"
| "apply_options (x # xs) s = (case apply_option x s of Inl e \<Rightarrow> Inl e | Inr s \<Rightarrow> apply_options xs s)"

definition NewVault ::
  "'r repo option \<Rightarrow> key_wrapper option \<Rightarrow> 'l logger option \<Rightarrow> vault_option list
   \<Rightarrow> vault_error + ('r, 'l) vault" where
  "NewVault repo kek logger opts =
     (case repo of None \<Rightarrow> Inl (VPlain ''vault: Repo is required'')
      | Some rp \<Rightarrow> (case kek of None \<Rightarrow> Inl (VPlain ''vault: KeyWrapper is required'')
      | Some k \<Rightarrow> (case logger of None \<Rightarrow> Inl (VPlain ''vault: audit.Logger is required'')
      | Some lg \<Rightarrow>
          if kw_id k = [] then Inl (VPlain ''vault: KeyWrapper.KeyID must not be empty'')
          else apply_options opts
            \<lparr>vs_repo = rp, vs_current = k, vs_keys = fmupd (kw_id k) k fmempty, vs_audit = lg,
             vs_metrics = False\<rparr>)))"

definition vault_event :: "string \<Rightarrow> identity \<Rightarrow> string \<Rightarrow> audit_event" where
  "vault_event action i outcome =
     \<lparr>ev_time = 0, ev_action = action, ev_subject = id_subject i, ev_provider = id_provider i,
      ev_outcome = outcome, ev_detail = []\<rparr>"

definition v_record ::
  "('r, 'l) vault \<Rightarrow> time \<Rightarrow> audit_event \<Rightarrow> ('r, 'l) vworld \<Rightarrow> vault_error option \<times> ('r, 'l) vworld" where
  "v_record sv now e w =
     (case lg_record (vs_audit sv) now (stamp now e) (vw_log w) of
        (Inl m, l) \<Rightarrow> (Some (VWrapped ''vault: audit'' (VPlain m)), w\<lparr>vw_log := l\<rparr>)
      | (Inr _, l) \<Rightarrow> (None, w\<lparr>vw_log := l\<rparr>))"

subsection \<open>Enroll\<close>

definition Enroll ::
  "('r, 'l) vault \<Rightarrow> time \<Rightarrow> identity \<Rightarrow> string \<Rightarrow> (string, string) fmap \<Rightarrow> ('r, 'l) vworld
   \<Rightarrow> vault_error option \<times> ('r, 'l) vworld" where
  "Enroll sv now i secret meta w =
     (case id_validate i of
        Some e \<Rightarrow> (Some e, w)
      | None \<Rightarrow>
     (let aad = bindingAAD recordVersion (id_subject i) (id_provider i) in
      case read_random dekSize (vw_tape w) of
        (Inl e, t) \<Rightarrow> (Some e, observe sv ''enroll'' ''error'' (w\<lparr>vw_tape := t\<rparr>))
      | (Inr dek, t) \<Rightarrow>
     (case kw_wrap (vs_current sv) dek aad t of
        (Inl e, t) \<Rightarrow> (Some (VWrapped ''vault: wrap DEK'' e), observe sv ''enroll'' ''error'' (w\<lparr>vw_tape := t\<rparr>))
      | (Inr wrapped, t) \<Rightarrow>
     (case sealSecret dek secret aad t of
        (Inl e, t) \<Rightarrow> (Some e, observe sv ''enroll'' ''error'' (w\<lparr>vw_tape := t\<rparr>))
      | (Inr (nonce, ct), t) \<Rightarrow>
     (case v_record sv now (vault_event ''vault.enroll'' i OutcomeOK) (w\<lparr>vw_tape := t\<rparr>) of
        (Some e, w) \<Rightarrow> (Some e, observe sv ''enroll'' ''audit_error'' w)
      | (None, w) \<Rightarrow>
     (let createdAt = (case rp_get (vs_repo sv) i (vw_repo w) of Inl _ \<Rightarrow> now | Inr prev \<Rightarrow> vr_created prev) in
      case rp_put (vs_repo sv)
             \<lparr>vr_identity = i, vr_version = recordVersion, vr_wrapped = wrapped,
              vr_kek = kw_id (vs_current sv), vr_nonce = nonce, vr_ct = ct, vr_meta = meta,
              vr_created = createdAt, vr_updated = now\<rparr> (vw_repo w) of
        (Inl e, r) \<Rightarrow>
          (Some (VWrapped ''vault: persist credential'' e), observe sv ''enroll'' ''repo_error'' (w\<lparr>vw_repo := r\<rparr>))
      | (Inr _, r) \<Rightarrow> (None, observe sv ''enroll'' ''ok'' (w\<lparr>vw_repo := r\<rparr>))))))))"

subsection \<open>Use\<close>

text \<open>Reading and decrypting, up to the plaintext: an error with the metric it is observed under.\<close>

definition unlock :: "('r, 'l) vault \<Rightarrow> vault_record \<Rightarrow> (string \<times> vault_error) + string" where
  "unlock sv rec =
     (let aad = bindingAAD (vr_version rec) (id_subject (vr_identity rec)) (id_provider (vr_identity rec)) in
      case fmlookup (vs_keys sv) (vr_kek rec) of
        None \<Rightarrow> Inl (''key_unavailable'',
                 VRef ''vault: key is not configured'' (identityRef (vr_identity rec)) (vr_kek rec))
      | Some key \<Rightarrow> (case kw_unwrap key (vr_wrapped rec) aad of
          Inl e \<Rightarrow> Inl (''decrypt_error'', VWrapped ''vault: unwrap DEK'' e)
        | Inr dek \<Rightarrow> (case openSecret dek (vr_nonce rec) (vr_ct rec) aad of
            Inl e \<Rightarrow> Inl (''decrypt_error'', e)
          | Inr plain \<Rightarrow> Inr plain)))"

definition Use ::
  "('r, 'l) vault \<Rightarrow> time \<Rightarrow> identity \<Rightarrow> (string \<Rightarrow> 'x \<Rightarrow> vault_error option \<times> 'x) option \<Rightarrow> 'x
   \<Rightarrow> ('r, 'l) vworld \<Rightarrow> vault_error option \<times> 'x \<times> ('r, 'l) vworld" where
  "Use sv now i cb x w =
     (case id_validate i of
        Some e \<Rightarrow> (Some e, x, w)
      | None \<Rightarrow>
     (case cb of
        None \<Rightarrow> (Some (VPlain ''vault: Use requires a callback''), x, w)
      | Some f \<Rightarrow>
     (case rp_get (vs_repo sv) i (vw_repo w) of
        Inl e \<Rightarrow>
          (case v_record sv now (vault_event ''vault.use'' i OutcomeDenied) w of
             (aerr, w) \<Rightarrow>
               (Some (errors_join e aerr), x,
                observe sv ''use'' (if verr_is e ErrNotFound then ''not_found'' else ''repo_error'') w))
      | Inr rec \<Rightarrow>
     (case unlock sv rec of
        Inl (metric, e) \<Rightarrow>
          (case v_record sv now (vault_event ''vault.use'' i OutcomeError) w of
             (aerr, w) \<Rightarrow> (Some (errors_join e aerr), x, observe sv ''use'' metric w))
      | Inr plain \<Rightarrow>
     (case v_record sv now (vault_event ''vault.use'' i OutcomeOK) w of
        (Some e, w) \<Rightarrow> (Some e, x, observe sv ''use'' ''audit_error'' w)
      | (None, w) \<Rightarrow>
          (case f plain x of (result, x) \<Rightarrow> (result, x, observe sv ''use'' ''ok'' w)))))))"

subsection \<open>Revoke and Exists\<close>

definition vault_Revoke ::
  "('r, 'l) vault \<Rightarrow> time \<Rightarrow> identity \<Rightarrow> ('r, 'l) vworld \<Rightarrow> vault_error option \<times> ('r, 'l) vworld" where
  "vault_Revoke sv now i w =
     (case id_validate i of
        Some e \<Rightarrow> (Some e, w)
      | None \<Rightarrow>
     (case rp_delete (vs_repo sv) i (vw_repo w) of
        (res, r) \<Rightarrow>
          if (case res of Inl e \<Rightarrow> \<not> verr_is e ErrNotFound | Inr _ \<Rightarrow> False)
          then (Some (VWrapped ''vault: delete credential'' (projl res)),
                observe sv ''revoke'' ''repo_error'' (w\<lparr>vw_repo := r\<rparr>))
          else (case v_record sv now (vault_event ''vault.revoke'' i OutcomeOK) (w\<lparr>vw_repo := r\<rparr>) of
              (Some e, w) \<Rightarrow> (Some e, observe sv ''revoke'' ''audit_error'' w)
            | (None, w) \<Rightarrow> (None, observe sv ''revoke'' ''ok'' w))))"

definition Exists :: "('r, 'l) vault \<Rightarrow> identity \<Rightarrow> ('r, 'l) vworld \<Rightarrow> vault_error + bool" where
  "Exists sv i w =
     (case id_validate i of
        Some e \<Rightarrow> Inl e
      | None \<Rightarrow> (case rp_get (vs_repo sv) i (vw_repo w) of
          Inl e \<Rightarrow> if verr_is e ErrNotFound then Inr False else Inl e
        | Inr _ \<Rightarrow> Inr True))"

subsection \<open>Rotate\<close>

record rotation =
  ro_scanned :: nat
  ro_rewrapped :: nat
  ro_current :: nat
  ro_skipped :: nat

definition no_rotation :: rotation where
  "no_rotation = \<lparr>ro_scanned = 0, ro_rewrapped = 0, ro_current = 0, ro_skipped = 0\<rparr>"

definition rotatePageSize :: nat where "rotatePageSize = 200"

text \<open>One turn of the loop in \<open>rotateRecords\<close>.\<close>

definition rotate_one ::
  "('r, 'l) vault \<Rightarrow> time \<Rightarrow> vault_record \<Rightarrow> rotation \<Rightarrow> ('r, 'l) vworld
   \<Rightarrow> vault_error option \<times> rotation \<times> ('r, 'l) vworld" where
  "rotate_one sv now rec out w =
     (let out = out\<lparr>ro_scanned := ro_scanned out + 1\<rparr>;
          current = kw_id (vs_current sv);
          ref = identityRef (vr_identity rec);
          aad = bindingAAD (vr_version rec) (id_subject (vr_identity rec)) (id_provider (vr_identity rec))
      in if vr_kek rec = current then
           (case kw_unwrap (vs_current sv) (vr_wrapped rec) aad of
              Inl e \<Rightarrow> (Some (VRef ''vault: rotate: the current key cannot unwrap it'' ref current), out, w)
            | Inr _ \<Rightarrow> (None, out\<lparr>ro_current := ro_current out + 1\<rparr>, w))
         else (case fmlookup (vs_keys sv) (vr_kek rec) of
             None \<Rightarrow> (Some (VRef ''vault: rotate: key is not configured'' ref (vr_kek rec)), out, w)
           | Some old \<Rightarrow> (case kw_unwrap old (vr_wrapped rec) aad of
               Inl e \<Rightarrow> (Some (VRef ''vault: rotate: unwrap'' ref (vr_kek rec)), out, w)
             | Inr dek \<Rightarrow> (case kw_wrap (vs_current sv) dek aad (vw_tape w) of
                 (Inl e, t) \<Rightarrow> (Some (VRef ''vault: rotate: re-wrap'' ref current), out, w\<lparr>vw_tape := t\<rparr>)
               | (Inr wrapped, t) \<Rightarrow>
                   (case rp_rewrap (vs_repo sv) (vr_identity rec) (vr_wrapped rec)
                           \<lparr>en_kek = current, en_wrapped = wrapped, en_updated = now\<rparr> (vw_repo w) of
                      (Inl e, r) \<Rightarrow> (Some (VRef ''vault: rotate: persist'' ref current), out,
                                  w\<lparr>vw_tape := t, vw_repo := r\<rparr>)
                    | (Inr applied, r) \<Rightarrow>
                        (None,
                         (if applied then out\<lparr>ro_rewrapped := ro_rewrapped out + 1\<rparr>
                          else out\<lparr>ro_skipped := ro_skipped out + 1\<rparr>),
                         w\<lparr>vw_tape := t, vw_repo := r\<rparr>))))))"

fun rotateRecords ::
  "('r, 'l) vault \<Rightarrow> time \<Rightarrow> vault_record list \<Rightarrow> rotation \<Rightarrow> ('r, 'l) vworld
   \<Rightarrow> vault_error option \<times> rotation \<times> ('r, 'l) vworld" where
  "rotateRecords sv now [] out w = (None, out, w)"
| "rotateRecords sv now (rec # recs) out w =
     (case rotate_one sv now rec out w of
        (Some e, out, w) \<Rightarrow> (Some e, out, w)
      | (None, out, w) \<Rightarrow> rotateRecords sv now recs out w)"

partial_function (option) rotate_pages ::
  "('r, 'l) vault \<Rightarrow> time \<Rightarrow> (string \<Rightarrow> string \<Rightarrow> int \<Rightarrow> 'r \<Rightarrow> vault_error + vault_record list)
   \<Rightarrow> string \<Rightarrow> string \<Rightarrow> rotation \<Rightarrow> ('r, 'l) vworld
   \<Rightarrow> (vault_error option \<times> rotation \<times> ('r, 'l) vworld) option" where
  "rotate_pages sv now pager s p out w =
     (case pager s p (int rotatePageSize) (vw_repo w) of
        Inl e \<Rightarrow> Some (Some (VWrapped ''vault: rotate: list'' e), out, w)
      | Inr page \<Rightarrow>
          if page = [] then Some (None, out, w)
          else (case rotateRecords sv now page out w of
              (Some e, out, w) \<Rightarrow> Some (Some e, out, w)
            | (None, out, w) \<Rightarrow>
                if length page < rotatePageSize then Some (None, out, w)
                else rotate_pages sv now pager (id_subject (vr_identity (last page)))
                       (id_provider (vr_identity (last page))) out w))"

definition rotate_event :: "('r, 'l) vault \<Rightarrow> rotation \<Rightarrow> audit_event" where
  "rotate_event sv out =
     \<lparr>ev_time = 0, ev_action = ''vault.rotate_keys'', ev_subject = [], ev_provider = [],
      ev_outcome = (if ro_skipped out > 0 then OutcomeError else OutcomeOK),
      ev_detail = [(''to_key'', kw_id (vs_current sv)), (''scanned'', itoa (ro_scanned out)),
                   (''rewrapped'', itoa (ro_rewrapped out)), (''skipped'', itoa (ro_skipped out))]\<rparr>"

definition Rotate ::
  "('r, 'l) vault \<Rightarrow> time \<Rightarrow> ('r, 'l) vworld \<Rightarrow> (vault_error option \<times> rotation \<times> ('r, 'l) vworld) option" where
  "Rotate sv now w =
     (case (case rp_page (vs_repo sv) of
              Some pager \<Rightarrow> rotate_pages sv now pager [] [] no_rotation w
            | None \<Rightarrow> (case rp_list (vs_repo sv) (vw_repo w) of
                Inl e \<Rightarrow> Some (Some (VWrapped ''vault: rotate: list'' e), no_rotation, w)
              | Inr recs \<Rightarrow> Some (rotateRecords sv now recs no_rotation w))) of
        None \<Rightarrow> None
      | Some (Some e, out, w) \<Rightarrow> Some (Some e, out, w)
      | Some (None, out, w) \<Rightarrow>
          (case v_record sv now (rotate_event sv out) w of
             (err, w) \<Rightarrow> Some (err, out, w)))"

section \<open>The additional data names one credential\<close>

lemma uvarint_prefix: "append_uvarint m @ xs = append_uvarint n @ ys \<Longrightarrow> m = n \<and> xs = ys"
proof (induction m arbitrary: n rule: append_uvarint.induct)
  case (1 m)
  note eq = "1.prems" [unfolded append_uvarint.simps [of m] append_uvarint.simps [of n]]
  consider "m < 128" "n < 128" | "m < 128" "\<not> n < 128" | "\<not> m < 128" "n < 128" | "\<not> m < 128" "\<not> n < 128"
    by blast
  then show ?case
  proof cases
    case 4
    with eq have "m mod 128 = n mod 128" and "append_uvarint (m div 128) @ xs = append_uvarint (n div 128) @ ys"
      by simp_all
    with "1.IH" [OF 4(1), of "n div 128"] show ?thesis by (metis div_mult_mod_eq)
  qed (use eq in simp_all)
qed

lemma bindingAAD_inject:
  "bindingAAD v s p = bindingAAD v' s' p' \<longleftrightarrow> v = v' \<and> s = s' \<and> p = p'"
proof
  assume "bindingAAD v s p = bindingAAD v' s' p'"
  then have v: "v = v'" and "append_uvarint (length s) @ s @ append_uvarint (length p) @ p =
      append_uvarint (length s') @ s' @ append_uvarint (length p') @ p'"
    by (simp_all add: bindingAAD_def)
  from uvarint_prefix [OF this(2)] have "s = s'" "append_uvarint (length p) @ p = append_uvarint (length p') @ p'"
    by auto
  with uvarint_prefix [OF this(2)] v show "v = v' \<and> s = s' \<and> p = p'" by simp
qed simp

section \<open>Key wrappers that give back what they wrapped\<close>

definition sound_wrapper :: "key_wrapper \<Rightarrow> bool" where
  "sound_wrapper kw \<longleftrightarrow>
     (\<forall>dek aad t wrapped t'. kw_wrap kw dek aad t = (Inr wrapped, t') \<longrightarrow> kw_unwrap kw wrapped aad = Inr dek)"

lemma sound_wrapperD:
  "sound_wrapper kw \<Longrightarrow> kw_wrap kw dek aad t = (Inr wrapped, t') \<Longrightarrow> kw_unwrap kw wrapped aad = Inr dek"
  unfolding sound_wrapper_def by blast

lemma read_random_Inr: "read_random n t = (Inr b, t') \<longleftrightarrow> rand_read n t = Some (b, t')"
  by (auto simp: read_random_def split: option.split)

lemma NewLocalKeyWrapper_sound:
  assumes "NewLocalKeyWrapper kid kek = Inr kw"
  shows "sound_wrapper kw" "kw_id kw = kid" "kid \<noteq> []"
proof -
  from assms have kw: "kw = local_key_wrapper kid kek" and k: "aes_key_ok kek" and id: "kid \<noteq> []"
    by (auto simp: NewLocalKeyWrapper_def dekSize_def aes_key_ok_def split: if_split_asm)
  show "sound_wrapper kw"
    unfolding sound_wrapper_def
  proof (intro allI impI)
    fix dek aad t wrapped t'
    assume "kw_wrap kw dek aad t = (Inr wrapped, t')"
    then obtain nonce where n: "rand_read nonceSize t = Some (nonce, t')"
      and wr: "wrapped = nonce @ gcm_seal (aes_encrypt kek) nonce dek aad"
      by (auto simp: kw local_key_wrapper_def local_seal_def read_random_Inr split: sum.split_asm prod.split_asm)
    have "length nonce = 12" using rand_read_length [OF n] by (simp add: nonceSize_def)
    with aes.gcm.unseal_seal [OF k this] wr show "kw_unwrap kw wrapped aad = Inr dek"
      by (simp add: kw local_key_wrapper_def local_open_def nonceSize_def)
  qed
  show "kw_id kw = kid" "kid \<noteq> []" using id by (simp_all add: kw local_key_wrapper_def)
qed

lemma seal_open:
  assumes "sealSecret dek secret aad t = (Inr (nonce, ct), t')"
  shows "openSecret dek nonce ct aad = Inr secret"
proof -
  from assms have k: "aes_key_ok dek" and n: "rand_read 12 t = Some (nonce, t')"
    and ct: "ct = gcm_seal (aes_encrypt dek) nonce secret aad"
    by (auto simp: sealSecret_def read_random_Inr split: if_split_asm sum.split_asm prod.split_asm)
  have "length nonce = 12" using rand_read_length [OF n] by simp
  with aes.gcm.unseal_seal [OF k this] k ct show ?thesis by (simp add: openSecret_def)
qed

text \<open>A configured vault always finds its current key under that key's id.\<close>

lemma retired_loop_keeps:
  "retired_loop cur ks added keys = Inr keys' \<Longrightarrow> fmlookup keys (kw_id cur) = Some cur \<Longrightarrow>
     fmlookup keys' (kw_id cur) = Some cur"
  by (induction cur ks added keys rule: retired_loop.induct) (auto split: if_split_asm)

lemma apply_options_keeps:
  "apply_options opts s = Inr sv \<Longrightarrow> fmlookup (vs_keys s) (kw_id (vs_current s)) = Some (vs_current s) \<Longrightarrow>
     fmlookup (vs_keys sv) (kw_id (vs_current sv)) = Some (vs_current sv)
     \<and> vs_repo sv = vs_repo s \<and> vs_current sv = vs_current s \<and> vs_audit sv = vs_audit s"
proof (induction opts arbitrary: s)
  case (Cons x opts)
  then obtain s1 where s1: "apply_option x s = Inr s1" "apply_options opts s1 = Inr sv"
    by (auto split: sum.split_asm)
  then have keep: "fmlookup (vs_keys s1) (kw_id (vs_current s1)) = Some (vs_current s1)
      \<and> vs_repo s1 = vs_repo s \<and> vs_current s1 = vs_current s \<and> vs_audit s1 = vs_audit s"
    using Cons.prems(2) by (cases x) (auto split: sum.split_asm dest: retired_loop_keeps)
  from Cons.IH [OF s1(2) conjunct1 [OF keep]] keep show ?case by metis
qed auto

lemma NewVault_wired:
  assumes "NewVault (Some rp) (Some kw) (Some lg) opts = Inr sv"
  shows "vs_repo sv = rp" "vs_current sv = kw" "vs_audit sv = lg" "fmlookup (vs_keys sv) (kw_id kw) = Some kw"
  using assms
  by (auto simp: NewVault_def split: if_split_asm dest!: apply_options_keeps)

section \<open>Frames\<close>

lemma observe_frame [simp]:
  "vw_repo (observe sv op res w) = vw_repo w" "vw_log (observe sv op res w) = vw_log w"
  "vw_tape (observe sv op res w) = vw_tape w"
  by (simp_all add: observe_def)

lemma v_record_frame:
  "v_record sv now e w = (err, w') \<Longrightarrow> vw_repo w' = vw_repo w \<and> vw_tape w' = vw_tape w"
  by (auto simp: v_record_def split: prod.split_asm sum.split_asm)

lemma v_record_refused:
  "isl (fst (lg_record (vs_audit sv) now (stamp now e) (vw_log w))) \<Longrightarrow> fst (v_record sv now e w) \<noteq> None"
  by (auto simp: v_record_def split: prod.split sum.split)

section \<open>Enroll, Use and Revoke over any repository that keeps the contract\<close>

text \<open>What a successful enrollment did: the record it put, and that it opens to the secret.\<close>

lemma Enroll_None:
  assumes "Enroll sv now i secret meta w = (None, w')"
    and "sound_wrapper (vs_current sv)" and "fmlookup (vs_keys sv) (kw_id (vs_current sv)) = Some (vs_current sv)"
  shows "id_validate i = None
     \<and> (\<exists>rec. rp_put (vs_repo sv) rec (vw_repo w) = (Inr (), vw_repo w') \<and> vr_identity rec = i
          \<and> unlock sv rec = Inr secret \<and> vr_meta rec = meta \<and> vr_kek rec = kw_id (vs_current sv)
          \<and> vr_created rec = (case rp_get (vs_repo sv) i (vw_repo w) of Inl _ \<Rightarrow> now | Inr prev \<Rightarrow> vr_created prev))"
proof -
  let ?aad = "bindingAAD recordVersion (id_subject i) (id_provider i)"
  have valid: "id_validate i = None" using assms(1) by (simp add: Enroll_def split: option.split_asm)
  obtain dek t1 where dek: "read_random dekSize (vw_tape w) = (Inr dek, t1)"
    using assms(1) valid by (auto simp: Enroll_def Let_def split: prod.split_asm sum.split_asm)
  obtain wrapped t2 where wr: "kw_wrap (vs_current sv) dek ?aad t1 = (Inr wrapped, t2)"
    using assms(1) valid dek by (auto simp: Enroll_def Let_def split: prod.split_asm sum.split_asm)
  obtain nonce ct t3 where sl: "sealSecret dek secret ?aad t2 = (Inr (nonce, ct), t3)"
    using assms(1) valid dek wr by (auto simp: Enroll_def Let_def split: prod.split_asm sum.split_asm)
  obtain w1 where w1: "v_record sv now (vault_event ''vault.enroll'' i OutcomeOK) (w\<lparr>vw_tape := t3\<rparr>) = (None, w1)"
    using assms(1) valid dek wr sl
    by (auto simp: Enroll_def Let_def split: prod.split_asm sum.split_asm option.split_asm)
  have repo: "vw_repo w1 = vw_repo w" using v_record_frame [OF w1] by simp
  define rec where "rec = \<lparr>vr_identity = i, vr_version = recordVersion, vr_wrapped = wrapped,
      vr_kek = kw_id (vs_current sv), vr_nonce = nonce, vr_ct = ct, vr_meta = meta,
      vr_created = (case rp_get (vs_repo sv) i (vw_repo w) of Inl _ \<Rightarrow> now | Inr prev \<Rightarrow> vr_created prev),
      vr_updated = now\<rparr>"
  have "rp_put (vs_repo sv) rec (vw_repo w) = (Inr (), vw_repo w')"
    using assms(1) valid dek wr sl w1 repo unfolding rec_def
    by (auto simp: Enroll_def Let_def split: prod.split_asm sum.split_asm)
  moreover have "unlock sv rec = Inr secret"
    using assms(3) sound_wrapperD [OF assms(2) wr] seal_open [OF sl] by (simp add: unlock_def rec_def Let_def)
  ultimately show ?thesis using valid by (auto simp: rec_def)
qed

context credential_repo
begin

lemma enroll_then_use:
  assumes sv: "vs_repo sv = rp" "sound_wrapper (vs_current sv)"
      "fmlookup (vs_keys sv) (kw_id (vs_current sv)) = Some (vs_current sv)"
    and ok: "ok (vw_repo w)" and enr: "Enroll sv now i secret meta w = (None, w')"
    and log: "v_record sv now' (vault_event ''vault.use'' i OutcomeOK) w' = (None, w'')"
  shows "ok (vw_repo w')"
    and "Use sv now' i (Some f) x w' = (fst (f secret x), snd (f secret x), observe sv ''use'' ''ok'' w'')"
    and "j \<noteq> i \<Longrightarrow> rp_get rp j (vw_repo w') = rp_get rp j (vw_repo w)"
proof -
  from Enroll_None [OF enr sv(2,3)] sv(1) obtain rec
    where valid: "id_validate i = None" and put: "rp_put rp rec (vw_repo w) = (Inr (), vw_repo w')"
      and ident: "vr_identity rec = i" and unl: "unlock sv rec = Inr secret" by auto
  show "ok (vw_repo w')" by (rule put_ok [OF ok put])
  show "j \<noteq> i \<Longrightarrow> rp_get rp j (vw_repo w') = rp_get rp j (vw_repo w)"
    using put_get [OF ok put] ident by simp
  show "Use sv now' i (Some f) x w' = (fst (f secret x), snd (f secret x), observe sv ''use'' ''ok'' w'')"
    using valid put_get [OF ok put, of i] ident unl log sv(1)
    by (simp add: Use_def case_prod_unfold)
qed

lemma revoke_removes:
  assumes sv: "vs_repo sv = rp" and ok: "ok (vw_repo w)"
    and rev: "vault_Revoke sv now i w = (None, w')"
    and del: "fst (rp_delete rp i (vw_repo w)) \<in> {Inr (), Inl ErrNotFound}"
  shows "rp_get rp j (vw_repo w') = (if j = i then Inl ErrNotFound else rp_get rp j (vw_repo w))"
    and "id_validate i = None"
proof -
  show "id_validate i = None" using rev by (simp add: vault_Revoke_def split: option.split_asm)
  moreover have "vw_repo w' = snd (rp_delete rp i (vw_repo w))"
    using rev sv by (auto simp: vault_Revoke_def split: prod.split_asm option.split_asm if_split_asm
        dest!: v_record_frame)
  ultimately show "rp_get rp j (vw_repo w') = (if j = i then Inl ErrNotFound else rp_get rp j (vw_repo w))"
    using delete_get [OF ok del, of j] by simp
qed

end

end
