(* ===== verification/Vault_Rotation.thy ===== *)
theory Vault_Rotation
  imports Vault_Service
begin

text \<open>
  Key rotation over \<open>MemoryRepo\<close>, and the properties of the vault.
  \<^item> \<open>rotate_one\<close> in closed form: it either leaves the repository alone or replaces the envelope of
    one record whose wrapped key is still the one that was read.
  \<^item> The paging loop visits every record once, although it reads each page from a repository it
    has been rewriting: it equals one pass over the listing at the start.
\<close>

section \<open>One record\<close>

definition rewrapped :: "('r, 'l) vault \<Rightarrow> time \<Rightarrow> string \<Rightarrow> vault_record \<Rightarrow> vault_record" where
  "rewrapped sv now wrapped rec =
     rec\<lparr>vr_wrapped := wrapped, vr_kek := kw_id (vs_current sv), vr_updated := now\<rparr>"

text \<open>The payload of a record: everything but its envelope.\<close>

definition same_payload :: "vault_record \<Rightarrow> vault_record \<Rightarrow> bool" where
  "same_payload a b \<longleftrightarrow>
     vr_identity a = vr_identity b \<and> vr_version a = vr_version b \<and> vr_nonce a = vr_nonce b
     \<and> vr_ct a = vr_ct b \<and> vr_meta a = vr_meta b \<and> vr_created a = vr_created b"

lemma same_payload_refl [simp]: "same_payload a a"
  by (simp add: same_payload_def)

lemma same_payload_trans: "same_payload a b \<Longrightarrow> same_payload b c \<Longrightarrow> same_payload a c"
  by (simp add: same_payload_def)

lemma same_payload_rewrapped [simp]: "same_payload rec (rewrapped sv now wrapped rec)"
  by (simp add: same_payload_def rewrapped_def)

text \<open>The data encryption key of a record, as a vault with these keys finds it.\<close>

definition record_aad :: "vault_record \<Rightarrow> string" where
  "record_aad rec = bindingAAD (vr_version rec) (id_subject (vr_identity rec)) (id_provider (vr_identity rec))"

definition record_dek :: "('r, 'l) vault \<Rightarrow> vault_record \<Rightarrow> vault_error + string" where
  "record_dek sv rec =
     (case fmlookup (vs_keys sv) (vr_kek rec) of
        None \<Rightarrow> Inl (VRef ''vault: key is not configured'' (identityRef (vr_identity rec)) (vr_kek rec))
      | Some key \<Rightarrow> kw_unwrap key (vr_wrapped rec) (record_aad rec))"

lemma rotate_one_frame:
  assumes "vs_repo sv = memory_repo" and "rotate_one sv now rec out w = (err, out', w')"
  shows "vw_log w' = vw_log w \<and> mv_ids (vw_repo w') = mv_ids (vw_repo w)
     \<and> (mv_records (vw_repo w') = mv_records (vw_repo w)
        \<or> (\<exists>stored wrapped. fmlookup (mv_records (vw_repo w)) (vr_identity rec) = Some stored
             \<and> vr_wrapped stored = vr_wrapped rec
             \<and> mv_records (vw_repo w')
                 = fmupd (vr_identity rec) (rewrapped sv now wrapped stored) (mv_records (vw_repo w))))"
  using assms(2)
  by (auto simp: rotate_one_def Let_def assms(1) memory_repo_def mv_rewrap_def rewrapped_def
      split: if_split_asm sum.split_asm option.split_asm prod.split_asm)

text \<open>On a record that is stored as it was read, the loop body has exactly these outcomes.\<close>

lemma rotate_one_stored:
  assumes "vs_repo sv = memory_repo"
    and "fmlookup (mv_records (vw_repo w)) (vr_identity rec) = Some rec"
    and "fmlookup (vs_keys sv) (kw_id (vs_current sv)) = Some (vs_current sv)"
    and "rotate_one sv now rec out w = (None, out', w')"
  shows "(vr_kek rec = kw_id (vs_current sv) \<and> w' = w
           \<and> out' = out\<lparr>ro_scanned := ro_scanned out + 1, ro_current := ro_current out + 1\<rparr>)
     \<or> (\<exists>dek wrapped t. vr_kek rec \<noteq> kw_id (vs_current sv) \<and> record_dek sv rec = Inr dek
           \<and> kw_wrap (vs_current sv) dek (record_aad rec) (vw_tape w) = (Inr wrapped, t)
           \<and> w' = w\<lparr>vw_tape := t, vw_repo := (vw_repo w)\<lparr>mv_records :=
                fmupd (vr_identity rec) (rewrapped sv now wrapped rec) (mv_records (vw_repo w))\<rparr>\<rparr>
           \<and> out' = out\<lparr>ro_scanned := ro_scanned out + 1, ro_rewrapped := ro_rewrapped out + 1\<rparr>)"
  using assms(2-)
  by (auto simp: rotate_one_def Let_def assms(1) memory_repo_def mv_rewrap_def rewrapped_def record_dek_def
      record_aad_def split: if_split_asm sum.split_asm option.split_asm prod.split_asm)

section \<open>A page of records\<close>

lemma rotateRecords_append:
  "rotateRecords sv now (xs @ ys) out w =
     (case rotateRecords sv now xs out w of
        (Some e, out, w) \<Rightarrow> (Some e, out, w) | (None, out, w) \<Rightarrow> rotateRecords sv now ys out w)"
  by (induction xs arbitrary: out w) (simp_all split: prod.split option.split)

text \<open>What changed at one identity: nothing, or the envelope of the record that was read.\<close>

definition envelope_change ::
  "vault_record list \<Rightarrow> identity \<Rightarrow> vault_record option \<Rightarrow> vault_record option \<Rightarrow> bool" where
  "envelope_change recs j before after \<longleftrightarrow>
     before = after
     \<or> (\<exists>stored stored' rec. before = Some stored \<and> after = Some stored' \<and> same_payload stored stored'
          \<and> rec \<in> set recs \<and> vr_identity rec = j \<and> vr_wrapped rec = vr_wrapped stored)"

lemma envelope_change_refl [simp]: "envelope_change recs j x x"
  by (simp add: envelope_change_def)

lemma envelope_change_Cons:
  assumes "envelope_change [rec] j a b" and "envelope_change recs j b c"
  shows "envelope_change (rec # recs) j a c"
  using assms unfolding envelope_change_def by (auto intro: same_payload_trans)

lemma rotate_one_change:
  assumes "vs_repo sv = memory_repo" and "rotate_one sv now rec out w = (err, out', w')"
  shows "envelope_change [rec] j (fmlookup (mv_records (vw_repo w)) j) (fmlookup (mv_records (vw_repo w')) j)"
  using rotate_one_frame [OF assms] by (auto simp: envelope_change_def)

lemma rotateRecords_frame:
  assumes "vs_repo sv = memory_repo" and "rotateRecords sv now recs out w = (err, out', w')"
  shows "vw_log w' = vw_log w \<and> mv_ids (vw_repo w') = mv_ids (vw_repo w)
     \<and> envelope_change recs j (fmlookup (mv_records (vw_repo w)) j) (fmlookup (mv_records (vw_repo w')) j)"
  using assms(2)
proof (induction recs arbitrary: out w)
  case (Cons rec recs)
  obtain e1 out1 w1 where one: "rotate_one sv now rec out w = (e1, out1, w1)" by (metis prod_cases3)
  note frame = rotate_one_frame [OF assms(1) one] and change = rotate_one_change [OF assms(1) one, of j]
  show ?case
  proof (cases e1)
    case None
    with Cons.prems one have "rotateRecords sv now recs out1 w1 = (err, out', w')" by simp
    from Cons.IH [OF this] frame envelope_change_Cons [OF change] show ?thesis by simp
  next
    case (Some e)
    with Cons.prems one have "w' = w1" by simp
    with frame change show ?thesis
      using envelope_change_Cons [OF change, of recs] by simp
  qed
qed simp

lemma envelope_change_None: "envelope_change recs j a b \<Longrightarrow> a = None \<longleftrightarrow> b = None"
  by (auto simp: envelope_change_def)

lemma envelope_change_outside:
  "envelope_change recs j a b \<Longrightarrow> j \<notin> vr_identity ` set recs \<Longrightarrow> a = b"
  by (auto simp: envelope_change_def)

lemma envelope_change_Some:
  "envelope_change recs j (Some stored) b \<Longrightarrow>
     \<exists>stored'. b = Some stored' \<and> same_payload stored stored'
       \<and> (stored' \<noteq> stored \<longrightarrow> (\<exists>rec \<in> set recs. vr_identity rec = j \<and> vr_wrapped rec = vr_wrapped stored))"
  by (auto simp: envelope_change_def)

lemma rotateRecords_outside:
  assumes "vs_repo sv = memory_repo" and "rotateRecords sv now recs out w = (err, out', w')"
    and "j \<notin> vr_identity ` set recs"
  shows "fmlookup (mv_records (vw_repo w')) j = fmlookup (mv_records (vw_repo w)) j"
  by (rule envelope_change_outside [OF _ assms(3), symmetric])
     (use rotateRecords_frame [OF assms(1,2)] in blast)

lemma rotateRecords_ok:
  assumes "vs_repo sv = memory_repo" and "rotateRecords sv now recs out w = (err, out', w')"
    and "repo_ok (vw_repo w)"
  shows "repo_ok (vw_repo w')" "mv_ids (vw_repo w') = mv_ids (vw_repo w)"
proof -
  let ?r = "vw_repo w" and ?r' = "vw_repo w'"
  note frame = rotateRecords_frame [OF assms(1,2)]
  show ids: "mv_ids ?r' = mv_ids ?r" using frame by simp
  have "fmdom (mv_records ?r') = fmdom (mv_records ?r)"
    using envelope_change_None [OF conjunct2 [OF conjunct2 [OF frame]]]
    by (simp add: fset_eq_iff fmlookup_None_iff)
  moreover have "vr_identity rec = i" if "fmlookup (mv_records ?r') i = Some rec" for i rec
    using that assms(3) conjunct2 [OF conjunct2 [OF frame [of i]]]
    by (auto simp: repo_ok_def envelope_change_def same_payload_def)
  ultimately show "repo_ok ?r'" using assms(3) ids by (simp add: repo_ok_def)
qed

section \<open>Counting\<close>

definition balanced :: "nat \<Rightarrow> rotation \<Rightarrow> bool" where
  "balanced k out \<longleftrightarrow> ro_scanned out = ro_rewrapped out + ro_current out + ro_skipped out + k"

lemma rotate_one_count:
  "rotate_one sv now rec out w = (err, out', w') \<Longrightarrow> balanced 0 out \<Longrightarrow>
     balanced (if err = None then 0 else 1) out' \<and> ro_scanned out' = ro_scanned out + 1"
  by (auto simp: rotate_one_def Let_def balanced_def
      split: if_split_asm sum.split_asm option.split_asm prod.split_asm)

lemma rotateRecords_count:
  "rotateRecords sv now recs out w = (err, out', w') \<Longrightarrow> balanced 0 out \<Longrightarrow>
     balanced (if err = None then 0 else 1) out'
     \<and> (err = None \<longrightarrow> ro_scanned out' = ro_scanned out + length recs)"
proof (induction recs arbitrary: out w)
  case (Cons rec recs)
  obtain e1 out1 w1 where one: "rotate_one sv now rec out w = (e1, out1, w1)" by (metis prod_cases3)
  note count = rotate_one_count [OF one Cons.prems(2)]
  show ?case
  proof (cases e1)
    case None
    with Cons.prems(1) one have "rotateRecords sv now recs out1 w1 = (err, out', w')" by simp
    from Cons.IH [OF this] count None show ?thesis by simp
  qed (use Cons.prems(1) one count in auto)
qed simp

section \<open>Paging over a repository that is being rewritten\<close>

definition rest :: "string \<Rightarrow> string \<Rightarrow> memory_repo \<Rightarrow> vault_record list" where
  "rest s p r = filter (\<lambda>rec. recordAfter s p (vr_identity rec)) (fm_values (mv_records r))"

lemma values_at: "repo_ok r \<Longrightarrow> fm_values (mv_records r) = map (record_at r) (mv_ids r)"
  using mv_list_eq [of r] by (simp add: mv_list_def)

lemma record_at_stored:
  assumes "repo_ok r" and "i \<in> set (mv_ids r)"
  shows "fmlookup (mv_records r) i = Some (record_at r i)" "vr_identity (record_at r i) = i"
  using assms by (auto simp: repo_ok_def record_at_def fmlookup_dom_iff)

lemma rest_at:
  assumes "repo_ok r"
  shows "rest s p r = map (record_at r) (filter (recordAfter s p) (mv_ids r))"
  unfolding rest_def values_at [OF assms] filter_map comp_def
  by (intro arg_cong [of _ _ "map (record_at r)"] filter_cong) (simp_all add: record_at_stored [OF assms])

lemma map_vr_identity_rest:
  assumes "repo_ok r"
  shows "map vr_identity (rest s p r) = filter (recordAfter s p) (mv_ids r)"
  unfolding rest_at [OF assms]
  by (simp only: map_map, rule map_idI) (simp add: record_at_stored [OF assms])

lemma next_page:
  assumes ok: "repo_ok r" and ok': "repo_ok r'" and ids: "mv_ids r' = mv_ids r"
    and full: "0 < n" "n \<le> length (rest s p r)"
    and nonempty: "Identity [] [] \<notin> set (mv_ids r)"
    and outside: "\<And>j. j \<notin> vr_identity ` set (take n (rest s p r)) \<Longrightarrow> record_at r' j = record_at r j"
  defines "l \<equiv> vr_identity (last (take n (rest s p r)))"
  shows "rest (id_subject l) (id_provider l) r' = drop n (rest s p r)"
proof -
  define A where "A = filter (recordAfter s p) (mv_ids r)"
  have restA: "rest s p r = map (record_at r) A" unfolding A_def by (rule rest_at [OF ok])
  have idsA: "map vr_identity (rest s p r) = A" unfolding A_def by (rule map_vr_identity_rest [OF ok])
  have len: "n \<le> length A" using full(2) by (simp add: restA)
  have srt: "sorted_wrt (<) A" using ok by (simp add: A_def repo_ok_def sorted_wrt_filter)
  have ne: "take n A \<noteq> []" using full(1) len by auto
  have "take n (rest s p r) \<noteq> []" using ne by (simp add: restA)
  then have l: "l = last (take n A)"
    unfolding l_def idsA [symmetric] take_map by (simp add: last_map)
  then have "l \<in> set A" using ne last_in_set in_set_takeD by metis
  then have la: "recordAfter s p l" and lid: "l \<in> set (mv_ids r)" by (simp_all add: A_def)
  with nonempty have after: "recordAfter (id_subject l) (id_provider l) i \<longleftrightarrow> l < i" for i
    by (cases l) (auto simp: recordAfter_iff)
  have "filter (\<lambda>i. l < i) (mv_ids r) = filter (\<lambda>i. l < i) A"
    using la unfolding A_def filter_filter by (intro filter_cong) (auto simp: recordAfter_iff)
  also have "\<dots> = drop n A"
    using filter_after_take [of id A n] srt full(1) len by (simp add: l)
  finally have "rest (id_subject l) (id_provider l) r' = map (record_at r') (drop n A)"
    unfolding rest_at [OF ok'] ids after by simp
  also have "\<dots> = map (record_at r) (drop n A)"
  proof (rule map_cong [OF refl], rule outside)
    fix i assume i: "i \<in> set (drop n A)"
    have "distinct A" using srt by (simp add: strict_sorted_iff)
    with i have "i \<notin> set (take n A)" using set_take_disj_set_drop_if_distinct [of A n n] by blast
    then show "i \<notin> vr_identity ` set (take n (rest s p r))"
      by (simp add: idsA flip: set_map take_map)
  qed
  finally show ?thesis by (simp add: restA drop_map)
qed

lemma rotate_pages_memory:
  assumes "vs_repo sv = memory_repo" and "repo_ok (vw_repo w)" and "Identity [] [] \<notin> set (mv_ids (vw_repo w))"
  shows "rotate_pages sv now mv_page s p out w = Some (rotateRecords sv now (rest s p (vw_repo w)) out w)"
  using assms(2,3)
proof (induction "length (rest s p (vw_repo w))" arbitrary: s p out w rule: less_induct)
  case less
  let ?L = "rest s p (vw_repo w)" and ?n = rotatePageSize
  let ?page = "take ?n ?L"
  have page: "mv_page s p (int ?n) (vw_repo w) = Inr ?page"
    by (simp add: mv_page_eq [OF less.prems(1)] rest_def rotatePageSize_def)
  have n0: "0 < ?n" by (simp add: rotatePageSize_def)
  obtain err out1 w1 where run: "rotateRecords sv now ?page out w = (err, out1, w1)" by (metis prod_cases3)
  have split: "rotateRecords sv now ?L out w =
      (case (err, out1, w1) of (Some e, out, w) \<Rightarrow> (Some e, out, w)
       | (None, out, w) \<Rightarrow> rotateRecords sv now (drop ?n ?L) out w)"
    using rotateRecords_append [of sv now ?page "drop ?n ?L" out w] run by simp
  note unfold = rotate_pages.simps [of sv now mv_page s p out w] page run
  consider "?L = []" | "?L \<noteq> []" "err \<noteq> None" | "?L \<noteq> []" "err = None" "length ?L < ?n"
    | "?L \<noteq> []" "err = None" "?n \<le> length ?L" by linarith
  then show ?case
  proof cases
    case 4
    note ok1 = rotateRecords_ok [OF assms(1) run less.prems(1)]
    have outside: "record_at (vw_repo w1) j = record_at (vw_repo w) j" if "j \<notin> vr_identity ` set ?page" for j
      using rotateRecords_outside [OF assms(1) run that] by (simp add: record_at_def)
    let ?l = "vr_identity (last ?page)"
    have nxt: "rest (id_subject ?l) (id_provider ?l) (vw_repo w1) = drop ?n ?L"
      using next_page [OF less.prems(1) ok1 _ 4(3) less.prems(2) outside] n0 by simp
    have "length (rest (id_subject ?l) (id_provider ?l) (vw_repo w1)) < length ?L"
      unfolding nxt using 4 n0 by simp
    from less.hyps [OF this ok1(1)] less.prems(2) ok1(2)
    have "rotate_pages sv now mv_page (id_subject ?l) (id_provider ?l) out1 w1
        = Some (rotateRecords sv now (drop ?n ?L) out1 w1)" by (simp add: nxt)
    with unfold split 4 n0 show ?thesis by (simp add: min_absorb2)
  qed (use unfold split n0 in auto)
qed

section \<open>A clean rotation leaves nothing on a retired key\<close>

lemma rotateRecords_stored:
  assumes sv: "vs_repo sv = memory_repo" "fmlookup (vs_keys sv) (kw_id (vs_current sv)) = Some (vs_current sv)"
      "sound_wrapper (vs_current sv)"
    and "distinct (map vr_identity recs)"
    and "\<forall>rec \<in> set recs. fmlookup (mv_records (vw_repo w)) (vr_identity rec) = Some rec"
    and "rotateRecords sv now recs out w = (None, out', w')"
  shows "ro_skipped out' = ro_skipped out
     \<and> (\<forall>rec \<in> set recs. \<exists>rec'. fmlookup (mv_records (vw_repo w')) (vr_identity rec) = Some rec'
          \<and> vr_kek rec' = kw_id (vs_current sv) \<and> same_payload rec rec'
          \<and> (\<forall>dek. record_dek sv rec = Inr dek \<longrightarrow>
               kw_unwrap (vs_current sv) (vr_wrapped rec') (record_aad rec) = Inr dek))"
  using assms(4-)
proof (induction recs arbitrary: out w)
  case (Cons rec recs)
  obtain e1 out1 w1 where e1: "rotate_one sv now rec out w = (e1, out1, w1)" by (metis prod_cases3)
  with Cons.prems(3) have one: "rotate_one sv now rec out w = (None, out1, w1)"
    and tl: "rotateRecords sv now recs out1 w1 = (None, out', w')"
    by (cases e1; simp)+
  have stored: "fmlookup (mv_records (vw_repo w)) (vr_identity rec) = Some rec" using Cons.prems(2) by simp
  note out = rotate_one_stored [OF sv(1) stored sv(2) one]
  have keep: "\<forall>x \<in> set recs. fmlookup (mv_records (vw_repo w1)) (vr_identity x) = Some x"
  proof
    fix x assume x: "x \<in> set recs"
    have "vr_identity rec \<notin> vr_identity ` set recs" using Cons.prems(1) by simp
    with x have "vr_identity x \<noteq> vr_identity rec" by (metis image_eqI)
    then have "vr_identity x \<notin> vr_identity ` set [rec]" by simp
    from rotateRecords_outside [OF sv(1) _ this, of now out w None out1 w1] one Cons.prems(2) x
    show "fmlookup (mv_records (vw_repo w1)) (vr_identity x) = Some x" by simp
  qed
  have head: "fmlookup (mv_records (vw_repo w')) (vr_identity rec) = fmlookup (mv_records (vw_repo w1)) (vr_identity rec)"
    using rotateRecords_outside [OF sv(1) tl, of "vr_identity rec"] Cons.prems(1) by simp
  have "\<exists>rec'. fmlookup (mv_records (vw_repo w1)) (vr_identity rec) = Some rec'
      \<and> vr_kek rec' = kw_id (vs_current sv) \<and> same_payload rec rec'
      \<and> (\<forall>dek. record_dek sv rec = Inr dek \<longrightarrow>
           kw_unwrap (vs_current sv) (vr_wrapped rec') (record_aad rec) = Inr dek)"
    using out
  proof (elim disjE conjE exE)
    assume "vr_kek rec = kw_id (vs_current sv)" "w1 = w"
    then show ?thesis using stored sv(2) by (auto simp: record_dek_def)
  next
    fix dek wrapped t
    assume "record_dek sv rec = Inr dek"
      "kw_wrap (vs_current sv) dek (record_aad rec) (vw_tape w) = (Inr wrapped, t)"
      "w1 = w\<lparr>vw_tape := t, vw_repo := (vw_repo w)\<lparr>mv_records :=
         fmupd (vr_identity rec) (rewrapped sv now wrapped rec) (mv_records (vw_repo w))\<rparr>\<rparr>"
    then show ?thesis using sound_wrapperD [OF sv(3)] by (auto simp: rewrapped_def same_payload_def)
  qed
  moreover have "ro_skipped out1 = ro_skipped out" using out by (elim disjE conjE exE) simp_all
  moreover have "distinct (map vr_identity recs)" using Cons.prems(1) by simp
  ultimately show ?case using Cons.IH [OF _ keep tl] head by simp
qed simp

lemma unlock_dek:
  "unlock sv rec = Inr secret \<longleftrightarrow>
     (\<exists>dek. record_dek sv rec = Inr dek \<and> openSecret dek (vr_nonce rec) (vr_ct rec) (record_aad rec) = Inr secret)"
  by (auto simp: unlock_def record_dek_def record_aad_def Let_def split: option.split sum.split)

lemma Rotate_memory:
  assumes "vs_repo sv = memory_repo" and "repo_ok (vw_repo w)" and "Identity [] [] \<notin> set (mv_ids (vw_repo w))"
    and "rotateRecords sv now (fm_values (mv_records (vw_repo w))) no_rotation w = (err, out, w')"
  shows "Rotate sv now w = Some (case err of Some e \<Rightarrow> (Some e, out, w')
     | None \<Rightarrow> (fst (v_record sv now (rotate_event sv out) w'), out, snd (v_record sv now (rotate_event sv out) w')))"
proof -
  have "rest [] [] (vw_repo w) = fm_values (mv_records (vw_repo w))" by (simp add: rest_def recordAfter_def)
  with rotate_pages_memory [OF assms(1-3), of now "[]" "[]" no_rotation] assms(1,4)
  show ?thesis by (simp add: Rotate_def memory_repo_def case_prod_unfold split: option.split)
qed

section \<open>A concrete vault\<close>

definition demo_wrapper :: key_wrapper where
  "demo_wrapper = local_key_wrapper ''k1'' (replicate 32 (CHR ''K''))"

definition demo_vault :: "(memory_repo, memory_log) vault" where
  "demo_vault =
     \<lparr>vs_repo = memory_repo, vs_current = demo_wrapper, vs_keys = fmupd ''k1'' demo_wrapper fmempty,
      vs_audit = memory_logger, vs_metrics = False\<rparr>"

definition demo_vworld :: "(memory_repo, memory_log) vworld" where
  "demo_vworld =
     \<lparr>vw_repo = NewMemoryRepo, vw_log = NewMemoryLoggerWithCapacity 10, vw_tape = replicate 100 (CHR ''r''),
      vw_obs = []\<rparr>"

definition demo_id :: identity where "demo_id = Identity ''usr_1'' ''taptap''"

definition demo_enrolled :: "(memory_repo, memory_log) vworld" where
  "demo_enrolled = snd (Enroll demo_vault 5 demo_id ''s3cret'' fmempty demo_vworld)"

lemma demo_wrapper_new: "NewLocalKeyWrapper ''k1'' (replicate 32 (CHR ''K'')) = Inr demo_wrapper"
  by (simp add: NewLocalKeyWrapper_def dekSize_def demo_wrapper_def)

lemma demo_vault_new: "NewVault (Some memory_repo) (Some demo_wrapper) (Some memory_logger) [] = Inr demo_vault"
  by (simp add: NewVault_def demo_vault_def demo_wrapper_def local_key_wrapper_def)

lemma demo_vault_sel [simp]: "vs_repo demo_vault = memory_repo" "vs_audit demo_vault = memory_logger"
  "vs_metrics demo_vault = False" "vs_current demo_vault = demo_wrapper"
  "vs_keys demo_vault = fmupd ''k1'' demo_wrapper fmempty"
  by (simp_all add: demo_vault_def)

lemma demo_vworld_sel: "vw_repo demo_vworld = NewMemoryRepo" "repo_ok (vw_repo demo_vworld)"
  by (simp_all add: demo_vworld_def repo_ok_new)

lemma demo_id_valid [simp]: "id_validate demo_id = None"
  by (simp add: id_validate_def demo_id_def maxIdentityFieldLen_def)

lemma memory_v_record: "vs_audit sv = memory_logger \<Longrightarrow> fst (v_record sv now e w) = None"
  by (simp add: v_record_def memory_logger_def ml_record_def Let_def)

lemma v_record_split: "fst (v_record sv now e w) = None \<Longrightarrow> v_record sv now e w = (None, snd (v_record sv now e w))"
  by (metis prod.collapse)

lemma demo_enroll: "Enroll demo_vault 5 demo_id ''s3cret'' fmempty demo_vworld = (None, demo_enrolled)"
proof -
  have "fst (Enroll demo_vault 5 demo_id ''s3cret'' fmempty demo_vworld) = None"
    using memory_v_record [of demo_vault]
    by (simp add: Enroll_def read_random_def rand_read_def dekSize_def demo_vworld_def demo_wrapper_def
        local_key_wrapper_def local_seal_def nonceSize_def sealSecret_def aes_key_ok_def memory_repo_def
        mv_put_def case_prod_unfold Let_def split: option.split)
  then show ?thesis by (metis demo_enrolled_def prod.collapse)
qed

lemma demo_stored:
  "\<exists>rec. fmlookup (mv_records (vw_repo demo_enrolled)) demo_id = Some rec" "repo_ok (vw_repo demo_enrolled)"
  "mv_ids (vw_repo demo_enrolled) = [demo_id]"
proof -
  obtain rec where put: "rp_put memory_repo rec (vw_repo demo_vworld) = (Inr (), vw_repo demo_enrolled)"
    and rec: "vr_identity rec = demo_id"
    using Enroll_None [OF demo_enroll] NewLocalKeyWrapper_sound(1) [OF demo_wrapper_new]
      NewVault_wired(4) [OF demo_vault_new] by auto
  from put have r: "vw_repo demo_enrolled = snd (mv_put rec NewMemoryRepo)"
    by (metis demo_vworld_sel(1) memory_repo_def repo.select_convs(1) snd_conv)
  show "repo_ok (vw_repo demo_enrolled)" unfolding r by (rule repo_ok_put [OF repo_ok_new])
  show "\<exists>rec. fmlookup (mv_records (vw_repo demo_enrolled)) demo_id = Some rec"
    by (simp add: r mv_put_def rec)
  show "mv_ids (vw_repo demo_enrolled) = [demo_id]"
    by (simp add: r mv_put_def rec NewMemoryRepo_def insertIndex_slice slice_insert_eq)
qed

section \<open>Properties\<close>

text \<open>
  C12. Enrolling and using are inverse: on a vault wired over \<open>MemoryRepo\<close> with a local key
  wrapper and any retired keys, after a successful \<open>Enroll\<close> a \<open>Use\<close> whose access event the audit
  log takes runs the callback on exactly the enrolled secret and returns the callback's own
  answer; the repository stays well formed and every other credential is as it was.
\<close>
theorem vault_roundtrip:
  assumes "NewLocalKeyWrapper kid kek = Inr kw"
    and "NewVault (Some memory_repo) (Some kw) (Some lg) opts = Inr sv"
    and "repo_ok (vw_repo w)" and "Enroll sv now i secret meta w = (None, w')"
    and "v_record sv now' (vault_event ''vault.use'' i OutcomeOK) w' = (None, w'')"
  shows "Use sv now' i (Some f) x w' = (fst (f secret x), snd (f secret x), observe sv ''use'' ''ok'' w'')
     \<and> repo_ok (vw_repo w') \<and> (j \<noteq> i \<longrightarrow> mv_get j (vw_repo w') = mv_get j (vw_repo w))"
proof -
  note wired = NewVault_wired [OF assms(2)]
  have "sound_wrapper (vs_current sv)" using NewLocalKeyWrapper_sound(1) [OF assms(1)] wired(2) by simp
  note use = mem.enroll_then_use [OF wired(1) this _ assms(3-5)]
  show ?thesis using use wired(2,4) by (simp add: memory_repo_def)
qed

theorem vault_roundtrip_witness:
  "fst (Use demo_vault 9 demo_id (Some (\<lambda>plain x. (None, plain # x))) [] demo_enrolled) = None
   \<and> fst (snd (Use demo_vault 9 demo_id (Some (\<lambda>plain x. (None, plain # x))) [] demo_enrolled)) = [''s3cret'']"
  using vault_roundtrip [OF demo_wrapper_new demo_vault_new demo_vworld_sel(2) demo_enroll
      v_record_split [OF memory_v_record [OF demo_vault_sel(2)]], of 9 "\<lambda>plain x. (None, plain # x)" "[]" demo_id]
  by simp

text \<open>
  C17. The vault fails closed: when the audit log refuses the event that reports an enrolment,
  \<open>Enroll\<close> reports an error and leaves the repository untouched, and when it refuses the event that
  reports a successful decryption, \<open>Use\<close> reports an error without running the callback, whatever
  the log does with any other event and whatever repository and keys the vault has.
\<close>
theorem vault_fail_closed:
  "(isl (fst (lg_record (vs_audit sv) now (stamp now (vault_event ''vault.enroll'' i OutcomeOK)) (vw_log w))) \<longrightarrow>
      fst (Enroll sv now i secret meta w) \<noteq> None
      \<and> vw_repo (snd (Enroll sv now i secret meta w)) = vw_repo w)
   \<and> (isl (fst (lg_record (vs_audit sv) now (stamp now (vault_event ''vault.use'' i OutcomeOK)) (vw_log w))) \<longrightarrow>
      fst (Use sv now i cb x w) \<noteq> None \<and> fst (snd (Use sv now i cb x w)) = x
      \<and> vw_repo (snd (snd (Use sv now i cb x w))) = vw_repo w)"
proof (intro conjI impI)
  have refuse: "\<exists>err w'. v_record sv now e w = (Some err, w') \<and> vw_repo w' = vw_repo w"
    if "isl (fst (lg_record (vs_audit sv) now (stamp now e) (vw_log w)))" for e w
    using v_record_refused [OF that] v_record_frame [of sv now e w] by (cases "v_record sv now e w") auto
  have same: "vw_repo (snd (v_record sv now e w)) = vw_repo w" for e w
    using v_record_frame [of sv now e w] by (metis prod.collapse)
  {
    assume "isl (fst (lg_record (vs_audit sv) now (stamp now (vault_event ''vault.enroll'' i OutcomeOK)) (vw_log w)))"
    then have r: "\<exists>err w'. v_record sv now (vault_event ''vault.enroll'' i OutcomeOK) (w\<lparr>vw_tape := t\<rparr>) = (Some err, w')
        \<and> vw_repo w' = vw_repo w" for t
      using refuse [of "vault_event ''vault.enroll'' i OutcomeOK" "w\<lparr>vw_tape := t\<rparr>"] by simp
    show "fst (Enroll sv now i secret meta w) \<noteq> None" "vw_repo (snd (Enroll sv now i secret meta w)) = vw_repo w"
      using r by (auto simp: Enroll_def Let_def split: option.split sum.split prod.split)
        (metis option.distinct(1) prod.inject)+
  next
    assume "isl (fst (lg_record (vs_audit sv) now (stamp now (vault_event ''vault.use'' i OutcomeOK)) (vw_log w)))"
    from refuse [OF this] obtain err w' where "v_record sv now (vault_event ''vault.use'' i OutcomeOK) w = (Some err, w')"
      "vw_repo w' = vw_repo w" by blast
    then show "fst (Use sv now i cb x w) \<noteq> None" "fst (snd (Use sv now i cb x w)) = x"
      "vw_repo (snd (snd (Use sv now i cb x w))) = vw_repo w"
      using same [of "vault_event ''vault.use'' i OutcomeDenied" w] same [of "vault_event ''vault.use'' i OutcomeError" w]
      by (auto simp: Use_def split: option.split sum.split prod.split)
  }
qed

text \<open>A log that refuses successful uses only.\<close>

definition picky_logger :: "memory_log logger" where
  "picky_logger = \<lparr>lg_record = \<lambda>now e l. if ev_action e = ''vault.use'' \<and> ev_outcome e = OutcomeOK then (Inl ''full'', l)
     else ml_record now e l\<rparr>"

theorem vault_fail_closed_witness:
  "fst (snd (Use (demo_vault\<lparr>vs_audit := picky_logger\<rparr>) 9 demo_id (Some (\<lambda>plain x. (None, plain # x))) [] demo_enrolled)) = []"
  using vault_fail_closed [of "demo_vault\<lparr>vs_audit := picky_logger\<rparr>" 9 demo_id demo_enrolled
      "''s''" fmempty "Some (\<lambda>plain x. (None, plain # x))" "[]"]
  by (simp add: picky_logger_def stamp_def vault_event_def)

text \<open>
  C29. Revocation erases: after a successful \<open>Revoke\<close> the credential does not exist, \<open>Use\<close> answers
  not-found without running the callback, and every other credential is untouched.
\<close>
theorem vault_revoke_erases:
  assumes "vs_repo sv = memory_repo" and "repo_ok (vw_repo w)" and "vault_Revoke sv now i w = (None, w')"
  shows "Exists sv i w' = Inr False
     \<and> (\<exists>e. fst (Use sv now' i cb x w') = Some e \<and> (cb \<noteq> None \<longrightarrow> verr_is e ErrNotFound))
     \<and> fst (snd (Use sv now' i cb x w')) = x
     \<and> (j \<noteq> i \<longrightarrow> mv_get j (vw_repo w') = mv_get j (vw_repo w))"
proof -
  have "fst (rp_delete memory_repo i (vw_repo w)) \<in> {Inr (), Inl ErrNotFound}"
    by (simp add: memory_repo_def mv_delete_def split: option.split)
  note gone = mem.revoke_removes [OF assms this]
  have "mv_get i (vw_repo w') = Inl ErrNotFound" "j \<noteq> i \<longrightarrow> mv_get j (vw_repo w') = mv_get j (vw_repo w)"
    using gone(1) [of i] gone(1) [of j] by (auto simp: memory_repo_def)
  then show ?thesis
    using gone(2) assms(1)
    by (auto simp: Exists_def Use_def memory_repo_def errors_join_def split: option.split prod.split)
qed

theorem vault_revoke_erases_witness:
  "Exists demo_vault demo_id (snd (vault_Revoke demo_vault 6 demo_id demo_enrolled)) = Inr False"
proof -
  have "fst (vault_Revoke demo_vault 6 demo_id demo_enrolled) = None"
    using memory_v_record [of demo_vault]
    by (simp add: vault_Revoke_def memory_repo_def mv_delete_def case_prod_unfold split: option.split)
  then have "vault_Revoke demo_vault 6 demo_id demo_enrolled
      = (None, snd (vault_Revoke demo_vault 6 demo_id demo_enrolled))" by (metis prod.collapse)
  from vault_revoke_erases [OF demo_vault_sel(1) demo_stored(2) this] show ?thesis by (rule conjunct1)
qed

text \<open>
  C13. A rotation loses no update: whatever page of records it was given, however stale, after
  \<open>rotateRecords\<close> (also when it stops at an error) every identity holds what it held before, or
  the same payload under a new envelope; and the envelope changed only where the stored
  wrapped key was still the one on the page. The counters add up, except that a run that
  stops at an error counts the record it stopped at in \<open>Scanned\<close> alone.
\<close>
theorem rotation_no_lost_update:
  assumes "vs_repo sv = memory_repo" and "rotateRecords sv now recs no_rotation w = (err, out, w')"
  shows "(case fmlookup (mv_records (vw_repo w)) j of
            None \<Rightarrow> fmlookup (mv_records (vw_repo w')) j = None
          | Some stored \<Rightarrow>
              (\<exists>stored'. fmlookup (mv_records (vw_repo w')) j = Some stored' \<and> same_payload stored stored'
                 \<and> (stored' \<noteq> stored \<longrightarrow>
                      (\<exists>rec \<in> set recs. vr_identity rec = j \<and> vr_wrapped rec = vr_wrapped stored))))
     \<and> ro_scanned out = ro_rewrapped out + ro_current out + ro_skipped out + (if err = None then 0 else 1)"
proof -
  have "balanced 0 no_rotation" by (simp add: balanced_def no_rotation_def)
  from rotateRecords_count [OF assms(2) this]
  have "ro_scanned out = ro_rewrapped out + ro_current out + ro_skipped out + (if err = None then 0 else 1)"
    by (simp add: balanced_def)
  moreover have "envelope_change recs j (fmlookup (mv_records (vw_repo w)) j) (fmlookup (mv_records (vw_repo w')) j)"
    using rotateRecords_frame [OF assms, of j] by blast
  ultimately show ?thesis
    using envelope_change_Some envelope_change_None [of recs j None]
    by (cases "fmlookup (mv_records (vw_repo w)) j") simp_all
qed

theorem rotation_no_lost_update_witness:
  "let w' = snd (snd (rotateRecords demo_vault 7 [zero_record\<lparr>vr_identity := demo_id, vr_kek := ''old''\<rparr>] no_rotation demo_enrolled))
   in fmlookup (mv_records (vw_repo demo_enrolled)) demo_id \<noteq> None
      \<and> fmlookup (mv_records (vw_repo w')) demo_id \<noteq> None"
proof -
  let ?run = "rotateRecords demo_vault 7 [zero_record\<lparr>vr_identity := demo_id, vr_kek := ''old''\<rparr>] no_rotation demo_enrolled"
  note demo_stored(1)
  moreover have "?run = (fst ?run, fst (snd ?run), snd (snd ?run))" by simp
  from rotation_no_lost_update [OF demo_vault_sel(1) this, of demo_id]
  have "fmlookup (mv_records (vw_repo demo_enrolled)) demo_id = None
      \<or> fmlookup (mv_records (vw_repo (snd (snd ?run)))) demo_id \<noteq> None"
    by (auto split: option.split_asm)
  ultimately show ?thesis by (auto simp: Let_def)
qed

text \<open>
  C11. A rotation ends and a clean one is complete: on \<open>MemoryRepo\<close> \<open>Rotate\<close> always returns, although
  it pages through a repository it is rewriting; and when it reports no error it visited every
  record, skipped none, and left each with its payload, under the current key, and opening
  to the same secret with the current key alone, so the retired keys can be discarded.
\<close>
theorem rotation_complete:
  assumes "NewLocalKeyWrapper kid kek = Inr kw"
    and "NewVault (Some memory_repo) (Some kw) (Some lg) opts = Inr sv"
    and "repo_ok (vw_repo w)" and "Identity [] [] \<notin> set (mv_ids (vw_repo w))"
  shows "\<exists>err out w'. Rotate sv now w = Some (err, out, w')
     \<and> (err = None \<longrightarrow>
          ro_skipped out = 0 \<and> ro_scanned out = length (mv_ids (vw_repo w))
          \<and> (\<forall>i rec. fmlookup (mv_records (vw_repo w)) i = Some rec \<longrightarrow>
               (\<exists>rec'. fmlookup (mv_records (vw_repo w')) i = Some rec'
                  \<and> vr_kek rec' = kid \<and> same_payload rec rec'
                  \<and> (\<forall>secret. unlock sv rec = Inr secret \<longrightarrow>
                       unlock (sv\<lparr>vs_keys := fmupd kid kw fmempty\<rparr>) rec' = Inr secret))))"
proof -
  let ?recs = "fm_values (mv_records (vw_repo w))"
  note wired = NewVault_wired [OF assms(2)] and kw = NewLocalKeyWrapper_sound [OF assms(1)]
  obtain err out w1 where run: "rotateRecords sv now ?recs no_rotation w = (err, out, w1)" by (metis prod_cases3)
  note rot = Rotate_memory [OF wired(1) assms(3,4) run]
  show ?thesis
  proof (cases err)
    case (Some e)
    with rot show ?thesis by auto
  next
    case None
    let ?log = "v_record sv now (rotate_event sv out) w1"
    have same: "vw_repo (snd ?log) = vw_repo w1" using v_record_frame by (metis prod.collapse)
    have ids: "map vr_identity ?recs = mv_ids (vw_repo w)"
      using map_vr_identity_rest [OF assms(3), of "[]" "[]"] by (simp add: rest_def recordAfter_def)
    have dist: "distinct (map vr_identity ?recs)"
      using assms(3) by (simp add: ids repo_ok_def strict_sorted_iff)
    have stored: "\<forall>rec \<in> set ?recs. fmlookup (mv_records (vw_repo w)) (vr_identity rec) = Some rec"
      using assms(3) by (auto simp: set_fm_values repo_ok_def)
    have cur: "fmlookup (vs_keys sv) (kw_id (vs_current sv)) = Some (vs_current sv)"
      "sound_wrapper (vs_current sv)" using wired(2,4) kw(1) by simp_all
    note all = rotateRecords_stored [OF wired(1) cur dist stored run [unfolded None]]
    have "ro_scanned out = length ?recs"
      using rotateRecords_count [OF run] None by (simp add: balanced_def no_rotation_def)
    then have counts: "ro_skipped out = 0" "ro_scanned out = length (mv_ids (vw_repo w))"
      using all ids [symmetric] by (simp_all add: no_rotation_def)
    have "\<exists>rec'. fmlookup (mv_records (vw_repo w1)) i = Some rec' \<and> vr_kek rec' = kid \<and> same_payload rec rec'
        \<and> (\<forall>secret. unlock sv rec = Inr secret \<longrightarrow>
             unlock (sv\<lparr>vs_keys := fmupd kid kw fmempty\<rparr>) rec' = Inr secret)"
      if "fmlookup (mv_records (vw_repo w)) i = Some rec" for i rec
    proof -
      have "rec \<in> set ?recs" "vr_identity rec = i"
        using that assms(3) by (auto simp: set_fm_values repo_ok_def)
      with all obtain rec' where r: "fmlookup (mv_records (vw_repo w1)) i = Some rec'" "vr_kek rec' = kid"
        "same_payload rec rec'"
        "\<forall>dek. record_dek sv rec = Inr dek \<longrightarrow> kw_unwrap kw (vr_wrapped rec') (record_aad rec) = Inr dek"
        using wired(2) kw(2) by auto
      moreover from r(3) have "record_aad rec' = record_aad rec" "vr_nonce rec' = vr_nonce rec" "vr_ct rec' = vr_ct rec"
        by (simp_all add: record_aad_def same_payload_def)
      ultimately show ?thesis by (auto simp: unlock_dek record_dek_def)
    qed
    with rot None same counts show ?thesis by auto
  qed
qed

theorem rotation_complete_witness:
  "\<exists>err out w'. Rotate demo_vault 7 demo_enrolled = Some (err, out, w')
     \<and> (err = None \<longrightarrow> ro_skipped out = 0 \<and> ro_scanned out = 1)"
proof -
  have "Identity [] [] \<notin> set (mv_ids (vw_repo demo_enrolled))" by (simp add: demo_stored(3) demo_id_def)
  from rotation_complete [OF demo_wrapper_new demo_vault_new demo_stored(2) this, of 7] show ?thesis
    by (auto simp: demo_stored(3))
qed

end
