(* ===== verification/Account_Store.thy ===== *)
theory Account_Store
  imports Go_Crypto
begin

text \<open>
  Accounts and their linked identities, \<^verbatim>\<open>internal/account/account.go\<close>: \<open>MemoryStore\<close> with its four
  maps, one definition per operation. Identifiers are drawn from the random tape; a failing
  random source makes the Go code panic, which is the error \<open>AccPanic\<close> here. An identifier
  that is already in use cannot be told apart from a fresh one by the code, so the lemmas
  about creating and linking assume the drawn one is new.
  Shown: the four maps mirror each other under every operation, every account keeps at least
  one identity and its primary is one of them, and an identity never moves between accounts.
\<close>

section \<open>Records\<close>

text \<open>\<^verbatim>\<open>idp.Identity\<close>: what an identity provider asserts.\<close>

record idp_identity =
  ii_provider :: string
  ii_subject :: string
  ii_name :: string
  ii_email :: string
  ii_avatar :: string

datatype account_error = AccNotFound | ErrIdentityTaken | ErrLastIdentity | AccPlain string | AccPanic

definition ii_validate :: "idp_identity \<Rightarrow> account_error option" where
  "ii_validate i =
     (if ii_provider i = [] then Some (AccPlain ''idp: identity has no provider'')
      else if ii_subject i = [] then Some (AccPlain ''idp: identity has no subject'')
      else None)"

record user =
  us_id :: string
  us_primary :: string
  us_created :: time

record account_identity =
  ci_id :: string
  ci_user :: string
  ci_provider :: string
  ci_subject :: string
  ci_name :: string
  ci_email :: string
  ci_avatar :: string
  ci_linked :: time
  ci_last_login :: time

record account_store =
  as_users :: "(string, user) fmap"
  as_identities :: "(string, account_identity) fmap"
  as_byKey :: "(string \<times> string, string) fmap"
  as_byUser :: "(string, string list) fmap"

text \<open>A missing key reads as the zero value.\<close>

definition zero_user :: user where
  "zero_user = \<lparr>us_id = [], us_primary = [], us_created = 0\<rparr>"

definition zero_identity :: account_identity where
  "zero_identity = \<lparr>ci_id = [], ci_user = [], ci_provider = [], ci_subject = [], ci_name = [], ci_email = [],
     ci_avatar = [], ci_linked = 0, ci_last_login = 0\<rparr>"

definition user_at :: "account_store \<Rightarrow> string \<Rightarrow> user" where
  "user_at s u = (case fmlookup (as_users s) u of None \<Rightarrow> zero_user | Some usr \<Rightarrow> usr)"

definition identity_at :: "account_store \<Rightarrow> string \<Rightarrow> account_identity" where
  "identity_at s i = (case fmlookup (as_identities s) i of None \<Rightarrow> zero_identity | Some ident \<Rightarrow> ident)"

definition NewAccountStore :: account_store where
  "NewAccountStore = \<lparr>as_users = fmempty, as_identities = fmempty, as_byKey = fmempty, as_byUser = fmempty\<rparr>"

definition identity_key :: "account_identity \<Rightarrow> string \<times> string" where
  "identity_key ident = (ci_provider ident, ci_subject ident)"

section \<open>Identifiers\<close>

definition random_hex :: "nat \<Rightarrow> tape \<Rightarrow> (string \<times> tape) option" where
  "random_hex n t = (case rand_read n t of None \<Rightarrow> None | Some (b, t) \<Rightarrow> Some (hex_encode b, t))"

definition NewUserID :: "tape \<Rightarrow> (string \<times> tape) option" where
  "NewUserID t = (case random_hex 16 t of None \<Rightarrow> None | Some (h, t) \<Rightarrow> Some (''usr_'' @ h, t))"

definition NewIdentityID :: "tape \<Rightarrow> (string \<times> tape) option" where
  "NewIdentityID t = (case random_hex 16 t of None \<Rightarrow> None | Some (h, t) \<Rightarrow> Some (''idn_'' @ h, t))"

section \<open>Operations\<close>

definition ids_of :: "account_store \<Rightarrow> string \<Rightarrow> string list" where
  "ids_of s u = (case fmlookup (as_byUser s) u of None \<Rightarrow> [] | Some ids \<Rightarrow> ids)"

definition indexIdentity :: "string \<Rightarrow> string \<Rightarrow> account_store \<Rightarrow> account_store" where
  "indexIdentity u i s = s\<lparr>as_byUser := fmupd u (ids_of s u @ [i]) (as_byUser s)\<rparr>"

definition unindexIdentity :: "string \<Rightarrow> string \<Rightarrow> account_store \<Rightarrow> account_store" where
  "unindexIdentity u i s =
     (let ids = remove1 i (ids_of s u) in
      if ids = [] then s\<lparr>as_byUser := fmdrop u (as_byUser s)\<rparr>
      else s\<lparr>as_byUser := fmupd u ids (as_byUser s)\<rparr>)"

definition identitiesOf :: "account_store \<Rightarrow> string \<Rightarrow> account_identity list" where
  "identitiesOf s u =
     sort_key ci_linked (sort_key ci_id (List.map_filter (fmlookup (as_identities s)) (ids_of s u)))"

definition FindByIdentity :: "string \<Rightarrow> string \<Rightarrow> account_store \<Rightarrow> account_error + string" where
  "FindByIdentity provider subject s =
     (case fmlookup (as_byKey s) (provider, subject) of
        None \<Rightarrow> Inl AccNotFound
      | Some i \<Rightarrow> Inr (ci_user (identity_at s i)))"

text \<open>\<^verbatim>\<open>Identity{...}\<close> as both creating operations build it.\<close>

definition new_identity :: "string \<Rightarrow> string \<Rightarrow> idp_identity \<Rightarrow> time \<Rightarrow> time \<Rightarrow> account_identity" where
  "new_identity i u inp linked login =
     \<lparr>ci_id = i, ci_user = u, ci_provider = ii_provider inp, ci_subject = ii_subject inp,
      ci_name = ii_name inp, ci_email = ii_email inp, ci_avatar = ii_avatar inp,
      ci_linked = linked, ci_last_login = login\<rparr>"

definition store_identity :: "account_identity \<Rightarrow> account_store \<Rightarrow> account_store" where
  "store_identity ident s =
     indexIdentity (ci_user ident) (ci_id ident)
       (s\<lparr>as_identities := fmupd (ci_id ident) ident (as_identities s),
          as_byKey := fmupd (identity_key ident) (ci_id ident) (as_byKey s)\<rparr>)"

definition CreateWithIdentity ::
  "time \<Rightarrow> idp_identity \<Rightarrow> account_store \<times> tape
   \<Rightarrow> (account_error + user \<times> account_identity) \<times> account_store \<times> tape" where
  "CreateWithIdentity now inp = (\<lambda>(s, t).
     (case ii_validate inp of
        Some e \<Rightarrow> (Inl e, s, t)
      | None \<Rightarrow>
          if fmlookup (as_byKey s) (ii_provider inp, ii_subject inp) \<noteq> None then (Inl ErrIdentityTaken, s, t)
          else (case NewUserID t of
              None \<Rightarrow> (Inl AccPanic, s, t)
            | Some (u, t) \<Rightarrow> (case NewIdentityID t of
                None \<Rightarrow> (Inl AccPanic, s, t)
              | Some (i, t) \<Rightarrow>
                  (let ident = new_identity i u inp now now;
                       usr = \<lparr>us_id = u, us_primary = i, us_created = now\<rparr>
                   in (Inr (usr, ident),
                       store_identity ident (s\<lparr>as_users := fmupd u usr (as_users s)\<rparr>), t))))))"

definition LinkIdentity ::
  "time \<Rightarrow> string \<Rightarrow> idp_identity \<Rightarrow> account_store \<times> tape
   \<Rightarrow> (account_error + account_identity) \<times> account_store \<times> tape" where
  "LinkIdentity now u inp = (\<lambda>(s, t).
     (case ii_validate inp of
        Some e \<Rightarrow> (Inl e, s, t)
      | None \<Rightarrow>
          if fmlookup (as_users s) u = None then (Inl AccNotFound, s, t)
          else (case fmlookup (as_byKey s) (ii_provider inp, ii_subject inp) of
              Some i \<Rightarrow>
                if ci_user (identity_at s i) = u then (Inr (identity_at s i), s, t)
                else (Inl ErrIdentityTaken, s, t)
            | None \<Rightarrow> (case NewIdentityID t of
                None \<Rightarrow> (Inl AccPanic, s, t)
              | Some (i, t) \<Rightarrow>
                  (let ident = new_identity i u inp now 0
                   in (Inr ident, store_identity ident s, t))))))"

definition UnlinkIdentity :: "string \<Rightarrow> string \<Rightarrow> account_store \<Rightarrow> (account_error + unit) \<times> account_store" where
  "UnlinkIdentity u i s =
     (case fmlookup (as_identities s) i of
        None \<Rightarrow> (Inl AccNotFound, s)
      | Some ident \<Rightarrow>
          if ci_user ident \<noteq> u then (Inl AccNotFound, s)
          else (let remaining = identitiesOf s u in
            if length remaining \<le> 1 then (Inl ErrLastIdentity, s)
            else (let s = s\<lparr>as_identities := fmdrop i (as_identities s),
                            as_byKey := fmdrop (identity_key ident) (as_byKey s)\<rparr>;
                      s = unindexIdentity u i s;
                      usr = user_at s u
                  in (Inr (),
                      if us_primary usr = i
                      then s\<lparr>as_users := fmupd u
                              (case filter (\<lambda>r. ci_id r \<noteq> i) remaining of
                                 [] \<Rightarrow> usr | r # _ \<Rightarrow> usr\<lparr>us_primary := ci_id r\<rparr>) (as_users s)\<rparr>
                      else s))))"

definition Identities :: "string \<Rightarrow> account_store \<Rightarrow> account_error + account_identity list" where
  "Identities u s = (if fmlookup (as_users s) u = None then Inl AccNotFound else Inr (identitiesOf s u))"

definition GetUser :: "string \<Rightarrow> account_store \<Rightarrow> account_error + user" where
  "GetUser u s = (case fmlookup (as_users s) u of None \<Rightarrow> Inl AccNotFound | Some usr \<Rightarrow> Inr usr)"

definition TouchLogin ::
  "time \<Rightarrow> string \<Rightarrow> string \<Rightarrow> account_store \<Rightarrow> (account_error + unit) \<times> account_store" where
  "TouchLogin now provider subject s =
     (case fmlookup (as_byKey s) (provider, subject) of
        None \<Rightarrow> (Inl AccNotFound, s)
      | Some i \<Rightarrow>
          (Inr (), s\<lparr>as_identities := fmupd i ((identity_at s i)\<lparr>ci_last_login := now\<rparr>) (as_identities s)\<rparr>))"

definition delete_identity :: "string \<Rightarrow> account_store \<Rightarrow> account_store" where
  "delete_identity i s =
     (case fmlookup (as_identities s) i of
        None \<Rightarrow> s
      | Some ident \<Rightarrow> s\<lparr>as_identities := fmdrop i (as_identities s),
                        as_byKey := fmdrop (identity_key ident) (as_byKey s)\<rparr>)"

definition DeleteUser :: "string \<Rightarrow> account_store \<Rightarrow> account_store" where
  "DeleteUser u s =
     (let s' = fold delete_identity (ids_of s u) (s\<lparr>as_users := fmdrop u (as_users s)\<rparr>)
      in s'\<lparr>as_byUser := fmdrop u (as_byUser s')\<rparr>)"

section \<open>The invariant\<close>

text \<open>The identity table and the lookup by provider and subject are inverse to each other.\<close>

definition acc_maps :: "account_store \<Rightarrow> bool" where
  "acc_maps s \<longleftrightarrow>
     (\<forall>i ident. fmlookup (as_identities s) i = Some ident \<longrightarrow>
        ci_id ident = i \<and> fmlookup (as_byKey s) (identity_key ident) = Some i)
     \<and> (\<forall>k i. fmlookup (as_byKey s) k = Some i \<longrightarrow>
          (\<exists>ident. fmlookup (as_identities s) i = Some ident \<and> identity_key ident = k))"

text \<open>The per-user index lists each identity under its owner once, and has no empty entry.\<close>

definition acc_index :: "account_store \<Rightarrow> bool" where
  "acc_index s \<longleftrightarrow>
     (\<forall>u. fmlookup (as_byUser s) u \<noteq> Some [] \<and> distinct (ids_of s u)
        \<and> set (ids_of s u) = {i. \<exists>ident. fmlookup (as_identities s) i = Some ident \<and> ci_user ident = u})"

text \<open>Exactly the accounts that exist have identities, and the primary is one of them.\<close>

definition acc_owners :: "account_store \<Rightarrow> bool" where
  "acc_owners s \<longleftrightarrow>
     (\<forall>u. ids_of s u \<noteq> [] \<longleftrightarrow> fmlookup (as_users s) u \<noteq> None)
     \<and> (\<forall>u usr. fmlookup (as_users s) u = Some usr \<longrightarrow> us_id usr = u \<and> us_primary usr \<in> set (ids_of s u))"

definition acc_ok :: "account_store \<Rightarrow> bool" where
  "acc_ok s \<longleftrightarrow> acc_maps s \<and> acc_index s \<and> acc_owners s"

lemmas acc_defs = acc_maps_def acc_index_def acc_owners_def

lemma ids_of_upd [simp]:
  "ids_of (s\<lparr>as_users := us\<rparr>) u = ids_of s u"
  "ids_of (s\<lparr>as_identities := is\<rparr>) u = ids_of s u"
  "ids_of (s\<lparr>as_byKey := ks\<rparr>) u = ids_of s u"
  by (simp_all add: ids_of_def)

lemma ids_of_index [simp]:
  "ids_of (indexIdentity u i s) v = (if v = u then ids_of s u @ [i] else ids_of s v)"
  by (simp add: indexIdentity_def ids_of_def)

lemma ids_of_unindex [simp]:
  "ids_of (unindexIdentity u i s) v = (if v = u then remove1 i (ids_of s u) else ids_of s v)"
  by (simp add: unindexIdentity_def ids_of_def Let_def)

lemma unindex_fields [simp]:
  "as_users (unindexIdentity u i s) = as_users s"
  "as_identities (unindexIdentity u i s) = as_identities s"
  "as_byKey (unindexIdentity u i s) = as_byKey s"
  by (simp_all add: unindexIdentity_def Let_def)

lemma index_fields [simp]:
  "as_users (indexIdentity u i s) = as_users s"
  "as_identities (indexIdentity u i s) = as_identities s"
  "as_byKey (indexIdentity u i s) = as_byKey s"
  by (simp_all add: indexIdentity_def)

lemma store_fields [simp]:
  "as_users (store_identity ident s) = as_users s"
  "as_identities (store_identity ident s) = fmupd (ci_id ident) ident (as_identities s)"
  "as_byKey (store_identity ident s) = fmupd (identity_key ident) (ci_id ident) (as_byKey s)"
  "ids_of (store_identity ident s) v =
     (if v = ci_user ident then ids_of s v @ [ci_id ident] else ids_of s v)"
  by (simp_all add: store_identity_def)

lemma identities_members:
  assumes "acc_index s"
  shows "set (identitiesOf s u) = {ident. \<exists>i. fmlookup (as_identities s) i = Some ident \<and> ci_user ident = u}"
proof -
  have "set (identitiesOf s u) = {ident. \<exists>i \<in> set (ids_of s u). fmlookup (as_identities s) i = Some ident}"
    by (simp add: identitiesOf_def set_map_filter)
  with assms show ?thesis by (auto simp: acc_index_def)
qed

lemma length_identitiesOf:
  assumes "acc_index s"
  shows "length (identitiesOf s u) = length (ids_of s u)"
proof -
  have "\<forall>i \<in> set (ids_of s u). fmlookup (as_identities s) i \<noteq> None"
    using assms by (auto simp: acc_index_def)
  then show ?thesis by (simp add: identitiesOf_def List.map_filter_def)
qed

section \<open>Every operation keeps it\<close>

lemma acc_ok_new: "acc_ok NewAccountStore"
  by (simp add: acc_ok_def acc_defs NewAccountStore_def ids_of_def)

lemma store_maps:
  assumes ok: "acc_maps s" and new: "fmlookup (as_identities s) (ci_id ident) = None"
    and key: "fmlookup (as_byKey s) (identity_key ident) = None"
  shows "acc_maps (store_identity ident s)"
  unfolding acc_maps_def
proof (intro conjI allI impI)
  fix i x
  assume "fmlookup (as_identities (store_identity ident s)) i = Some x"
  then have "i = ci_id ident \<and> x = ident \<or> i \<noteq> ci_id ident \<and> fmlookup (as_identities s) i = Some x"
    by (simp split: if_splits)
  then show "ci_id x = i" "fmlookup (as_byKey (store_identity ident s)) (identity_key x) = Some i"
    using ok key by (auto simp: acc_maps_def)
next
  fix k i
  assume "fmlookup (as_byKey (store_identity ident s)) k = Some i"
  then have "k = identity_key ident \<and> i = ci_id ident \<or> fmlookup (as_byKey s) k = Some i"
    by (simp split: if_splits)
  then show "\<exists>x. fmlookup (as_identities (store_identity ident s)) i = Some x \<and> identity_key x = k"
    using ok new unfolding acc_maps_def by (metis fmupd_lookup option.distinct(1) store_fields(2))
qed

lemma store_index:
  assumes "acc_index s" and "fmlookup (as_identities s) (ci_id ident) = None"
  shows "acc_index (store_identity ident s)"
proof -
  have "fmlookup (as_byUser (store_identity ident s)) u \<noteq> Some []" for u
    using assms(1) by (auto simp: store_identity_def indexIdentity_def acc_index_def)
  moreover have "ci_id ident \<notin> set (ids_of s (ci_user ident))"
    using assms by (simp add: acc_index_def)
  ultimately show ?thesis using assms unfolding acc_index_def by auto
qed

lemma drop_maps:
  assumes ok: "acc_maps s" and i: "fmlookup (as_identities s) i = Some ident"
  shows "acc_maps (s\<lparr>as_identities := fmdrop i (as_identities s),
                     as_byKey := fmdrop (identity_key ident) (as_byKey s)\<rparr>)"
  unfolding acc_maps_def
proof (intro conjI allI impI)
  fix j x
  assume "fmlookup (as_identities (s\<lparr>as_identities := fmdrop i (as_identities s),
                     as_byKey := fmdrop (identity_key ident) (as_byKey s)\<rparr>)) j = Some x"
  then have j: "j \<noteq> i" "fmlookup (as_identities s) j = Some x" by (simp_all split: if_splits)
  with ok i have "identity_key x \<noteq> identity_key ident" unfolding acc_maps_def by (metis option.inject)
  with ok j show "ci_id x = j" "fmlookup (as_byKey (s\<lparr>as_identities := fmdrop i (as_identities s),
                     as_byKey := fmdrop (identity_key ident) (as_byKey s)\<rparr>)) (identity_key x) = Some j"
    by (auto simp: acc_maps_def)
next
  fix k j
  assume "fmlookup (as_byKey (s\<lparr>as_identities := fmdrop i (as_identities s),
                     as_byKey := fmdrop (identity_key ident) (as_byKey s)\<rparr>)) k = Some j"
  then have k: "k \<noteq> identity_key ident" "fmlookup (as_byKey s) k = Some j" by (simp_all split: if_splits)
  with ok obtain x where x: "fmlookup (as_identities s) j = Some x" "identity_key x = k"
    unfolding acc_maps_def by blast
  with i k have "j \<noteq> i" by auto
  with x show "\<exists>x. fmlookup (as_identities (s\<lparr>as_identities := fmdrop i (as_identities s),
                     as_byKey := fmdrop (identity_key ident) (as_byKey s)\<rparr>)) j = Some x \<and> identity_key x = k"
    by simp
qed

lemma unindex_index:
  assumes "acc_index s" and "fmlookup (as_identities s) i = Some ident" and "ci_user ident = u"
  shows "acc_index (unindexIdentity u i
           (s\<lparr>as_identities := fmdrop i (as_identities s), as_byKey := ks\<rparr>))"
proof -
  have "fmlookup (as_byUser (unindexIdentity u i
           (s\<lparr>as_identities := fmdrop i (as_identities s), as_byKey := ks\<rparr>))) v \<noteq> Some []" for v
    using assms(1) by (auto simp: unindexIdentity_def acc_index_def Let_def)
  then show ?thesis using assms unfolding acc_index_def by (auto simp: set_remove1_eq)
qed

lemma create_ok:
  assumes ok: "acc_ok s" and c: "CreateWithIdentity now inp (s, t) = (Inr (usr, ident), s', t')"
    and fresh: "fmlookup (as_users s) (us_id usr) = None" "fmlookup (as_identities s) (ci_id ident) = None"
  shows "acc_ok s'"
proof -
  obtain u i where usr: "usr = \<lparr>us_id = u, us_primary = i, us_created = now\<rparr>"
    and ident: "ident = new_identity i u inp now now"
    and key: "fmlookup (as_byKey s) (identity_key ident) = None"
    and s': "s' = store_identity ident (s\<lparr>as_users := fmupd u usr (as_users s)\<rparr>)"
    using c by (auto simp: CreateWithIdentity_def Let_def new_identity_def identity_key_def
        split: option.split_asm if_splits prod.split_asm)
  let ?s = "s\<lparr>as_users := fmupd u usr (as_users s)\<rparr>"
  have "acc_maps ?s" "acc_index ?s" using ok by (simp_all add: acc_ok_def acc_maps_def acc_index_def)
  then have "acc_maps s'" "acc_index s'"
    using fresh key by (simp_all add: s' store_maps store_index)
  moreover have "acc_owners s'"
    using ok fresh by (auto simp: acc_ok_def acc_owners_def s' usr ident new_identity_def)
  ultimately show ?thesis by (simp add: acc_ok_def)
qed

lemma link_result:
  assumes "LinkIdentity now u inp (s, t) = (Inr ident, s', t')"
  shows "(\<exists>i. fmlookup (as_byKey s) (ii_provider inp, ii_subject inp) = Some i \<and> ident = identity_at s i
            \<and> ci_user ident = u \<and> s' = s)
         \<or> (fmlookup (as_byKey s) (identity_key ident) = None \<and> fmlookup (as_users s) u \<noteq> None
            \<and> identity_key ident = (ii_provider inp, ii_subject inp) \<and> ci_user ident = u
            \<and> s' = store_identity ident s)"
  using assms by (auto simp: LinkIdentity_def Let_def new_identity_def identity_key_def
        split: option.split_asm if_splits prod.split_asm)

lemma link_ok:
  assumes ok: "acc_ok s" and l: "LinkIdentity now u inp (s, t) = (Inr ident, s', t')"
    and fresh: "fmlookup (as_identities s) (ci_id ident) = None \<or> s' = s"
  shows "acc_ok s'"
proof (cases "s' = s")
  case False
  with link_result [OF l] have key: "fmlookup (as_byKey s) (identity_key ident) = None"
    and user: "fmlookup (as_users s) u \<noteq> None" "ci_user ident = u" and s': "s' = store_identity ident s"
    by auto
  have "acc_maps s'" "acc_index s'"
    using ok key fresh False by (simp_all add: s' acc_ok_def store_maps store_index)
  moreover have "acc_owners s'" using ok user by (auto simp: acc_ok_def acc_owners_def s')
  ultimately show ?thesis by (simp add: acc_ok_def)
qed (use ok in simp)

lemma touch_ok:
  assumes "acc_ok s"
  shows "acc_ok (snd (TouchLogin now p k s))"
proof (cases "fmlookup (as_byKey s) (p, k)")
  case (Some i)
  with assms obtain ident where i: "fmlookup (as_identities s) i = Some ident"
    unfolding acc_ok_def acc_maps_def by blast
  have "acc_maps (snd (TouchLogin now p k s))"
  proof -
    have "identity_key (ident\<lparr>ci_last_login := now\<rparr>) = identity_key ident" by (simp add: identity_key_def)
    with assms i show ?thesis
      unfolding acc_ok_def acc_maps_def by (simp add: TouchLogin_def Some identity_at_def, metis option.inject)
  qed
  moreover have "acc_index (snd (TouchLogin now p k s))"
    using assms i by (auto simp: acc_ok_def acc_index_def TouchLogin_def Some identity_at_def)
  moreover have "acc_owners (snd (TouchLogin now p k s))"
    using assms by (simp add: acc_ok_def acc_owners_def TouchLogin_def Some)
  ultimately show ?thesis by (simp add: acc_ok_def)
qed (use assms in \<open>simp add: TouchLogin_def\<close>)

lemma acc_maps_unindex [simp]: "acc_maps (unindexIdentity u i s) = acc_maps s"
  by (simp add: acc_maps_def)

lemma acc_maps_index_users [simp]:
  "acc_maps (s\<lparr>as_users := us\<rparr>) = acc_maps s" "acc_index (s\<lparr>as_users := us\<rparr>) = acc_index s"
  "acc_maps (s\<lparr>as_byUser := bu\<rparr>) = acc_maps s"
  by (simp_all add: acc_maps_def acc_index_def)

lemma next_primary:
  assumes ok: "acc_ok s" and two: "1 < length (ids_of s u)"
  obtains r rs where "filter (\<lambda>r. ci_id r \<noteq> i) (identitiesOf s u) = r # rs"
    and "ci_id r \<in> set (ids_of s u)" and "ci_id r \<noteq> i"
proof -
  have d: "distinct (ids_of s u)" using ok by (simp add: acc_ok_def acc_index_def)
  have "\<exists>j \<in> set (ids_of s u). j \<noteq> i"
  proof (rule ccontr)
    assume "\<not> ?thesis"
    then have "set (ids_of s u) \<subseteq> {i}" by auto
    then have "card (set (ids_of s u)) \<le> 1" using card_mono [of "{i}"] by simp
    with d two show False by (simp add: distinct_card)
  qed
  moreover have ids: "ci_id ` set (identitiesOf s u) = set (ids_of s u)"
    using ok by (auto simp: acc_ok_def identities_members acc_index_def acc_maps_def image_def)
  ultimately have "\<exists>r \<in> set (identitiesOf s u). ci_id r \<noteq> i" by (metis imageE)
  then have "filter (\<lambda>r. ci_id r \<noteq> i) (identitiesOf s u) \<noteq> []" by (simp add: filter_empty_conv)
  then obtain r rs where f: "filter (\<lambda>r. ci_id r \<noteq> i) (identitiesOf s u) = r # rs"
    by (meson neq_Nil_conv)
  then have "r \<in> set (filter (\<lambda>r. ci_id r \<noteq> i) (identitiesOf s u))" by simp
  then have "ci_id r \<in> set (ids_of s u)" "ci_id r \<noteq> i" using ids by auto
  with f that show ?thesis by blast
qed

abbreviation detached :: "string \<Rightarrow> string \<Rightarrow> account_identity \<Rightarrow> account_store \<Rightarrow> account_store" where
  "detached u i ident s \<equiv>
     unindexIdentity u i (s\<lparr>as_identities := fmdrop i (as_identities s),
                            as_byKey := fmdrop (identity_key ident) (as_byKey s)\<rparr>)"

lemma keep_users: "as_users s = us \<Longrightarrow> s\<lparr>as_users := us\<rparr> = s"
  by (cases s) simp

lemma keep_primary: "us_primary usr = p \<Longrightarrow> usr\<lparr>us_primary := p\<rparr> = usr"
  by (cases usr) simp

lemma keep_entry: "fmlookup m k = Some v \<Longrightarrow> fmupd k v m = m"
  by (intro fmap_ext) auto

lemma unlink_eq:
  assumes "fmlookup (as_identities s) i = Some ident" and "ci_user ident = u"
    and "1 < length (identitiesOf s u)" and usr: "fmlookup (as_users s) u = Some usr"
    and "filter (\<lambda>r. ci_id r \<noteq> i) (identitiesOf s u) = r # rs"
  shows "UnlinkIdentity u i s =
     (Inr (), (detached u i ident s)\<lparr>as_users := fmupd u
        (usr\<lparr>us_primary := if us_primary usr = i then ci_id r else us_primary usr\<rparr>) (as_users s)\<rparr>)"
proof (cases "us_primary usr = i")
  case False
  have "fmupd u (usr\<lparr>us_primary := us_primary usr\<rparr>) (as_users s) = as_users s"
    using keep_entry [OF usr] keep_primary by simp
  with assms False show ?thesis
    by (simp add: UnlinkIdentity_def Let_def user_at_def keep_users)
qed (use assms in \<open>simp add: UnlinkIdentity_def Let_def user_at_def\<close>)

lemma unlink_cases:
  assumes ok: "acc_ok s"
  obtains "snd (UnlinkIdentity u i s) = s" and "isl (fst (UnlinkIdentity u i s))"
  | ident usr p where "fmlookup (as_identities s) i = Some ident" and "ci_user ident = u"
    and "fmlookup (as_users s) u = Some usr" and "p \<in> set (ids_of s u)" and "p \<noteq> i"
    and "UnlinkIdentity u i s =
      (Inr (), (detached u i ident s)\<lparr>as_users := fmupd u (usr\<lparr>us_primary := p\<rparr>) (as_users s)\<rparr>)"
proof (cases "\<exists>ident. fmlookup (as_identities s) i = Some ident \<and> ci_user ident = u
    \<and> 1 < length (ids_of s u)")
  case True
  then obtain ident where i: "fmlookup (as_identities s) i = Some ident" "ci_user ident = u"
    and two: "1 < length (ids_of s u)" by blast
  then have "ids_of s u \<noteq> []" by auto
  then obtain usr where usr: "fmlookup (as_users s) u = Some usr"
    using ok unfolding acc_ok_def acc_owners_def by blast
  have prim: "us_primary usr \<in> set (ids_of s u)"
    using ok usr by (simp add: acc_ok_def acc_owners_def)
  obtain r rs where f: "filter (\<lambda>r. ci_id r \<noteq> i) (identitiesOf s u) = r # rs"
    and r: "ci_id r \<in> set (ids_of s u)" "ci_id r \<noteq> i"
    by (rule next_primary [OF ok two])
  have len: "1 < length (identitiesOf s u)" using ok two by (simp add: acc_ok_def length_identitiesOf)
  show ?thesis
    by (rule that(2) [OF i usr _ _ unlink_eq [OF i len usr f]]) (use prim r in \<open>simp_all split: if_splits\<close>)
next
  case False
  have "length (identitiesOf s u) = length (ids_of s u)" using ok by (simp add: acc_ok_def length_identitiesOf)
  with False have "UnlinkIdentity u i s \<in> {(Inl AccNotFound, s), (Inl ErrLastIdentity, s)}"
    by (cases "fmlookup (as_identities s) i") (auto simp: UnlinkIdentity_def)
  then show ?thesis using that(1) by auto
qed

lemma unlink_ok:
  assumes ok: "acc_ok s"
  shows "acc_ok (snd (UnlinkIdentity u i s))"
proof (rule unlink_cases [OF ok, of u i])
  fix ident usr p
  assume i: "fmlookup (as_identities s) i = Some ident" "ci_user ident = u"
    and usr: "fmlookup (as_users s) u = Some usr" and p: "p \<in> set (ids_of s u)" "p \<noteq> i"
    and r: "UnlinkIdentity u i s =
      (Inr (), (detached u i ident s)\<lparr>as_users := fmupd u (usr\<lparr>us_primary := p\<rparr>) (as_users s)\<rparr>)"
  have "acc_maps (detached u i ident s)"
    using ok i unfolding acc_maps_unindex by (intro drop_maps) (simp_all add: acc_ok_def)
  moreover have "acc_index (detached u i ident s)"
    using ok i by (intro unindex_index) (simp_all add: acc_ok_def)
  moreover have "acc_owners ((detached u i ident s)\<lparr>as_users := fmupd u (usr\<lparr>us_primary := p\<rparr>) (as_users s)\<rparr>)"
  proof -
    have "p \<in> set (remove1 i (ids_of s u))" using p by (simp add: in_set_remove1)
    with ok usr show ?thesis unfolding acc_ok_def acc_owners_def by auto
  qed
  ultimately show ?thesis by (simp add: r acc_ok_def)
qed (use ok in simp)

lemma fold_delete:
  assumes "acc_maps s"
  shows "acc_maps (fold delete_identity ids s)
     \<and> as_users (fold delete_identity ids s) = as_users s
     \<and> as_byUser (fold delete_identity ids s) = as_byUser s
     \<and> (\<forall>j. fmlookup (as_identities (fold delete_identity ids s)) j =
           (if j \<in> set ids then None else fmlookup (as_identities s) j))"
  using assms
proof (induction ids arbitrary: s)
  case (Cons i ids)
  have "acc_maps (delete_identity i s)"
    using Cons.prems drop_maps by (auto simp: delete_identity_def split: option.split)
  from Cons.IH [OF this] show ?case by (auto simp: delete_identity_def split: option.splits)
qed simp

lemma byKey_by_identities:
  assumes "acc_maps s"
  shows "fmlookup (as_byKey s) k = Some i \<longleftrightarrow>
           (\<exists>ident. fmlookup (as_identities s) i = Some ident \<and> identity_key ident = k)"
  using assms unfolding acc_maps_def by blast

lemma delete_user_fields:
  assumes "acc_ok s"
  shows "fmlookup (as_users (DeleteUser u s)) v = (if v = u then None else fmlookup (as_users s) v)"
    and "ids_of (DeleteUser u s) v = (if v = u then [] else ids_of s v)"
    and "fmlookup (as_identities (DeleteUser u s)) i =
           (case fmlookup (as_identities s) i of
              Some ident \<Rightarrow> if ci_user ident = u then None else Some ident | None \<Rightarrow> None)"
    and "acc_maps (DeleteUser u s)"
proof -
  let ?s = "s\<lparr>as_users := fmdrop u (as_users s)\<rparr>"
  have "acc_maps ?s" using assms by (simp add: acc_ok_def)
  note f = fold_delete [OF this, of "ids_of s u"]
  show "fmlookup (as_users (DeleteUser u s)) v = (if v = u then None else fmlookup (as_users s) v)"
    "ids_of (DeleteUser u s) v = (if v = u then [] else ids_of s v)"
    using f by (simp_all add: DeleteUser_def Let_def ids_of_def)
  have "set (ids_of s u) = {i. \<exists>ident. fmlookup (as_identities s) i = Some ident \<and> ci_user ident = u}"
    using assms by (simp add: acc_ok_def acc_index_def)
  then show "fmlookup (as_identities (DeleteUser u s)) i =
           (case fmlookup (as_identities s) i of
              Some ident \<Rightarrow> if ci_user ident = u then None else Some ident | None \<Rightarrow> None)"
    using f by (auto simp: DeleteUser_def Let_def split: option.split)
  show "acc_maps (DeleteUser u s)" using f by (simp add: DeleteUser_def Let_def)
qed

lemma delete_user_ok:
  assumes "acc_ok s"
  shows "acc_ok (DeleteUser u s)"
proof -
  note f = delete_user_fields [OF assms, of u]
  have "fmlookup (as_byUser (DeleteUser u s)) v \<noteq> Some []" for v
  proof (cases "v = u")
    case True
    then show ?thesis by (simp add: DeleteUser_def Let_def)
  next
    case False
    have "acc_maps (s\<lparr>as_users := fmdrop u (as_users s)\<rparr>)" using assms by (simp add: acc_ok_def)
    from fold_delete [OF this] False assms show ?thesis
      by (simp add: DeleteUser_def Let_def acc_ok_def acc_index_def)
  qed
  then have "acc_index (DeleteUser u s)"
    using assms unfolding acc_ok_def acc_index_def by (auto simp: f split: option.split_asm if_splits)
  moreover have "acc_owners (DeleteUser u s)"
    using assms unfolding acc_ok_def acc_owners_def by (auto simp: f)
  ultimately show ?thesis by (simp add: acc_ok_def f)
qed

section \<open>Reachable stores\<close>

text \<open>
  The transitions of the store. A refused create or link leaves it as it is, so only the
  successful ones appear; the identifiers they draw are assumed not to be in use.
\<close>

inductive acc_step :: "account_store \<Rightarrow> account_store \<Rightarrow> bool" where
  create: "CreateWithIdentity now inp (s, t) = (Inr (usr, ident), s', t') \<Longrightarrow>
    fmlookup (as_users s) (us_id usr) = None \<Longrightarrow> fmlookup (as_identities s) (ci_id ident) = None \<Longrightarrow>
    acc_step s s'"
| link: "LinkIdentity now u inp (s, t) = (Inr ident, s', t') \<Longrightarrow>
    fmlookup (as_identities s) (ci_id ident) = None \<or> s' = s \<Longrightarrow> acc_step s s'"
| unlink: "acc_step s (snd (UnlinkIdentity u i s))"
| touch: "acc_step s (snd (TouchLogin now p k s))"
| delete: "acc_step s (DeleteUser u s)"

inductive acc_reach :: "account_store \<Rightarrow> bool" where
  new: "acc_reach NewAccountStore"
| step: "acc_reach s \<Longrightarrow> acc_step s s' \<Longrightarrow> acc_reach s'"

lemma acc_step_ok: "acc_step s s' \<Longrightarrow> acc_ok s \<Longrightarrow> acc_ok s'"
  by (induction rule: acc_step.induct) (auto intro: create_ok link_ok unlink_ok touch_ok delete_user_ok)

lemma acc_reach_ok: "acc_reach s \<Longrightarrow> acc_ok s"
  by (induction rule: acc_reach.induct) (auto intro: acc_ok_new acc_step_ok)

lemma find_owner:
  assumes "acc_ok s"
  shows "FindByIdentity p k s = Inr u \<longleftrightarrow>
    (\<exists>i ident. fmlookup (as_identities s) i = Some ident \<and> identity_key ident = (p, k) \<and> ci_user ident = u)"
proof -
  have maps: "acc_maps s" using assms by (simp add: acc_ok_def)
  have "FindByIdentity p k s = Inr u \<longleftrightarrow>
      (\<exists>i. fmlookup (as_byKey s) (p, k) = Some i \<and> ci_user (identity_at s i) = u)"
    by (simp add: FindByIdentity_def split: option.split)
  also have "\<dots> \<longleftrightarrow> (\<exists>i ident. fmlookup (as_identities s) i = Some ident
      \<and> identity_key ident = (p, k) \<and> ci_user ident = u)"
    unfolding byKey_by_identities [OF maps] by (force simp: identity_at_def)
  finally show ?thesis .
qed

text \<open>An identity found after a step was there before with the same owner, or nobody had it.\<close>

lemma acc_step_back:
  assumes "acc_step s s'" and "acc_ok s" and "fmlookup (as_identities s') i = Some ident'"
  shows "(\<exists>ident. fmlookup (as_identities s) i = Some ident \<and> identity_key ident = identity_key ident'
            \<and> ci_user ident = ci_user ident')
    \<or> fmlookup (as_byKey s) (identity_key ident') = None"
  using assms
proof (induction rule: acc_step.induct)
  case (create now inp s t usr idn s' t')
  then have "s' = store_identity idn (s\<lparr>as_users := fmupd (us_id usr) usr (as_users s)\<rparr>)"
    "fmlookup (as_byKey s) (identity_key idn) = None"
    by (auto simp: CreateWithIdentity_def Let_def new_identity_def identity_key_def
        split: option.split_asm if_splits prod.split_asm)
  with create show ?case by (auto split: if_splits)
next
  case (link now u inp s t idn s' t')
  with link_result [OF link(1)] show ?case by (auto split: if_splits)
next
  case (unlink s u j)
  show ?case by (rule unlink_cases [OF unlink(1), of u j]) (use unlink in \<open>auto split: if_splits\<close>)
next
  case (touch s now p k)
  then show ?case
  proof (cases "fmlookup (as_byKey s) (p, k)")
    case (Some j)
    then obtain idn where "fmlookup (as_identities s) j = Some idn"
      using touch(1) unfolding acc_ok_def acc_maps_def by blast
    with touch Some show ?thesis
      by (auto simp: TouchLogin_def identity_at_def identity_key_def split: if_splits)
  qed (simp add: TouchLogin_def)
next
  case (delete s u)
  then show ?case by (auto simp: delete_user_fields split: option.split_asm if_splits)
qed

section \<open>The account invariants\<close>

text \<open>
  C30. Accounts and identities in every reachable store. An unknown account has no identities
  and no sign-in leads to it. A known one has at least one identity, listed once each, its
  primary among them, and a sign-in finds it exactly through the identities it lists.
\<close>

theorem account_invariants:
  assumes "acc_reach s"
  shows "case GetUser u s of
      Inl e \<Rightarrow> e = AccNotFound \<and> Identities u s = Inl AccNotFound \<and> (\<nexists>p k. FindByIdentity p k s = Inr u)
    | Inr usr \<Rightarrow> us_id usr = u
        \<and> (\<exists>ids. Identities u s = Inr ids \<and> ids \<noteq> [] \<and> distinct (map ci_id ids)
              \<and> us_primary usr \<in> ci_id ` set ids
              \<and> (\<forall>p k. FindByIdentity p k s = Inr u \<longleftrightarrow> (p, k) \<in> identity_key ` set ids))"
proof -
  note ok = acc_reach_ok [OF assms]
  have members: "set (identitiesOf s u) =
      {ident. \<exists>i. fmlookup (as_identities s) i = Some ident \<and> ci_user ident = u}"
    using ok identities_members by (auto simp: acc_ok_def)
  have find: "FindByIdentity p k s = Inr u \<longleftrightarrow> (p, k) \<in> identity_key ` set (identitiesOf s u)" for p k
    unfolding find_owner [OF ok] members by force
  have ids: "ci_id ` set (identitiesOf s u) = set (ids_of s u)"
    using ok members unfolding acc_ok_def acc_index_def acc_maps_def by (auto simp: image_def)
  have len: "length (identitiesOf s u) = length (ids_of s u)"
    using ok by (simp add: acc_ok_def length_identitiesOf)
  have d: "distinct (map ci_id (identitiesOf s u))"
  proof (rule card_distinct)
    have "distinct (ids_of s u)" using ok by (simp add: acc_ok_def acc_index_def)
    then show "card (set (map ci_id (identitiesOf s u))) = length (map ci_id (identitiesOf s u))"
      using ids len by (simp add: distinct_card)
  qed
  show ?thesis
  proof (cases "fmlookup (as_users s) u")
    case None
    then have "ids_of s u = []" using ok unfolding acc_ok_def acc_owners_def by blast
    with ids None show ?thesis by (simp add: GetUser_def Identities_def find)
  next
    case (Some usr)
    then have "us_id usr = u" "us_primary usr \<in> set (ids_of s u)"
      using ok unfolding acc_ok_def acc_owners_def by blast+
    with Some d ids find len show ?thesis by (auto simp: GetUser_def Identities_def)
  qed
qed

text \<open>
  C31. An external identity never moves from one account to another. Whatever operation runs,
  the account a sign-in finds afterwards is the one it found before, or none at all.
\<close>

theorem identity_never_moves:
  assumes "acc_reach s" and "acc_step s s'" and u: "FindByIdentity p k s = Inr u"
  shows "FindByIdentity p k s' \<in> {Inr u, Inl AccNotFound}"
proof (cases "FindByIdentity p k s'")
  case (Inr v)
  note ok = acc_reach_ok [OF assms(1)]
  note ok' = acc_step_ok [OF assms(2) ok]
  obtain i ident' where i: "fmlookup (as_identities s') i = Some ident'" "identity_key ident' = (p, k)"
    "ci_user ident' = v"
    using Inr find_owner [OF ok'] by blast
  have "fmlookup (as_byKey s) (p, k) \<noteq> None" using u by (auto simp: FindByIdentity_def split: option.split_asm)
  with acc_step_back [OF assms(2) ok i(1)] i have "FindByIdentity p k s = Inr v"
    unfolding find_owner [OF ok] by auto
  with u Inr show ?thesis by simp
qed (auto simp: FindByIdentity_def split: option.split_asm)

section \<open>A store with two accounts\<close>

definition demo_login :: "string \<Rightarrow> idp_identity" where
  "demo_login subject = \<lparr>ii_provider = ''github'', ii_subject = subject, ii_name = [], ii_email = [], ii_avatar = []\<rparr>"

abbreviation demo_hex :: "char \<Rightarrow> string" where "demo_hex c \<equiv> hex_encode (replicate 16 c)"

abbreviation ann_id :: string where "ann_id \<equiv> ''usr_'' @ demo_hex (CHR ''a'')"
abbreviation bob_id :: string where "bob_id \<equiv> ''usr_'' @ demo_hex (CHR ''c'')"

definition demo_accounts :: account_store where
  "demo_accounts =
     (let (_, s, t) = CreateWithIdentity 100 (demo_login ''ann'')
        (NewAccountStore, replicate 16 (CHR ''a'') @ replicate 16 (CHR ''b'') @
           replicate 16 (CHR ''c'') @ replicate 16 (CHR ''d''));
          (_, s, t) = CreateWithIdentity 200 (demo_login ''bob'') (s, t)
      in s)"

lemma random_hex_take: "length b = n \<Longrightarrow> random_hex n (b @ t) = Some (hex_encode b, t)"
  by (simp add: random_hex_def rand_read_def)

lemma random_hex_all: "length b = n \<Longrightarrow> random_hex n b = Some (hex_encode b, [])"
  by (simp add: random_hex_def rand_read_def)

lemma demo_hex_eq: "demo_hex c = demo_hex d \<longleftrightarrow> c = d"
proof -
  have "replicate 16 c = replicate 16 d \<longleftrightarrow> c = d" by (simp add: replicate_eq_replicate)
  then show ?thesis by (simp add: hex_encode_inj)
qed

abbreviation demo_ann :: account_identity where
  "demo_ann \<equiv> new_identity (''idn_'' @ demo_hex (CHR ''b'')) ann_id (demo_login ''ann'') 100 100"

abbreviation demo_bob :: account_identity where
  "demo_bob \<equiv> new_identity (''idn_'' @ demo_hex (CHR ''d'')) bob_id (demo_login ''bob'') 200 200"

definition demo_first :: account_store where
  "demo_first = store_identity demo_ann
     (NewAccountStore\<lparr>as_users := fmupd ann_id \<lparr>us_id = ann_id, us_primary = ci_id demo_ann, us_created = 100\<rparr>
        (as_users NewAccountStore)\<rparr>)"

lemma demo_create_ann:
  "CreateWithIdentity 100 (demo_login ''ann'')
     (NewAccountStore, replicate 16 (CHR ''a'') @ replicate 16 (CHR ''b'') @ t)
   = (Inr (\<lparr>us_id = ann_id, us_primary = ci_id demo_ann, us_created = 100\<rparr>, demo_ann), demo_first, t)"
  by (simp add: CreateWithIdentity_def NewAccountStore_def demo_login_def ii_validate_def NewUserID_def
      NewIdentityID_def Let_def random_hex_take new_identity_def demo_first_def)

lemma demo_create_bob:
  "CreateWithIdentity 200 (demo_login ''bob'')
     (demo_first, replicate 16 (CHR ''c'') @ replicate 16 (CHR ''d''))
   = (Inr (\<lparr>us_id = bob_id, us_primary = ci_id demo_bob, us_created = 200\<rparr>, demo_bob), demo_accounts, [])"
  by (simp add: demo_accounts_def demo_create_ann)
     (simp add: CreateWithIdentity_def demo_login_def ii_validate_def NewUserID_def
      NewIdentityID_def Let_def random_hex_take random_hex_all new_identity_def demo_first_def identity_key_def
      NewAccountStore_def)

lemma demo_accounts_eq:
  "demo_accounts = store_identity demo_bob
     (demo_first\<lparr>as_users := fmupd bob_id \<lparr>us_id = bob_id, us_primary = ci_id demo_bob, us_created = 200\<rparr>
        (as_users demo_first)\<rparr>)"
  by (simp add: demo_accounts_def demo_create_ann)
     (simp add: CreateWithIdentity_def demo_login_def ii_validate_def NewUserID_def
      NewIdentityID_def Let_def random_hex_take random_hex_all new_identity_def demo_first_def identity_key_def
      NewAccountStore_def)

lemma demo_accounts_reach: "acc_reach demo_accounts"
proof -
  have "acc_step NewAccountStore demo_first"
    by (rule acc_step.create [OF demo_create_ann]) (simp_all add: NewAccountStore_def)
  then have "acc_reach demo_first" by (rule acc_reach.step [OF acc_reach.new])
  moreover have "acc_step demo_first demo_accounts"
    by (rule acc_step.create [OF demo_create_bob])
       (simp_all add: demo_first_def NewAccountStore_def new_identity_def demo_hex_eq)
  ultimately show ?thesis by (rule acc_reach.step)
qed

lemma demo_find:
  "FindByIdentity ''github'' ''ann'' demo_accounts = Inr ann_id"
  "FindByIdentity ''github'' ''bob'' demo_accounts = Inr bob_id"
  by (simp_all add: FindByIdentity_def identity_at_def demo_accounts_eq demo_first_def identity_key_def
      new_identity_def demo_login_def demo_hex_eq)

lemma account_invariants_witness:
  "acc_reach demo_accounts
   \<and> (\<exists>usr ids. GetUser ann_id demo_accounts = Inr usr \<and> Identities ann_id demo_accounts = Inr ids
        \<and> ids \<noteq> [] \<and> (''github'', ''ann'') \<in> identity_key ` set ids)"
proof -
  have "\<exists>usr. GetUser ann_id demo_accounts = Inr usr"
    by (simp add: GetUser_def demo_accounts_eq demo_first_def demo_hex_eq)
  then show ?thesis
    using account_invariants [OF demo_accounts_reach, of ann_id] demo_find(1) demo_accounts_reach by auto
qed

lemma identity_never_moves_witness:
  "acc_step demo_accounts (DeleteUser bob_id demo_accounts)
   \<and> FindByIdentity ''github'' ''ann'' (DeleteUser bob_id demo_accounts) \<in> {Inr ann_id, Inl AccNotFound}"
  using identity_never_moves [OF demo_accounts_reach acc_step.delete demo_find(1)]
  by (simp add: acc_step.delete)

end
