(* ===== verification/Federation_Registry.thy ===== *)
theory Federation_Registry
  imports Account_Store Go_Net Vault_Repo
begin

text \<open>
  The data plane's configuration: \<^verbatim>\<open>internal/federation/federation.go\<close> (sources, their
  validation and the registry), the choice of sources in \<^verbatim>\<open>service.go\<close> (\<open>candidates\<close>,
  \<open>ResourceRequirements\<close>) and the consent prompt of \<^verbatim>\<open>missing.go\<close>.
  \<^verbatim>\<open>url.Parse\<close> is a parameter of what calls it. Error texts carry the fixed part of the message.
  The probe counter \<open>sourcesCopied\<close> is left out.
  Shown: every source a registry holds has passed the name, URL, status and class checks and sits
  under its own key; the vault identity of a binding determines account, game and source; a
  retired source is never chosen and a pinned one never substituted; the prompt names a source
  for exactly the requested scopes no connected source can serve.
\<close>

section \<open>Errors\<close>

datatype fed_error =
    ErrUnknownGame
  | ErrUnknownSource
  | ErrUnknownResource
  | ErrNotBound
  | ErrSourceRetired
  | ErrRawUnsupported
  | ErrRawPathEscapes
  | ErrResponseTooLarge
  | ErrBufferBudget
  | NotBoundError string string
  | SourceError string int
  | BindingCooldownError string string
  | ErrUnknownBind
  | ErrBindUser
  | ErrBindUnavailable
  | ErrBindSuperseded
  | ErrNoRefreshToken
  | ErrRefreshRejected
  | ErrCascadeUnsupported
  | RetrieveError string
  | FVault vault_error
  | FPlain string
  | FWrapped string fed_error
  | FJoin fed_error fed_error

section \<open>Sources\<close>

definition StatusActive :: string where "StatusActive = ''active''"
definition StatusDegraded :: string where "StatusDegraded = ''degraded''"
definition StatusRetired :: string where "StatusRetired = ''retired''"

definition statusRank :: "string \<Rightarrow> nat" where
  "statusRank s = (if s = StatusActive \<or> s = [] then 0 else if s = StatusDegraded then 1 else 2)"

definition tokenClassRevocable :: string where "tokenClassRevocable = ''revocable''"
definition tokenClassLongLived :: string where "tokenClassLongLived = ''long_lived''"

record resource =
  re_name :: string
  re_schema :: string
  re_scope :: string

record source =
  sr_game :: string
  sr_name :: string
  sr_display :: string
  sr_issuer :: string
  sr_class :: string
  sr_resources :: "resource list"
  sr_status :: string
  sr_raw :: string
  sr_client :: string
  sr_secret :: string
  sr_auth :: string
  sr_token :: string
  sr_revoke :: string
  sr_cascade :: string

fun bind_scopes_loop :: "resource list \<Rightarrow> string list \<Rightarrow> string list" where
  "bind_scopes_loop [] out = out"
| "bind_scopes_loop (r # rs) out =
     bind_scopes_loop rs (if re_scope r \<noteq> [] \<and> re_scope r \<notin> set out then out @ [re_scope r] else out)"

definition bindScopes :: "source \<Rightarrow> string list" where
  "bindScopes s = bind_scopes_loop (sr_resources s) [''account.read'']"

definition source_Resource :: "source \<Rightarrow> string \<Rightarrow> resource option" where
  "source_Resource s name = List.find (\<lambda>r. re_name r = name) (sr_resources s)"

section \<open>Validation\<close>

definition trim_right_slash :: "string \<Rightarrow> string" where
  "trim_right_slash s = rev (dropWhile (\<lambda>c. c = CHR ''/'') (rev s))"

definition absolute_http :: "url \<Rightarrow> bool" where
  "absolute_http u \<longleftrightarrow> (u_scheme u = ''http'' \<or> u_scheme u = ''https'') \<and> u_host u \<noteq> []"

definition validateEndpointURL :: "(string \<Rightarrow> url option) \<Rightarrow> string \<Rightarrow> string \<Rightarrow> fed_error option" where
  "validateEndpointURL parse field raw =
     (case parse raw of
        None \<Rightarrow> Some (FPlain (field @ '' is not a URL''))
      | Some u \<Rightarrow> if \<not> absolute_http u then Some (FPlain (field @ '' must be an absolute http(s) URL'')) else None)"

definition validateRawBase :: "(string \<Rightarrow> url option) \<Rightarrow> string \<Rightarrow> fed_error option" where
  "validateRawBase parse raw =
     (case parse raw of
        None \<Rightarrow> Some (FPlain ''raw_base is not a URL'')
      | Some u \<Rightarrow>
          if \<not> absolute_http u then Some (FPlain ''raw_base must be an absolute http(s) URL'')
          else if u_rawquery u \<noteq> [] \<or> u_fragment u \<noteq> [] then
            Some (FPlain ''raw_base must not carry a query or fragment'')
          else None)"

definition maxSourceNameBytes :: nat where "maxSourceNameBytes = 128"

definition source_name_char :: "char \<Rightarrow> bool" where
  "source_name_char c \<longleftrightarrow> is_lower c \<or> is_digit c \<or> c = CHR ''-'' \<or> c = CHR ''_''"

text \<open>
  The loop ranges over runes; a byte above 127 begins one that is refused, so checking bytes
  gives the same answer.
\<close>

definition validateSourceName :: "string \<Rightarrow> string \<Rightarrow> fed_error option" where
  "validateSourceName field v =
     (if length v > maxSourceNameBytes then Some (FPlain (field @ '' is over the 128-byte limit''))
      else if (\<exists>c \<in> set v. \<not> source_name_char c) \<or> (v \<noteq> [] \<and> hd v \<in> {CHR ''-'', CHR ''_''})
      then Some (FPlain (field @ '' must be lowercase letters, digits, '-' or '_' ''))
      else None)"

definition scope_char :: "char \<Rightarrow> bool" where
  "scope_char c \<longleftrightarrow> is_lower c \<or> is_upper c \<or> is_digit c \<or> c \<in> set ''.-_''"

definition validateResourceScope :: "string \<Rightarrow> string \<Rightarrow> fed_error option" where
  "validateResourceScope res scope =
     (if \<exists>c \<in> set scope. \<not> scope_char c
      then Some (FPlain (''resource '' @ res @ '': scope must be letters, digits, '.', '-' or '_' only'')) else None)"

definition validate_resource :: "resource \<Rightarrow> fed_error option" where
  "validate_resource r =
     (case (if re_name r \<noteq> [] then validateSourceName ''resource name'' (re_name r) else None) of
        Some e \<Rightarrow> Some e
      | None \<Rightarrow> validateResourceScope (re_name r) (re_scope r))"

section \<open>The registry\<close>

record fed_registry =
  fr_byGame :: "(string, source list) fmap"
  fr_byKey :: "(string, source) fmap"

definition sourceKey :: "string \<Rightarrow> string \<Rightarrow> string" where
  "sourceKey game name = game @ ''/'' @ name"

definition game_sources :: "fed_registry \<Rightarrow> string \<Rightarrow> source list" where
  "game_sources r game = (case fmlookup (fr_byGame r) game of None \<Rightarrow> [] | Some ss \<Rightarrow> ss)"

text \<open>The endpoints a source ends up with, and the defaults of status and token class.\<close>

definition source_endpoints :: "source \<Rightarrow> source" where
  "source_endpoints s =
     (let issuer = trim_right_slash (sr_issuer s) in
      s\<lparr>sr_auth := (if sr_auth s = [] then issuer @ ''/oauth/authorize'' else sr_auth s),
        sr_token := (if sr_token s = [] then issuer @ ''/oauth/token'' else sr_token s),
        sr_revoke := (if sr_revoke s = [] then issuer @ ''/oauth/revoke'' else sr_revoke s),
        sr_issuer := issuer\<rparr>)"

definition source_status :: "source \<Rightarrow> fed_error + source" where
  "source_status s =
     (if sr_status s = [] then Inr (s\<lparr>sr_status := StatusActive\<rparr>)
      else if sr_status s \<in> {StatusActive, StatusDegraded, StatusRetired} then Inr s
      else Inl (FPlain ''federation: source status must be active, degraded or retired''))"

definition source_class :: "source \<Rightarrow> fed_error + source" where
  "source_class s =
     (if sr_class s = [] then Inr (s\<lparr>sr_class := tokenClassRevocable\<rparr>)
      else if sr_class s \<in> {tokenClassRevocable, tokenClassLongLived} then Inr s
      else Inl (FPlain ''federation: source token_class must be revocable or long_lived''))"

definition register_source :: "(string \<Rightarrow> url option) \<Rightarrow> source \<Rightarrow> fed_registry \<Rightarrow> fed_error + fed_registry" where
  "register_source parse s r =
     (if sr_game s = [] \<or> sr_name s = [] \<or> sr_issuer s = []
      then Inl (FPlain ''federation: source requires game, name and issuer'')
      else (case validateSourceName ''game'' (sr_game s) of
        Some e \<Rightarrow> Inl (FWrapped ''federation: source'' e)
      | None \<Rightarrow> (case validateSourceName ''name'' (sr_name s) of
        Some e \<Rightarrow> Inl (FWrapped ''federation: source'' e)
      | None \<Rightarrow> (case first_error validate_resource (sr_resources s) of
        Some e \<Rightarrow> Inl (FWrapped ''federation: source'' e)
      | None \<Rightarrow>
     (let k = sourceKey (sr_game s) (sr_name s) in
      if fmlookup (fr_byKey r) k \<noteq> None then Inl (FPlain ''federation: duplicate source'')
      else (case validateEndpointURL parse ''issuer'' (sr_issuer s) of
        Some e \<Rightarrow> Inl (FWrapped ''federation: source'' e)
      | None \<Rightarrow>
     (let s = source_endpoints s in
      case first_error (\<lambda>(field, v). if v = [] then None else validateEndpointURL parse field v)
             [(''authorization_endpoint'', sr_auth s), (''token_endpoint'', sr_token s),
              (''revocation_endpoint'', sr_revoke s), (''cascade_revocation_endpoint'', sr_cascade s)] of
        Some e \<Rightarrow> Inl (FWrapped ''federation: source'' e)
      | None \<Rightarrow> (case source_status s of
        Inl e \<Rightarrow> Inl e
      | Inr s \<Rightarrow> (case source_class s of
        Inl e \<Rightarrow> Inl e
      | Inr s \<Rightarrow>
     (let s = s\<lparr>sr_raw := trim_right_slash (sr_raw s)\<rparr> in
      case (if sr_raw s \<noteq> [] then validateRawBase parse (sr_raw s) else None) of
        Some e \<Rightarrow> Inl (FWrapped ''federation: source'' e)
      | None \<Rightarrow>
          Inr \<lparr>fr_byGame = fmupd (sr_game s) (game_sources r (sr_game s) @ [s]) (fr_byGame r),
               fr_byKey = fmupd k s (fr_byKey r)\<rparr>))))))))))"

fun register_sources :: "(string \<Rightarrow> url option) \<Rightarrow> source list \<Rightarrow> fed_registry \<Rightarrow> fed_error + fed_registry" where
  "register_sources parse [] r = Inr r"
| "register_sources parse (s # ss) r =
     (case register_source parse s r of Inl e \<Rightarrow> Inl e | Inr r \<Rightarrow> register_sources parse ss r)"

definition NewSourceRegistry :: "(string \<Rightarrow> url option) \<Rightarrow> source list \<Rightarrow> fed_error + fed_registry" where
  "NewSourceRegistry parse ss = register_sources parse ss \<lparr>fr_byGame = fmempty, fr_byKey = fmempty\<rparr>"

definition source_Get :: "fed_registry \<Rightarrow> string \<Rightarrow> string \<Rightarrow> source option" where
  "source_Get r game name = fmlookup (fr_byKey r) (sourceKey game name)"

definition Sources :: "fed_registry \<Rightarrow> string \<Rightarrow> source list" where
  "Sources r game = sort_key sr_name (game_sources r game)"

definition Games :: "fed_registry \<Rightarrow> string list" where
  "Games r = sorted_list_of_fset (fmdom (fr_byGame r))"

definition AllSources :: "fed_registry \<Rightarrow> source list" where
  "AllSources r = concat (map (Sources r) (Games r))"

section \<open>Choosing sources\<close>

definition candidates :: "fed_registry \<Rightarrow> string \<Rightarrow> string \<Rightarrow> string \<Rightarrow> fed_error + source list" where
  "candidates r game res pinned =
     (let allsrc = Sources r game in
      if allsrc = [] then Inl ErrUnknownGame
      else if pinned \<noteq> [] then
        (case source_Get r game pinned of
           None \<Rightarrow> Inl ErrUnknownSource
         | Some src \<Rightarrow>
             if sr_status src = StatusRetired then Inl ErrSourceRetired
             else if source_Resource src res = None then Inl ErrUnknownResource
             else Inr [src])
      else Inr (sort_key (\<lambda>s. statusRank (sr_status s))
             (filter (\<lambda>s. sr_status s \<noteq> StatusRetired \<and> source_Resource s res \<noteq> None) allsrc)))"

fun requirements_loop :: "string \<Rightarrow> source list \<Rightarrow> (string \<times> string) list \<Rightarrow> (string \<times> string) list" where
  "requirements_loop res [] out = out"
| "requirements_loop res (src # srcs) out =
     (case source_Resource src res of
        None \<Rightarrow> requirements_loop res srcs out
      | Some r \<Rightarrow>
          requirements_loop res srcs
            (if re_scope r \<in> snd ` set out then out else out @ [(sr_name src, re_scope r)]))"

text \<open>Pairs of the source and the scope it requires, in the order \<open>Fetch\<close> will try them.\<close>

definition ResourceRequirements ::
  "fed_registry \<Rightarrow> string \<Rightarrow> string \<Rightarrow> string \<Rightarrow> fed_error + (string \<times> string) list" where
  "ResourceRequirements r game res pinned =
     (case candidates r game res pinned of
        Inl e \<Rightarrow> Inl e
      | Inr cands \<Rightarrow>
          (case requirements_loop res cands [] of [] \<Rightarrow> Inl ErrUnknownResource | out \<Rightarrow> Inr out))"

section \<open>The consent prompt\<close>

record binding_requirement =
  br_game :: string
  br_source :: string
  br_display :: string
  br_scopes :: "string list"

text \<open>\<^verbatim>\<open>candidatesByResource\<close>: a source that declares a name twice is listed twice, as in the code.\<close>

definition cands_by_resource :: "source list \<Rightarrow> string \<Rightarrow> string \<Rightarrow> source list" where
  "cands_by_resource srcs game res =
     concat (map (\<lambda>s. if sr_status s = StatusRetired then []
                      else map (\<lambda>_. s) (filter (\<lambda>r. sr_game s = game \<and> re_name r = res) (sr_resources s))) srcs)"

definition source_ref :: "source \<Rightarrow> string" where
  "source_ref s = sourceKey (sr_game s) (sr_name s)"

fun add_unseen :: "source list \<Rightarrow> source list \<Rightarrow> source list" where
  "add_unseen out [] = out"
| "add_unseen out (c # cs) =
     add_unseen (if source_ref c \<in> source_ref ` set out then out else out @ [c]) cs"

text \<open>\<^verbatim>\<open>byScope\<close> for one scope: the candidates of every resource declared with it, once each.\<close>

definition by_scope :: "source list \<Rightarrow> string \<Rightarrow> source list" where
  "by_scope srcs scope =
     add_unseen [] (concat (map (\<lambda>s. concat (map (\<lambda>r. cands_by_resource srcs (sr_game s) (re_name r))
        (filter (\<lambda>r. re_scope r = scope) (sr_resources s)))) srcs))"

definition prompt_order :: "source list \<Rightarrow> source list" where
  "prompt_order cs = sort_key (\<lambda>s. statusRank (sr_status s)) (sort_key sr_name cs)"

text \<open>Appending a scope to the requirement of its source, which is created at the end when new.\<close>

fun add_requirement :: "source \<Rightarrow> string \<Rightarrow> binding_requirement list \<Rightarrow> binding_requirement list" where
  "add_requirement pick scope [] =
     [\<lparr>br_game = sr_game pick, br_source = sr_name pick,
       br_display = (if sr_display pick = [] then sr_name pick else sr_display pick), br_scopes = [scope]\<rparr>]"
| "add_requirement pick scope (q # qs) =
     (if sourceKey (br_game q) (br_source q) = source_ref pick
      then q\<lparr>br_scopes := br_scopes q @ [scope]\<rparr> # qs
      else q # add_requirement pick scope qs)"

fun missing_loop ::
  "source list \<Rightarrow> string set \<Rightarrow> string list \<Rightarrow> binding_requirement list \<Rightarrow> binding_requirement list" where
  "missing_loop srcs connected [] out = out"
| "missing_loop srcs connected (scope # scopes) out =
     (let cs = by_scope srcs scope in
      missing_loop srcs connected scopes
        (if (\<exists>c \<in> set cs. source_ref c \<in> connected) then out
         else (case prompt_order cs of [] \<Rightarrow> out | pick # _ \<Rightarrow> add_requirement pick scope out)))"

definition missing_for :: "fed_registry \<Rightarrow> string set \<Rightarrow> string list \<Rightarrow> binding_requirement list" where
  "missing_for r connected scopes =
     (let srcs = AllSources r;
          wanted = filter (\<lambda>s. s \<noteq> []) (remdups scopes)
      in missing_loop srcs connected (sort (filter (\<lambda>scope. by_scope srcs scope \<noteq> []) wanted)) [])"

section \<open>What registration checked\<close>

definition name_ok :: "string \<Rightarrow> bool" where
  "name_ok v \<longleftrightarrow> v \<noteq> [] \<and> length v \<le> maxSourceNameBytes \<and> (\<forall>c \<in> set v. source_name_char c)
     \<and> hd v \<notin> {CHR ''-'', CHR ''_''}"

definition endpoint_ok :: "(string \<Rightarrow> url option) \<Rightarrow> string \<Rightarrow> bool" where
  "endpoint_ok parse v \<longleftrightarrow> (\<exists>u. parse v = Some u \<and> absolute_http u)"

definition raw_ok :: "(string \<Rightarrow> url option) \<Rightarrow> string \<Rightarrow> bool" where
  "raw_ok parse v \<longleftrightarrow> (\<exists>u. parse v = Some u \<and> absolute_http u \<and> u_rawquery u = [] \<and> u_fragment u = [])"

definition source_ok :: "(string \<Rightarrow> url option) \<Rightarrow> source \<Rightarrow> bool" where
  "source_ok parse s \<longleftrightarrow>
     name_ok (sr_game s) \<and> name_ok (sr_name s)
     \<and> sr_status s \<in> {StatusActive, StatusDegraded, StatusRetired}
     \<and> sr_class s \<in> {tokenClassRevocable, tokenClassLongLived}
     \<and> endpoint_ok parse (sr_auth s) \<and> endpoint_ok parse (sr_token s) \<and> endpoint_ok parse (sr_revoke s)
     \<and> (sr_cascade s \<noteq> [] \<longrightarrow> endpoint_ok parse (sr_cascade s))
     \<and> (sr_raw s \<noteq> [] \<longrightarrow> raw_ok parse (sr_raw s))
     \<and> (\<forall>r \<in> set (sr_resources s). \<forall>c \<in> set (re_scope r). scope_char c)"

definition registry_ok :: "(string \<Rightarrow> url option) \<Rightarrow> fed_registry \<Rightarrow> bool" where
  "registry_ok parse r \<longleftrightarrow>
     (\<forall>k s. fmlookup (fr_byKey r) k = Some s \<longrightarrow> k = source_ref s \<and> source_ok parse s)
     \<and> (\<forall>g. fmlookup (fr_byGame r) g \<noteq> Some [] \<and> distinct (map sr_name (game_sources r g))
          \<and> set (game_sources r g) = {s. sr_game s = g \<and> fmlookup (fr_byKey r) (source_ref s) = Some s})"

lemma source_name_excludes: "source_name_char c \<Longrightarrow> c \<noteq> CHR ''/'' \<and> c \<noteq> CHR ''.'' \<and> c \<noteq> CHR ''|''"
  by (auto simp: source_name_char_def char_in_def)

lemma name_ok_excludes:
  assumes "name_ok v"
  shows "CHR ''/'' \<notin> set v" "CHR ''.'' \<notin> set v" "CHR ''|'' \<notin> set v" "v \<noteq> []"
  using assms by (auto simp: name_ok_def dest: source_name_excludes)

lemma sourceKey_inj:
  assumes "name_ok g" "name_ok g'"
  shows "sourceKey g n = sourceKey g' n' \<longleftrightarrow> g = g' \<and> n = n'"
  using append_sep_inj [of "CHR ''/''" g g' n n'] name_ok_excludes assms by (simp add: sourceKey_def)

lemma validateSourceName_None:
  "validateSourceName field v = None \<Longrightarrow> v \<noteq> [] \<Longrightarrow> name_ok v"
  by (auto simp: validateSourceName_def name_ok_def split: if_splits)

lemma validateEndpointURL_None: "validateEndpointURL parse field v = None \<longleftrightarrow> endpoint_ok parse v"
  by (auto simp: validateEndpointURL_def endpoint_ok_def split: option.split)

lemma validateRawBase_None: "validateRawBase parse v = None \<longleftrightarrow> raw_ok parse v"
  by (auto simp: validateRawBase_def raw_ok_def split: option.split)

lemma validate_resource_None: "validate_resource r = None \<Longrightarrow> \<forall>c \<in> set (re_scope r). scope_char c"
  by (auto simp: validate_resource_def validateResourceScope_def split: option.splits if_splits)

lemma endpoints_keep [simp]:
  "sr_game (source_endpoints s) = sr_game s" "sr_name (source_endpoints s) = sr_name s"
  "sr_resources (source_endpoints s) = sr_resources s" "sr_cascade (source_endpoints s) = sr_cascade s"
  "sr_status (source_endpoints s) = sr_status s" "sr_class (source_endpoints s) = sr_class s"
  "sr_raw (source_endpoints s) = sr_raw s"
  "sr_auth (source_endpoints s) \<noteq> []" "sr_token (source_endpoints s) \<noteq> []"
  "sr_revoke (source_endpoints s) \<noteq> []"
  by (simp_all add: source_endpoints_def Let_def)

lemma source_status_Inr:
  "source_status s = Inr s' \<Longrightarrow> sr_status s' \<in> {StatusActive, StatusDegraded, StatusRetired}
     \<and> s' = s\<lparr>sr_status := sr_status s'\<rparr>"
  by (auto simp: source_status_def split: if_splits)

lemma source_class_Inr:
  "source_class s = Inr s' \<Longrightarrow> sr_class s' \<in> {tokenClassRevocable, tokenClassLongLived}
     \<and> s' = s\<lparr>sr_class := sr_class s'\<rparr>"
  by (auto simp: source_class_def split: if_splits)

lemma register_source_Inr:
  assumes "register_source parse s r = Inr r'"
  shows "\<exists>s'. source_ok parse s' \<and> sr_game s' = sr_game s \<and> sr_name s' = sr_name s
     \<and> fmlookup (fr_byKey r) (source_ref s') = None
     \<and> r' = \<lparr>fr_byGame = fmupd (sr_game s') (game_sources r (sr_game s') @ [s']) (fr_byGame r),
             fr_byKey = fmupd (source_ref s') s' (fr_byKey r)\<rparr>"
proof -
  let ?e = "source_endpoints s"
  obtain s1 s2 where st: "source_status ?e = Inr s1" and cl: "source_class s1 = Inr s2"
    and ne: "sr_game s \<noteq> []" "sr_name s \<noteq> []"
    and vs: "validateSourceName ''game'' (sr_game s) = None" "validateSourceName ''name'' (sr_name s) = None"
    and rs: "first_error validate_resource (sr_resources s) = None"
    and dup: "fmlookup (fr_byKey r) (sourceKey (sr_game s) (sr_name s)) = None"
    and eps: "first_error (\<lambda>(field, v). if v = [] then None else validateEndpointURL parse field v)
             [(''authorization_endpoint'', sr_auth ?e), (''token_endpoint'', sr_token ?e),
              (''revocation_endpoint'', sr_revoke ?e), (''cascade_revocation_endpoint'', sr_cascade ?e)] = None"
    and raw: "trim_right_slash (sr_raw s2) \<noteq> [] \<longrightarrow> validateRawBase parse (trim_right_slash (sr_raw s2)) = None"
    and r': "r' = \<lparr>fr_byGame = fmupd (sr_game s2)
               (game_sources r (sr_game s2) @ [s2\<lparr>sr_raw := trim_right_slash (sr_raw s2)\<rparr>]) (fr_byGame r),
             fr_byKey = fmupd (sourceKey (sr_game s) (sr_name s)) (s2\<lparr>sr_raw := trim_right_slash (sr_raw s2)\<rparr>)
               (fr_byKey r)\<rparr>"
    using assms unfolding register_source_def Let_def
    by (auto split: if_splits option.split_asm sum.split_asm)
  let ?s = "s2\<lparr>sr_raw := trim_right_slash (sr_raw s2)\<rparr>"
  have s1: "s1 = ?e\<lparr>sr_status := sr_status s1\<rparr>" "sr_status s1 \<in> {StatusActive, StatusDegraded, StatusRetired}"
    using source_status_Inr [OF st] by auto
  have s2: "s2 = s1\<lparr>sr_class := sr_class s2\<rparr>" "sr_class s2 \<in> {tokenClassRevocable, tokenClassLongLived}"
    using source_class_Inr [OF cl] by auto
  have f: "sr_game s2 = sr_game s" "sr_name s2 = sr_name s" "sr_resources s2 = sr_resources s"
    "sr_auth s2 = sr_auth ?e" "sr_token s2 = sr_token ?e" "sr_revoke s2 = sr_revoke ?e"
    "sr_cascade s2 = sr_cascade s" "sr_status s2 = sr_status s1"
    by (subst s2(1), subst s1(1), simp)+
  have ep: "endpoint_ok parse (sr_auth ?e)" "endpoint_ok parse (sr_token ?e)" "endpoint_ok parse (sr_revoke ?e)"
    "sr_cascade s \<noteq> [] \<longrightarrow> endpoint_ok parse (sr_cascade s)"
    using eps by (auto simp: validateEndpointURL_None split: option.split_asm if_splits)
  have scopes: "\<forall>r \<in> set (sr_resources s). \<forall>c \<in> set (re_scope r). scope_char c"
    using rs validate_resource_None unfolding first_error_None by blast
  have "source_ok parse ?s"
    unfolding source_ok_def
    using validateSourceName_None [OF vs(1) ne(1)] validateSourceName_None [OF vs(2) ne(2)] s1(2) s2(2) ep raw scopes
    by (simp add: f validateRawBase_None)
  then show ?thesis using dup r' f by (intro exI [of _ ?s]) (simp add: source_ref_def)
qed

lemma register_source_ok:
  assumes ok: "registry_ok parse r" and reg: "register_source parse s r = Inr r'"
  shows "registry_ok parse r'"
proof -
  obtain s' where s': "source_ok parse s'" and new: "fmlookup (fr_byKey r) (source_ref s') = None"
    and r': "r' = \<lparr>fr_byGame = fmupd (sr_game s') (game_sources r (sr_game s') @ [s']) (fr_byGame r),
             fr_byKey = fmupd (source_ref s') s' (fr_byKey r)\<rparr>"
    using register_source_Inr [OF reg] by blast
  have gs: "game_sources r' g = (if g = sr_game s' then game_sources r g @ [s'] else game_sources r g)" for g
    by (simp add: r' game_sources_def)
  have old: "set (game_sources r g) = {s. sr_game s = g \<and> fmlookup (fr_byKey r) (source_ref s) = Some s}" for g
    using ok by (simp add: registry_ok_def)
  have fresh: "sr_name x \<noteq> sr_name s'" if "x \<in> set (game_sources r (sr_game s'))" for x
    using that new unfolding old by (auto simp: source_ref_def)
  have "set (game_sources r' g) = {s. sr_game s = g \<and> fmlookup (fr_byKey r') (source_ref s) = Some s}" for g
  proof (rule set_eqI)
    fix s
    have key: "fmlookup (fr_byKey r') (source_ref s) =
        (if source_ref s = source_ref s' then Some s' else fmlookup (fr_byKey r) (source_ref s))"
      by (simp add: r')
    have mem: "s \<in> set (game_sources r' g) \<longleftrightarrow> s = s' \<and> g = sr_game s' \<or> s \<in> set (game_sources r g)"
      by (simp add: gs)
    show "s \<in> set (game_sources r' g)
        \<longleftrightarrow> s \<in> {s. sr_game s = g \<and> fmlookup (fr_byKey r') (source_ref s) = Some s}"
    proof (cases "source_ref s = source_ref s'")
      case True
      with new have "s \<notin> set (game_sources r g)" by (simp add: old)
      moreover have "fmlookup (fr_byKey r') (source_ref s) = Some s'" using True by (simp add: r')
      ultimately show ?thesis unfolding mem by auto
    next
      case False
      then have "s \<noteq> s'" by auto
      with False show ?thesis unfolding mem by (simp add: key old)
    qed
  qed
  moreover have "distinct (map sr_name (game_sources r' g))" for g
  proof -
    have "distinct (map sr_name (game_sources r g))" using ok by (simp add: registry_ok_def)
    then show ?thesis by (auto simp: gs dest: fresh)
  qed
  moreover have "fmlookup (fr_byGame r') g \<noteq> Some []" for g
    using ok by (auto simp: r' registry_ok_def)
  moreover have "\<forall>k x. fmlookup (fr_byKey r') k = Some x \<longrightarrow> k = source_ref x \<and> source_ok parse x"
    using ok s' by (auto simp: r' registry_ok_def)
  ultimately show ?thesis unfolding registry_ok_def by blast
qed

lemma register_sources_ok:
  "registry_ok parse r \<Longrightarrow> register_sources parse ss r = Inr r' \<Longrightarrow> registry_ok parse r'"
  by (induction ss arbitrary: r) (auto split: sum.split_asm intro: register_source_ok)

lemma NewSourceRegistry_ok: "NewSourceRegistry parse ss = Inr r \<Longrightarrow> registry_ok parse r"
  unfolding NewSourceRegistry_def
  by (erule register_sources_ok [rotated]) (simp add: registry_ok_def game_sources_def)

lemma source_Get_ok:
  assumes "registry_ok parse r" and "source_Get r game name = Some s"
  shows "sr_game s = game" "sr_name s = name" "source_ok parse s"
proof -
  have key: "sourceKey game name = source_ref s" and s: "source_ok parse s"
    using assms(1,2) by (auto simp: registry_ok_def source_Get_def)
  have "CHR ''/'' \<notin> set (sr_game s)" "CHR ''/'' \<notin> set (sr_name s)"
    using s name_ok_excludes(1) by (simp_all add: source_ok_def)
  moreover have "game @ CHR ''/'' # name = sr_game s @ CHR ''/'' # sr_name s"
    using key by (simp add: source_ref_def sourceKey_def)
  ultimately show "sr_game s = game" "sr_name s = name" using append_sep_clean by fastforce+
  show "source_ok parse s" by (rule s)
qed

lemma Sources_set:
  assumes "registry_ok parse r"
  shows "s \<in> set (Sources r game) \<longleftrightarrow> sr_game s = game \<and> fmlookup (fr_byKey r) (source_ref s) = Some s"
  using assms by (auto simp: Sources_def registry_ok_def)

lemma AllSources_set:
  assumes "registry_ok parse r"
  shows "s \<in> set (AllSources r) \<longleftrightarrow> fmlookup (fr_byKey r) (source_ref s) = Some s"
proof -
  have all: "s \<in> set (AllSources r) \<longleftrightarrow> (\<exists>g \<in> set (Games r). s \<in> set (Sources r g))"
    by (simp add: AllSources_def)
  have games: "set (Games r) = fset (fmdom (fr_byGame r))" by (simp add: Games_def)
  show ?thesis
  proof
    assume s: "fmlookup (fr_byKey r) (source_ref s) = Some s"
    then have src: "s \<in> set (Sources r (sr_game s))" by (simp add: Sources_set [OF assms])
    then have "game_sources r (sr_game s) \<noteq> []" by (auto simp: Sources_def)
    then have "fmlookup (fr_byGame r) (sr_game s) \<noteq> None"
      by (auto simp: game_sources_def split: option.split_asm)
    then have "sr_game s \<in> set (Games r)" by (simp add: games fmlookup_dom_iff)
    with src show "s \<in> set (AllSources r)" unfolding all by blast
  qed (auto simp: all Sources_set [OF assms])
qed

section \<open>Which sources are tried\<close>

definition eligible :: "fed_registry \<Rightarrow> string \<Rightarrow> string \<Rightarrow> source \<Rightarrow> bool" where
  "eligible r game res s \<longleftrightarrow>
     sr_game s = game \<and> source_Get r game (sr_name s) = Some s \<and> sr_status s \<noteq> StatusRetired
     \<and> source_Resource s res \<noteq> None"

text \<open>
  The sources a read may use. A retired source is never among them, nor one that does not
  declare the resource; active ones come before degraded ones; a pinned source is the only
  candidate and never substituted; without a pin every eligible source is tried.
\<close>

theorem candidates_exact:
  assumes "NewSourceRegistry parse ss = Inr r" and "candidates r game res pinned = Inr cs"
  shows "(\<forall>s. s \<in> set cs \<longleftrightarrow> eligible r game res s \<and> (pinned = [] \<or> sr_name s = pinned))
     \<and> distinct (map sr_name cs)
     \<and> sorted (map (\<lambda>s. statusRank (sr_status s)) cs)"
proof -
  note ok = NewSourceRegistry_ok [OF assms(1)]
  have ne: "Sources r game \<noteq> []" using assms(2) by (auto simp: candidates_def Let_def)
  show ?thesis
  proof (cases "pinned = []")
    case True
    then have cs: "cs = sort_key (\<lambda>s. statusRank (sr_status s))
        (filter (\<lambda>s. sr_status s \<noteq> StatusRetired \<and> source_Resource s res \<noteq> None) (Sources r game))"
      using assms(2) ne by (simp add: candidates_def Let_def)
    have "distinct (map sr_name (game_sources r game))" using ok by (simp add: registry_ok_def)
    then have "distinct (Sources r game)" "inj_on sr_name (set (Sources r game))"
      by (simp_all add: Sources_def distinct_map)
    then have "distinct (map sr_name cs)"
      unfolding cs distinct_map by (auto intro: inj_on_subset)
    moreover have "s \<in> set cs \<longleftrightarrow> eligible r game res s" for s
    proof -
      have "s \<in> set cs \<longleftrightarrow> s \<in> set (Sources r game) \<and> sr_status s \<noteq> StatusRetired \<and> source_Resource s res \<noteq> None"
        by (simp add: cs)
      then show ?thesis by (auto simp: Sources_set [OF ok] eligible_def source_Get_def source_ref_def)
    qed
    moreover have "sorted (map (\<lambda>s. statusRank (sr_status s)) cs)" unfolding cs by simp
    ultimately show ?thesis using True by simp
  next
    case False
    then obtain x where x: "source_Get r game pinned = Some x" "sr_status x \<noteq> StatusRetired"
      "source_Resource x res \<noteq> None" and cs: "cs = [x]"
      using assms(2) ne by (auto simp: candidates_def Let_def split: option.split_asm if_splits)
    note g = source_Get_ok [OF ok x(1)]
    have "s \<in> set cs \<longleftrightarrow> eligible r game res s \<and> sr_name s = pinned" for s
    proof -
      have "eligible r game res s \<and> sr_name s = pinned \<Longrightarrow> s = x" using x(1) by (auto simp: eligible_def)
      moreover have "eligible r game res x" "sr_name x = pinned" using x g by (simp_all add: eligible_def)
      ultimately show ?thesis by (auto simp: cs)
    qed
    with False show ?thesis by (simp add: cs)
  qed
qed

section \<open>What the prompt asks for\<close>

text \<open>The sources the data plane would try for a resource declared with the scope.\<close>

definition serves :: "fed_registry \<Rightarrow> string \<Rightarrow> source \<Rightarrow> bool" where
  "serves r scope c \<longleftrightarrow>
     (\<exists>s res. s \<in> set (AllSources r) \<and> res \<in> set (sr_resources s) \<and> re_scope res = scope
        \<and> eligible r (sr_game s) (re_name res) c)"

lemma eligible_key: "eligible r game res c \<Longrightarrow> fmlookup (fr_byKey r) (source_ref c) = Some c"
  by (auto simp: eligible_def source_Get_def source_ref_def)

lemma serves_key: "serves r scope c \<Longrightarrow> fmlookup (fr_byKey r) (source_ref c) = Some c"
  using eligible_key unfolding serves_def by blast

lemma source_Resource_iff: "source_Resource s name \<noteq> None \<longleftrightarrow> (\<exists>r \<in> set (sr_resources s). re_name r = name)"
  by (auto simp: source_Resource_def find_None_iff)

lemma add_unseen_refs: "source_ref ` set (add_unseen out cs) = source_ref ` set out \<union> source_ref ` set cs"
  by (induction out cs rule: add_unseen.induct) auto

lemma add_unseen_subset: "set (add_unseen out cs) \<subseteq> set out \<union> set cs"
  by (induction out cs rule: add_unseen.induct) (auto split: if_splits)

lemma add_unseen_set:
  assumes "\<And>c c'. c \<in> set cs \<Longrightarrow> c' \<in> set cs \<Longrightarrow> source_ref c = source_ref c' \<Longrightarrow> c = c'"
  shows "set (add_unseen [] cs) = set cs"
proof
  show "set (add_unseen [] cs) \<subseteq> set cs" using add_unseen_subset [of "[]" cs] by simp
  show "set cs \<subseteq> set (add_unseen [] cs)"
  proof
    fix c assume c: "c \<in> set cs"
    then have "source_ref c \<in> source_ref ` set (add_unseen [] cs)" by (simp add: add_unseen_refs)
    then obtain c' where "c' \<in> set (add_unseen [] cs)" "source_ref c = source_ref c'" by auto
    with assms c add_unseen_subset [of "[]" cs] show "c \<in> set (add_unseen [] cs)" by auto
  qed
qed

lemma cands_by_resource_set:
  assumes "registry_ok parse r"
  shows "c \<in> set (cands_by_resource (AllSources r) game res) \<longleftrightarrow> eligible r game res c"
proof -
  have "c \<in> set (cands_by_resource (AllSources r) game res) \<longleftrightarrow>
      c \<in> set (AllSources r) \<and> sr_status c \<noteq> StatusRetired \<and> sr_game c = game
      \<and> (\<exists>x \<in> set (sr_resources c). re_name x = res)"
    by (auto simp: cands_by_resource_def)
  then show ?thesis
    unfolding AllSources_set [OF assms] eligible_def source_Resource_iff source_Get_def source_ref_def by blast
qed

lemma by_scope_set:
  assumes "registry_ok parse r"
  shows "c \<in> set (by_scope (AllSources r) scope) \<longleftrightarrow> serves r scope c"
proof -
  let ?cs = "concat (map (\<lambda>s. concat (map (\<lambda>x. cands_by_resource (AllSources r) (sr_game s) (re_name x))
        (filter (\<lambda>x. re_scope x = scope) (sr_resources s)))) (AllSources r))"
  have mem: "c \<in> set ?cs \<longleftrightarrow> serves r scope c" for c
  proof -
    have "c \<in> set ?cs \<longleftrightarrow> (\<exists>s \<in> set (AllSources r). \<exists>x \<in> set (sr_resources s).
        re_scope x = scope \<and> c \<in> set (cands_by_resource (AllSources r) (sr_game s) (re_name x)))" by auto
    then show ?thesis unfolding serves_def cands_by_resource_set [OF assms] by blast
  qed
  have uniq: "c = c'" if "c \<in> set ?cs" "c' \<in> set ?cs" "source_ref c = source_ref c'" for c c'
  proof -
    have "fmlookup (fr_byKey r) (source_ref c) = Some c" "fmlookup (fr_byKey r) (source_ref c') = Some c'"
      using that(1,2) serves_key unfolding mem by blast+
    with that(3) show ?thesis by (metis option.inject)
  qed
  have unseen: "set (add_unseen [] ?cs) = set ?cs" by (rule add_unseen_set) (rule uniq)
  show ?thesis unfolding by_scope_def unseen mem ..
qed

lemma prompt_order_set: "set (prompt_order cs) = set cs"
  by (simp add: prompt_order_def)

definition req_scopes :: "binding_requirement \<Rightarrow> (string \<times> string \<times> string) set" where
  "req_scopes q = (\<lambda>scope. (br_game q, br_source q, scope)) ` set (br_scopes q)"

definition req_sources :: "binding_requirement list \<Rightarrow> (string \<times> string \<times> string) set" where
  "req_sources qs = \<Union> (req_scopes ` set qs)"

lemma add_requirement_sources:
  assumes "name_ok (sr_game pick)" and "\<forall>q \<in> set qs. name_ok (br_game q)"
  shows "req_sources (add_requirement pick scope qs) = insert (sr_game pick, sr_name pick, scope) (req_sources qs)
     \<and> (\<forall>q \<in> set (add_requirement pick scope qs). name_ok (br_game q))"
  using assms
proof (induction pick scope qs rule: add_requirement.induct)
  case (1 pick scope)
  then show ?case by (simp add: req_sources_def req_scopes_def)
next
  case (2 pick scope q qs)
  show ?case
  proof (cases "sourceKey (br_game q) (br_source q) = source_ref pick")
    case True
    then have "br_game q = sr_game pick" "br_source q = sr_name pick"
      using 2(2,3) sourceKey_inj [of "br_game q" "sr_game pick"] by (auto simp: source_ref_def)
    then have "req_scopes (q\<lparr>br_scopes := br_scopes q @ [scope]\<rparr>) =
        insert (sr_game pick, sr_name pick, scope) (req_scopes q)"
      by (simp add: req_scopes_def)
    with True 2(3) show ?thesis by (simp add: req_sources_def)
  next
    case False
    with 2 show ?thesis by (simp add: req_sources_def insert_commute Un_left_commute)
  qed
qed

definition prompted :: "source list \<Rightarrow> string set \<Rightarrow> string \<Rightarrow> source option" where
  "prompted srcs connected scope =
     (if \<exists>c \<in> set (by_scope srcs scope). source_ref c \<in> connected then None
      else case prompt_order (by_scope srcs scope) of [] \<Rightarrow> None | pick # _ \<Rightarrow> Some pick)"

lemma missing_loop_sources:
  assumes "\<And>scope pick. prompted srcs connected scope = Some pick \<Longrightarrow> name_ok (sr_game pick)"
    and "\<forall>q \<in> set out. name_ok (br_game q)"
  shows "req_sources (missing_loop srcs connected scopes out) = req_sources out
     \<union> {(sr_game pick, sr_name pick, scope) |pick scope. scope \<in> set scopes \<and> prompted srcs connected scope = Some pick}"
  using assms(2)
proof (induction scopes arbitrary: out)
  case (Cons scope scopes)
  have step: "missing_loop srcs connected (scope # scopes) out = missing_loop srcs connected scopes
      (case prompted srcs connected scope of None \<Rightarrow> out | Some pick \<Rightarrow> add_requirement pick scope out)"
    by (simp add: prompted_def Let_def split: list.split)
  show ?case
  proof (cases "prompted srcs connected scope")
    case None
    with Cons show ?thesis unfolding step by auto
  next
    case (Some pick)
    note add = add_requirement_sources [OF assms(1) [OF Some] Cons.prems, of scope]
    show ?thesis unfolding step Some using Cons.IH [OF conjunct2 [OF add]] add Some by auto
  qed
qed simp

lemma prompted_Some:
  assumes "registry_ok parse r" and "prompted (AllSources r) connected scope = Some pick"
  shows "serves r scope pick" "source_ref pick \<notin> connected"
    "serves r scope c \<Longrightarrow> source_ref c \<notin> connected \<and> statusRank (sr_status pick) \<le> statusRank (sr_status c)"
proof -
  let ?cs = "by_scope (AllSources r) scope"
  have none: "\<forall>c \<in> set ?cs. source_ref c \<notin> connected" and "\<exists>rest. prompt_order ?cs = pick # rest"
    using assms(2) by (auto simp: prompted_def split: if_splits list.split_asm)
  then obtain rest where rest: "prompt_order ?cs = pick # rest" by blast
  have "sorted (map (\<lambda>s. statusRank (sr_status s)) (pick # rest))"
    unfolding rest [symmetric] prompt_order_def by simp
  moreover have cs: "set ?cs = set (pick # rest)" unfolding rest [symmetric] prompt_order_set ..
  ultimately have best: "\<forall>c \<in> set ?cs. statusRank (sr_status pick) \<le> statusRank (sr_status c)" by auto
  have mem: "c \<in> set ?cs \<longleftrightarrow> serves r scope c" for c by (rule by_scope_set [OF assms(1)])
  have pick: "pick \<in> set ?cs" unfolding cs by simp
  then show "serves r scope pick" "source_ref pick \<notin> connected" using none mem by blast+
  show "serves r scope c \<Longrightarrow> source_ref c \<notin> connected \<and> statusRank (sr_status pick) \<le> statusRank (sr_status c)"
    using none best mem by blast
qed

lemma prompted_None:
  assumes "registry_ok parse r" and "prompted (AllSources r) connected scope = None" and "serves r scope c"
  shows "\<exists>c. serves r scope c \<and> source_ref c \<in> connected"
proof -
  have "c \<in> set (prompt_order (by_scope (AllSources r) scope))"
    using assms(3) by_scope_set [OF assms(1)] by (simp add: prompt_order_set)
  with assms(2) show ?thesis
    using by_scope_set [OF assms(1), of _ scope] by (auto simp: prompted_def split: if_splits list.split_asm)
qed

lemma missing_bindings_cases:
  assumes "NewSourceRegistry parse ss = Inr r"
  shows "(\<exists>game name. (game, name, scope) \<in> req_sources (missing_for r connected scopes))
       \<longleftrightarrow> scope \<in> set scopes \<and> scope \<noteq> [] \<and> (\<exists>c. serves r scope c)
           \<and> (\<forall>c. serves r scope c \<longrightarrow> source_ref c \<notin> connected)"
    (is "?listed \<longleftrightarrow> ?needed")
    and "(game, name, scope) \<in> req_sources (missing_for r connected scopes) \<Longrightarrow>
      \<exists>pick. serves r scope pick \<and> sr_game pick = game \<and> sr_name pick = name
        \<and> (\<forall>c. serves r scope c \<longrightarrow> statusRank (sr_status pick) \<le> statusRank (sr_status c))"
proof -
  note ok = NewSourceRegistry_ok [OF assms]
  let ?p = "prompted (AllSources r) connected"
  have "name_ok (sr_game pick)" if "?p sc = Some pick" for sc pick
    using serves_key [OF prompted_Some(1) [OF ok that]] ok unfolding registry_ok_def source_ok_def by blast
  then have loop: "req_sources (missing_loop (AllSources r) connected scs []) =
      {(sr_game pick, sr_name pick, sc) |pick sc. sc \<in> set scs \<and> ?p sc = Some pick}" for scs
    using missing_loop_sources [of "AllSources r" connected "[]" scs] by (simp add: req_sources_def)
  have req: "req_sources (missing_for r connected scopes) =
      {(sr_game pick, sr_name pick, sc) |pick sc. sc \<in> set scopes \<and> sc \<noteq> [] \<and> by_scope (AllSources r) sc \<noteq> []
         \<and> ?p sc = Some pick}"
    unfolding missing_for_def Let_def loop by simp
  have nonempty: "by_scope (AllSources r) sc \<noteq> []" if "?p sc = Some pick" for sc pick
    using that by (auto simp: prompted_def prompt_order_def split: if_splits)
  show "?listed \<longleftrightarrow> ?needed"
  proof
    assume ?listed
    then obtain pick where "scope \<in> set scopes" "scope \<noteq> []" and pick: "?p scope = Some pick"
      unfolding req by blast
    with prompted_Some [OF ok pick] show ?needed by blast
  next
    assume need: ?needed
    then obtain pick where "?p scope = Some pick" using prompted_None [OF ok] by (cases "?p scope") blast+
    with need nonempty show ?listed unfolding req by blast
  qed
  show "(game, name, scope) \<in> req_sources (missing_for r connected scopes) \<Longrightarrow>
      \<exists>pick. serves r scope pick \<and> sr_game pick = game \<and> sr_name pick = name
        \<and> (\<forall>c. serves r scope c \<longrightarrow> statusRank (sr_status pick) \<le> statusRank (sr_status c))"
    unfolding req using prompted_Some [OF ok] by blast
qed

text \<open>
  C33. The consent prompt. A requested scope appears in it exactly when some usable source could
  serve it and none of those is connected; the source named for it is one of them, not retired,
  not connected, and of the best status available.
\<close>

theorem missing_bindings_exact:
  assumes "NewSourceRegistry parse ss = Inr r"
  shows "((\<exists>game name. (game, name, scope) \<in> req_sources (missing_for r connected scopes))
       \<longleftrightarrow> scope \<in> set scopes \<and> scope \<noteq> [] \<and> (\<exists>c. serves r scope c)
           \<and> (\<forall>c. serves r scope c \<longrightarrow> source_ref c \<notin> connected))
    \<and> (\<forall>game name. (game, name, scope) \<in> req_sources (missing_for r connected scopes) \<longrightarrow>
        (\<exists>pick. serves r scope pick \<and> sr_game pick = game \<and> sr_name pick = name
          \<and> (\<forall>c. serves r scope c \<longrightarrow> statusRank (sr_status pick) \<le> statusRank (sr_status c))))"
  by (intro conjI allI impI missing_bindings_cases(1) [OF assms]) (erule missing_bindings_cases(2) [OF assms])

section \<open>A registry of two sources\<close>

definition demo_parse :: "string \<Rightarrow> url option" where
  "demo_parse s = Some \<lparr>u_scheme = ''https'', u_opaque = [], u_user = False, u_host = ''a'', u_hostname = ''a'',
     u_path = [], u_rawquery = [], u_fragment = []\<rparr>"

definition demo_source :: "string \<Rightarrow> string \<Rightarrow> source" where
  "demo_source name status =
     \<lparr>sr_game = ''g'', sr_name = name, sr_display = [], sr_issuer = ''https://a'', sr_class = [],
      sr_resources = [\<lparr>re_name = ''r'', re_schema = [], re_scope = ''g.r.read''\<rparr>], sr_status = status, sr_raw = [],
      sr_client = ''id'', sr_secret = ''key'', sr_auth = [], sr_token = [], sr_revoke = [], sr_cascade = ''https://a/revoke''\<rparr>"

definition demo_registry :: fed_registry where
  "demo_registry = projr (NewSourceRegistry demo_parse [demo_source ''x'' ''degraded'', demo_source ''y'' []])"

lemma demo_registry_new:
  "NewSourceRegistry demo_parse [demo_source ''x'' ''degraded'', demo_source ''y'' []] = Inr demo_registry"
proof -
  have "\<not> isl (NewSourceRegistry demo_parse [demo_source ''x'' ''degraded'', demo_source ''y'' []])" by code_simp
  then show ?thesis by (simp add: demo_registry_def)
qed

lemma candidates_exact_witness:
  "\<exists>cs. candidates demo_registry ''g'' ''r'' [] = Inr cs \<and> map sr_name cs = [''y'', ''x'']
     \<and> distinct (map sr_name cs) \<and> sorted (map (\<lambda>s. statusRank (sr_status s)) cs)"
proof -
  have n: "map_sum id (map sr_name) (candidates demo_registry ''g'' ''r'' []) = Inr [''y'', ''x'']" by code_simp
  then obtain cs where cs: "candidates demo_registry ''g'' ''r'' [] = Inr cs" "map sr_name cs = [''y'', ''x'']"
    by (cases "candidates demo_registry ''g'' ''r'' []") auto
  note c = conjunct2 [OF candidates_exact [OF demo_registry_new cs(1)]]
  show ?thesis by (intro exI [of _ cs] conjI cs conjunct1 [OF c] conjunct2 [OF c])
qed

lemma missing_bindings_exact_witness:
  "\<exists>pick. serves demo_registry ''g.r.read'' pick \<and> sr_name pick = ''y''
     \<and> (\<nexists>c. serves demo_registry ''g.r.read'' c \<and> statusRank (sr_status c) < statusRank (sr_status pick))"
proof -
  have "map (\<lambda>q. (br_game q, br_source q, br_scopes q)) (missing_for demo_registry {} [''g.r.read''])
      = [(''g'', ''y'', [''g.r.read''])]" by code_simp
  then have "(''g'', ''y'', ''g.r.read'') \<in> req_sources (missing_for demo_registry {} [''g.r.read''])"
    by (auto simp: req_sources_def req_scopes_def)
  with missing_bindings_exact [OF demo_registry_new] show ?thesis by (meson not_less)
qed

end
