(* ===== verification/Federation_Bindings.thy ===== *)
theory Federation_Bindings
  imports Federation_Registry
begin

text \<open>
  What the data plane stores: bindings and their generations (\<^verbatim>\<open>internal/federation/binding.go\<close>) and
  pending bind flows (\<^verbatim>\<open>bind.go\<close>). The interfaces \<open>BindingStore\<close> (with the optional pager) and
  \<open>BindFlowStore\<close> are records of operations; \<open>MemoryBindingStore\<close>, a map with an ordered index of
  the deployment and one per account, and \<open>MemoryBindFlowStore\<close> are their instances. The probe
  counters are left out.
  Shown: both indexes mirror the map under every operation, so a listing is the account's rows in
  order and a page a window of the deployment's; the store meets the contract the service relies
  on, compare-and-swap included; a pending flow is spent once.
\<close>

section \<open>Bindings\<close>

record binding =
  bd_user :: string
  bd_game :: string
  bd_source :: string
  bd_type :: string
  bd_expiry :: time
  bd_refresh :: bool
  bd_version :: "64 word"

definition big_endian :: "string \<Rightarrow> 64 word" where
  "big_endian b = foldl (\<lambda>v c. push_bit 8 v OR of_nat (of_char c)) 0 b"

definition newBindingGeneration :: "tape \<Rightarrow> (fed_error + 64 word) \<times> tape" where
  "newBindingGeneration t =
     (case rand_read 8 t of
        None \<Rightarrow> (Inl (FPlain ''federation: generate binding version''), t)
      | Some (b, t) \<Rightarrow> (Inr (if big_endian b \<noteq> 0 then big_endian b else 1), t))"

definition BindingIdentity :: "binding \<Rightarrow> identity" where
  "BindingIdentity b = Identity (bd_user b) (bd_game b @ ''.'' @ bd_source b)"

record binding_secret =
  bx_access :: string
  bx_refresh :: string

record 'b binding_store =
  bs_get :: "string \<Rightarrow> string \<Rightarrow> string \<Rightarrow> 'b \<Rightarrow> fed_error + binding"
  bs_put :: "binding \<Rightarrow> 'b \<Rightarrow> (fed_error + unit) \<times> 'b"
  bs_put_if :: "binding \<Rightarrow> 64 word \<Rightarrow> 'b \<Rightarrow> (fed_error + bool) \<times> 'b"
  bs_create :: "binding \<Rightarrow> 'b \<Rightarrow> (fed_error + bool) \<times> 'b"
  bs_delete :: "string \<Rightarrow> string \<Rightarrow> string \<Rightarrow> 'b \<Rightarrow> (fed_error + unit) \<times> 'b"
  bs_list :: "string \<Rightarrow> 'b \<Rightarrow> fed_error + binding list"
  bs_list_all :: "'b \<Rightarrow> fed_error + binding list"
  bs_page :: "(string \<Rightarrow> string \<Rightarrow> string \<Rightarrow> int \<Rightarrow> 'b \<Rightarrow> fed_error + binding list) option"

section \<open>MemoryBindingStore\<close>

datatype binding_index_key = BKey (bk_user: string) (bk_game: string) (bk_source: string)

definition bindingUserIndexLess :: "binding_index_key \<Rightarrow> binding_index_key \<Rightarrow> bool" where
  "bindingUserIndexLess a b = (if bk_game a \<noteq> bk_game b then bk_game a < bk_game b else bk_source a < bk_source b)"

definition bindingIndexLess :: "binding_index_key \<Rightarrow> binding_index_key \<Rightarrow> bool" where
  "bindingIndexLess a b =
     (if bk_user a \<noteq> bk_user b then bk_user a < bk_user b
      else if bk_game a \<noteq> bk_game b then bk_game a < bk_game b
      else bk_source a < bk_source b)"

instantiation binding_index_key :: linorder
begin

definition less_binding_index_key_def: "a < b \<longleftrightarrow> bindingIndexLess a b"

definition less_eq_binding_index_key_def: "a \<le> b \<longleftrightarrow> a = b \<or> bindingIndexLess a b"

instance
  by standard
     (auto simp: less_binding_index_key_def less_eq_binding_index_key_def bindingIndexLess_def
       binding_index_key.expand split: if_splits)

end

record memory_bindings =
  mb_m :: "(string, binding) fmap"
  mb_index :: "binding_index_key list"
  mb_byUser :: "(string, binding_index_key list) fmap"

definition NewMemoryBindingStore :: memory_bindings where
  "NewMemoryBindingStore = \<lparr>mb_m = fmempty, mb_index = [], mb_byUser = fmempty\<rparr>"

definition bindingKey :: "string \<Rightarrow> string \<Rightarrow> string \<Rightarrow> string" where
  "bindingKey user game src = user @ ''|'' @ game @ ''|'' @ src"

definition mb_indexOf :: "binding_index_key list \<Rightarrow> binding_index_key \<Rightarrow> nat \<times> bool" where
  "mb_indexOf ks k =
     (let i = sort_search (length ks) (\<lambda>i. \<not> bindingIndexLess (ks ! i) k)
      in (i, i < length ks \<and> ks ! i = k))"

definition mb_insertIndex :: "binding_index_key \<Rightarrow> binding_index_key list \<Rightarrow> binding_index_key list" where
  "mb_insertIndex k ks = (let i = fst (mb_indexOf ks k) in take i ks @ k # drop i ks)"

definition mb_removeIndex :: "binding_index_key \<Rightarrow> binding_index_key list \<Rightarrow> binding_index_key list" where
  "mb_removeIndex k ks = (case mb_indexOf ks k of (i, found) \<Rightarrow> if found then take i ks @ drop (Suc i) ks else ks)"

definition user_keys :: "memory_bindings \<Rightarrow> string \<Rightarrow> binding_index_key list" where
  "user_keys s u = (case fmlookup (mb_byUser s) u of None \<Rightarrow> [] | Some ks \<Rightarrow> ks)"

definition user_pos :: "binding_index_key list \<Rightarrow> binding_index_key \<Rightarrow> nat" where
  "user_pos ks k = sort_search (length ks) (\<lambda>i. \<not> bindingUserIndexLess (ks ! i) k)"

definition insertUserIndex :: "binding_index_key \<Rightarrow> memory_bindings \<Rightarrow> memory_bindings" where
  "insertUserIndex k s =
     (let ks = user_keys s (bk_user k); i = user_pos ks k
      in s\<lparr>mb_byUser := fmupd (bk_user k) (take i ks @ k # drop i ks) (mb_byUser s)\<rparr>)"

definition removeUserIndex :: "binding_index_key \<Rightarrow> memory_bindings \<Rightarrow> memory_bindings" where
  "removeUserIndex k s =
     (let ks = user_keys s (bk_user k); i = user_pos ks k in
      if i \<ge> length ks \<or> ks ! i \<noteq> k then s
      else (let ks = take i ks @ drop (Suc i) ks in
        if ks = [] then s\<lparr>mb_byUser := fmdrop (bk_user k) (mb_byUser s)\<rparr>
        else s\<lparr>mb_byUser := fmupd (bk_user k) ks (mb_byUser s)\<rparr>))"

definition mb_get :: "string \<Rightarrow> string \<Rightarrow> string \<Rightarrow> memory_bindings \<Rightarrow> fed_error + binding" where
  "mb_get user game src s =
     (case fmlookup (mb_m s) (bindingKey user game src) of None \<Rightarrow> Inl ErrNotBound | Some b \<Rightarrow> Inr b)"

definition binding_key :: "binding \<Rightarrow> binding_index_key" where
  "binding_key b = BKey (bd_user b) (bd_game b) (bd_source b)"

definition key_string :: "binding_index_key \<Rightarrow> string" where
  "key_string k = bindingKey (bk_user k) (bk_game k) (bk_source k)"

definition add_key :: "binding_index_key \<Rightarrow> memory_bindings \<Rightarrow> memory_bindings" where
  "add_key k s = insertUserIndex k (s\<lparr>mb_index := mb_insertIndex k (mb_index s)\<rparr>)"

definition mb_put :: "binding \<Rightarrow> memory_bindings \<Rightarrow> (fed_error + unit) \<times> memory_bindings" where
  "mb_put b s =
     (let key = bindingKey (bd_user b) (bd_game b) (bd_source b);
          s = (if fmlookup (mb_m s) key = None then add_key (binding_key b) s else s)
      in (Inr (), s\<lparr>mb_m := fmupd key b (mb_m s)\<rparr>))"

definition mb_put_if :: "binding \<Rightarrow> 64 word \<Rightarrow> memory_bindings \<Rightarrow> (fed_error + bool) \<times> memory_bindings" where
  "mb_put_if b expected s =
     (let key = bindingKey (bd_user b) (bd_game b) (bd_source b) in
      case fmlookup (mb_m s) key of
        None \<Rightarrow> (Inr False, s)
      | Some existing \<Rightarrow>
          if bd_version existing \<noteq> expected then (Inr False, s)
          else (Inr True, s\<lparr>mb_m := fmupd key b (mb_m s)\<rparr>))"

definition mb_create :: "binding \<Rightarrow> memory_bindings \<Rightarrow> (fed_error + bool) \<times> memory_bindings" where
  "mb_create b s =
     (let key = bindingKey (bd_user b) (bd_game b) (bd_source b) in
      if fmlookup (mb_m s) key \<noteq> None then (Inr False, s)
      else (let s = add_key (binding_key b) s in (Inr True, s\<lparr>mb_m := fmupd key b (mb_m s)\<rparr>)))"

definition mb_delete ::
  "string \<Rightarrow> string \<Rightarrow> string \<Rightarrow> memory_bindings \<Rightarrow> (fed_error + unit) \<times> memory_bindings" where
  "mb_delete user game src s =
     (let key = bindingKey user game src in
      if fmlookup (mb_m s) key = None then (Inr (), s)
      else (let k = BKey user game src;
                s = s\<lparr>mb_m := fmdrop key (mb_m s), mb_index := mb_removeIndex k (mb_index s)\<rparr>
            in (Inr (), removeUserIndex k s)))"

definition zero_binding :: binding where
  "zero_binding = \<lparr>bd_user = [], bd_game = [], bd_source = [], bd_type = [], bd_expiry = 0, bd_refresh = False,
     bd_version = 0\<rparr>"

definition binding_at :: "memory_bindings \<Rightarrow> binding_index_key \<Rightarrow> binding" where
  "binding_at s k = (case fmlookup (mb_m s) (key_string k) of None \<Rightarrow> zero_binding | Some b \<Rightarrow> b)"

definition mb_list :: "string \<Rightarrow> memory_bindings \<Rightarrow> fed_error + binding list" where
  "mb_list user s = Inr (map (binding_at s) (user_keys s user))"

definition mb_list_all :: "memory_bindings \<Rightarrow> fed_error + binding list" where
  "mb_list_all s = Inr (map (binding_at s) (mb_index s))"

definition bindingIndexAfter :: "binding_index_key \<Rightarrow> string \<Rightarrow> string \<Rightarrow> string \<Rightarrow> bool" where
  "bindingIndexAfter k user game src =
     (if user = [] \<and> game = [] \<and> src = [] then True
      else if bk_user k \<noteq> user then bk_user k > user
      else if bk_game k \<noteq> game then bk_game k > game
      else bk_source k > src)"

definition mb_page ::
  "string \<Rightarrow> string \<Rightarrow> string \<Rightarrow> int \<Rightarrow> memory_bindings \<Rightarrow> fed_error + binding list" where
  "mb_page user game src limit s =
     (let limit = (if limit \<le> 0 then 1 else limit);
          pos = sort_search (length (mb_index s)) (\<lambda>i. bindingIndexAfter (mb_index s ! i) user game src);
          end = min (pos + nat limit) (length (mb_index s))
      in Inr (map (binding_at s) (take (end - pos) (drop pos (mb_index s)))))"

definition memory_binding_store :: "memory_bindings binding_store" where
  "memory_binding_store =
     \<lparr>bs_get = mb_get, bs_put = mb_put, bs_put_if = mb_put_if, bs_create = mb_create, bs_delete = mb_delete,
      bs_list = mb_list, bs_list_all = mb_list_all, bs_page = Some mb_page\<rparr>"

section \<open>Pending bind flows\<close>

record bind_flow =
  bf_id :: string
  bf_user :: string
  bf_game :: string
  bf_source :: string
  bf_verifier :: string
  bf_state :: string
  bf_return :: string
  bf_expires :: time
  bf_bound :: bool
  bf_version :: "64 word"

record 'f flow_store =
  fl_put :: "bind_flow \<Rightarrow> 'f \<Rightarrow> (fed_error + unit) \<times> 'f"
  fl_consume :: "string \<Rightarrow> 'f \<Rightarrow> (fed_error + bind_flow) \<times> 'f"
  fl_purge :: "string \<Rightarrow> 'f \<Rightarrow> (fed_error + nat) \<times> 'f"

type_synonym memory_flows = "(string, bind_flow) fmap"

definition NewMemoryBindFlowStore :: memory_flows where "NewMemoryBindFlowStore = fmempty"

definition mf_put :: "bind_flow \<Rightarrow> memory_flows \<Rightarrow> (fed_error + unit) \<times> memory_flows" where
  "mf_put f m = (Inr (), fmupd (bf_state f) f m)"

definition mf_consume :: "string \<Rightarrow> memory_flows \<Rightarrow> (fed_error + bind_flow) \<times> memory_flows" where
  "mf_consume state m =
     (case fmlookup m state of None \<Rightarrow> (Inl ErrUnknownBind, m) | Some f \<Rightarrow> (Inr f, fmdrop state m))"

definition mf_purge :: "string \<Rightarrow> memory_flows \<Rightarrow> (fed_error + nat) \<times> memory_flows" where
  "mf_purge user m =
     (Inr (fm_count (\<lambda>f. bf_user f = user) m), fm_drop_where (\<lambda>f. bf_user f = user) m)"

definition mf_sweep :: "time \<Rightarrow> memory_flows \<Rightarrow> nat \<times> memory_flows" where
  "mf_sweep now m =
     (fm_count (\<lambda>f. \<not> now < bf_expires f) m, fm_drop_where (\<lambda>f. \<not> now < bf_expires f) m)"

definition memory_flow_store :: "memory_flows flow_store" where
  "memory_flow_store = \<lparr>fl_put = mf_put, fl_consume = mf_consume, fl_purge = mf_purge\<rparr>"

section \<open>Keys\<close>

definition key_clean :: "binding_index_key \<Rightarrow> bool" where
  "key_clean k \<longleftrightarrow> CHR ''|'' \<notin> set (bk_user k) \<and> CHR ''|'' \<notin> set (bk_game k) \<and> CHR ''|'' \<notin> set (bk_source k)"

lemma key_string_inj:
  assumes "key_clean k'"
  shows "key_string k = key_string k' \<longleftrightarrow> k = k'"
proof
  assume eq: "key_string k = key_string k'"
  let ?bars = "\<lambda>s. count_list s (CHR ''|'')"
  have "?bars (key_string k) = ?bars (key_string k')" by (rule arg_cong [OF eq])
  then have "?bars (bk_user k) = 0" "?bars (bk_game k) = 0"
    using assms by (simp_all add: key_clean_def key_string_def bindingKey_def count_list_0_iff)
  then have clean: "CHR ''|'' \<notin> set (bk_user k)" "CHR ''|'' \<notin> set (bk_game k)"
    by (simp_all add: count_list_0_iff)
  have "bk_user k = bk_user k'" "bk_game k @ CHR ''|'' # bk_source k = bk_game k' @ CHR ''|'' # bk_source k'"
    using eq append_sep_inj [OF clean(1), of "bk_user k'"] assms
    by (simp_all add: key_clean_def key_string_def bindingKey_def)
  with append_sep_inj [OF clean(2), of "bk_game k'"] assms show "k = k'"
    by (simp add: key_clean_def binding_index_key.expand)
qed simp

lemma binding_key_string: "bindingKey (bd_user b) (bd_game b) (bd_source b) = key_string (binding_key b)"
  by (simp add: key_string_def binding_key_def)

section \<open>The indexes mirror the map\<close>

definition index_ok :: "memory_bindings \<Rightarrow> bool" where
  "index_ok s \<longleftrightarrow> sorted_wrt (<) (mb_index s)
     \<and> (\<forall>u. sorted_wrt (<) (user_keys s u) \<and> set (user_keys s u) = {k \<in> set (mb_index s). bk_user k = u}
          \<and> fmlookup (mb_byUser s) u \<noteq> Some [])"

definition bindings_ok :: "memory_bindings \<Rightarrow> bool" where
  "bindings_ok s \<longleftrightarrow> index_ok s
     \<and> (\<forall>x b. fmlookup (mb_m s) x = Some b \<longrightarrow> x = key_string (binding_key b) \<and> key_clean (binding_key b))
     \<and> (\<forall>k. k \<in> set (mb_index s) \<longleftrightarrow> fmlookup (mb_m s) (key_string k) \<noteq> None)"

lemma not_bindingIndexLess: "\<not> bindingIndexLess a b \<longleftrightarrow> b \<le> a"
  by (simp flip: less_binding_index_key_def add: not_less)

lemma mb_index_slice:
  "mb_insertIndex k ks = slice_insert k ks" "mb_removeIndex k ks = slice_remove k ks"
  by (simp_all add: mb_insertIndex_def mb_removeIndex_def mb_indexOf_def slice_insert_def slice_remove_def
      slice_has_def slice_pos_def not_bindingIndexLess not_less Let_def)

lemma user_pos_slice:
  assumes "\<forall>x \<in> set ks. bk_user x = bk_user k"
  shows "user_pos ks k = slice_pos ks k"
  unfolding user_pos_def slice_pos_def
proof (rule sort_search_cong)
  fix i assume "i < length ks"
  then have "bk_user (ks ! i) = bk_user k" using assms by (metis nth_mem)
  then show "(\<not> bindingUserIndexLess (ks ! i) k) = (\<not> ks ! i < k)"
    by (simp add: bindingUserIndexLess_def less_binding_index_key_def bindingIndexLess_def)
qed

lemma user_keys_upd [simp]:
  "user_keys (s\<lparr>mb_m := m\<rparr>) u = user_keys s u" "user_keys (s\<lparr>mb_index := ix\<rparr>) u = user_keys s u"
  by (simp_all add: user_keys_def)

lemma insertUserIndex_eq:
  assumes "\<forall>x \<in> set (user_keys s (bk_user k)). bk_user x = bk_user k"
  shows "insertUserIndex k s =
    s\<lparr>mb_byUser := fmupd (bk_user k) (slice_insert k (user_keys s (bk_user k))) (mb_byUser s)\<rparr>"
  by (simp add: insertUserIndex_def slice_insert_def user_pos_slice [OF assms] Let_def)

lemma add_key_index:
  assumes ok: "index_ok s" and new: "k \<notin> set (mb_index s)"
  shows "index_ok (add_key k s)" "set (mb_index (add_key k s)) = insert k (set (mb_index s))"
    "mb_m (add_key k s) = mb_m s"
proof -
  have u: "sorted_wrt (<) (user_keys s u)" "set (user_keys s u) = {k \<in> set (mb_index s). bk_user k = u}"
    "fmlookup (mb_byUser s) u \<noteq> Some []" for u
    using ok by (simp_all add: index_ok_def)
  have eq: "add_key k s = s\<lparr>mb_index := slice_insert k (mb_index s),
      mb_byUser := fmupd (bk_user k) (slice_insert k (user_keys s (bk_user k))) (mb_byUser s)\<rparr>"
    by (simp add: add_key_def mb_index_slice insertUserIndex_eq u)
  have ix: "sorted_wrt (<) (slice_insert k (mb_index s))"
    "set (slice_insert k (mb_index s)) = insert k (set (mb_index s))"
    using slice_insert_ok [OF _ new] ok by (simp_all add: index_ok_def)
  have keys: "user_keys (add_key k s) v = (if v = bk_user k then slice_insert k (user_keys s v) else user_keys s v)" for v
    by (simp add: eq user_keys_def)
  have ins: "sorted_wrt (<) (slice_insert k (user_keys s (bk_user k)))"
    "set (slice_insert k (user_keys s (bk_user k))) = insert k (set (user_keys s (bk_user k)))"
    using slice_insert_ok [OF u(1), of k] new by (simp_all add: u(2))
  have look: "fmlookup (mb_byUser (add_key k s)) v \<noteq> Some []" for v
    using ins(2) u(3) by (auto simp: eq)
  show "set (mb_index (add_key k s)) = insert k (set (mb_index s))" "mb_m (add_key k s) = mb_m s"
    using ix by (simp_all add: eq)
  have "sorted_wrt (<) (user_keys (add_key k s) v)" for v using ins u by (simp add: keys)
  moreover have "set (user_keys (add_key k s) v) = {x \<in> set (mb_index (add_key k s)). bk_user x = v}" for v
  proof -
    have "set (user_keys (add_key k s) v) = (if v = bk_user k then insert k (set (user_keys s v)) else set (user_keys s v))"
      using ins(2) by (simp add: keys)
    moreover have "set (mb_index (add_key k s)) = insert k (set (mb_index s))" using ix by (simp add: eq)
    ultimately show ?thesis by (auto simp: u(2))
  qed
  ultimately show "index_ok (add_key k s)" using look ix by (simp add: index_ok_def eq)
qed

lemma removeUserIndex_keys:
  assumes "\<forall>x \<in> set (user_keys s (bk_user k)). bk_user x = bk_user k" and "sorted_wrt (<) (user_keys s (bk_user k))"
  shows "user_keys (removeUserIndex k s) v =
      (if v = bk_user k then filter (\<lambda>x. x \<noteq> k) (user_keys s v) else user_keys s v)"
    and "fmlookup (mb_byUser s) v \<noteq> Some [] \<Longrightarrow> fmlookup (mb_byUser (removeUserIndex k s)) v \<noteq> Some []"
    and "mb_m (removeUserIndex k s) = mb_m s" "mb_index (removeUserIndex k s) = mb_index s"
proof -
  let ?ks = "user_keys s (bk_user k)"
  have has: "(user_pos ?ks k \<ge> length ?ks \<or> ?ks ! user_pos ?ks k \<noteq> k) \<longleftrightarrow> \<not> slice_has ?ks k"
    by (auto simp: slice_has_def user_pos_slice [OF assms(1)])
  have eq: "removeUserIndex k s =
      (if \<not> slice_has ?ks k then s
       else if slice_remove k ?ks = [] then s\<lparr>mb_byUser := fmdrop (bk_user k) (mb_byUser s)\<rparr>
       else s\<lparr>mb_byUser := fmupd (bk_user k) (slice_remove k ?ks) (mb_byUser s)\<rparr>)"
    unfolding removeUserIndex_def Let_def has by (simp add: slice_remove_def user_pos_slice [OF assms(1)])
  note rem = slice_remove_eq [OF assms(2), of k]
  show "user_keys (removeUserIndex k s) v =
      (if v = bk_user k then filter (\<lambda>x. x \<noteq> k) (user_keys s v) else user_keys s v)"
  proof (cases "slice_has ?ks k")
    case True
    then show ?thesis unfolding eq rem by (simp add: user_keys_def)
  next
    case False
    then have "slice_remove k ?ks = ?ks" by (simp add: slice_remove_def)
    with False rem show ?thesis unfolding eq by simp
  qed
  show "fmlookup (mb_byUser s) v \<noteq> Some [] \<Longrightarrow> fmlookup (mb_byUser (removeUserIndex k s)) v \<noteq> Some []"
    "mb_m (removeUserIndex k s) = mb_m s" "mb_index (removeUserIndex k s) = mb_index s"
    unfolding eq by simp_all
qed

lemma drop_key_index:
  fixes m :: "(string, binding) fmap" and k :: binding_index_key
  assumes ok: "index_ok s"
  defines "s' \<equiv> removeUserIndex k (s\<lparr>mb_m := m, mb_index := mb_removeIndex k (mb_index s)\<rparr>)"
  shows "index_ok s'" "set (mb_index s') = set (mb_index s) - {k}" "mb_m s' = m"
proof -
  have u: "sorted_wrt (<) (user_keys s u)" "set (user_keys s u) = {k \<in> set (mb_index s). bk_user k = u}"
    "fmlookup (mb_byUser s) u \<noteq> Some []" for u
    using ok by (simp_all add: index_ok_def)
  let ?s = "s\<lparr>mb_m := m, mb_index := mb_removeIndex k (mb_index s)\<rparr>"
  have ix: "mb_removeIndex k (mb_index s) = filter (\<lambda>x. x \<noteq> k) (mb_index s)"
    using ok by (simp add: mb_index_slice slice_remove_eq index_ok_def)
  have a: "\<forall>x \<in> set (user_keys ?s (bk_user k)). bk_user x = bk_user k"
    and b: "sorted_wrt (<) (user_keys ?s (bk_user k))" using u by simp_all
  note r = removeUserIndex_keys [OF a b, folded s'_def]
  show "set (mb_index s') = set (mb_index s) - {k}" "mb_m s' = m" by (auto simp: r ix)
  have "sorted_wrt (<) (user_keys s' v)" for v
    using u(1) by (simp add: r sorted_wrt_filter)
  moreover have "set (user_keys s' v) = {x \<in> set (mb_index s'). bk_user x = v}" for v
    by (auto simp: r ix u)
  moreover have "fmlookup (mb_byUser s') v \<noteq> Some []" for v using r(2) [of v] u(3) by simp
  ultimately show "index_ok s'" using ok by (simp add: index_ok_def r ix sorted_wrt_filter)
qed

lemma index_ok_upd [simp]: "index_ok (s\<lparr>mb_m := m\<rparr>) = index_ok s"
  by (simp add: index_ok_def)

lemma bindings_ok_new: "bindings_ok NewMemoryBindingStore"
  by (simp add: bindings_ok_def index_ok_def NewMemoryBindingStore_def user_keys_def)

lemma bindings_ok_row:
  assumes "bindings_ok s" and "fmlookup (mb_m s) x = Some b"
  shows "x = key_string (binding_key b)" "key_clean (binding_key b)"
  using assms by (auto simp: bindings_ok_def)

text \<open>Storing a row whose key the indexes already list.\<close>

lemma store_row_ok:
  assumes ok: "index_ok s" and clean: "key_clean (binding_key b)"
    and rows: "\<forall>x b. fmlookup (mb_m s) x = Some b \<longrightarrow> x = key_string (binding_key b) \<and> key_clean (binding_key b)"
    and keys: "\<forall>k. k \<in> set (mb_index s) \<longleftrightarrow> k = binding_key b \<or> fmlookup (mb_m s) (key_string k) \<noteq> None"
  shows "bindings_ok (s\<lparr>mb_m := fmupd (key_string (binding_key b)) b (mb_m s)\<rparr>)"
proof -
  have "k \<in> set (mb_index s) \<longleftrightarrow>
      fmlookup (fmupd (key_string (binding_key b)) b (mb_m s)) (key_string k) \<noteq> None" for k
    using keys key_string_inj [OF clean, of k] by (cases "k = binding_key b") auto
  with ok rows clean show ?thesis by (simp add: bindings_ok_def)
qed

lemma bindings_ok_create:
  assumes ok: "bindings_ok s" and clean: "key_clean (binding_key b)"
    and new: "fmlookup (mb_m s) (key_string (binding_key b)) = None"
  shows "bindings_ok ((add_key (binding_key b) s)\<lparr>mb_m := fmupd (key_string (binding_key b)) b (mb_m s)\<rparr>)"
proof -
  have ix: "index_ok s" "binding_key b \<notin> set (mb_index s)" using ok new by (simp_all add: bindings_ok_def)
  note add = add_key_index [OF ix]
  have "bindings_ok ((add_key (binding_key b) s)\<lparr>mb_m := fmupd (key_string (binding_key b)) b
      (mb_m (add_key (binding_key b) s))\<rparr>)"
    using ok by (intro store_row_ok add(1) clean) (simp_all add: add bindings_ok_def)
  then show ?thesis by (simp add: add)
qed

lemma bindings_ok_replace:
  assumes ok: "bindings_ok s" and clean: "key_clean (binding_key b)"
    and old: "fmlookup (mb_m s) (key_string (binding_key b)) \<noteq> None"
  shows "bindings_ok (s\<lparr>mb_m := fmupd (key_string (binding_key b)) b (mb_m s)\<rparr>)"
  using ok old by (intro store_row_ok clean) (auto simp: bindings_ok_def)

lemma bindings_ok_delete:
  assumes ok: "bindings_ok s"
  shows "bindings_ok (snd (mb_delete user game src s))"
proof (cases "fmlookup (mb_m s) (bindingKey user game src)")
  case (Some b)
  let ?k = "BKey user game src"
  let ?s = "removeUserIndex ?k (s\<lparr>mb_m := fmdrop (key_string ?k) (mb_m s), mb_index := mb_removeIndex ?k (mb_index s)\<rparr>)"
  have del: "snd (mb_delete user game src s) = ?s"
    using Some by (simp add: mb_delete_def key_string_def Let_def)
  have key: "key_clean ?k"
  proof -
    have "key_string ?k = key_string (binding_key b)" "key_clean (binding_key b)"
      using bindings_ok_row [OF ok Some] by (simp_all add: key_string_def)
    then show ?thesis using key_string_inj [of "binding_key b" ?k] by simp
  qed
  note d = drop_key_index [of s ?k "fmdrop (key_string ?k) (mb_m s)"]
  have "k \<in> set (mb_index ?s) \<longleftrightarrow> fmlookup (mb_m ?s) (key_string k) \<noteq> None" for k
    using ok d key_string_inj [OF key, of k] by (auto simp: bindings_ok_def)
  then show ?thesis using ok d unfolding del by (auto simp: bindings_ok_def)
qed (use ok in \<open>simp add: mb_delete_def\<close>)

section \<open>The contract of a binding store\<close>

text \<open>
  What the service relies on: a row is found under its own key, the compare-and-swap writes
  exactly when the stored version is the expected one, \<open>Create\<close> exactly when there is no row, and
  a deletion removes that row alone.
\<close>

locale binding_rows =
  fixes st :: "'b binding_store" and ok :: "'b \<Rightarrow> bool"
  assumes get_key: "ok s \<Longrightarrow> bs_get st u g n s = Inr b \<Longrightarrow> binding_key b = BKey u g n"
    and put_if_row: "ok s \<Longrightarrow> key_clean (binding_key b) \<Longrightarrow> bs_put_if st b v s = (Inr won, s') \<Longrightarrow>
      ok s' \<and> (won \<longleftrightarrow> (\<exists>b0. bs_get st (bd_user b) (bd_game b) (bd_source b) s = Inr b0 \<and> bd_version b0 = v))
      \<and> (\<forall>u g n. bs_get st u g n s' = (if won \<and> BKey u g n = binding_key b then Inr b else bs_get st u g n s))"
    and create_row: "ok s \<Longrightarrow> key_clean (binding_key b) \<Longrightarrow> bs_create st b s = (Inr won, s') \<Longrightarrow>
      ok s' \<and> (won \<longleftrightarrow> isl (bs_get st (bd_user b) (bd_game b) (bd_source b) s))
      \<and> (\<forall>u g n. bs_get st u g n s' = (if won \<and> BKey u g n = binding_key b then Inr b else bs_get st u g n s))"
    and delete_row: "ok s \<Longrightarrow> bs_delete st u g n s = (Inr (), s') \<Longrightarrow>
      ok s' \<and> (\<forall>u' g' n'. bs_get st u' g' n' s' =
        (if BKey u' g' n' = BKey u g n then Inl ErrNotBound else bs_get st u' g' n' s))"
    and list_rows: "ok s \<Longrightarrow> bs_list st u s = Inr bs \<Longrightarrow>
      distinct bs \<and> set bs = {b. bs_get st u (bd_game b) (bd_source b) s = Inr b}"

lemma mb_get_row: "mb_get u g n s = (case fmlookup (mb_m s) (key_string (BKey u g n)) of None \<Rightarrow> Inl ErrNotBound | Some b \<Rightarrow> Inr b)"
  by (simp add: mb_get_def key_string_def)

lemma mb_get_key:
  assumes "bindings_ok s" and "mb_get u g n s = Inr b"
  shows "binding_key b = BKey u g n" "key_clean (BKey u g n)"
proof -
  have "fmlookup (mb_m s) (key_string (BKey u g n)) = Some b"
    using assms(2) by (auto simp: mb_get_row split: option.split_asm)
  from bindings_ok_row [OF assms(1) this] show "binding_key b = BKey u g n" "key_clean (BKey u g n)"
    using key_string_inj [of "binding_key b" "BKey u g n"] by auto
qed

lemma mb_get_store:
  assumes "key_clean (binding_key b)"
  shows "mb_get u g n (s\<lparr>mb_m := fmupd (key_string (binding_key b)) b m\<rparr>) =
    (if BKey u g n = binding_key b then Inr b else mb_get u g n (s\<lparr>mb_m := m\<rparr>))"
  using key_string_inj [OF assms, of "BKey u g n"] by (auto simp: mb_get_row)

lemma mb_get_m: "mb_get u g n (s\<lparr>mb_m := mb_m s'\<rparr>) = mb_get u g n s'"
  by (simp add: mb_get_def)

lemma mb_put_if_total: "\<exists>won s'. mb_put_if b v s = (Inr won, s')"
  by (auto simp: mb_put_if_def Let_def split: option.split)

lemma mb_create_total: "\<exists>won s'. mb_create b s = (Inr won, s')"
  by (auto simp: mb_create_def Let_def)

lemma mb_put_row:
  assumes ok: "bindings_ok s" and clean: "key_clean (binding_key b)"
  shows "bindings_ok (snd (mb_put b s))
    \<and> (\<forall>u g n. mb_get u g n (snd (mb_put b s)) = (if BKey u g n = binding_key b then Inr b else mb_get u g n s))"
proof (cases "fmlookup (mb_m s) (key_string (binding_key b))")
  case None
  have m: "mb_m (add_key (binding_key b) s) = mb_m s"
    using ok None by (intro add_key_index(3)) (simp_all add: bindings_ok_def)
  have "mb_get u g n ((add_key (binding_key b) s)\<lparr>mb_m := mb_m s\<rparr>) = mb_get u g n s" for u g n by (rule mb_get_m)
  with None m bindings_ok_create [OF assms None] show ?thesis
    by (simp add: mb_put_def binding_key_string Let_def mb_get_store [OF clean])
next
  case Some
  with bindings_ok_replace [OF assms] show ?thesis
    by (simp add: mb_put_def binding_key_string Let_def mb_get_store [OF clean] mb_get_m)
qed

lemma mb_put_if_row:
  assumes ok: "bindings_ok s" and clean: "key_clean (binding_key b)" and p: "mb_put_if b v s = (Inr won, s')"
  shows "bindings_ok s' \<and> (won \<longleftrightarrow> (\<exists>b0. mb_get (bd_user b) (bd_game b) (bd_source b) s = Inr b0 \<and> bd_version b0 = v))
    \<and> (\<forall>u g n. mb_get u g n s' = (if won \<and> BKey u g n = binding_key b then Inr b else mb_get u g n s))"
proof (cases won)
  case True
  let ?k = "key_string (binding_key b)"
  from p True have s': "s' = s\<lparr>mb_m := fmupd ?k b (mb_m s)\<rparr>" and old: "fmlookup (mb_m s) ?k \<noteq> None"
    and v: "\<exists>b0. mb_get (bd_user b) (bd_game b) (bd_source b) s = Inr b0 \<and> bd_version b0 = v"
    by (auto simp: mb_put_if_def mb_get_def binding_key_string Let_def split: option.split_asm if_splits)
  have "bindings_ok s'" unfolding s' by (rule bindings_ok_replace [OF ok clean old])
  with True v show ?thesis by (simp add: s' mb_get_store [OF clean] mb_get_m)
next
  case False
  with p have "s' = s" "\<nexists>b0. mb_get (bd_user b) (bd_game b) (bd_source b) s = Inr b0 \<and> bd_version b0 = v"
    by (auto simp: mb_put_if_def mb_get_def Let_def split: option.split_asm if_splits)
  with False ok show ?thesis by simp
qed

lemma mb_create_row:
  assumes ok: "bindings_ok s" and clean: "key_clean (binding_key b)" and p: "mb_create b s = (Inr won, s')"
  shows "bindings_ok s' \<and> (won \<longleftrightarrow> isl (mb_get (bd_user b) (bd_game b) (bd_source b) s))
    \<and> (\<forall>u g n. mb_get u g n s' = (if won \<and> BKey u g n = binding_key b then Inr b else mb_get u g n s))"
proof (cases won)
  case True
  let ?k = "key_string (binding_key b)" and ?a = "add_key (binding_key b) s"
  from p True have s': "s' = ?a\<lparr>mb_m := fmupd ?k b (mb_m ?a)\<rparr>" and new: "fmlookup (mb_m s) ?k = None"
    by (auto simp: mb_create_def binding_key_string Let_def split: if_splits)
  have m: "mb_m ?a = mb_m s"
    using ok new by (intro add_key_index(3)) (simp_all add: bindings_ok_def)
  have "bindings_ok s'" unfolding s' m by (rule bindings_ok_create [OF ok clean new])
  moreover have "mb_get u g n (?a\<lparr>mb_m := mb_m s\<rparr>) = mb_get u g n s" for u g n by (rule mb_get_m)
  ultimately show ?thesis using True new
    by (simp add: s' m mb_get_store [OF clean]) (simp add: mb_get_def binding_key_string)
next
  case False
  with p have "s' = s" "\<not> isl (mb_get (bd_user b) (bd_game b) (bd_source b) s)"
    by (auto simp: mb_create_def mb_get_def Let_def split: option.split if_splits)
  with False ok show ?thesis by simp
qed

lemma mb_delete_row:
  assumes ok: "bindings_ok s" and d: "mb_delete u g n s = (Inr (), s')"
  shows "bindings_ok s' \<and> (\<forall>u' g' n'. mb_get u' g' n' s' =
    (if BKey u' g' n' = BKey u g n then Inl ErrNotBound else mb_get u' g' n' s))"
proof -
  have "bindings_ok s'" using bindings_ok_delete [OF ok, of u g n] d by simp
  have m: "mb_m s' = fmdrop (key_string (BKey u g n)) (mb_m s)"
  proof (cases "fmlookup (mb_m s) (bindingKey u g n)")
    case None
    then show ?thesis using d by (auto simp: mb_delete_def key_string_def intro!: fmap_ext)
  next
    case (Some b)
    then show ?thesis
      using d ok drop_key_index(3) [of s "BKey u g n" "fmdrop (key_string (BKey u g n)) (mb_m s)"]
      by (auto simp: mb_delete_def key_string_def Let_def bindings_ok_def)
  qed
  have uniq: "key_string (BKey u' g' n') = key_string (BKey u g n) \<longleftrightarrow> BKey u' g' n' = BKey u g n"
    if "fmlookup (mb_m s) (key_string (BKey u' g' n')) = Some b" for u' g' n' b
  proof -
    have "key_clean (BKey u' g' n')" using mb_get_key(2) [OF ok, of u' g' n' b] that by (simp add: mb_get_row)
    from key_string_inj [OF this, of "BKey u g n"] show ?thesis by metis
  qed
  have "mb_get u' g' n' s' = (if BKey u' g' n' = BKey u g n then Inl ErrNotBound else mb_get u' g' n' s)" for u' g' n'
  proof (cases "fmlookup (mb_m s) (key_string (BKey u' g' n'))")
    case None
    then show ?thesis by (simp add: mb_get_row m)
  next
    case (Some b)
    show ?thesis unfolding mb_get_row m uniq [OF Some, symmetric] by simp
  qed
  with \<open>bindings_ok s'\<close> show ?thesis by blast
qed

lemma binding_at_key:
  assumes "bindings_ok s" and "fmlookup (mb_m s) (key_string k) \<noteq> None"
  shows "binding_key (binding_at s k) = k"
proof -
  obtain b where b: "fmlookup (mb_m s) (key_string k) = Some b" using assms(2) by blast
  with bindings_ok_row [OF assms(1) b] key_string_inj [of "binding_key b" k] show ?thesis
    by (simp add: binding_at_def)
qed

lemma mb_list_rows:
  assumes ok: "bindings_ok s" and l: "mb_list u s = Inr bs"
  shows "distinct bs \<and> set bs = {b. mb_get u (bd_game b) (bd_source b) s = Inr b}"
proof -
  have keys: "set (user_keys s u) = {k. bk_user k = u \<and> fmlookup (mb_m s) (key_string k) \<noteq> None}"
    and srt: "sorted_wrt (<) (user_keys s u)"
    using ok by (auto simp: bindings_ok_def index_ok_def)
  have bs: "bs = map (binding_at s) (user_keys s u)" using l by (simp add: mb_list_def)
  have at: "binding_key (binding_at s k) = k" if "k \<in> set (user_keys s u)" for k
    using that binding_at_key [OF ok] by (simp add: keys)
  have "inj_on (binding_at s) (set (user_keys s u))" by (rule inj_on_inverseI) (rule at)
  then have "distinct bs" using srt by (simp add: bs distinct_map strict_sorted_iff)
  moreover have "b \<in> set bs \<longleftrightarrow> mb_get u (bd_game b) (bd_source b) s = Inr b" for b
  proof
    assume "b \<in> set bs"
    then obtain k where k: "k \<in> set (user_keys s u)" "b = binding_at s k" by (auto simp: bs)
    then have "bk_user k = u" "binding_key b = k" using at [OF k(1)] by (simp_all add: keys)
    then have eq: "BKey u (bd_game b) (bd_source b) = k" by (auto simp: binding_key_def)
    have "fmlookup (mb_m s) (key_string k) = Some b" using k by (auto simp: binding_at_def keys)
    then show "mb_get u (bd_game b) (bd_source b) s = Inr b" unfolding mb_get_row eq by simp
  next
    assume "mb_get u (bd_game b) (bd_source b) s = Inr b"
    then have "fmlookup (mb_m s) (key_string (BKey u (bd_game b) (bd_source b))) = Some b"
      by (simp add: mb_get_row split: option.split_asm)
    then have "BKey u (bd_game b) (bd_source b) \<in> set (user_keys s u)"
      "binding_at s (BKey u (bd_game b) (bd_source b)) = b" by (simp_all add: keys binding_at_def)
    then show "b \<in> set bs" by (metis bs image_eqI list.set_map)
  qed
  ultimately show ?thesis by blast
qed

lemmas mb_ops = memory_binding_store_def binding_store.select_convs

interpretation mem_rows: binding_rows memory_binding_store bindings_ok
  by (unfold_locales; unfold mb_ops)
     (rule mb_get_key(1) mb_put_if_row mb_create_row mb_delete_row mb_list_rows; assumption)+

section \<open>Listing and paging\<close>

definition all_rows :: "memory_bindings \<Rightarrow> binding list" where
  "all_rows s = map (binding_at s) (mb_index s)"

lemma bindingIndexAfter_iff: "bindingIndexAfter k u g n \<longleftrightarrow> (u = [] \<and> g = [] \<and> n = []) \<or> BKey u g n < k"
  by (auto simp: bindingIndexAfter_def less_binding_index_key_def bindingIndexLess_def)

lemma all_rows_keys:
  assumes "bindings_ok s"
  shows "map binding_key (all_rows s) = mb_index s"
proof -
  have "binding_key (binding_at s k) = k" if "k \<in> set (mb_index s)" for k
    using that assms by (intro binding_at_key) (simp_all add: bindings_ok_def)
  then show ?thesis by (simp add: all_rows_def map_idI)
qed

lemma all_rows_sorted: "bindings_ok s \<Longrightarrow> sorted_wrt (<) (map binding_key (all_rows s))"
  by (simp add: all_rows_keys) (simp add: bindings_ok_def index_ok_def)

lemma all_rows_set:
  assumes "bindings_ok s"
  shows "b \<in> set (all_rows s) \<longleftrightarrow> mb_get (bd_user b) (bd_game b) (bd_source b) s = Inr b"
proof -
  have ix: "k \<in> set (mb_index s) \<longleftrightarrow> fmlookup (mb_m s) (key_string k) \<noteq> None" for k
    using assms by (simp add: bindings_ok_def)
  show ?thesis
  proof
    assume "b \<in> set (all_rows s)"
    then obtain k where k: "k \<in> set (mb_index s)" "b = binding_at s k" by (auto simp: all_rows_def)
    then have "fmlookup (mb_m s) (key_string k) = Some b" by (auto simp: ix binding_at_def)
    moreover have "binding_key b = k" using k binding_at_key [OF assms, of k] by (simp add: ix)
    ultimately show "mb_get (bd_user b) (bd_game b) (bd_source b) s = Inr b"
      by (simp add: mb_get_row flip: binding_key_def)
  next
    assume "mb_get (bd_user b) (bd_game b) (bd_source b) s = Inr b"
    then have b: "fmlookup (mb_m s) (key_string (binding_key b)) = Some b"
      by (simp add: mb_get_row flip: binding_key_def split: option.split_asm)
    then have "binding_key b \<in> set (mb_index s)" by (simp add: ix)
    moreover have "binding_at s (binding_key b) = b" using b by (simp add: binding_at_def)
    ultimately show "b \<in> set (all_rows s)" unfolding all_rows_def by (metis image_eqI list.set_map)
  qed
qed

lemma mb_page_eq:
  assumes "bindings_ok s"
  shows "mb_page u g n limit s =
     Inr (take (nat (max 1 limit)) (filter (\<lambda>b. bindingIndexAfter (binding_key b) u g n) (all_rows s)))"
proof -
  let ?after = "\<lambda>k. bindingIndexAfter k u g n"
  have "sorted_wrt (<) (mb_index s)" using assms by (simp add: bindings_ok_def index_ok_def)
  then have srt: "sorted_wrt (\<lambda>a b. ?after a \<longrightarrow> ?after b) (mb_index s)"
    unfolding bindingIndexAfter_iff by (rule sorted_wrt_mono_rel [rotated]) auto
  note sp = sort_search_split [OF srt]
  have ident: "binding_key (binding_at s k) = k" if "k \<in> set (mb_index s)" for k
    using that assms by (intro binding_at_key) (simp_all add: bindings_ok_def)
  have "filter (\<lambda>b. ?after (binding_key b)) (all_rows s) = map (binding_at s) (filter ?after (mb_index s))"
    unfolding all_rows_def filter_map comp_def
    by (intro arg_cong [of _ _ "map (binding_at s)"] filter_cong) (simp_all add: ident)
  moreover have "mb_page u g n limit s = Inr (map (binding_at s) (take (nat (max 1 limit))
      (drop (sort_search (length (mb_index s)) (\<lambda>i. ?after (mb_index s ! i))) (mb_index s))))"
    by (auto simp: mb_page_def Let_def min_def max_def take_all intro!: arg_cong [of _ _ "map (binding_at s)"])
  ultimately show ?thesis by (simp add: sp(2) take_map)
qed

section \<open>Properties\<close>

text \<open>
  The vault key of a binding names one binding. Names that passed registration contain no
  full stop, so two bindings share an identity only when account, game and source agree; and the
  identity is always one the vault accepts.
\<close>

theorem binding_identity_names_one:
  assumes "name_ok (bd_game b)" "name_ok (bd_source b)" "name_ok (bd_game b')" "name_ok (bd_source b')"
    and "bd_user b \<noteq> []" "length (bd_user b) \<le> 1024"
  shows "(BindingIdentity b = BindingIdentity b' \<longleftrightarrow> binding_key b = binding_key b')
     \<and> id_validate (BindingIdentity b) = None \<and> length (id_provider (BindingIdentity b)) \<le> 257"
proof -
  have "CHR ''.'' \<notin> set (bd_game b)" "CHR ''.'' \<notin> set (bd_game b')"
    using assms(1,3) name_ok_excludes(2) by blast+
  from append_sep_inj [OF this] have "BindingIdentity b = BindingIdentity b' \<longleftrightarrow> binding_key b = binding_key b'"
    by (simp add: BindingIdentity_def binding_key_def)
  moreover have "length (bd_game b) \<le> 128" "length (bd_source b) \<le> 128"
    using assms(1,2) by (simp_all add: name_ok_def maxSourceNameBytes_def)
  ultimately show ?thesis
    using assms(5,6) by (simp add: id_validate_def BindingIdentity_def maxIdentityFieldLen_def)
qed

theorem binding_identity_names_one_witness:
  "BindingIdentity (zero_binding\<lparr>bd_user := ''u'', bd_game := ''g'', bd_source := ''x''\<rparr>)
     \<noteq> BindingIdentity (zero_binding\<lparr>bd_user := ''u'', bd_game := ''g'', bd_source := ''y''\<rparr>)
   \<and> id_validate (BindingIdentity (zero_binding\<lparr>bd_user := ''u'', bd_game := ''g'', bd_source := ''x''\<rparr>)) = None"
proof -
  have n: "name_ok ''g''" "name_ok ''x''" "name_ok ''y''" by code_simp+
  show ?thesis
    using binding_identity_names_one [of "zero_binding\<lparr>bd_user := ''u'', bd_game := ''g'', bd_source := ''x''\<rparr>"
        "zero_binding\<lparr>bd_user := ''u'', bd_game := ''g'', bd_source := ''y''\<rparr>"] n
    by (simp add: binding_key_def)
qed

text \<open>
  C32. The in-memory binding store. Every operation, for a key without the separator of the key
  string, keeps both indexes equal to the map and has the effect of its contract on every row: a
  put writes the row; a create writes it exactly if there was none; the compare-and-swap reports
  success and writes the row exactly if the stored one has the version it expects, and changes
  nothing otherwise; a delete removes that row; no other row changes. An account's listing is its
  rows, and a page is the window after the cursor of all rows in (user, game, source) order, so
  the sweep visits each once.
\<close>

theorem binding_store_index:
  assumes "bindings_ok s" and "key_clean (binding_key b)"
  defines "held \<equiv> mb_get (bd_user b) (bd_game b) (bd_source b) s"
    and "after s' wrote row \<equiv> \<forall>u' g' n'. mb_get u' g' n' s' = (if wrote \<and> BKey u' g' n' = binding_key b then row else mb_get u' g' n' s)"
  shows "bindings_ok (snd (mb_put b s)) \<and> bindings_ok (snd (mb_put_if b v s))
     \<and> bindings_ok (snd (mb_create b s)) \<and> bindings_ok (snd (mb_delete u g n s))
     \<and> after (snd (mb_put b s)) True (Inr b)
     \<and> fst (mb_put_if b v s) = Inr (\<exists>b0. held = Inr b0 \<and> bd_version b0 = v)
     \<and> after (snd (mb_put_if b v s)) (\<exists>b0. held = Inr b0 \<and> bd_version b0 = v) (Inr b)
     \<and> fst (mb_create b s) = Inr (isl held) \<and> after (snd (mb_create b s)) (isl held) (Inr b)
     \<and> (\<forall>u' g' n'. mb_get u' g' n' (snd (mb_delete u g n s)) =
          (if BKey u' g' n' = BKey u g n then Inl ErrNotBound else mb_get u' g' n' s))
     \<and> (\<exists>bs. mb_list u s = Inr bs \<and> distinct bs \<and> set bs = {b. mb_get u (bd_game b) (bd_source b) s = Inr b})
     \<and> mb_page u g n limit s =
         Inr (take (nat (max 1 limit)) (filter (\<lambda>b. bindingIndexAfter (binding_key b) u g n) (all_rows s)))
     \<and> sorted_wrt (<) (map binding_key (all_rows s))"
proof -
  obtain won s1 where pi: "mb_put_if b v s = (Inr won, s1)" using mb_put_if_total by blast
  obtain new s2 where cr: "mb_create b s = (Inr new, s2)" using mb_create_total by blast
  obtain s3 where de: "mb_delete u g n s = (Inr (), s3)"
    by (cases "fmlookup (mb_m s) (bindingKey u g n) = None") (auto simp: mb_delete_def Let_def)
  obtain bs where l: "mb_list u s = Inr bs" by (simp add: mb_list_def)
  have "after s1 won (Inr b)" "won = (\<exists>b0. held = Inr b0 \<and> bd_version b0 = v)" "bindings_ok s1"
    using mb_put_if_row [OF assms(1,2) pi] by (simp_all add: after_def held_def)
  moreover have "after s2 new (Inr b)" "new = isl held" "bindings_ok s2"
    using mb_create_row [OF assms(1,2) cr] by (simp_all add: after_def held_def)
  moreover have "after (snd (mb_put b s)) True (Inr b)" "bindings_ok (snd (mb_put b s))"
    using mb_put_row [OF assms(1,2)] by (simp_all add: after_def)
  ultimately show ?thesis
    using mb_delete_row [OF assms(1) de] mb_list_rows [OF assms(1) l] mb_page_eq [OF assms(1)] all_rows_sorted [OF assms(1)]
    by (simp add: pi cr de l)
qed

theorem binding_store_index_witness:
  "(let b = zero_binding\<lparr>bd_user := ''u'', bd_version := 3\<rparr>; s = snd (mb_create b NewMemoryBindingStore);
        new = b\<lparr>bd_version := 4\<rparr> in
    fst (mb_put_if new 3 s) = Inr True \<and> mb_get ''u'' [] [] (snd (mb_put_if new 3 s)) = Inr new
    \<and> fst (mb_put_if new 2 s) = Inr False \<and> mb_get ''u'' [] [] (snd (mb_put_if new 2 s)) = Inr b)"
proof -
  define b where "b = zero_binding\<lparr>bd_user := ''u'', bd_version := 3\<rparr>"
  define new where "new = b\<lparr>bd_version := 4\<rparr>"
  define s where "s = snd (mb_create b NewMemoryBindingStore)"
  have f: "bd_user b = ''u''" "bd_game b = []" "bd_source b = []" "bd_version b = 3"
    "bd_user new = ''u''" "bd_game new = []" "bd_source new = []" by (simp_all add: new_def b_def zero_binding_def)
  have k: "key_clean (binding_key b)" "key_clean (binding_key new)" "binding_key b = BKey ''u'' [] []"
    "binding_key new = BKey ''u'' [] []" by (simp_all add: key_clean_def binding_key_def f)
  have none: "mb_get ''u'' [] [] NewMemoryBindingStore = Inl ErrNotBound" by (simp add: mb_get_def NewMemoryBindingStore_def)
  have s: "bindings_ok s" and get: "mb_get ''u'' [] [] s = Inr b"
    using binding_store_index [OF bindings_ok_new k(1)] none unfolding s_def f k by simp_all
  have "fst (mb_put_if new v s) = Inr (v = 3)"
    "mb_get ''u'' [] [] (snd (mb_put_if new v s)) = (if v = 3 then Inr new else Inr b)" for v
    using binding_store_index [OF s k(2), of v] get unfolding f k by (auto simp: f)
  then show ?thesis unfolding Let_def s_def b_def new_def by simp
qed

end
