(* ===== verification/Federation_Limits.thy ===== *)
theory Federation_Limits
  imports Go_Lib "HOL-Library.Multiset"
begin

text \<open>
  What bounds the data plane's memory and its calls: the joint byte budget of upstream bodies
  (\<^verbatim>\<open>bufferBudget\<close> in \<^verbatim>\<open>internal/federation/service.go\<close>) and the per-binding cooldown after
  repeated rejections (\<^verbatim>\<open>binding_cooldown.go\<close>).
  Byte counts are integers: a budget is at most a container's memory, far below 2^63. The
  nil-receiver guards are left out, the service always builds both. The cooldown's list element
  pointers are a list of keys, front first.
  Shown: over every sequence of reservations and matching releases, the bytes held are exactly
  those outstanding, within the limit overall and within the share for each caller; the cooldown
  table never exceeds its bound, its list mirrors it, it starts exactly at the threshold, and a
  rejection never changes another binding's state except by evicting the least recently used.
\<close>

section \<open>The byte budget\<close>

definition maxBody :: int where "maxBody = 4 * 1024 * 1024"
definition defaultMaxBufferedBytes :: int where "defaultMaxBufferedBytes = 64 * 1024 * 1024"

record budget =
  bu_limit :: int
  bu_share :: int
  bu_held :: int
  bu_perKey :: "(string, int) fmap"

definition bufferShare :: "int \<Rightarrow> int" where
  "bufferShare limit = (let share = limit div 4; floor = 2 * maxBody in if share < floor then floor else share)"

definition newBufferBudget :: "int \<Rightarrow> budget" where
  "newBufferBudget limit = \<lparr>bu_limit = limit, bu_share = bufferShare limit, bu_held = 0, bu_perKey = fmempty\<rparr>"

definition key_held :: "budget \<Rightarrow> string \<Rightarrow> int" where
  "key_held b k = (case fmlookup (bu_perKey b) k of None \<Rightarrow> 0 | Some n \<Rightarrow> n)"

definition budget_acquire :: "string \<Rightarrow> int \<Rightarrow> budget \<Rightarrow> bool \<times> budget" where
  "budget_acquire k n b =
     (if bu_held b + n > bu_limit b then (False, b)
      else if key_held b k + n > bu_share b then (False, b)
      else (True, b\<lparr>bu_held := bu_held b + n, bu_perKey := fmupd k (key_held b k + n) (bu_perKey b)\<rparr>))"

definition budget_release :: "string \<Rightarrow> int \<Rightarrow> budget \<Rightarrow> budget" where
  "budget_release k n b =
     (let held = bu_held b - n; held = (if held < 0 then 0 else held); left = key_held b k - n in
      b\<lparr>bu_held := held,
        bu_perKey := (if left \<le> 0 then fmdrop k (bu_perKey b) else fmupd k left (bu_perKey b))\<rparr>)"

definition reserveFor :: "int \<Rightarrow> int \<Rightarrow> int" where
  "reserveFor contentLength readCap =
     (if contentLength > 0 \<and> contentLength < readCap then contentLength + 1 else readCap)"

section \<open>Reservations in flight\<close>

text \<open>
  The budget together with the reservations not yet returned. A read reserves a positive number
  of bytes; what is released is a reservation that is outstanding.
\<close>

inductive budget_step ::
  "budget \<times> (string \<times> int) multiset \<Rightarrow> budget \<times> (string \<times> int) multiset \<Rightarrow> bool" where
  admitted: "0 < n \<Longrightarrow> budget_acquire k n b = (True, b') \<Longrightarrow> budget_step (b, out) (b', add_mset (k, n) out)"
| shed: "budget_acquire k n b = (False, b') \<Longrightarrow> budget_step (b, out) (b', out)"
| returned: "(k, n) \<in># out \<Longrightarrow> budget_step (b, out) (budget_release k n b, out - {#(k, n)#})"

inductive budget_reach :: "int \<Rightarrow> budget \<times> (string \<times> int) multiset \<Rightarrow> bool" where
  start: "0 \<le> limit \<Longrightarrow> budget_reach limit (newBufferBudget limit, {#})"
| step: "budget_reach limit c \<Longrightarrow> budget_step c c' \<Longrightarrow> budget_reach limit c'"

definition outstanding :: "(string \<times> int) multiset \<Rightarrow> int" where
  "outstanding out = sum_mset (image_mset snd out)"

definition outstanding_of :: "string \<Rightarrow> (string \<times> int) multiset \<Rightarrow> int" where
  "outstanding_of k out = outstanding (filter_mset (\<lambda>r. fst r = k) out)"

definition budget_ok :: "int \<Rightarrow> budget \<times> (string \<times> int) multiset \<Rightarrow> bool" where
  "budget_ok limit = (\<lambda>(b, out).
     bu_limit b = limit \<and> bu_share b = bufferShare limit \<and> (\<forall>r \<in># out. 0 < snd r)
     \<and> bu_held b = outstanding out \<and> bu_held b \<le> limit
     \<and> (\<forall>k. key_held b k = outstanding_of k out \<and> outstanding_of k out \<le> bufferShare limit
          \<and> fmlookup (bu_perKey b) k \<noteq> Some 0))"

lemma outstanding_add [simp]:
  "outstanding (add_mset r out) = snd r + outstanding out"
  "outstanding_of k (add_mset r out) = (if fst r = k then snd r else 0) + outstanding_of k out"
  by (simp_all add: outstanding_def outstanding_of_def)

lemma outstanding_empty [simp]: "outstanding {#} = 0" "outstanding_of k {#} = 0"
  by (simp_all add: outstanding_def outstanding_of_def)

lemma outstanding_nonneg: "\<forall>r \<in># out. 0 < snd r \<Longrightarrow> 0 \<le> outstanding out \<and> 0 \<le> outstanding_of k out"
  by (induction out) (auto split: if_splits)

lemma key_held_upd [simp]:
  "key_held (b\<lparr>bu_held := h, bu_perKey := fmupd k n m\<rparr>) j = (if j = k then n else key_held (b\<lparr>bu_perKey := m\<rparr>) j)"
  "key_held (b\<lparr>bu_held := h, bu_perKey := fmdrop k m\<rparr>) j = (if j = k then 0 else key_held (b\<lparr>bu_perKey := m\<rparr>) j)"
  "key_held (b\<lparr>bu_perKey := bu_perKey b\<rparr>) j = key_held b j"
  by (simp_all add: key_held_def)

lemma bufferShare_pos: "0 < bufferShare limit"
  by (simp add: bufferShare_def Let_def maxBody_def)

lemma budget_step_ok:
  assumes "budget_step c c'" and "budget_ok limit c"
  shows "budget_ok limit c'"
  using assms
proof (induction rule: budget_step.induct)
  case (admitted n k b b' out)
  then have b': "b' = b\<lparr>bu_held := bu_held b + n, bu_perKey := fmupd k (key_held b k + n) (bu_perKey b)\<rparr>"
    and fits: "bu_held b + n \<le> bu_limit b" "key_held b k + n \<le> bu_share b"
    by (auto simp: budget_acquire_def split: if_splits)
  have pos: "0 \<le> outstanding_of k out"
    using admitted(3) outstanding_nonneg by (simp add: budget_ok_def)
  from admitted(1,3) fits pos show ?case by (auto simp: budget_ok_def b' add.commute)
next
  case (shed k n b b' out)
  then show ?case by (auto simp: budget_acquire_def split: if_splits)
next
  case (returned k n out b)
  then obtain out' where out: "out = add_mset (k, n) out'" by (metis insert_DiffM)
  have n: "0 < n" and pos': "\<forall>r \<in># out'. 0 < snd r" using returned(2) by (auto simp: budget_ok_def out)
  have held: "bu_held b = n + outstanding out'" and kh: "key_held b j = (if k = j then n else 0) + outstanding_of j out'" for j
    using returned(2) by (auto simp: budget_ok_def out)
  have nn: "0 \<le> outstanding out'" "0 \<le> outstanding_of j out'" for j
    using outstanding_nonneg [OF pos', of j] by auto
  have rel: "budget_release k n b = b\<lparr>bu_held := outstanding out',
      bu_perKey := (if outstanding_of k out' \<le> 0 then fmdrop k (bu_perKey b)
                    else fmupd k (outstanding_of k out') (bu_perKey b))\<rparr>"
    using nn by (simp add: budget_release_def Let_def held kh)
  have "key_held (budget_release k n b) j = outstanding_of j out'" for j
    using nn(2) [of k] kh [of j] by (auto simp: rel)
  moreover have "bu_limit b = limit" "bu_share b = bufferShare limit" "bu_held b \<le> limit"
    "\<And>j. outstanding_of j out \<le> bufferShare limit" "\<And>j. fmlookup (bu_perKey b) j \<noteq> Some 0"
    using returned(2) by (auto simp: budget_ok_def)
  moreover have "fmlookup (bu_perKey (budget_release k n b)) j \<noteq> Some 0" for j
    using calculation(6) nn(2) [of k] by (auto simp: rel)
  moreover have "outstanding_of j out' \<le> bufferShare limit" for j
    using calculation(5) [of j] n by (simp add: out split: if_splits)
  ultimately show ?case using held n pos' by (simp add: budget_ok_def out rel)
qed

lemma budget_reach_ok: "budget_reach limit c \<Longrightarrow> budget_ok limit c"
proof (induction rule: budget_reach.induct)
  case (start limit)
  then show ?case by (simp add: budget_ok_def newBufferBudget_def key_held_def less_imp_le [OF bufferShare_pos])
qed (rule budget_step_ok)

text \<open>
  The memory bound of the data plane. However reservations and releases interleave, the bytes
  held are exactly the reservations outstanding, never more than the limit; no caller holds more
  than its share; and the per-caller table lists exactly the callers that hold something.
\<close>

theorem budget_bounds:
  assumes "budget_reach limit (b, out)"
  shows "bu_held b = outstanding out \<and> 0 \<le> bu_held b \<and> bu_held b \<le> limit
     \<and> key_held b k = outstanding_of k out \<and> key_held b k \<le> max (2 * maxBody) (limit div 4)
     \<and> (fmlookup (bu_perKey b) k \<noteq> None \<longleftrightarrow> (\<exists>n. (k, n) \<in># out))"
proof -
  have ok: "budget_ok limit (b, out)" by (rule budget_reach_ok [OF assms])
  then have pos: "\<forall>r \<in># out. 0 < snd r" by (simp add: budget_ok_def)
  have some: "0 < outstanding_of k out \<longleftrightarrow> (\<exists>n. (k, n) \<in># out)"
    using pos
  proof (induction out)
    case (add r out)
    then show ?case using outstanding_nonneg [of out k] by (cases r) (auto simp: add_pos_nonneg)
  qed simp
  have "fmlookup (bu_perKey b) k \<noteq> None \<longleftrightarrow> 0 < outstanding_of k out"
    using ok outstanding_nonneg [OF pos, of k]
    by (cases "fmlookup (bu_perKey b) k") (auto simp: budget_ok_def key_held_def split: option.split_asm dest!: spec [of _ k])
  with some ok outstanding_nonneg [OF pos, of k] show ?thesis
    by (simp add: budget_ok_def bufferShare_def Let_def max_def split: if_splits)
qed

theorem budget_bounds_witness:
  "\<exists>b. budget_reach defaultMaxBufferedBytes (b, {#(''u'', maxBody)#})
     \<and> bu_held b = maxBody \<and> key_held b ''u'' \<le> 16777216"
proof -
  obtain b where acq: "budget_acquire ''u'' maxBody (newBufferBudget defaultMaxBufferedBytes) = (True, b)"
    by (simp add: budget_acquire_def newBufferBudget_def key_held_def bufferShare_def defaultMaxBufferedBytes_def
        maxBody_def)
  have "budget_step (newBufferBudget defaultMaxBufferedBytes, {#}) (b, add_mset (''u'', maxBody) {#})"
    by (rule budget_step.admitted [OF _ acq]) (simp add: maxBody_def)
  then have r: "budget_reach defaultMaxBufferedBytes (b, {#(''u'', maxBody)#})"
    by (rule budget_reach.step [rotated]) (rule budget_reach.start, simp add: defaultMaxBufferedBytes_def)
  from budget_bounds [OF r, of "''u''"] r show ?thesis
    by (auto simp: maxBody_def defaultMaxBufferedBytes_def)
qed

section \<open>The per-binding cooldown\<close>

definition bindingCooldownThreshold :: nat where "bindingCooldownThreshold = 5"
definition bindingCooldownWindow :: duration where "bindingCooldownWindow = 30 * second"
definition maxCooledBindings :: nat where "maxCooledBindings = 4096"

text \<open>An entry is the number of consecutive rejections and the end of the window, zero until the threshold.\<close>

record cooldown =
  cd_limit :: nat
  cd_threshold :: nat
  cd_window :: duration
  cd_entries :: "(string, nat \<times> time) fmap"
  cd_lru :: "string list"

definition newBindingCooldown :: "int \<Rightarrow> int \<Rightarrow> duration \<Rightarrow> cooldown" where
  "newBindingCooldown limit threshold window =
     \<lparr>cd_limit = (if limit \<le> 0 then maxCooledBindings else nat limit),
      cd_threshold = (if threshold \<le> 0 then bindingCooldownThreshold else nat threshold),
      cd_window = (if window \<le> 0 then bindingCooldownWindow else window),
      cd_entries = fmempty, cd_lru = []\<rparr>"

definition move_front :: "string \<Rightarrow> string list \<Rightarrow> string list" where
  "move_front k ks = k # filter (\<lambda>x. x \<noteq> k) ks"

definition cd_remove :: "string \<Rightarrow> cooldown \<Rightarrow> cooldown" where
  "cd_remove k c = c\<lparr>cd_entries := fmdrop k (cd_entries c), cd_lru := filter (\<lambda>x. x \<noteq> k) (cd_lru c)\<rparr>"

definition cooling :: "time \<Rightarrow> string \<Rightarrow> cooldown \<Rightarrow> bool \<times> cooldown" where
  "cooling now k c =
     (case fmlookup (cd_entries c) k of
        None \<Rightarrow> (False, c)
      | Some (f, until) \<Rightarrow>
          if is_zero until then (False, c\<lparr>cd_lru := move_front k (cd_lru c)\<rparr>)
          else if \<not> now < until then (False, cd_remove k c)
          else (True, c\<lparr>cd_lru := move_front k (cd_lru c)\<rparr>))"

text \<open>Making room for the entry of \<open>k\<close>: a new one goes to the front and may push out the back.\<close>

definition cd_touch :: "string \<Rightarrow> cooldown \<Rightarrow> cooldown" where
  "cd_touch k c =
     (case fmlookup (cd_entries c) k of
        None \<Rightarrow>
          (let c = c\<lparr>cd_entries := fmupd k (0, 0) (cd_entries c), cd_lru := k # cd_lru c\<rparr>
           in if fcard (fmdom (cd_entries c)) > cd_limit c then cd_remove (last (cd_lru c)) c else c)
      | Some _ \<Rightarrow> c\<lparr>cd_lru := move_front k (cd_lru c)\<rparr>)"

definition cd_failures :: "string \<Rightarrow> cooldown \<Rightarrow> nat \<times> time" where
  "cd_failures k c = (case fmlookup (cd_entries c) k of None \<Rightarrow> (0, 0) | Some e \<Rightarrow> e)"

definition cd_reject :: "time \<Rightarrow> string \<Rightarrow> cooldown \<Rightarrow> bool \<times> cooldown" where
  "cd_reject now k c =
     (let c = cd_touch k c; (f, until) = cd_failures k c; f = f + 1 in
      if f < cd_threshold c then (False, c\<lparr>cd_entries := fmupd k (f, until) (cd_entries c)\<rparr>)
      else (True, c\<lparr>cd_entries := fmupd k (f, now + cd_window c) (cd_entries c)\<rparr>))"

definition cd_reset :: "string \<Rightarrow> cooldown \<Rightarrow> cooldown" where
  "cd_reset k c = (case fmlookup (cd_entries c) k of None \<Rightarrow> c | Some _ \<Rightarrow> cd_remove k c)"

definition cd_ok :: "cooldown \<Rightarrow> bool" where
  "cd_ok c \<longleftrightarrow> 0 < cd_limit c \<and> 0 < cd_threshold c \<and> distinct (cd_lru c)
     \<and> set (cd_lru c) = fset (fmdom (cd_entries c)) \<and> length (cd_lru c) \<le> cd_limit c"

lemma cd_ok_new: "cd_ok (newBindingCooldown limit threshold window)"
  by (simp add: cd_ok_def newBindingCooldown_def bindingCooldownThreshold_def maxCooledBindings_def)

lemma cd_ok_remove: "cd_ok c \<Longrightarrow> cd_ok (cd_remove k c)"
  by (auto simp: cd_ok_def cd_remove_def intro: le_trans [OF length_filter_le])

lemma cd_ok_front:
  assumes "cd_ok c" and "fmlookup (cd_entries c) k \<noteq> None"
  shows "cd_ok (c\<lparr>cd_lru := move_front k (cd_lru c)\<rparr>)"
proof -
  have k: "k \<in> set (cd_lru c)" using assms by (simp add: cd_ok_def fmlookup_dom_iff)
  have d: "distinct (cd_lru c)" using assms by (simp add: cd_ok_def)
  then have d': "distinct (move_front k (cd_lru c))" by (simp add: move_front_def)
  have st: "set (move_front k (cd_lru c)) = set (cd_lru c)" using k by (auto simp: move_front_def)
  have "length (move_front k (cd_lru c)) = length (cd_lru c)"
    using distinct_card [OF d'] distinct_card [OF d] st by simp
  with assms(1) d' st show ?thesis by (simp add: cd_ok_def)
qed

lemma cd_card: "cd_ok c \<Longrightarrow> fcard (fmdom (cd_entries c)) = length (cd_lru c)"
  by (simp add: cd_ok_def fcard.rep_eq flip: distinct_card)

lemma cd_touch_full:
  assumes ok: "cd_ok c" and new: "fmlookup (cd_entries c) k = None"
  shows "cd_touch k c =
     (let c' = c\<lparr>cd_entries := fmupd k (0, 0) (cd_entries c), cd_lru := k # cd_lru c\<rparr>
      in if length (cd_lru c) = cd_limit c then cd_remove (last (cd_lru c)) c' else c')"
proof -
  have "k |\<notin>| fmdom (cd_entries c)" using new by (simp add: fmlookup_None_iff)
  then have "fcard (fmdom (fmupd k (0, 0) (cd_entries c))) = Suc (length (cd_lru c))"
    using cd_card [OF ok] by (simp add: fcard_finsert_disjoint)
  moreover have "length (cd_lru c) \<le> cd_limit c" "0 < cd_limit c" using ok by (simp_all add: cd_ok_def)
  ultimately show ?thesis using new by (auto simp: cd_touch_def Let_def)
qed

lemma cd_touch_ok:
  assumes ok: "cd_ok c"
  shows "cd_ok (cd_touch k c) \<and> cd_failures k (cd_touch k c) = cd_failures k c
     \<and> fmlookup (cd_entries (cd_touch k c)) k \<noteq> None
     \<and> cd_threshold (cd_touch k c) = cd_threshold c \<and> cd_window (cd_touch k c) = cd_window c
     \<and> cd_limit (cd_touch k c) = cd_limit c
     \<and> (\<forall>j. j \<noteq> k \<longrightarrow> fmlookup (cd_entries (cd_touch k c)) j =
          (if fmlookup (cd_entries c) k = None \<and> length (cd_lru c) = cd_limit c \<and> j = last (cd_lru c)
           then None else fmlookup (cd_entries c) j))"
proof (cases "fmlookup (cd_entries c) k")
  case (Some e)
  with cd_ok_front [OF ok, of k] show ?thesis by (simp add: cd_touch_def cd_failures_def)
next
  case None
  let ?c = "c\<lparr>cd_entries := fmupd k (0, 0) (cd_entries c), cd_lru := k # cd_lru c\<rparr>"
  have k: "k \<notin> set (cd_lru c)" using ok None by (simp add: cd_ok_def fmlookup_None_iff)
  show ?thesis
  proof (cases "length (cd_lru c) = cd_limit c")
    case False
    then have "cd_ok ?c" using ok k by (auto simp: cd_ok_def)
    with False None ok show ?thesis by (simp add: cd_touch_full Let_def cd_failures_def)
  next
    case True
    let ?l = "last (cd_lru c)"
    have ne: "cd_lru c \<noteq> []" using True ok by (auto simp: cd_ok_def)
    then have l: "?l \<in> set (cd_lru c)" "?l \<noteq> k" using k by auto
    have lru: "cd_lru (cd_remove ?l ?c) = k # butlast (cd_lru c)"
    proof -
      have split: "cd_lru c = butlast (cd_lru c) @ [?l]" using ne by simp
      have "distinct (butlast (cd_lru c) @ [?l])" using ok split by (metis cd_ok_def)
      then have "filter (\<lambda>x. x \<noteq> ?l) (butlast (cd_lru c) @ [?l]) = butlast (cd_lru c)"
        by (auto simp: filter_id_conv)
      then have "filter (\<lambda>x. x \<noteq> ?l) (cd_lru c) = butlast (cd_lru c)" using split by simp
      then show ?thesis using l by (simp add: cd_remove_def)
    qed
    have "set (cd_lru (cd_remove ?l ?c)) = fset (fmdom (cd_entries (cd_remove ?l ?c)))"
      using ok by (auto simp: cd_ok_def cd_remove_def)
    moreover have "distinct (cd_lru (cd_remove ?l ?c))"
      using ok k unfolding lru by (auto simp: cd_ok_def distinct_butlast dest: in_set_butlastD)
    moreover have "length (cd_lru (cd_remove ?l ?c)) \<le> cd_limit c"
      using True ok by (simp add: lru cd_ok_def)
    ultimately have "cd_ok (cd_remove ?l ?c)" using ok by (simp add: cd_ok_def cd_remove_def)
    with True None l ok show ?thesis
      by (simp add: cd_touch_full Let_def cd_failures_def cd_remove_def)
  qed
qed

text \<open>What one rejection does: the counter of its binding, and at most one eviction elsewhere.\<close>

lemma cd_reject_spec:
  assumes ok: "cd_ok c" and r: "cd_reject now k c = (r, c')"
  shows "cd_ok c' \<and> (r \<longleftrightarrow> cd_threshold c \<le> fst (cd_failures k c) + 1)
     \<and> cd_failures k c' = (fst (cd_failures k c) + 1, if r then now + cd_window c else snd (cd_failures k c))
     \<and> cd_threshold c' = cd_threshold c \<and> cd_window c' = cd_window c
     \<and> (\<forall>j. j \<noteq> k \<longrightarrow> fmlookup (cd_entries c') j =
          (if fmlookup (cd_entries c) k = None \<and> length (cd_lru c) = cd_limit c \<and> j = last (cd_lru c)
           then None else fmlookup (cd_entries c) j))"
proof -
  let ?t = "cd_touch k c"
  note t = cd_touch_ok [OF ok, of k]
  obtain f until where fu: "cd_failures k c = (f, until)" by fastforce
  have ins: "cd_ok (?t\<lparr>cd_entries := fmupd k e (cd_entries ?t)\<rparr>)" for e
    using t by (auto simp: cd_ok_def fmdomI)
  have c': "c' = ?t\<lparr>cd_entries := fmupd k (f + 1, if r then now + cd_window c else until) (cd_entries ?t)\<rparr>"
    and rr: "r \<longleftrightarrow> cd_threshold c \<le> f + 1"
    using r t fu by (auto simp: cd_reject_def Let_def split: if_splits)
  show ?thesis
    using t ins rr fu by (simp add: c' cd_failures_def)
qed

lemma cd_ok_reject: "cd_ok c \<Longrightarrow> cd_ok (snd (cd_reject now k c))"
  using cd_reject_spec [of c now k "fst (cd_reject now k c)" "snd (cd_reject now k c)"] by simp

lemma cd_ok_cooling: "cd_ok c \<Longrightarrow> cd_ok (snd (cooling now k c))"
  using cd_ok_front [of c k] cd_ok_remove [of c k] by (auto simp: cooling_def split: option.split)

lemma cd_ok_reset: "cd_ok c \<Longrightarrow> cd_ok (cd_reset k c)"
  using cd_ok_remove [of c k] by (simp add: cd_reset_def split: option.split)

lemma cooling_iff: "fst (cooling now k c) \<longleftrightarrow> snd (cd_failures k c) \<noteq> 0 \<and> now < snd (cd_failures k c)"
  by (auto simp: cooling_def cd_failures_def split: option.split)

datatype cd_op = Cooling time string | Reject time string | Reset string

fun cd_exec :: "cd_op \<Rightarrow> cooldown \<Rightarrow> cooldown" where
  "cd_exec (Cooling now k) c = snd (cooling now k c)"
| "cd_exec (Reject now k) c = snd (cd_reject now k c)"
| "cd_exec (Reset k) c = cd_reset k c"

lemma cd_exec_ok: "cd_ok c \<Longrightarrow> cd_ok (cd_exec op c)"
  by (cases op) (simp_all add: cd_ok_reject cd_ok_cooling cd_ok_reset)

lemma cd_run_ok: "cd_ok c \<Longrightarrow> cd_ok (fold cd_exec ops c)"
  by (induction ops arbitrary: c) (simp_all add: cd_exec_ok)

lemma cd_exec_config:
  assumes "cd_ok c"
  shows "cd_limit (cd_exec op c) = cd_limit c \<and> cd_threshold (cd_exec op c) = cd_threshold c
    \<and> cd_window (cd_exec op c) = cd_window c"
proof (cases op)
  case (Cooling now k)
  then show ?thesis by (simp add: cooling_def cd_remove_def split: option.split)
next
  case (Reject now k)
  then show ?thesis using cd_touch_ok [OF assms, of k] by (simp add: cd_reject_def Let_def split: prod.split)
next
  case (Reset k)
  then show ?thesis by (simp add: cd_reset_def cd_remove_def split: option.split)
qed

definition rejected :: "string \<Rightarrow> time list \<Rightarrow> cooldown \<Rightarrow> cooldown" where
  "rejected k ts c = fold (\<lambda>t c. snd (cd_reject t k c)) ts c"

lemma cd_rejects:
  assumes "cd_ok c" and "fmlookup (cd_entries c) k = None" and "ts \<noteq> []"
  shows "cd_failures k (rejected k ts c) =
      (length ts, if cd_threshold c \<le> length ts then last ts + cd_window c else 0)"
    and "cd_ok (rejected k ts c)
      \<and> cd_threshold (rejected k ts c) = cd_threshold c
      \<and> cd_window (rejected k ts c) = cd_window c"
proof -
  have "cd_ok (rejected k ts c)
      \<and> cd_threshold (rejected k ts c) = cd_threshold c
      \<and> cd_window (rejected k ts c) = cd_window c
      \<and> cd_failures k (rejected k ts c) =
        (length ts, if ts \<noteq> [] \<and> cd_threshold c \<le> length ts then last ts + cd_window c else 0)"
  proof (induction ts rule: rev_induct)
    case Nil
    then show ?case using assms by (simp add: cd_failures_def rejected_def)
  next
    case (snoc t ts)
    obtain r c' where rej: "cd_reject t k (rejected k ts c) = (r, c')" by fastforce
    then have snoc': "rejected k (ts @ [t]) c = c'" by (simp add: rejected_def)
    have spec: "cd_ok c'" "r \<longleftrightarrow> cd_threshold c \<le> Suc (length ts)" "cd_threshold c' = cd_threshold c"
      "cd_window c' = cd_window c"
      "cd_failures k c' = (Suc (length ts), if r then t + cd_window c else snd (cd_failures k (rejected k ts c)))"
      using cd_reject_spec [OF _ rej] snoc by simp_all
    with snoc show ?case by (auto simp: snoc')
  qed
  with assms(3) show "cd_failures k (rejected k ts c) =
      (length ts, if cd_threshold c \<le> length ts then last ts + cd_window c else 0)"
    and "cd_ok (rejected k ts c)
      \<and> cd_threshold (rejected k ts c) = cd_threshold c
      \<and> cd_window (rejected k ts c) = cd_window c" by simp_all
qed

text \<open>
  The cooldown of one binding. After any sequence of operations the table holds at most its
  limit of bindings. A binding cools exactly after \<open>threshold\<close> rejections in a row, and until the
  window after the last of them has passed; and a rejection leaves the entry of every other binding
  alone, except that a new entry in a full table pushes out the least recently used one.
\<close>

theorem cooldown_exact:
  assumes c: "c = fold cd_exec ops (newBindingCooldown limit threshold window)"
    and "fmlookup (cd_entries c) k = None" and "ts \<noteq> []" and "0 < last ts"
  shows "length (cd_lru c) \<le> cd_limit (newBindingCooldown limit threshold window)
     \<and> fcard (fmdom (cd_entries c)) = length (cd_lru c)
     \<and> (fst (cooling now k (rejected k ts c)) \<longleftrightarrow>
          cd_threshold c \<le> length ts \<and> now < last ts + cd_window c)
     \<and> (\<forall>j. j \<noteq> k \<longrightarrow> fmlookup (cd_entries (snd (cd_reject t k c))) j =
          (if length (cd_lru c) = cd_limit c \<and> j = last (cd_lru c) then None else fmlookup (cd_entries c) j))"
proof -
  let ?new = "newBindingCooldown limit threshold window"
  have ok: "cd_ok c" unfolding c by (rule cd_run_ok [OF cd_ok_new])
  have conf: "cd_ok (fold cd_exec ops x) \<and> cd_limit (fold cd_exec ops x) = cd_limit x
      \<and> cd_window (fold cd_exec ops x) = cd_window x" if "cd_ok x" for ops x
    using that by (induction ops arbitrary: x) (simp_all add: cd_exec_ok cd_exec_config)
  have w: "0 < cd_window c"
    using conf [OF cd_ok_new, of ops limit threshold window] unfolding c
    by (simp add: newBindingCooldown_def bindingCooldownWindow_def)
  have lim: "cd_limit c = cd_limit ?new"
    using conf [OF cd_ok_new, of ops limit threshold window] unfolding c by simp
  have "length (cd_lru c) \<le> cd_limit ?new" using ok lim by (simp add: cd_ok_def)
  moreover have "fst (cooling now k (rejected k ts c)) \<longleftrightarrow>
      cd_threshold c \<le> length ts \<and> now < last ts + cd_window c"
    using assms(4) w by (simp add: cooling_iff cd_rejects(1) [OF ok assms(2,3)])
  moreover have "j \<noteq> k \<Longrightarrow> fmlookup (cd_entries (snd (cd_reject t k c))) j =
      (if length (cd_lru c) = cd_limit c \<and> j = last (cd_lru c) then None else fmlookup (cd_entries c) j)" for j
    using cd_reject_spec [OF ok, of t k "fst (cd_reject t k c)" "snd (cd_reject t k c)"] assms(2) by simp
  ultimately show ?thesis using cd_card [OF ok] by blast
qed

theorem cooldown_exact_witness:
  "fst (cooling 35 ''b'' (rejected ''b'' [1, 2, 3] (newBindingCooldown 4 3 40)))
   \<and> \<not> fst (cooling 43 ''b'' (rejected ''b'' [1, 2, 3] (newBindingCooldown 4 3 40)))"
  using cooldown_exact [of "newBindingCooldown 4 3 40" "[]" 4 3 40 "''b''" "[1, 2, 3]" 35]
    cooldown_exact [of "newBindingCooldown 4 3 40" "[]" 4 3 40 "''b''" "[1, 2, 3]" 43]
  by (simp add: newBindingCooldown_def)

end
