(* ===== verification/Federation_Raw.thy ===== *)
theory Federation_Raw
  imports Federation_Registry Go_Net "HOL-Library.Sublist"
begin

text \<open>
  The path guard of the raw proxy (\<^verbatim>\<open>cleanRawPath\<close> and \<^verbatim>\<open>rejectEscapingPath\<close> in
  \<^verbatim>\<open>internal/federation/service.go\<close>), over the paths and escapes of \<open>Go_Net\<close>.
  Shown: whatever \<^verbatim>\<open>cleanRawPath\<close> returns has no empty and no dot segment, and however often it is
  decoded again as \<^verbatim>\<open>url.PathUnescape\<close> decodes, no segment begins with two dots or contains a
  backslash, so the joined path stays below the source's base; an escape-free path without such
  segments is accepted, with only its empty and dot segments dropped; and for
  every path the guard refuses at its second decoding, one more segment with a malformed escape
  makes it pass, with the refused segment still in it.
\<close>

section \<open>The guard\<close>

definition maxRawPathDecodeRounds :: nat where "maxRawPathDecodeRounds = 4"

definition escaping_segment :: "string \<Rightarrow> bool" where
  "escaping_segment segment = (prefix ''..'' segment \<or> CHR 0x5C \<in> set segment)"

fun reject_rounds :: "nat \<Rightarrow> string \<Rightarrow> fed_error option" where
  "reject_rounds 0 candidate = Some ErrRawPathEscapes"
| "reject_rounds (Suc rounds) candidate =
     (if list_ex escaping_segment (path_segments candidate) then Some ErrRawPathEscapes
      else case path_unescape candidate of
        None \<Rightarrow> None
      | Some decoded \<Rightarrow> if decoded = candidate then None else reject_rounds rounds decoded)"

definition rejectEscapingPath :: "string \<Rightarrow> fed_error option" where
  "rejectEscapingPath raw = reject_rounds maxRawPathDecodeRounds raw"

definition cleanRawPath :: "string \<Rightarrow> fed_error + string" where
  "cleanRawPath raw =
     (case rejectEscapingPath raw of
        Some err \<Rightarrow> Inl err
      | None \<Rightarrow> (let cleaned = path_clean_rooted (''/'' @ raw) in
          if cleaned = ''/'' then Inr [] else Inr (case cleaned of c # rest \<Rightarrow> if c = CHR ''/'' then rest else cleaned | [] \<Rightarrow> [])))"

section \<open>Decoding again\<close>

fun decode_times :: "nat \<Rightarrow> string \<Rightarrow> string option" where
  "decode_times 0 s = Some s"
| "decode_times (Suc n) s = (case path_unescape s of None \<Rightarrow> None | Some d \<Rightarrow> decode_times n d)"

definition confined :: "string \<Rightarrow> bool" where
  "confined p = list_all (\<lambda>seg. \<not> escaping_segment seg) (path_segments p)"

lemma decode_fixpoint: "path_unescape s = Some s \<Longrightarrow> decode_times n s = Some s"
  by (induction n) simp_all

lemma reject_rounds_confined:
  "reject_rounds m c = None \<Longrightarrow> decode_times n c = Some d \<Longrightarrow> confined d"
proof (induction m arbitrary: c n)
  case (Suc m)
  have here: "confined c"
    using Suc.prems(1) by (auto simp: confined_def list_all_iff list_ex_iff split: if_splits)
  show ?case
  proof (cases n)
    case 0
    then show ?thesis using here Suc.prems(2) by simp
  next
    case (Suc k)
    then obtain c' where c': "path_unescape c = Some c'" "decode_times k c' = Some d"
      using Suc.prems(2) by (auto split: option.splits)
    show ?thesis
    proof (cases "c' = c")
      case True
      then show ?thesis using here c' decode_fixpoint [of c k] by simp
    next
      case False
      then show ?thesis using Suc.IH [OF _ c'(2)] Suc.prems(1) c'(1) by (simp split: if_splits)
    qed
  qed
qed simp

section \<open>What cleaning keeps\<close>

definition kept_segments :: "string \<Rightarrow> string list" where
  "kept_segments raw = filter (\<lambda>seg. seg \<noteq> [] \<and> seg \<noteq> ''.'') (path_segments raw)"

lemma fold_clean:
  "\<forall>seg \<in> set segs. \<not> escaping_segment seg \<Longrightarrow>
     fold clean_step segs acc = acc @ filter (\<lambda>seg. seg \<noteq> [] \<and> seg \<noteq> ''.'') segs"
  by (induction segs arbitrary: acc) (auto simp: clean_step_def escaping_segment_def)

lemma cleanRawPath_eq:
  assumes "cleanRawPath raw = Inr p"
  shows "rejectEscapingPath raw = None" and "confined raw" and "p = str_join ''/'' (kept_segments raw)"
proof -
  show no: "rejectEscapingPath raw = None" using assms by (simp add: cleanRawPath_def split: option.splits)
  then show c: "confined raw"
    using reject_rounds_confined [of _ raw 0] by (simp add: rejectEscapingPath_def)
  have "path_clean_rooted (''/'' @ raw) = CHR ''/'' # str_join ''/'' (kept_segments raw)"
    using c fold_clean [of "path_segments raw" "[]"] split_on_concat [of "CHR ''/''" "[]" raw]
    by (simp add: path_clean_rooted_def kept_segments_def confined_def list_all_iff path_segments_def clean_step_def)
  then show "p = str_join ''/'' (kept_segments raw)"
    using assms no by (auto simp: cleanRawPath_def Let_def split: if_splits)
qed

lemma kept_path_segments:
  "path_segments (str_join ''/'' (kept_segments raw)) =
     (if kept_segments raw = [] then [[]] else kept_segments raw)"
  using split_on_str_join [of "kept_segments raw" "CHR ''/''"]
  by (auto simp: path_segments_def kept_segments_def dest: split_on_part)

text \<open>The cleaned path and the raw one have the same segments up to empty and dot segments, and
  so they keep when both are decoded.\<close>

definition same_segments :: "string \<Rightarrow> string \<Rightarrow> bool" where
  "same_segments p q \<longleftrightarrow> set (path_segments p) \<subseteq> insert [] (set (path_segments q)) \<and>
     set (path_segments q) \<subseteq> {[], ''.''} \<union> set (path_segments p)"

lemma cleaned_same_segments: "same_segments (str_join ''/'' (kept_segments raw)) raw"
  unfolding same_segments_def kept_path_segments by (auto simp: kept_segments_def filter_empty_conv)

lemma same_segments_decode:
  assumes same: "same_segments p q" and p': "path_unescape p = Some p'"
  shows "\<exists>q'. path_unescape q = Some q' \<and> same_segments p' q'"
proof -
  have triv: "path_unescape [] = Some []" "path_unescape ''.'' = Some ''.''"
    "path_segments [] = [[]]" "path_segments ''.'' = [''.'']" by code_simp+
  have "\<forall>x \<in> set (path_segments p). path_unescape x \<noteq> None" using path_unescape_segments(1) [of p] p' by auto
  then have "\<forall>x \<in> set (path_segments q). path_unescape x \<noteq> None"
    using same triv unfolding same_segments_def by auto
  then obtain q' where q': "path_unescape q = Some q'" using path_unescape_segments(1) [of q] by auto
  let ?d = "\<lambda>x. set (path_segments (the (path_unescape x)))"
  have "set (path_segments p') = (\<Union>x \<in> set (path_segments p). ?d x)"
    and "set (path_segments q') = (\<Union>x \<in> set (path_segments q). ?d x)"
    using path_unescape_segments(2) [OF p'] path_unescape_segments(2) [OF q'] by auto
  moreover have "?d [] = {[]}" "?d ''.'' = {''.''}" using triv by auto
  ultimately have "same_segments p' q'" using same unfolding same_segments_def by fastforce
  with q' show ?thesis by blast
qed

lemma same_segments_decode_times:
  "same_segments p q \<Longrightarrow> decode_times n p = Some p' \<Longrightarrow> \<exists>q'. decode_times n q = Some q' \<and> same_segments p' q'"
proof (induction n arbitrary: p q)
  case (Suc n)
  then obtain r where r: "path_unescape p = Some r" "decode_times n r = Some p'"
    by (auto split: option.splits)
  then obtain s where "path_unescape q = Some s" "same_segments r s"
    using same_segments_decode Suc.prems(1) by blast
  then show ?case using Suc.IH r(2) by simp
qed simp

lemma same_segments_confined: "same_segments p q \<Longrightarrow> confined q \<Longrightarrow> confined p"
  by (auto simp: same_segments_def confined_def list_all_iff escaping_segment_def)

lemma plain_path_accepted:
  assumes "CHR ''%'' \<notin> set raw" and "confined raw"
  shows "cleanRawPath raw = Inr (str_join ''/'' (kept_segments raw))"
proof -
  have "path_unescape s = Some s" if "CHR ''%'' \<notin> set s" for s using that by (induction s) auto
  with assms have "rejectEscapingPath raw = None"
    by (simp add: rejectEscapingPath_def maxRawPathDecodeRounds_def numeral_eq_Suc confined_def list_ex_iff list_all_iff)
  then obtain p where p: "cleanRawPath raw = Inr p" by (cases "cleanRawPath raw") (auto simp: cleanRawPath_def Let_def split: if_splits)
  with cleanRawPath_eq(3) [OF p] show ?thesis by simp
qed

section \<open>A malformed escape\<close>

lemma append_segment: "path_segments (p @ CHR ''/'' # q) = path_segments p @ path_segments q"
  by (simp add: path_segments_def split_on_concat)

lemma path_unescape_append:
  "path_unescape p = Some p' \<Longrightarrow> path_unescape q = Some q' \<Longrightarrow> path_unescape (p @ CHR ''/'' # q) = Some (p' @ CHR ''/'' # q')"
proof (induction p arbitrary: p' rule: path_unescape.induct)
  case (2 c s)
  then show ?case by (auto split: if_split_asm list.split_asm option.split_asm)
qed simp

text \<open>An escaping segment that the second decoding of a path shows comes from one segment of the path.\<close>

lemma escaping_from_segment:
  assumes d: "path_unescape raw = Some d" and e: "path_unescape d = Some e" and "\<not> confined e"
  shows "\<exists>y \<in> set (path_segments raw). \<exists>y1 y2. path_unescape y = Some y1 \<and> path_unescape y1 = Some y2 \<and> \<not> confined y2"
proof -
  obtain bad where bad: "bad \<in> set (path_segments e)" "escaping_segment bad"
    using assms(3) by (auto simp: confined_def list_all_iff)
  then obtain x where x: "x \<in> set (path_segments d)" "bad \<in> set (path_segments (the (path_unescape x)))"
    using path_unescape_segments(2) [OF e] by auto
  then obtain y where y: "y \<in> set (path_segments raw)" "x \<in> set (path_segments (the (path_unescape y)))"
    using path_unescape_segments(2) [OF d] by auto
  then obtain y1 where y1: "path_unescape y = Some y1" using path_unescape_segments(1) [of raw] d by auto
  have "set (path_segments y1) \<subseteq> set (path_segments d)" using path_unescape_segments(2) [OF d] y(1) y1 by auto
  then obtain y2 where y2: "path_unescape y1 = Some y2"
    using path_unescape_segments(1) [of y1] path_unescape_segments(1) [of d] e by (metis option.distinct(1) option.exhaust subsetD)
  have "bad \<in> set (path_segments y2)" using path_unescape_segments(2) [OF y2] x(2) y(2) y1 by auto
  with bad(2) y(1) y1 y2 show ?thesis by (auto simp: confined_def list_all_iff)
qed

section \<open>Properties\<close>

text \<open>C34. The raw proxy cannot be steered out of the source's base: a path that \<^verbatim>\<open>cleanRawPath\<close> returns
  has no empty and no dot segment unless it is empty, and at every depth of further decoding no
  segment begins with \<open>..\<close> or contains a backslash. Conversely every escape-free path without such
  segments is accepted, and only its empty and dot segments are dropped.\<close>

theorem raw_path_confined:
  "(cleanRawPath raw = Inr p \<longrightarrow>
      (p = [] \<or> [] \<notin> set (path_segments p) \<and> ''.'' \<notin> set (path_segments p)) \<and>
      (\<forall>n d. decode_times n p = Some d \<longrightarrow>
         (\<forall>seg \<in> set (path_segments d). \<not> prefix ''..'' seg \<and> CHR 0x5C \<notin> set seg))) \<and>
   (CHR ''%'' \<notin> set raw \<and> confined raw \<longrightarrow> cleanRawPath raw = Inr (str_join ''/'' (kept_segments raw)))"
proof (intro conjI impI)
  assume ok: "cleanRawPath raw = Inr p"
  note eq = cleanRawPath_eq [OF ok]
  show "p = [] \<or> [] \<notin> set (path_segments p) \<and> ''.'' \<notin> set (path_segments p)"
    unfolding eq(3) kept_path_segments by (auto simp: kept_segments_def)
  show "\<forall>n d. decode_times n p = Some d \<longrightarrow>
         (\<forall>seg \<in> set (path_segments d). \<not> prefix ''..'' seg \<and> CHR 0x5C \<notin> set seg)"
  proof (intro allI impI)
    fix n d assume "decode_times n p = Some d"
    then obtain q where q: "decode_times n raw = Some q" "same_segments d q"
      using same_segments_decode_times cleaned_same_segments eq(3) by blast
    have "confined q" using reject_rounds_confined eq(1) q(1) by (simp add: rejectEscapingPath_def)
    with q(2) have "confined d" by (rule same_segments_confined)
    then show "\<forall>seg \<in> set (path_segments d). \<not> prefix ''..'' seg \<and> CHR 0x5C \<notin> set seg"
      by (auto simp: confined_def list_all_iff escaping_segment_def)
  qed
qed (blast intro: plain_path_accepted)

theorem raw_path_confined_witness:
  "cleanRawPath ''a/./b//c%2520d'' = Inr ''a/b/c%2520d'' \<and>
   decode_times 2 ''a/b/c%2520d'' = Some ''a/b/c d'' \<and> confined ''a/b/c d'' \<and>
   cleanRawPath ''x//y'' = Inr ''x/y'' \<and>
   cleanRawPath ''a/%252e%252e/b'' = Inl ErrRawPathEscapes"
proof -
  have 1: "cleanRawPath ''a/./b//c%2520d'' = Inr ''a/b/c%2520d''" by code_simp
  have 2: "decode_times 2 ''a/b/c%2520d'' = Some ''a/b/c d''" by code_simp
  have 3: "confined ''a/b/c d''"
    using raw_path_confined [of "''a/./b//c%2520d''" "''a/b/c%2520d''"] 1 2
    by (auto simp: confined_def list_all_iff escaping_segment_def)
  have "confined ''x//y''" "str_join ''/'' (kept_segments ''x//y'') = ''x/y''" by code_simp+
  then have 4: "cleanRawPath ''x//y'' = Inr ''x/y''" using raw_path_confined [of "''x//y''" "[]"] by simp
  have 5: "cleanRawPath ''a/%252e%252e/b'' = Inl ErrRawPathEscapes" by code_simp
  show ?thesis using 1 2 3 4 5 by (intro conjI)
qed

text \<open>C35. One malformed escape switches the guard off for the whole path. Take any path that the guard
  refuses for what its second decoding shows: the path and its first decoding have no escaping
  segment, its second decoding has one. With one more segment \<^verbatim>\<open>%25zz\<close> at the end the same path is
  accepted, only empty and dot segments dropped, because its second decoding as a whole is an error.
  The refused traversal is still in it: some segment of the accepted path, decoded twice by itself,
  contains an escaping one.\<close>

theorem malformed_escape_hides_traversal:
  assumes "confined raw" and "path_unescape raw = Some d" and "confined d"
    and "path_unescape d = Some e" and "\<not> confined e"
  shows "cleanRawPath raw = Inl ErrRawPathEscapes
    \<and> (\<exists>p. cleanRawPath (raw @ ''/%25zz'') = Inr p \<and> p = str_join ''/'' (kept_segments (raw @ ''/%25zz''))
         \<and> (\<exists>seg \<in> set (path_segments p). \<exists>seg1 seg2. path_unescape seg = Some seg1 \<and> path_unescape seg1 = Some seg2
              \<and> \<not> confined seg2))"
proof -
  have not_same: "d \<noteq> raw" "e \<noteq> d" using assms by auto
  have nc: "list_ex escaping_segment (path_segments p) \<longleftrightarrow> \<not> confined p" for p
    by (auto simp: confined_def list_ex_iff list_all_iff)
  have refused: "cleanRawPath raw = Inl ErrRawPathEscapes"
    using assms not_same by (simp add: cleanRawPath_def rejectEscapingPath_def maxRawPathDecodeRounds_def numeral_eq_Suc nc)
  have z: "path_unescape ''%25zz'' = Some ''%zz''" "path_unescape ''%zz'' = None" "path_segments ''%zz'' = [''%zz'']"
    "path_segments ''%25zz'' = [''%25zz'']" "\<not> escaping_segment ''%zz''" "\<not> escaping_segment ''%25zz''" by code_simp+
  have d1: "path_unescape (raw @ ''/%25zz'') = Some (d @ ''/%zz'')" using path_unescape_append [OF assms(2) z(1)] by simp
  have d2: "path_unescape (d @ ''/%zz'') = None"
    using path_unescape_segments(1) [of "d @ ''/%zz''"] append_segment [of d "''%zz''"] z by auto
  have c: "confined (raw @ ''/%25zz'')" "confined (d @ ''/%zz'')"
    using assms(1,3) append_segment [of raw "''%25zz''"] append_segment [of d "''%zz''"] z by (simp_all add: confined_def)
  have "rejectEscapingPath (raw @ ''/%25zz'') = None"
    using c d1 d2 by (simp add: rejectEscapingPath_def maxRawPathDecodeRounds_def numeral_eq_Suc nc)
  then obtain p where p: "cleanRawPath (raw @ ''/%25zz'') = Inr p"
    by (cases "cleanRawPath (raw @ ''/%25zz'')") (auto simp: cleanRawPath_def Let_def split: if_splits)
  note eq = cleanRawPath_eq(3) [OF p]
  obtain y y1 y2 where y: "y \<in> set (path_segments raw)" "path_unescape y = Some y1" "path_unescape y1 = Some y2" "\<not> confined y2"
    using escaping_from_segment [OF assms(2,4,5)] by blast
  have triv: "path_unescape [] = Some []" "path_unescape ''.'' = Some ''.''" "confined []" "confined ''.''" by code_simp+
  have "y \<noteq> [] \<and> y \<noteq> ''.''" using y(2-4) triv by auto
  with y(1) have "y \<in> set (kept_segments (raw @ ''/%25zz''))"
    using append_segment [of raw "''%25zz''"] by (simp add: kept_segments_def)
  then have "y \<in> set (path_segments p)" unfolding eq kept_path_segments by auto
  with y refused p eq show ?thesis by blast
qed

theorem malformed_escape_hides_traversal_witness:
  "\<exists>p. cleanRawPath ''a/%252e%252e'' = Inl ErrRawPathEscapes \<and> cleanRawPath ''a/%252e%252e/%25zz'' = Inr p
     \<and> (\<exists>seg \<in> set (path_segments p). \<exists>seg1 seg2. path_unescape seg = Some seg1 \<and> path_unescape seg1 = Some seg2
          \<and> \<not> confined seg2)"
proof -
  have "confined ''a/%252e%252e''" "path_unescape ''a/%252e%252e'' = Some ''a/%2e%2e''" "confined ''a/%2e%2e''"
    "path_unescape ''a/%2e%2e'' = Some ''a/..''" "\<not> confined ''a/..''" by code_simp+
  from malformed_escape_hides_traversal [OF this] show ?thesis by auto
qed

end
