(* ===== verification/Federation_Service.thy ===== *)
theory Federation_Service
  imports Federation_Bindings Federation_Limits Federation_Raw Vault_Service
begin

text \<open>
  The federation service (\<^verbatim>\<open>internal/federation\<close>: \<^verbatim>\<open>service.go\<close>, \<^verbatim>\<open>binding.go\<close>, \<^verbatim>\<open>bind.go\<close>,
  \<^verbatim>\<open>refresh.go\<close>, \<^verbatim>\<open>unbind.go\<close>, \<^verbatim>\<open>revocation.go\<close>, \<^verbatim>\<open>killswitch.go\<close>) over the vault, the binding and flow
  stores, the byte budget and the cooldown.
  \<^item> \<open>fed_service\<close> holds what \<^verbatim>\<open>NewService\<close> wires; \<open>fed_world\<close> holds what changes.
  \<^item> The data sources are the record \<open>upstream\<close> over a state of their own: the HTTP client and the
    calls of the \<^verbatim>\<open>oauth2\<close> package, any of which may answer anything or fail. \<^verbatim>\<open>encoding/json\<close> and
    \<^verbatim>\<open>url.Parse\<close> are further parameters.
  \<^item> An operation runs at one reading of the clock. The per-binding mutex makes the operations on
    one binding atomic within a process; what another replica does between an upstream call and
    the claim that follows it is covered by cutting \<^verbatim>\<open>CompleteBind\<close> and \<^verbatim>\<open>refreshBinding\<close> there.
  \<^item> The eight workers of the kill switch take bindings in any order; the model takes them in list
    order.
  \<^item> Counters, log lines, deadlines and the zeroing of buffers have no counterpart.
\<close>

section \<open>Errors\<close>

fun ferr_is :: "fed_error \<Rightarrow> fed_error \<Rightarrow> bool" where
  "ferr_is (FWrapped m e) t = (FWrapped m e = t \<or> ferr_is e t)"
| "ferr_is (FJoin a b) t = (FJoin a b = t \<or> ferr_is a t \<or> ferr_is b t)"
| "ferr_is (NotBoundError g n) t = (t = NotBoundError g n \<or> t = ErrNotBound)"
| "ferr_is (FVault e) t = (case t of FVault e' \<Rightarrow> verr_is e e' | _ \<Rightarrow> False)"
| "ferr_is e t = (e = t)"

text \<open>\<^verbatim>\<open>errors.As\<close> for \<^verbatim>\<open>*SourceError\<close>, \<^verbatim>\<open>*NotBoundError\<close> and \<^verbatim>\<open>*oauth2.RetrieveError\<close>: the first in the tree.\<close>

fun as_source_error :: "fed_error \<Rightarrow> int option" where
  "as_source_error (SourceError n status) = Some status"
| "as_source_error (FWrapped m e) = as_source_error e"
| "as_source_error (FJoin a b) = (case as_source_error a of None \<Rightarrow> as_source_error b | s \<Rightarrow> s)"
| "as_source_error e = None"

fun as_not_bound :: "fed_error \<Rightarrow> fed_error option" where
  "as_not_bound (NotBoundError g n) = Some (NotBoundError g n)"
| "as_not_bound (FWrapped m e) = as_not_bound e"
| "as_not_bound (FJoin a b) = (case as_not_bound a of None \<Rightarrow> as_not_bound b | s \<Rightarrow> s)"
| "as_not_bound e = None"

fun as_retrieve_error :: "fed_error \<Rightarrow> string option" where
  "as_retrieve_error (RetrieveError code) = Some code"
| "as_retrieve_error (FWrapped m e) = as_retrieve_error e"
| "as_retrieve_error (FJoin a b) = (case as_retrieve_error a of None \<Rightarrow> as_retrieve_error b | s \<Rightarrow> s)"
| "as_retrieve_error e = None"

definition isUnauthorized :: "fed_error \<Rightarrow> bool" where
  "isUnauthorized err = (as_source_error err = Some 401)"

definition isRefreshRejected :: "fed_error \<Rightarrow> bool" where
  "isRefreshRejected err = (as_retrieve_error err = Some ''invalid_grant'')"

section \<open>What lies outside\<close>

record http_request =
  hq_method :: string
  hq_url :: string
  hq_header :: "(string \<times> string) list"
  hq_body :: string

text \<open>A response: its declared length (-1 when unknown) and the bytes its body yields before it ends
  or, with \<open>hr_broken\<close>, before reading fails.\<close>

record http_response =
  hr_status :: int
  hr_length :: int
  hr_type :: string
  hr_encoding :: string
  hr_body :: string
  hr_broken :: bool

record oauth_config =
  oc_client :: string
  oc_secret :: string
  oc_auth :: string
  oc_token :: string
  oc_redirect :: string
  oc_scopes :: "string list"

record oauth_token =
  ot_access :: string
  ot_refresh :: string
  ot_type :: string
  ot_expiry :: time

text \<open>The token endpoint answered with an error code, or the call failed otherwise.\<close>

datatype oauth2_error = TokenEndpointError string | TransportError string

fun oauth2_err :: "oauth2_error \<Rightarrow> fed_error" where
  "oauth2_err (TokenEndpointError code) = RetrieveError code"
| "oauth2_err (TransportError m) = FPlain m"

record 'u upstream =
  up_do :: "http_request \<Rightarrow> 'u \<Rightarrow> (string + http_response) \<times> 'u"
  up_exchange :: "oauth_config \<Rightarrow> string \<Rightarrow> string \<Rightarrow> 'u \<Rightarrow> (oauth2_error + oauth_token) \<times> 'u"
  up_refresh :: "oauth_config \<Rightarrow> string \<Rightarrow> 'u \<Rightarrow> (oauth2_error + oauth_token) \<times> 'u"
  up_auth_url :: "oauth_config \<Rightarrow> string \<Rightarrow> string \<Rightarrow> string"
  up_verifier :: "tape \<Rightarrow> string \<times> tape"

record codec =
  js_marshal :: "binding_secret \<Rightarrow> string"
  js_unmarshal :: "string \<Rightarrow> binding_secret option"
  js_valid :: "string \<Rightarrow> bool"

section \<open>The service\<close>

record ('b, 'f, 'r, 'l, 'u) fed_service =
  fs_registry :: fed_registry
  fs_bindings :: "'b binding_store"
  fs_vault :: "('r, 'l) vault"
  fs_flows :: "'f flow_store"
  fs_up :: "'u upstream"
  fs_codec :: codec
  fs_parse :: "string \<Rightarrow> url option"
  fs_base :: string
  fs_ttl :: duration
  fs_page :: int

record ('b, 'f, 'r, 'l, 'u) fed_world =
  fw_bindings :: 'b
  fw_flows :: 'f
  fw_vault :: "('r, 'l) vworld"
  fw_up :: 'u
  fw_buffers :: budget
  fw_cooldown :: cooldown

definition killSwitchPageSize :: int where "killSwitchPageSize = 500"

text \<open>\<^verbatim>\<open>Config\<close>: an interface or pointer may be nil. The flow store is never nil here; a nil one becomes
  the in-memory store, whose state is another type. The two HTTP clients are the one \<open>upstream\<close>.\<close>

record ('b, 'f, 'r, 'l, 'u) fed_config =
  fc_registry :: "fed_registry option"
  fc_bindings :: "'b binding_store option"
  fc_vault :: "('r, 'l) vault option"
  fc_flows :: "'f flow_store"
  fc_doer :: "'u upstream option"
  fc_codec :: codec
  fc_parse :: "string \<Rightarrow> url option"
  fc_base :: string
  fc_ttl :: duration
  fc_page :: int
  fc_buffered :: int
  fc_threshold :: int
  fc_cooldown :: duration
  fc_timeout :: duration

definition NewFedService ::
  "('b, 'f, 'r, 'l, 'u) fed_config \<Rightarrow> fed_error + ('b, 'f, 'r, 'l, 'u) fed_service \<times> budget \<times> cooldown" where
  "NewFedService cfg =
     (case fc_registry cfg of None \<Rightarrow> Inl (FPlain ''federation: Registry is required'')
      | Some reg \<Rightarrow> (case fc_bindings cfg of None \<Rightarrow> Inl (FPlain ''federation: BindingStore is required'')
      | Some bs \<Rightarrow> (case fc_vault cfg of None \<Rightarrow> Inl (FPlain ''federation: Vault is required'')
      | Some v \<Rightarrow> (case fc_doer cfg of None \<Rightarrow> Inl (FPlain ''federation: Doer is required'')
      | Some up \<Rightarrow>
          if fc_timeout cfg < 0 then Inl (FPlain ''federation: TotalTimeout must not be negative'')
          else if fc_buffered cfg < 0 then Inl (FPlain ''federation: MaxBufferedBytes must not be negative'')
          else Inr
            (\<lparr>fs_registry = reg, fs_bindings = bs, fs_vault = v, fs_flows = fc_flows cfg, fs_up = up,
              fs_codec = fc_codec cfg, fs_parse = fc_parse cfg,
              fs_base = trim_right_slash (fc_base cfg),
              fs_ttl = (if fc_ttl cfg \<le> 0 then 10 * minute else fc_ttl cfg),
              fs_page = (if fc_page cfg \<le> 0 then killSwitchPageSize else fc_page cfg)\<rparr>,
             newBufferBudget (if fc_buffered cfg = 0 then defaultMaxBufferedBytes else fc_buffered cfg),
             newBindingCooldown (int maxCooledBindings) (fc_threshold cfg) (fc_cooldown cfg))))))"

section \<open>Binding secrets\<close>

definition storeBindingSecret ::
  "('b, 'f, 'r, 'l, 'u) fed_service \<Rightarrow> time \<Rightarrow> binding \<Rightarrow> binding_secret \<Rightarrow> ('b, 'f, 'r, 'l, 'u) fed_world
   \<Rightarrow> fed_error option \<times> ('b, 'f, 'r, 'l, 'u) fed_world" where
  "storeBindingSecret sv now b secret w =
     (case Enroll (fs_vault sv) now (BindingIdentity b) (js_marshal (fs_codec sv) secret)
             (fmap_of_list [(''game'', bd_game b), (''source'', bd_source b)]) (fw_vault w) of
        (err, vw) \<Rightarrow> (map_option FVault err, w\<lparr>fw_vault := vw\<rparr>))"

text \<open>What a callback inside the vault's window may change: the sources and the byte budget. Its
  result is handed through the window; the placeholder is returned by no path.\<close>

definition useBindingSecret ::
  "('b, 'f, 'r, 'l, 'u) fed_service \<Rightarrow> time \<Rightarrow> binding
   \<Rightarrow> (binding_secret \<Rightarrow> 'u \<times> budget \<Rightarrow> (fed_error + 'a) \<times> 'u \<times> budget)
   \<Rightarrow> ('b, 'f, 'r, 'l, 'u) fed_world \<Rightarrow> (fed_error + 'a) \<times> ('b, 'f, 'r, 'l, 'u) fed_world" where
  "useBindingSecret sv now b fn w =
     (case Use (fs_vault sv) now (BindingIdentity b)
             (Some (\<lambda>plaintext (res, d).
                case js_unmarshal (fs_codec sv) plaintext of
                  None \<Rightarrow> (None, Inl (FPlain ''federation: decode binding secret''), d)
                | Some secret \<Rightarrow> (None, fn secret d)))
             (Inl (FPlain []), fw_up w, fw_buffers w) (fw_vault w) of
        (err, (res, u, bf), vw) \<Rightarrow>
          (case err of Some e \<Rightarrow> Inl (FVault e) | None \<Rightarrow> res,
           w\<lparr>fw_vault := vw, fw_up := u, fw_buffers := bf\<rparr>))"

definition withAccessToken ::
  "('b, 'f, 'r, 'l, 'u) fed_service \<Rightarrow> time \<Rightarrow> binding
   \<Rightarrow> (string \<Rightarrow> 'u \<times> budget \<Rightarrow> (fed_error + 'a) \<times> 'u \<times> budget)
   \<Rightarrow> ('b, 'f, 'r, 'l, 'u) fed_world \<Rightarrow> (fed_error + 'a) \<times> ('b, 'f, 'r, 'l, 'u) fed_world" where
  "withAccessToken sv now b fn w = useBindingSecret sv now b (\<lambda>secret. fn (bx_access secret)) w"

definition revokeSecret ::
  "('b, 'f, 'r, 'l, 'u) fed_service \<Rightarrow> time \<Rightarrow> binding \<Rightarrow> ('b, 'f, 'r, 'l, 'u) fed_world
   \<Rightarrow> vault_error option \<times> ('b, 'f, 'r, 'l, 'u) fed_world" where
  "revokeSecret sv now b w =
     (case vault_Revoke (fs_vault sv) now (BindingIdentity b) (fw_vault w) of
        (err, vw) \<Rightarrow> (err, w\<lparr>fw_vault := vw\<rparr>))"

definition deleteBinding ::
  "('b, 'f, 'r, 'l, 'u) fed_service \<Rightarrow> string \<Rightarrow> string \<Rightarrow> string \<Rightarrow> ('b, 'f, 'r, 'l, 'u) fed_world
   \<Rightarrow> fed_error option \<times> ('b, 'f, 'r, 'l, 'u) fed_world" where
  "deleteBinding sv user game src w =
     (case bs_delete (fs_bindings sv) user game src (fw_bindings w) of
        (res, bs) \<Rightarrow> (case res of Inl e \<Rightarrow> Some e | Inr _ \<Rightarrow> None, w\<lparr>fw_bindings := bs\<rparr>))"

section \<open>Binding a source\<close>

definition redirectURL :: "('b, 'f, 'r, 'l, 'u) fed_service \<Rightarrow> source \<Rightarrow> string" where
  "redirectURL sv src =
     trim_right_slash (fs_base sv) @ ''/auth/upstream/'' @ sr_game src @ ''/'' @ sr_name src @ ''/callback''"

definition oauthConfig :: "('b, 'f, 'r, 'l, 'u) fed_service \<Rightarrow> source \<Rightarrow> oauth_config" where
  "oauthConfig sv src =
     \<lparr>oc_client = sr_client src, oc_secret = sr_secret src, oc_auth = sr_auth src, oc_token = sr_token src,
      oc_redirect = redirectURL sv src, oc_scopes = bindScopes src\<rparr>"

definition newBindID :: "tape \<Rightarrow> (fed_error + string) \<times> tape" where
  "newBindID t =
     (case rand_read 16 t of
        None \<Rightarrow> (Inl (FPlain ''federation: random source failed''), t)
      | Some (b, t) \<Rightarrow> (Inr (''bnd_'' @ hex_encode b), t))"

definition set_tape ::
  "tape \<Rightarrow> ('b, 'f, 'r, 'l, 'u) fed_world \<Rightarrow> ('b, 'f, 'r, 'l, 'u) fed_world" where
  "set_tape t w = w\<lparr>fw_vault := (fw_vault w)\<lparr>vw_tape := t\<rparr>\<rparr>"

definition BeginBind ::
  "('b, 'f, 'r, 'l, 'u) fed_service \<Rightarrow> time \<Rightarrow> string \<Rightarrow> string \<Rightarrow> string \<Rightarrow> string
   \<Rightarrow> ('b, 'f, 'r, 'l, 'u) fed_world
   \<Rightarrow> (fed_error + string \<times> string) \<times> ('b, 'f, 'r, 'l, 'u) fed_world" where
  "BeginBind sv now user game src_name return_to w =
     (case source_Get (fs_registry sv) game src_name of
        None \<Rightarrow> (Inl ErrUnknownSource, w)
      | Some src \<Rightarrow>
          if sr_status src = StatusRetired then (Inl ErrSourceRetired, w)
          else if sr_client src = [] \<or> fs_base sv = [] then (Inl ErrBindUnavailable, w)
          else (case newBindID (vw_tape (fw_vault w)) of
              (Inl e, t) \<Rightarrow> (Inl e, set_tape t w)
            | (Inr i, t) \<Rightarrow>
         (case up_verifier (fs_up sv) t of (verifier, t) \<Rightarrow>
         (let w = set_tape t w;
              flow = \<lparr>bf_id = i, bf_user = user, bf_game = game, bf_source = src_name, bf_verifier = verifier,
                      bf_state = i, bf_return = return_to, bf_expires = now + fs_ttl sv, bf_bound = False,
                      bf_version = 0\<rparr>;
              found = bs_get (fs_bindings sv) user game src_name (fw_bindings w)
          in if (case found of Inl e \<Rightarrow> \<not> ferr_is e ErrNotBound | Inr _ \<Rightarrow> False) then (Inl (projl found), w)
             else (let flow = (case found of
                         Inr current \<Rightarrow> flow\<lparr>bf_bound := True, bf_version := bd_version current\<rparr>
                       | Inl _ \<Rightarrow> flow)
                   in case fl_put (fs_flows sv) flow (fw_flows w) of
                        (Inl e, fl) \<Rightarrow> (Inl e, w\<lparr>fw_flows := fl\<rparr>)
                      | (Inr _, fl) \<Rightarrow>
                          (Inr (i, up_auth_url (fs_up sv) (oauthConfig sv src) i verifier),
                           w\<lparr>fw_flows := fl\<rparr>))))))"

text \<open>\<^verbatim>\<open>CompleteBind\<close> up to the token: the flow is consumed, and put back for its owner. The flow is
  returned with every answer but the first.\<close>

definition zero_flow :: bind_flow where
  "zero_flow = \<lparr>bf_id = [], bf_user = [], bf_game = [], bf_source = [], bf_verifier = [], bf_state = [],
     bf_return = [], bf_expires = 0, bf_bound = False, bf_version = 0\<rparr>"

definition bind_exchange ::
  "('b, 'f, 'r, 'l, 'u) fed_service \<Rightarrow> time \<Rightarrow> string \<Rightarrow> string \<Rightarrow> string \<Rightarrow> ('b, 'f, 'r, 'l, 'u) fed_world
   \<Rightarrow> (fed_error + oauth_token) \<times> bind_flow \<times> ('b, 'f, 'r, 'l, 'u) fed_world" where
  "bind_exchange sv now user state code w =
     (case fl_consume (fs_flows sv) state (fw_flows w) of
        (Inl e, fl) \<Rightarrow> (Inl e, zero_flow, w\<lparr>fw_flows := fl\<rparr>)
      | (Inr flow, fl) \<Rightarrow>
     (let w = w\<lparr>fw_flows := fl\<rparr> in
      if bf_user flow \<noteq> user then
        (case fl_put (fs_flows sv) flow fl of
           (Inl e, fl) \<Rightarrow> (Inl e, flow, w\<lparr>fw_flows := fl\<rparr>)
         | (Inr _, fl) \<Rightarrow> (Inl ErrBindUser, flow, w\<lparr>fw_flows := fl\<rparr>))
      else if \<not> now < bf_expires flow then (Inl ErrUnknownBind, flow, w)
      else if code = [] then (Inl (FPlain ''federation: authorization was refused''), flow, w)
      else (case source_Get (fs_registry sv) (bf_game flow) (bf_source flow) of
          None \<Rightarrow> (Inl ErrUnknownSource, flow, w)
        | Some src \<Rightarrow>
            if sr_status src = StatusRetired then (Inl ErrSourceRetired, flow, w)
            else (case up_exchange (fs_up sv) (oauthConfig sv src) code (bf_verifier flow) (fw_up w) of
                (Inl e, u) \<Rightarrow> (Inl (FWrapped ''federation: bind exchange'' (oauth2_err e)), flow, w\<lparr>fw_up := u\<rparr>)
              | (Inr token, u) \<Rightarrow> (Inr token, flow, w\<lparr>fw_up := u\<rparr>)))))"

text \<open>The claim of the row, and the write to the vault that follows it.\<close>

definition claim_row ::
  "('b, 'f, 'r, 'l, 'u) fed_service \<Rightarrow> bind_flow \<Rightarrow> binding \<Rightarrow> 'b \<Rightarrow> (fed_error + bool) \<times> 'b" where
  "claim_row sv flow b bs =
     (if bf_bound flow then bs_put_if (fs_bindings sv) b (bf_version flow) bs else bs_create (fs_bindings sv) b bs)"

definition bind_claim ::
  "('b, 'f, 'r, 'l, 'u) fed_service \<Rightarrow> time \<Rightarrow> string \<Rightarrow> bind_flow \<Rightarrow> oauth_token \<Rightarrow> ('b, 'f, 'r, 'l, 'u) fed_world
   \<Rightarrow> (fed_error + binding) \<times> ('b, 'f, 'r, 'l, 'u) fed_world" where
  "bind_claim sv now user flow token w =
     (case newBindingGeneration (vw_tape (fw_vault w)) of
        (Inl e, t) \<Rightarrow> (Inl e, set_tape t w)
      | (Inr generation, t) \<Rightarrow>
     (let w = set_tape t w;
          b = \<lparr>bd_user = user, bd_game = bf_game flow, bd_source = bf_source flow, bd_type = ot_type token,
               bd_expiry = ot_expiry token, bd_refresh = (ot_refresh token \<noteq> []), bd_version = generation\<rparr>
      in case claim_row sv flow b (fw_bindings w) of
           (Inl e, bs) \<Rightarrow> (Inl e, w\<lparr>fw_bindings := bs\<rparr>)
         | (Inr False, bs) \<Rightarrow> (Inl ErrBindSuperseded, w\<lparr>fw_bindings := bs\<rparr>)
         | (Inr True, bs) \<Rightarrow>
             (case storeBindingSecret sv now b \<lparr>bx_access = ot_access token, bx_refresh = ot_refresh token\<rparr>
                     (w\<lparr>fw_bindings := bs\<rparr>) of
                (None, w) \<Rightarrow> (Inr b, w)
              | (Some err, w) \<Rightarrow>
                  (case revokeSecret sv now b w of
                     (Some rerr, w) \<Rightarrow> (Inl (FJoin err (FVault rerr)), w)
                   | (None, w) \<Rightarrow> (Inl err, w)))))"

definition CompleteBind ::
  "('b, 'f, 'r, 'l, 'u) fed_service \<Rightarrow> time \<Rightarrow> string \<Rightarrow> string \<Rightarrow> string \<Rightarrow> ('b, 'f, 'r, 'l, 'u) fed_world
   \<Rightarrow> (fed_error + binding) \<times> bind_flow \<times> ('b, 'f, 'r, 'l, 'u) fed_world" where
  "CompleteBind sv now user state code w =
     (case bind_exchange sv now user state code w of
        (Inl e, flow, w) \<Rightarrow> (Inl e, flow, w)
      | (Inr token, flow, w) \<Rightarrow>
          (case bind_claim sv now user flow token w of (res, w) \<Rightarrow> (res, flow, w)))"

section \<open>Refreshing\<close>

definition refreshSkew :: duration where "refreshSkew = 30 * second"

definition needsRefresh :: "time \<Rightarrow> binding \<Rightarrow> bool" where
  "needsRefresh now b = (if \<not> bd_refresh b \<or> is_zero (bd_expiry b) then False else now + refreshSkew > bd_expiry b)"

definition refreshRejected ::
  "('b, 'f, 'r, 'l, 'u) fed_service \<Rightarrow> time \<Rightarrow> binding \<Rightarrow> ('b, 'f, 'r, 'l, 'u) fed_world
   \<Rightarrow> (fed_error + binding) \<times> ('b, 'f, 'r, 'l, 'u) fed_world" where
  "refreshRejected sv now spent w =
     (let found = bs_get (fs_bindings sv) (bd_user spent) (bd_game spent) (bd_source spent) (fw_bindings w);
          gone = Inl (NotBoundError (bd_game spent) (bd_source spent))
      in if (case found of Inr latest \<Rightarrow> bd_version latest \<noteq> bd_version spent | Inl e \<Rightarrow> \<not> ferr_is e ErrNotBound)
         then (found, w)
         else (case revokeSecret sv now spent w of
             (Some _, w) \<Rightarrow> (gone, w)
           | (None, w) \<Rightarrow> (gone, snd (deleteBinding sv (bd_user spent) (bd_game spent) (bd_source spent) w))))"

text \<open>The grant inside the vault's window: the replacement row and pair, or why there is none.\<close>

definition refresh_grant ::
  "('b, 'f, 'r, 'l, 'u) fed_service \<Rightarrow> source \<Rightarrow> binding \<Rightarrow> binding_secret \<Rightarrow> 'u \<times> budget
   \<Rightarrow> (fed_error + binding \<times> binding_secret) \<times> 'u \<times> budget" where
  "refresh_grant sv src fresh secret d =
     (if bx_refresh secret = [] then (Inl ErrNoRefreshToken, d)
      else (case d of (u, bf) \<Rightarrow>
        (case up_refresh (fs_up sv) (oauthConfig sv src) (bx_refresh secret) u of
           (Inl e, u) \<Rightarrow>
             (Inl (if isRefreshRejected (oauth2_err e) then ErrRefreshRejected
                   else FWrapped (''federation: refresh '' @ sr_name src) (oauth2_err e)), u, bf)
         | (Inr token, u) \<Rightarrow>
             (let refresh = (if ot_refresh token \<noteq> [] then ot_refresh token else bx_refresh secret) in
              (Inr (fresh\<lparr>bd_type := ot_type token, bd_expiry := ot_expiry token, bd_refresh := (refresh \<noteq> []),
                         bd_version := bd_version fresh + 1\<rparr>,
                    \<lparr>bx_access = ot_access token, bx_refresh = refresh\<rparr>), u, bf)))))"

definition refresh_commit ::
  "('b, 'f, 'r, 'l, 'u) fed_service \<Rightarrow> time \<Rightarrow> binding \<Rightarrow> binding \<Rightarrow> binding_secret \<Rightarrow> ('b, 'f, 'r, 'l, 'u) fed_world
   \<Rightarrow> (fed_error + binding) \<times> ('b, 'f, 'r, 'l, 'u) fed_world" where
  "refresh_commit sv now fresh updated rotated w =
     (case bs_put_if (fs_bindings sv) updated (bd_version fresh) (fw_bindings w) of
        (Inl e, bs) \<Rightarrow> (Inl e, w\<lparr>fw_bindings := bs\<rparr>)
      | (Inr False, bs) \<Rightarrow>
          (bs_get (fs_bindings sv) (bd_user fresh) (bd_game fresh) (bd_source fresh) bs, w\<lparr>fw_bindings := bs\<rparr>)
      | (Inr True, bs) \<Rightarrow>
          (case storeBindingSecret sv now updated rotated (w\<lparr>fw_bindings := bs\<rparr>) of
             (Some e, w) \<Rightarrow> (Inl e, w)
           | (None, w) \<Rightarrow> (Inr updated, w)))"

definition refreshBinding ::
  "('b, 'f, 'r, 'l, 'u) fed_service \<Rightarrow> time \<Rightarrow> source \<Rightarrow> binding \<Rightarrow> bool \<Rightarrow> ('b, 'f, 'r, 'l, 'u) fed_world
   \<Rightarrow> (fed_error + binding) \<times> ('b, 'f, 'r, 'l, 'u) fed_world" where
  "refreshBinding sv now src current force w =
     (case bs_get (fs_bindings sv) (bd_user current) (bd_game current) (bd_source current) (fw_bindings w) of
        Inl e \<Rightarrow> (Inl e, w)
      | Inr fresh \<Rightarrow>
          if bd_version fresh \<noteq> bd_version current then (Inr fresh, w)
          else if \<not> force \<and> \<not> needsRefresh now fresh then (Inr fresh, w)
          else if \<not> bd_refresh fresh then (Inl ErrNoRefreshToken, w)
          else (case useBindingSecret sv now fresh (refresh_grant sv src fresh) w of
              (Inl e, w) \<Rightarrow> if ferr_is e ErrRefreshRejected then refreshRejected sv now fresh w else (Inl e, w)
            | (Inr (updated, rotated), w) \<Rightarrow> refresh_commit sv now fresh updated rotated w))"

definition callWithRefresh ::
  "('b, 'f, 'r, 'l, 'u) fed_service \<Rightarrow> time \<Rightarrow> source \<Rightarrow> binding
   \<Rightarrow> (string \<Rightarrow> 'u \<times> budget \<Rightarrow> (fed_error + 'a) \<times> 'u \<times> budget)
   \<Rightarrow> ('b, 'f, 'r, 'l, 'u) fed_world \<Rightarrow> (fed_error + 'a) \<times> ('b, 'f, 'r, 'l, 'u) fed_world" where
  "callWithRefresh sv now src b fn w =
     (case (if needsRefresh now b then refreshBinding sv now src b False w else (Inr b, w)) of
        (Inl e, w) \<Rightarrow> (Inl e, w)
      | (Inr b, w) \<Rightarrow>
          (case withAccessToken sv now b fn w of
             (Inr a, w) \<Rightarrow> (Inr a, w)
           | (Inl e, w) \<Rightarrow>
               if \<not> isUnauthorized e \<or> \<not> bd_refresh b then (Inl e, w)
               else (case refreshBinding sv now src b True w of
                   (Inl e, w) \<Rightarrow> (Inl e, w)
                 | (Inr b, w) \<Rightarrow> withAccessToken sv now b fn w)))"

section \<open>Reading\<close>

text \<open>\<^verbatim>\<open>io.ReadAll(io.LimitReader(body, maxBody+1))\<close>: a body that breaks after the limit is not noticed.\<close>

definition read_limited :: "http_response \<Rightarrow> string option" where
  "read_limited resp =
     (if hr_broken resp \<and> int (length (hr_body resp)) < maxBody + 1 then None
      else Some (take (nat (maxBody + 1)) (hr_body resp)))"

text \<open>The reservation a result carries until its body is written out: the caller and the bytes.\<close>

type_synonym reservation = "string \<times> int"

record fetch_request =
  fq_user :: string
  fq_game :: string
  fq_resource :: string
  fq_source :: string

record fetch_result =
  ft_source :: string
  ft_degraded :: bool
  ft_data :: string
  ft_release :: reservation

definition bearer :: "string \<Rightarrow> string \<times> string" where
  "bearer token = (''Authorization'', ''Bearer '' @ token)"

definition fetchResource ::
  "('b, 'f, 'r, 'l, 'u) fed_service \<Rightarrow> source \<Rightarrow> string \<Rightarrow> string \<Rightarrow> string \<Rightarrow> 'u \<times> budget
   \<Rightarrow> (fed_error + string \<times> reservation) \<times> 'u \<times> budget" where
  "fetchResource sv src res caller token d =
     (let endpoint = trim_right_slash (sr_issuer src) @ ''/resources/'' @ path_escape res in
      case fs_parse sv endpoint of
        None \<Rightarrow> (Inl (FPlain ''federation: build request''), d)
      | Some _ \<Rightarrow> (case d of (u, bf) \<Rightarrow>
     (case up_do (fs_up sv) \<lparr>hq_method = ''GET'', hq_url = endpoint,
             hq_header = [bearer token, (''Accept'', ''application/json'')], hq_body = []\<rparr> u of
        (Inl m, u) \<Rightarrow> (Inl (FWrapped (''federation: source '' @ sr_name src) (FPlain m)), u, bf)
      | (Inr resp, u) \<Rightarrow>
     (let reserve = reserveFor (hr_length resp) (maxBody + 1) in
      case budget_acquire caller reserve bf of
        (False, bf) \<Rightarrow> (Inl ErrBufferBudget, u, bf)
      | (True, bf) \<Rightarrow>
     (let failed = (\<lambda>e. (Inl e, u, budget_release caller reserve bf)) in
      case read_limited resp of
        None \<Rightarrow> failed (FPlain (''federation: read '' @ sr_name src))
      | Some body \<Rightarrow>
          if int (length body) > maxBody then failed ErrResponseTooLarge
          else if hr_status resp \<noteq> 200 then failed (SourceError (sr_name src) (hr_status resp))
          else if \<not> js_valid (fs_codec sv) body then
            failed (FPlain (''federation: source '' @ sr_name src @ '' returned invalid JSON''))
          else (Inr (body, (caller, reserve)), u, bf))))))"

record raw_result =
  rw_source :: string
  rw_status :: int
  rw_type :: string
  rw_encoding :: string
  rw_body :: string
  rw_release :: reservation

definition raw_endpoint :: "source \<Rightarrow> string \<Rightarrow> url_values \<Rightarrow> string" where
  "raw_endpoint src cleaned query =
     sr_raw src @ (if cleaned \<noteq> [] then ''/'' @ cleaned else [])
       @ (if query \<noteq> fmempty then ''?'' @ values_encode query else [])"

definition rawFetch ::
  "('b, 'f, 'r, 'l, 'u) fed_service \<Rightarrow> source \<Rightarrow> string \<Rightarrow> url_values \<Rightarrow> string \<Rightarrow> string \<Rightarrow> 'u \<times> budget
   \<Rightarrow> (fed_error + raw_result) \<times> 'u \<times> budget" where
  "rawFetch sv src path query caller token d =
     (case cleanRawPath path of
        Inl e \<Rightarrow> (Inl e, d)
      | Inr cleaned \<Rightarrow>
     (let endpoint = raw_endpoint src cleaned query in
      case fs_parse sv endpoint of
        None \<Rightarrow> (Inl (FPlain ''federation: build raw request''), d)
      | Some _ \<Rightarrow> (case d of (u, bf) \<Rightarrow>
     (case up_do (fs_up sv) \<lparr>hq_method = ''GET'', hq_url = endpoint,
             hq_header = [bearer token, (''Accept'', ''*/*''), (''Accept-Encoding'', ''identity'')], hq_body = []\<rparr> u of
        (Inl m, u) \<Rightarrow> (Inl (FWrapped (''federation: raw '' @ sr_name src) (FPlain m)), u, bf)
      | (Inr resp, u) \<Rightarrow>
     (let reserve = reserveFor (hr_length resp) (maxBody + 1) in
      case budget_acquire caller reserve bf of
        (False, bf) \<Rightarrow> (Inl ErrBufferBudget, u, bf)
      | (True, bf) \<Rightarrow>
     (let failed = (\<lambda>e. (Inl e, u, budget_release caller reserve bf)) in
      case read_limited resp of
        None \<Rightarrow> failed (FPlain (''federation: read raw '' @ sr_name src))
      | Some body \<Rightarrow>
          if int (length body) > maxBody then failed ErrResponseTooLarge
          else (Inr \<lparr>rw_source = [], rw_status = hr_status resp, rw_type = hr_type resp,
                     rw_encoding = hr_encoding resp, rw_body = body, rw_release = (caller, reserve)\<rparr>, u, bf)))))))"

text \<open>The callback of \<^verbatim>\<open>Raw\<close>: an unauthorized answer gives its reservation back before the retry.\<close>

definition raw_attempt ::
  "('b, 'f, 'r, 'l, 'u) fed_service \<Rightarrow> source \<Rightarrow> string \<Rightarrow> url_values \<Rightarrow> string \<Rightarrow> string \<Rightarrow> 'u \<times> budget
   \<Rightarrow> (fed_error + raw_result) \<times> 'u \<times> budget" where
  "raw_attempt sv src path query caller token d =
     (case rawFetch sv src path query caller token d of
        (Inl e, d) \<Rightarrow> (Inl e, d)
      | (Inr result, u, bf) \<Rightarrow>
          if rw_status result = 401
          then (Inl (SourceError (sr_name src) 401), u,
                budget_release (fst (rw_release result)) (snd (rw_release result)) bf)
          else (Inr result, u, bf))"

definition noteBindingOutcome :: "time \<Rightarrow> string \<Rightarrow> fed_error + 'a \<Rightarrow> cooldown \<Rightarrow> cooldown" where
  "noteBindingOutcome now key res c =
     (if (case res of Inl e \<Rightarrow> isUnauthorized e | Inr _ \<Rightarrow> False) then snd (cd_reject now key c) else cd_reset key c)"

text \<open>What \<^verbatim>\<open>trySource\<close> and \<^verbatim>\<open>Raw\<close> share: the binding, its cooldown, the call and its outcome.\<close>

definition call_bound ::
  "('b, 'f, 'r, 'l, 'u) fed_service \<Rightarrow> time \<Rightarrow> source \<Rightarrow> string \<Rightarrow> string
   \<Rightarrow> (string \<Rightarrow> 'u \<times> budget \<Rightarrow> (fed_error + 'a) \<times> 'u \<times> budget)
   \<Rightarrow> ('b, 'f, 'r, 'l, 'u) fed_world \<Rightarrow> (fed_error + 'a) \<times> ('b, 'f, 'r, 'l, 'u) fed_world" where
  "call_bound sv now src user game fn w =
     (case bs_get (fs_bindings sv) user game (sr_name src) (fw_bindings w) of
        Inl e \<Rightarrow> (Inl (if ferr_is e ErrNotBound then NotBoundError game (sr_name src) else e), w)
      | Inr b \<Rightarrow>
     (let key = bindingKey user game (sr_name src) in
      case cooling now key (fw_cooldown w) of
        (True, c) \<Rightarrow> (Inl (BindingCooldownError game (sr_name src)), w\<lparr>fw_cooldown := c\<rparr>)
      | (False, c) \<Rightarrow>
          (case callWithRefresh sv now src b fn (w\<lparr>fw_cooldown := c\<rparr>) of
             (res, w) \<Rightarrow> (res, w\<lparr>fw_cooldown := noteBindingOutcome now key res (fw_cooldown w)\<rparr>))))"

definition trySource ::
  "('b, 'f, 'r, 'l, 'u) fed_service \<Rightarrow> time \<Rightarrow> source \<Rightarrow> fetch_request \<Rightarrow> ('b, 'f, 'r, 'l, 'u) fed_world
   \<Rightarrow> (fed_error + fetch_result) \<times> ('b, 'f, 'r, 'l, 'u) fed_world" where
  "trySource sv now src req w =
     (case call_bound sv now src (fq_user req) (fq_game req)
             (fetchResource sv src (fq_resource req) (fq_user req)) w of
        (Inl e, w) \<Rightarrow> (Inl e, w)
      | (Inr (data, release), w) \<Rightarrow>
          (Inr \<lparr>ft_source = sr_name src, ft_degraded = False, ft_data = data, ft_release = release\<rparr>, w))"

text \<open>The loop of \<^verbatim>\<open>Fetch\<close>: whether a source was passed over, the first missing binding, whether
  anything else failed, and the last error.\<close>

fun fetch_loop ::
  "('b, 'f, 'r, 'l, 'u) fed_service \<Rightarrow> time \<Rightarrow> fetch_request \<Rightarrow> bool \<Rightarrow> fed_error option \<Rightarrow> bool \<Rightarrow> fed_error option
   \<Rightarrow> source list \<Rightarrow> ('b, 'f, 'r, 'l, 'u) fed_world \<Rightarrow> (fed_error + fetch_result) \<times> ('b, 'f, 'r, 'l, 'u) fed_world" where
  "fetch_loop sv now req later firstNotBound sawOther lastErr [] w =
     (Inl (if \<not> sawOther \<and> firstNotBound \<noteq> None then the firstNotBound
           else (case lastErr of None \<Rightarrow> ErrUnknownResource | Some e \<Rightarrow> e)), w)"
| "fetch_loop sv now req later firstNotBound sawOther lastErr (src # srcs) w =
     (case trySource sv now src req w of
        (Inr result, w) \<Rightarrow> (Inr (result\<lparr>ft_degraded := later\<rparr>), w)
      | (Inl e, w) \<Rightarrow>
          (case as_not_bound e of
             Some nb \<Rightarrow> fetch_loop sv now req True (if firstNotBound = None then Some nb else firstNotBound)
                          sawOther (Some e) srcs w
           | None \<Rightarrow> fetch_loop sv now req True firstNotBound True (Some e) srcs w))"

definition Fetch ::
  "('b, 'f, 'r, 'l, 'u) fed_service \<Rightarrow> time \<Rightarrow> fetch_request \<Rightarrow> ('b, 'f, 'r, 'l, 'u) fed_world
   \<Rightarrow> (fed_error + fetch_result) \<times> ('b, 'f, 'r, 'l, 'u) fed_world" where
  "Fetch sv now req w =
     (case candidates (fs_registry sv) (fq_game req) (fq_resource req) (fq_source req) of
        Inl e \<Rightarrow> (Inl e, w)
      | Inr cs \<Rightarrow> fetch_loop sv now req False None False None cs w)"

record raw_request =
  rq_user :: string
  rq_game :: string
  rq_source :: string
  rq_path :: string
  rq_query :: url_values

definition Raw ::
  "('b, 'f, 'r, 'l, 'u) fed_service \<Rightarrow> time \<Rightarrow> raw_request \<Rightarrow> ('b, 'f, 'r, 'l, 'u) fed_world
   \<Rightarrow> (fed_error + raw_result) \<times> ('b, 'f, 'r, 'l, 'u) fed_world" where
  "Raw sv now req w =
     (case source_Get (fs_registry sv) (rq_game req) (rq_source req) of
        None \<Rightarrow> (Inl ErrUnknownSource, w)
      | Some src \<Rightarrow>
          if sr_status src = StatusRetired then (Inl ErrSourceRetired, w)
          else if sr_raw src = [] then (Inl ErrRawUnsupported, w)
          else (case call_bound sv now src (rq_user req) (rq_game req)
                       (raw_attempt sv src (rq_path req) (rq_query req) (rq_user req)) w of
              (Inl e, w) \<Rightarrow> (Inl e, w)
            | (Inr result, w) \<Rightarrow> (Inr (result\<lparr>rw_source := sr_name src\<rparr>), w)))"

section \<open>Disconnecting\<close>

definition RevocationDone :: string where "RevocationDone = ''done''"
definition RevocationUnsupported :: string where "RevocationUnsupported = ''unsupported''"
definition RevocationUnavailable :: string where "RevocationUnavailable = ''unavailable''"
definition RevocationNothingToDo :: string where "RevocationNothingToDo = ''nothing''"
definition upstreamRevocationFailed :: string where "upstreamRevocationFailed = ''upstream_revocation_failed''"

record revocation_result =
  rv_upstream :: string
  rv_error :: string

definition preferredToken :: "binding_secret \<Rightarrow> string \<times> string" where
  "preferredToken secret =
     (if bx_refresh secret \<noteq> [] then (bx_refresh secret, ''refresh_token'')
      else if bx_access secret \<noteq> [] then (bx_access secret, ''access_token'')
      else ([], []))"

definition token_form :: "string \<Rightarrow> string \<Rightarrow> url_values" where
  "token_form token hint = fmap_of_list [(''token'', [token]), (''token_type_hint'', [hint])]"

definition revocation_request :: "source \<Rightarrow> string \<Rightarrow> url_values \<Rightarrow> http_request" where
  "revocation_request src endpoint form =
     \<lparr>hq_method = ''POST'', hq_url = endpoint,
      hq_header = [(''Content-Type'', ''application/x-www-form-urlencoded''),
        (''Authorization'',
         ''Basic '' @ base64_padded (query_escape (sr_client src) @ '':'' @ query_escape (sr_secret src)))],
      hq_body = values_encode form\<rparr>"

definition postRevocation ::
  "('b, 'f, 'r, 'l, 'u) fed_service \<Rightarrow> source \<Rightarrow> string \<Rightarrow> url_values \<Rightarrow> ('b, 'f, 'r, 'l, 'u) fed_world
   \<Rightarrow> fed_error option \<times> ('b, 'f, 'r, 'l, 'u) fed_world" where
  "postRevocation sv src endpoint form w =
     (case fs_parse sv endpoint of
        None \<Rightarrow> (Some (FPlain ''parse''), w)
      | Some _ \<Rightarrow>
          (case up_do (fs_up sv) (revocation_request src endpoint form) (fw_up w) of
             (Inl m, u) \<Rightarrow> (Some (FPlain m), w\<lparr>fw_up := u\<rparr>)
           | (Inr resp, u) \<Rightarrow>
               (if hr_status resp \<ge> 300 then Some (FPlain ''the source answered'') else None, w\<lparr>fw_up := u\<rparr>)))"

definition read_secret ::
  "('b, 'f, 'r, 'l, 'u) fed_service \<Rightarrow> time \<Rightarrow> binding \<Rightarrow> ('b, 'f, 'r, 'l, 'u) fed_world
   \<Rightarrow> (fed_error + binding_secret) \<times> ('b, 'f, 'r, 'l, 'u) fed_world" where
  "read_secret sv now b w = useBindingSecret sv now b (\<lambda>secret d. (Inr secret, d)) w"

definition revokeUpstream ::
  "('b, 'f, 'r, 'l, 'u) fed_service \<Rightarrow> time \<Rightarrow> source \<Rightarrow> binding \<Rightarrow> ('b, 'f, 'r, 'l, 'u) fed_world
   \<Rightarrow> revocation_result \<times> ('b, 'f, 'r, 'l, 'u) fed_world" where
  "revokeUpstream sv now src b w =
     (case read_secret sv now b w of
        (Inl e, w) \<Rightarrow>
          if ferr_is e (FVault ErrNotFound) then (\<lparr>rv_upstream = RevocationNothingToDo, rv_error = []\<rparr>, w)
          else (\<lparr>rv_upstream = RevocationUnavailable, rv_error = upstreamRevocationFailed\<rparr>, w)
      | (Inr secret, w) \<Rightarrow>
          (case preferredToken secret of (token, hint) \<Rightarrow>
             if token = [] then (\<lparr>rv_upstream = RevocationNothingToDo, rv_error = []\<rparr>, w)
             else (case postRevocation sv src (sr_revoke src) (token_form token hint) w of
                 (Some _, w) \<Rightarrow> (\<lparr>rv_upstream = RevocationUnavailable, rv_error = upstreamRevocationFailed\<rparr>, w)
               | (None, w) \<Rightarrow> (\<lparr>rv_upstream = RevocationDone, rv_error = []\<rparr>, w))))"

text \<open>The secret first, then the row.\<close>

definition cut_binding ::
  "('b, 'f, 'r, 'l, 'u) fed_service \<Rightarrow> time \<Rightarrow> binding \<Rightarrow> string \<Rightarrow> string \<Rightarrow> string \<Rightarrow> ('b, 'f, 'r, 'l, 'u) fed_world
   \<Rightarrow> fed_error option \<times> ('b, 'f, 'r, 'l, 'u) fed_world" where
  "cut_binding sv now b user game src w =
     (case revokeSecret sv now b w of
        (Some e, w) \<Rightarrow> (Some (FWrapped ''federation: shred binding secret'' (FVault e)), w)
      | (None, w) \<Rightarrow>
          (case deleteBinding sv user game src w of
             (Some e, w) \<Rightarrow> (Some (FWrapped ''federation: delete binding'' e), w)
           | (None, w) \<Rightarrow> (None, w)))"

text \<open>\<^verbatim>\<open>Unbind\<close> answers its result beside an error of the local half.\<close>

definition Unbind ::
  "('b, 'f, 'r, 'l, 'u) fed_service \<Rightarrow> time \<Rightarrow> string \<Rightarrow> string \<Rightarrow> string \<Rightarrow> ('b, 'f, 'r, 'l, 'u) fed_world
   \<Rightarrow> (fed_error option \<times> revocation_result) \<times> ('b, 'f, 'r, 'l, 'u) fed_world" where
  "Unbind sv now user game src_name w =
     (let zero = \<lparr>rv_upstream = [], rv_error = []\<rparr>; nothing = \<lparr>rv_upstream = RevocationNothingToDo, rv_error = []\<rparr> in
      if user = [] \<or> game = [] \<or> src_name = [] then
        ((Some (FPlain ''federation: user, game and source are required''), zero), w)
      else (case bs_get (fs_bindings sv) user game src_name (fw_bindings w) of
          Inl e \<Rightarrow>
            if ferr_is e ErrNotBound then
              ((if source_Get (fs_registry sv) game src_name = None then (Some ErrUnknownSource, zero)
                else (None, nothing)), w)
            else ((Some e, zero), w)
        | Inr b \<Rightarrow>
            (case (case source_Get (fs_registry sv) game src_name of
                     None \<Rightarrow> (nothing, w)
                   | Some src \<Rightarrow>
                       if sr_class src = tokenClassLongLived
                       then (\<lparr>rv_upstream = RevocationUnsupported, rv_error = []\<rparr>, w)
                       else revokeUpstream sv now src b w) of
               (result, w) \<Rightarrow>
                 (case cut_binding sv now b user game src_name w of (err, w) \<Rightarrow> ((err, result), w)))))"

definition CascadeRevoke ::
  "('b, 'f, 'r, 'l, 'u) fed_service \<Rightarrow> time \<Rightarrow> string \<Rightarrow> string \<Rightarrow> string \<Rightarrow> ('b, 'f, 'r, 'l, 'u) fed_world
   \<Rightarrow> (fed_error + revocation_result) \<times> ('b, 'f, 'r, 'l, 'u) fed_world" where
  "CascadeRevoke sv now user game src_name w =
     (if user = [] \<or> game = [] \<or> src_name = [] then
        (Inl (FPlain ''federation: user, game and source are required''), w)
      else (case source_Get (fs_registry sv) game src_name of
          None \<Rightarrow> (Inl ErrUnknownSource, w)
        | Some src \<Rightarrow>
            if sr_cascade src = [] then (Inl ErrCascadeUnsupported, w)
            else (case bs_get (fs_bindings sv) user game src_name (fw_bindings w) of
                Inl e \<Rightarrow> (Inl e, w)
              | Inr b \<Rightarrow>
         (case read_secret sv now b w of
            (Inl e, w) \<Rightarrow> (Inl (FWrapped ''federation: read binding secret'' e), w)
          | (Inr secret, w) \<Rightarrow>
         (case preferredToken secret of (token, hint) \<Rightarrow>
            if token = [] then
              (Inl (FPlain ''federation: the binding holds no token to identify the session''), w)
            else (case postRevocation sv src (sr_cascade src) (token_form token hint) w of
                (Some e, w) \<Rightarrow> (Inl (FWrapped ''federation: cascade revocation'' e), w)
              | (None, w) \<Rightarrow>
                  (case cut_binding sv now b user game src_name w of
                     (Some e, w) \<Rightarrow> (Inl e, w)
                   | (None, w) \<Rightarrow> (Inr \<lparr>rv_upstream = RevocationDone, rv_error = []\<rparr>, w))))))))"

definition shredBinding ::
  "('b, 'f, 'r, 'l, 'u) fed_service \<Rightarrow> time \<Rightarrow> binding \<Rightarrow> ('b, 'f, 'r, 'l, 'u) fed_world
   \<Rightarrow> fed_error option \<times> ('b, 'f, 'r, 'l, 'u) fed_world" where
  "shredBinding sv now b w =
     (case revokeSecret sv now b w of
        (Some e, w) \<Rightarrow> (Some (FVault e), w)
      | (None, w) \<Rightarrow> deleteBinding sv (bd_user b) (bd_game b) (bd_source b) w)"

section \<open>The kill switch\<close>

record binding_outcome =
  bo_revoked :: nat
  bo_cascade :: nat
  bo_unsupported :: nat
  bo_unavailable :: nat
  bo_orphaned :: nat
  bo_failed :: nat

definition no_outcome :: binding_outcome where
  "no_outcome = \<lparr>bo_revoked = 0, bo_cascade = 0, bo_unsupported = 0, bo_unavailable = 0, bo_orphaned = 0, bo_failed = 0\<rparr>"

record revocation_summary = binding_outcome +
  bo_total :: nat

definition no_summary :: revocation_summary where
  "no_summary = binding_outcome.extend no_outcome \<lparr>bo_total = 0\<rparr>"

definition add_outcome :: "binding_outcome \<Rightarrow> revocation_summary \<Rightarrow> revocation_summary" where
  "add_outcome out s =
     \<lparr>bo_revoked = bo_revoked s + bo_revoked out, bo_cascade = bo_cascade s + bo_cascade out,
      bo_unsupported = bo_unsupported s + bo_unsupported out, bo_unavailable = bo_unavailable s + bo_unavailable out,
      bo_orphaned = bo_orphaned s + bo_orphaned out, bo_failed = bo_failed s + bo_failed out,
      bo_total = bo_total s + (bo_revoked out + bo_failed out)\<rparr>"

definition unbind_outcome :: "fed_error option \<times> revocation_result \<Rightarrow> binding_outcome" where
  "unbind_outcome res =
     (case res of
        (Some _, _) \<Rightarrow> no_outcome\<lparr>bo_failed := 1\<rparr>
      | (None, result) \<Rightarrow>
          (let out = no_outcome\<lparr>bo_revoked := 1\<rparr> in
           if rv_upstream result = RevocationUnsupported then out\<lparr>bo_unsupported := 1\<rparr>
           else if rv_upstream result = RevocationUnavailable then out\<lparr>bo_unavailable := 1\<rparr> else out))"

definition revokeBinding ::
  "('b, 'f, 'r, 'l, 'u) fed_service \<Rightarrow> time \<Rightarrow> binding \<Rightarrow> ('b, 'f, 'r, 'l, 'u) fed_world
   \<Rightarrow> binding_outcome \<times> ('b, 'f, 'r, 'l, 'u) fed_world" where
  "revokeBinding sv now b w =
     (case source_Get (fs_registry sv) (bd_game b) (bd_source b) of
        None \<Rightarrow>
          (case shredBinding sv now b w of
             (Some _, w) \<Rightarrow> (no_outcome\<lparr>bo_failed := 1\<rparr>, w)
           | (None, w) \<Rightarrow> (no_outcome\<lparr>bo_revoked := 1, bo_orphaned := 1\<rparr>, w))
      | Some src \<Rightarrow>
          (case (if sr_cascade src \<noteq> [] then CascadeRevoke sv now (bd_user b) (bd_game b) (bd_source b) w
                 else (Inl ErrCascadeUnsupported, w)) of
             (Inr _, w) \<Rightarrow> (no_outcome\<lparr>bo_revoked := 1, bo_cascade := 1\<rparr>, w)
           | (Inl _, w) \<Rightarrow>
               (case Unbind sv now (bd_user b) (bd_game b) (bd_source b) w of
                  (res, w) \<Rightarrow> (unbind_outcome res, w))))"

fun revokeBindings ::
  "('b, 'f, 'r, 'l, 'u) fed_service \<Rightarrow> time \<Rightarrow> binding list \<Rightarrow> revocation_summary \<Rightarrow> ('b, 'f, 'r, 'l, 'u) fed_world
   \<Rightarrow> revocation_summary \<times> ('b, 'f, 'r, 'l, 'u) fed_world" where
  "revokeBindings sv now [] s w = (s, w)"
| "revokeBindings sv now (b # bs) s w =
     (case revokeBinding sv now b w of (out, w) \<Rightarrow> revokeBindings sv now bs (add_outcome out s) w)"

partial_function (option) revoke_pages ::
  "('b, 'f, 'r, 'l, 'u) fed_service \<Rightarrow> time
   \<Rightarrow> (string \<Rightarrow> string \<Rightarrow> string \<Rightarrow> int \<Rightarrow> 'b \<Rightarrow> fed_error + binding list)
   \<Rightarrow> string \<Rightarrow> string \<Rightarrow> string \<Rightarrow> revocation_summary \<Rightarrow> ('b, 'f, 'r, 'l, 'u) fed_world
   \<Rightarrow> (fed_error option \<times> revocation_summary \<times> ('b, 'f, 'r, 'l, 'u) fed_world) option" where
  "revoke_pages sv now pager u g n s w =
     (case pager u g n (fs_page sv) (fw_bindings w) of
        Inl e \<Rightarrow> Some (Some e, s, w)
      | Inr page \<Rightarrow>
          if page = [] then Some (None, s, w)
          else (case revokeBindings sv now page s w of
              (s, w) \<Rightarrow>
                if int (length page) < fs_page sv then Some (None, s, w)
                else revoke_pages sv now pager (bd_user (last page)) (bd_game (last page)) (bd_source (last page)) s w))"

definition RevokeAllBindings ::
  "('b, 'f, 'r, 'l, 'u) fed_service \<Rightarrow> time \<Rightarrow> ('b, 'f, 'r, 'l, 'u) fed_world
   \<Rightarrow> (fed_error option \<times> revocation_summary \<times> ('b, 'f, 'r, 'l, 'u) fed_world) option" where
  "RevokeAllBindings sv now w =
     (case bs_page (fs_bindings sv) of
        Some pager \<Rightarrow> revoke_pages sv now pager [] [] [] no_summary w
      | None \<Rightarrow>
          (case bs_list_all (fs_bindings sv) (fw_bindings w) of
             Inl e \<Rightarrow> Some (Some e, no_summary, w)
           | Inr all \<Rightarrow> (case revokeBindings sv now all no_summary w of (s, w) \<Rightarrow> Some (None, s, w))))"

definition RevokeUserBindings ::
  "('b, 'f, 'r, 'l, 'u) fed_service \<Rightarrow> time \<Rightarrow> string \<Rightarrow> ('b, 'f, 'r, 'l, 'u) fed_world
   \<Rightarrow> (fed_error + revocation_summary) \<times> ('b, 'f, 'r, 'l, 'u) fed_world" where
  "RevokeUserBindings sv now user w =
     (if user = [] then (Inl (FPlain ''federation: user is required''), w)
      else (case bs_list (fs_bindings sv) user (fw_bindings w) of
          Inl e \<Rightarrow> (Inl e, w)
        | Inr bs \<Rightarrow> (case revokeBindings sv now bs no_summary w of (s, w) \<Rightarrow> (Inr s, w))))"

definition Bindings ::
  "('b, 'f, 'r, 'l, 'u) fed_service \<Rightarrow> string \<Rightarrow> ('b, 'f, 'r, 'l, 'u) fed_world \<Rightarrow> fed_error + binding list" where
  "Bindings sv user w =
     (if user = [] then Inl (FPlain ''federation: user is required'')
      else bs_list (fs_bindings sv) user (fw_bindings w))"

definition MissingBindings ::
  "('b, 'f, 'r, 'l, 'u) fed_service \<Rightarrow> string \<Rightarrow> string list \<Rightarrow> ('b, 'f, 'r, 'l, 'u) fed_world
   \<Rightarrow> fed_error + binding_requirement list" where
  "MissingBindings sv user scopes w =
     (if \<forall>s \<in> set scopes. s = [] then Inr []
      else (case bs_list (fs_bindings sv) user (fw_bindings w) of
          Inl e \<Rightarrow> Inl e
        | Inr bs \<Rightarrow>
            Inr (missing_for (fs_registry sv) (set (map (\<lambda>b. sourceKey (bd_game b) (bd_source b)) bs)) scopes)))"

end
