(* ===== verification/Federation_Moves.thy ===== *)
theory Federation_Moves
  imports Federation_Service
begin

text \<open>
  What the federation service does to its two stores. Whatever the data sources answer and whether
  or not the audit log accepts an event, an operation for one account is a sequence of moves of that
  account alone: claim a row by compare-and-swap, store the secret of a row that exists, shred a
  secret, remove a row whose secret is gone. The contract of the stores is the locale
  \<open>fed_stores\<close>, the binding store's and the repository's together with their answers being total; it
  is interpreted on the two in-memory stores.
  Shown of moves: both stores stay well-formed, no secret is without its row, and other accounts
  are untouched.
\<close>

section \<open>Moves\<close>

inductive store_move :: "'b binding_store \<Rightarrow> 'r repo \<Rightarrow> string \<Rightarrow> 'b \<times> 'r \<Rightarrow> 'b \<times> 'r \<Rightarrow> bool"
  for st rp u where
  claim: "key_clean (binding_key b) \<Longrightarrow> bd_user b = u \<Longrightarrow> bs_put_if st b v s = (Inr won, s') \<Longrightarrow>
    store_move st rp u (s, r) (s', r)"
| create: "key_clean (binding_key b) \<Longrightarrow> bd_user b = u \<Longrightarrow> bs_create st b s = (Inr won, s') \<Longrightarrow>
    id_validate (BindingIdentity b) = None \<Longrightarrow> store_move st rp u (s, r) (s', r)"
| enroll: "bs_get st u (bd_game b) (bd_source b) s = Inr b \<Longrightarrow> bd_user b = u \<Longrightarrow>
    rp_put rp rec r = (Inr (), r') \<Longrightarrow> vr_identity rec = BindingIdentity b \<Longrightarrow>
    store_move st rp u (s, r) (s, r')"
| shred: "id_subject i = u \<Longrightarrow> store_move st rp u (s, r) (s, snd (rp_delete rp i r))"
| remove: "rp_get rp (Identity u (g @ ''.'' @ n)) r = Inl ErrNotFound \<Longrightarrow> bs_delete st u g n s = (Inr (), s') \<Longrightarrow>
    store_move st rp u (s, r) (s', r)"

abbreviation store_moves :: "'b binding_store \<Rightarrow> 'r repo \<Rightarrow> string \<Rightarrow> 'b \<times> 'r \<Rightarrow> 'b \<times> 'r \<Rightarrow> bool" where
  "store_moves st rp u \<equiv> (store_move st rp u)\<^sup>*\<^sup>*"

text \<open>Every secret belongs to a row, so whoever walks the rows reaches every secret.\<close>

definition no_orphan :: "'b binding_store \<Rightarrow> 'r repo \<Rightarrow> 'b \<times> 'r \<Rightarrow> bool" where
  "no_orphan st rp = (\<lambda>(s, r). \<forall>i rec. rp_get rp i r = Inr rec \<longrightarrow>
     (\<exists>b. bs_get st (bd_user b) (bd_game b) (bd_source b) s = Inr b \<and> BindingIdentity b = i))"

text \<open>Every row has a name the vault accepts, so its secret can be shredded.\<close>

definition rows_valid :: "'b binding_store \<Rightarrow> 'b \<times> 'r \<Rightarrow> bool" where
  "rows_valid st x \<longleftrightarrow> (\<forall>u g n b. bs_get st u g n (fst x) = Inr b \<longrightarrow> id_validate (BindingIdentity b) = None)"

definition others_same :: "'b binding_store \<Rightarrow> 'r repo \<Rightarrow> string \<Rightarrow> 'b \<times> 'r \<Rightarrow> 'b \<times> 'r \<Rightarrow> bool" where
  "others_same st rp u = (\<lambda>(s, r) (s', r').
     (\<forall>v g n. v \<noteq> u \<longrightarrow> bs_get st v g n s' = bs_get st v g n s)
     \<and> (\<forall>i. id_subject i \<noteq> u \<longrightarrow> rp_get rp i r' = rp_get rp i r))"

definition stores :: "('b, 'f, 'r, 'l, 'u) fed_world \<Rightarrow> 'b \<times> 'r" where
  "stores w = (fw_bindings w, vw_repo (fw_vault w))"

lemma stores_simps [simp]:
  "stores (w\<lparr>fw_flows := fl\<rparr>) = stores w" "stores (w\<lparr>fw_up := u\<rparr>) = stores w"
  "stores (w\<lparr>fw_buffers := bf\<rparr>) = stores w" "stores (w\<lparr>fw_cooldown := c\<rparr>) = stores w"
  "stores (w\<lparr>fw_bindings := s\<rparr>) = (s, snd (stores w))"
  "stores (w\<lparr>fw_vault := vw\<rparr>) = (fst (stores w), vw_repo vw)"
  "stores (set_tape t w) = stores w"
  by (simp_all add: stores_def set_tape_def)

lemma stores_parts: "fst (stores w) = fw_bindings w" "snd (stores w) = vw_repo (fw_vault w)"
  by (simp_all add: stores_def)

lemma identity_of_key: "binding_key b = BKey u g n \<Longrightarrow> BindingIdentity b = Identity u (g @ ''.'' @ n)"
  by (simp add: binding_key_def BindingIdentity_def)

section \<open>What the vault does to its repository\<close>

lemma Use_frame: "Use sv now i cb x w = (err, x', w') \<Longrightarrow> vw_repo w' = vw_repo w"
  by (auto simp: Use_def split: option.split_asm sum.split_asm prod.split_asm dest!: v_record_frame)

lemma Revoke_frame:
  assumes "vault_Revoke sv now i w = (err, w')"
  shows "vw_repo w' = vw_repo w \<or> vw_repo w' = snd (rp_delete (vs_repo sv) i (vw_repo w))"
  using assms
  by (auto simp: vault_Revoke_def split: option.split_asm prod.split_asm if_split_asm dest!: v_record_frame)

lemma Enroll_frame:
  assumes "Enroll sv now i secret meta w = (err, w')" and "\<And>rec r. \<exists>r'. rp_put (vs_repo sv) rec r = (Inr (), r')"
  shows "vw_repo w' = vw_repo w
    \<or> (\<exists>rec. rp_put (vs_repo sv) rec (vw_repo w) = (Inr (), vw_repo w') \<and> vr_identity rec = i)"
proof -
  have put: "rp_put (vs_repo sv) rec r = (x, r') \<Longrightarrow> x = Inr ()" for rec r x r'
    using assms(2) [of rec r] by auto
  show ?thesis
    using assms(1)
    by (auto simp: Enroll_def Let_def split: option.split_asm sum.split_asm prod.split_asm
        dest!: v_record_frame dest: put)
qed

section \<open>The contract\<close>

locale fed_stores = br: binding_rows st bok + cr: credential_repo rp rok
  for st :: "'b binding_store" and bok :: "'b \<Rightarrow> bool" and rp :: "'r repo" and rok :: "'r \<Rightarrow> bool" +
  assumes get_error: "bok s \<Longrightarrow> bs_get st u g n s = Inl e \<Longrightarrow> e = ErrNotBound"
    and put_if_total: "\<exists>won s'. bs_put_if st b v s = (Inr won, s')"
    and create_total: "\<exists>won s'. bs_create st b s = (Inr won, s')"
    and row_delete_total: "\<exists>s'. bs_delete st u g n s = (Inr (), s')"
    and list_total: "\<exists>bs. bs_list st u s = Inr bs"
    and row_clean: "bok s \<Longrightarrow> bs_get st u g n s = Inr b \<Longrightarrow> key_clean (binding_key b)"
    and put_total: "\<exists>r'. rp_put rp rec r = (Inr (), r')"
    and secret_delete_total: "fst (rp_delete rp i r) \<in> {Inr (), Inl ErrNotFound}"
    and secret_error: "rp_get rp i r = Inl ve \<Longrightarrow> ve = ErrNotFound"
begin

lemma move_ok:
  assumes "store_move st rp u (s, r) (s', r')" and "bok s" and "rok r"
  shows "bok s' \<and> rok r'"
  using assms(1)
proof (cases rule: store_move.cases)
  case (claim b v won)
  then show ?thesis using br.put_if_row [OF assms(2) claim(2,4)] assms(3) by simp
next
  case (create b won)
  then show ?thesis using br.create_row [OF assms(2) create(2,4)] assms(3) by simp
next
  case (enroll b rec)
  then show ?thesis using cr.put_ok [OF assms(3) enroll(4)] assms(2) by simp
next
  case (shred i)
  then show ?thesis using cr.delete_ok [OF assms(3)] assms(2) by simp
next
  case (remove g n)
  then show ?thesis using br.delete_row [OF assms(2) remove(3)] assms(3) by simp
qed

lemma move_no_orphan:
  assumes m: "store_move st rp u (s, r) (s', r')" and ok: "bok s" "rok r" and inv: "no_orphan st rp (s, r)"
  shows "no_orphan st rp (s', r')"
proof -
  have ident: "BindingIdentity b = BindingIdentity b'" if "binding_key b = binding_key b'" for b b'
    using that by (simp add: binding_key_def BindingIdentity_def)
  have rows: "no_orphan st rp (s', r)"
    if same: "\<forall>u g n. bs_get st u g n s' = (if won \<and> BKey u g n = binding_key b then Inr b else bs_get st u g n s)"
    for won b
    unfolding no_orphan_def
  proof (clarify)
    fix i rec assume "rp_get rp i r = Inr rec"
    then obtain b0 where b0: "bs_get st (bd_user b0) (bd_game b0) (bd_source b0) s = Inr b0" "BindingIdentity b0 = i"
      using inv unfolding no_orphan_def by auto
    let ?b = "if won \<and> binding_key b0 = binding_key b then b else b0"
    have "bs_get st (bd_user ?b) (bd_game ?b) (bd_source ?b) s' = Inr ?b"
      using same b0(1) by (auto simp: binding_key_def)
    moreover have "BindingIdentity ?b = i" using b0(2) ident [of b0 b] by auto
    ultimately show "\<exists>b. bs_get st (bd_user b) (bd_game b) (bd_source b) s' = Inr b \<and> BindingIdentity b = i"
      by blast
  qed
  show ?thesis
    using m
  proof (cases rule: store_move.cases)
    case (claim b v won)
    then show ?thesis using rows br.put_if_row [OF ok(1) claim(2,4)] by blast
  next
    case (create b won)
    then show ?thesis using rows br.create_row [OF ok(1) create(2,4)] by blast
  next
    case (enroll b rec)
    then show ?thesis
      using inv cr.put_get [OF ok(2) enroll(4)] unfolding no_orphan_def
      by (auto split: if_splits)
  next
    case (shred i)
    then show ?thesis
      using inv cr.delete_get [OF ok(2) secret_delete_total] unfolding no_orphan_def
      by (auto split: if_splits)
  next
    case (remove g n)
    note d = conjunct2 [OF br.delete_row [OF ok(1) remove(3)]]
    show ?thesis
      unfolding no_orphan_def
    proof clarify
      fix i rec assume rec: "rp_get rp i r' = Inr rec"
      then obtain b where b: "bs_get st (bd_user b) (bd_game b) (bd_source b) s = Inr b" "BindingIdentity b = i"
        using inv remove(1) unfolding no_orphan_def by auto
      have "BKey (bd_user b) (bd_game b) (bd_source b) \<noteq> BKey u g n"
        using rec remove(1,2) b(2) by (auto simp: BindingIdentity_def)
      then show "\<exists>b. bs_get st (bd_user b) (bd_game b) (bd_source b) s' = Inr b \<and> BindingIdentity b = i"
        using d b by (metis (no_types, lifting))
    qed
  qed
qed

lemma move_others:
  assumes m: "store_move st rp u (s, r) (s', r')" and ok: "bok s" "rok r"
  shows "others_same st rp u (s, r) (s', r')"
  using m
proof (cases rule: store_move.cases)
  case (claim b v won)
  then show ?thesis using br.put_if_row [OF ok(1) claim(2,4)] by (auto simp: others_same_def binding_key_def)
next
  case (create b won)
  then show ?thesis using br.create_row [OF ok(1) create(2,4)] by (auto simp: others_same_def binding_key_def)
next
  case (enroll b rec)
  then show ?thesis using cr.put_get [OF ok(2) enroll(4)] by (auto simp: others_same_def BindingIdentity_def)
next
  case (shred i)
  then show ?thesis using cr.delete_get [OF ok(2) secret_delete_total] by (auto simp: others_same_def)
next
  case (remove g n)
  then show ?thesis using br.delete_row [OF ok(1) remove(3)] by (auto simp: others_same_def)
qed

lemma move_rows_valid:
  assumes m: "store_move st rp u (s, r) (s', r')" and ok: "bok s" and inv: "rows_valid st (s, r)"
  shows "rows_valid st (s', r')"
  using m
proof (cases rule: store_move.cases)
  case (claim b v won)
  note row = br.put_if_row [OF ok claim(2,4)]
  have "won \<Longrightarrow> id_validate (BindingIdentity b) = None"
  proof -
    assume won
    then obtain b0 where b0: "bs_get st (bd_user b) (bd_game b) (bd_source b) s = Inr b0" using row by blast
    have "BindingIdentity b0 = BindingIdentity b"
      using br.get_key [OF ok b0] by (simp add: binding_key_def BindingIdentity_def)
    then show ?thesis using inv b0 unfolding rows_valid_def by fastforce
  qed
  then show ?thesis using row inv by (auto simp: rows_valid_def split: if_split_asm)
next
  case (create b won)
  then show ?thesis using br.create_row [OF ok create(2,4)] inv by (auto simp: rows_valid_def split: if_split_asm)
next
  case (remove g n)
  then show ?thesis using br.delete_row [OF ok remove(3)] inv by (auto simp: rows_valid_def split: if_split_asm)
qed (use inv in \<open>simp_all add: rows_valid_def\<close>)

lemma moves_keep:
  assumes "store_moves st rp u x y"
  shows "bok (fst x) \<Longrightarrow> rok (snd x) \<Longrightarrow> bok (fst y) \<and> rok (snd y) \<and> others_same st rp u x y
    \<and> (no_orphan st rp x \<longrightarrow> no_orphan st rp y) \<and> (rows_valid st x \<longrightarrow> rows_valid st y)"
  using assms
proof (induction rule: rtranclp_induct)
  case base
  then show ?case by (auto simp: others_same_def)
next
  case (step y z)
  obtain s r s' r' where yz: "y = (s, r)" "z = (s', r')" by (meson surj_pair)
  have ok: "bok s" "rok r" and oth: "others_same st rp u x (s, r)" and orph: "no_orphan st rp x \<longrightarrow> no_orphan st rp (s, r)"
    and val: "rows_valid st x \<longrightarrow> rows_valid st (s, r)"
    using step yz by auto
  note m = step.hyps(2) [unfolded yz]
  show ?case
    using move_ok [OF m ok] move_no_orphan [OF m ok] move_others [OF m ok] move_rows_valid [OF m ok(1)] oth orph val yz
    by (auto simp: others_same_def split: prod.splits)
qed

end

section \<open>The service's operations are moves\<close>

lemma useBindingSecret_stores:
  "useBindingSecret sv now b fn w = (res, w') \<Longrightarrow> stores w' = stores w"
  by (auto simp: useBindingSecret_def stores_def split: prod.split_asm dest!: Use_frame)

lemma reads_stores:
  "withAccessToken sv now b fn' w = (res, w') \<Longrightarrow> stores w' = stores w"
  "read_secret sv now b w = (sec, w') \<Longrightarrow> stores w' = stores w"
  "postRevocation sv src ep form w = (err, w') \<Longrightarrow> stores w' = stores w"
  by (auto simp: withAccessToken_def read_secret_def postRevocation_def
      split: option.split_asm prod.split_asm sum.split_asm dest!: useBindingSecret_stores)

lemma revokeUpstream_stores:
  "revokeUpstream sv now src b w = (res, w') \<Longrightarrow> stores w' = stores w"
  by (auto simp: revokeUpstream_def split: prod.split_asm sum.split_asm if_split_asm option.split_asm
      dest!: reads_stores(2,3))

lemma bind_exchange_stores:
  "bind_exchange sv now u state code w = (res, flow, w') \<Longrightarrow> stores w' = stores w"
  by (auto simp: bind_exchange_def Let_def split: prod.split_asm sum.split_asm if_split_asm option.split_asm)

lemma bind_exchange_Inr:
  assumes "bind_exchange sv now u state code w = (Inr token, flow, w')"
  shows "bf_user flow = u" "source_Get (fs_registry sv) (bf_game flow) (bf_source flow) \<noteq> None"
  using assms
  by (auto simp: bind_exchange_def Let_def split: prod.split_asm sum.split_asm if_split_asm option.split_asm)

lemma BeginBind_stores:
  "BeginBind sv now u g n ret w = (res, w') \<Longrightarrow> stores w' = stores w"
  by (auto simp: BeginBind_def Let_def split: prod.split_asm sum.split_asm if_split_asm option.split_asm)

text \<open>An account identifier as the account store draws them is non-empty, short and without a bar; a
  name the registry knows has no bar either, and the two make an identity the vault accepts.\<close>

definition user_ok :: "string \<Rightarrow> bool" where
  "user_ok u \<longleftrightarrow> u \<noteq> [] \<and> length u \<le> 1024 \<and> CHR ''|'' \<notin> set u"

lemma registered_clean:
  assumes "registry_ok parse r" and "source_Get r g n \<noteq> None" and "user_ok u"
  shows "key_clean (BKey u g n)" and "id_validate (Identity u (g @ ''.'' @ n)) = None"
proof -
  obtain src where src: "source_Get r g n = Some src" using assms(2) by auto
  note ok = source_Get_ok [OF assms(1) src]
  have nm: "name_ok g" "name_ok n" using ok by (auto simp: source_ok_def)
  then show "key_clean (BKey u g n)" using assms(3) name_ok_excludes(3) by (simp add: key_clean_def user_ok_def)
  have "length g \<le> 128" "length n \<le> 128" using nm by (simp_all add: name_ok_def maxSourceNameBytes_def)
  then show "id_validate (Identity u (g @ ''.'' @ n)) = None"
    using assms(3) by (simp add: id_validate_def maxIdentityFieldLen_def user_ok_def)
qed

context fed_stores
begin

lemma revokeSecret_moves:
  assumes sv: "vs_repo (fs_vault sv) = rp" and rev: "revokeSecret sv now b w = (err, w')"
  shows "store_moves st rp (bd_user b) (stores w) (stores w')" and "fw_bindings w' = fw_bindings w"
    and "rok (vw_repo (fw_vault w)) \<Longrightarrow> err = None \<Longrightarrow>
      rp_get rp (BindingIdentity b) (vw_repo (fw_vault w')) = Inl ErrNotFound"
proof -
  obtain vw where vw: "vault_Revoke (fs_vault sv) now (BindingIdentity b) (fw_vault w) = (err, vw)"
    and w': "w' = w\<lparr>fw_vault := vw\<rparr>" using rev by (auto simp: revokeSecret_def split: prod.split_asm)
  show "fw_bindings w' = fw_bindings w" by (simp add: w')
  have "vw_repo vw = vw_repo (fw_vault w) \<or> vw_repo vw = snd (rp_delete rp (BindingIdentity b) (vw_repo (fw_vault w)))"
    using Revoke_frame [OF vw] sv by simp
  then show "store_moves st rp (bd_user b) (stores w) (stores w')"
    using store_move.shred [of "BindingIdentity b" "bd_user b" st rp "fw_bindings w" "vw_repo (fw_vault w)"]
    by (auto simp: w' stores_def BindingIdentity_def)
  assume "rok (vw_repo (fw_vault w))" "err = None"
  then show "rp_get rp (BindingIdentity b) (vw_repo (fw_vault w')) = Inl ErrNotFound"
    using cr.revoke_removes(1) [OF sv _ _ secret_delete_total] vw w' by simp
qed

lemma deleteBinding_moves:
  assumes sv: "fs_bindings sv = st" and none: "rp_get rp (Identity u (g @ ''.'' @ n)) (vw_repo (fw_vault w)) = Inl ErrNotFound"
    and del: "deleteBinding sv u g n w = (err, w')"
  shows "store_moves st rp u (stores w) (stores w')" and "err = None"
    and "bs_delete st u g n (fw_bindings w) = (Inr (), fw_bindings w')" and "fw_vault w' = fw_vault w"
proof -
  obtain s' where s': "bs_delete st u g n (fw_bindings w) = (Inr (), s')" using row_delete_total by blast
  then have w': "w' = w\<lparr>fw_bindings := s'\<rparr>" and "err = None" using del sv by (auto simp: deleteBinding_def)
  then show "err = None" "bs_delete st u g n (fw_bindings w) = (Inr (), fw_bindings w')" "fw_vault w' = fw_vault w"
    using s' by simp_all
  show "store_moves st rp u (stores w) (stores w')"
    using store_move.remove [OF none s'] by (auto simp: w' stores_def)
qed

lemma cut_moves:
  assumes sv: "fs_bindings sv = st" "vs_repo (fs_vault sv) = rp" and ok: "rok (vw_repo (fw_vault w))"
    and key: "binding_key b = BKey u g n" and cut: "cut_binding sv now b u g n w = (err, w')"
  shows "store_moves st rp u (stores w) (stores w')"
    and "err = None \<Longrightarrow> rp_get rp (BindingIdentity b) (vw_repo (fw_vault w')) = Inl ErrNotFound
      \<and> bs_delete st u g n (fw_bindings w) = (Inr (), fw_bindings w')"
proof -
  obtain e1 w1 where 1: "revokeSecret sv now b w = (e1, w1)" by (meson surj_pair)
  note r = revokeSecret_moves [OF sv(2) 1]
  have u: "bd_user b = u" and i: "BindingIdentity b = Identity u (g @ ''.'' @ n)"
    using key identity_of_key [OF key] by (simp_all add: binding_key_def)
  obtain e2 w2 where 2: "deleteBinding sv u g n w1 = (e2, w2)" by (meson surj_pair)
  have d: "e1 = None \<Longrightarrow> store_moves st rp u (stores w1) (stores w2) \<and> e2 = None
      \<and> bs_delete st u g n (fw_bindings w) = (Inr (), fw_bindings w2) \<and> fw_vault w2 = fw_vault w1"
    using deleteBinding_moves [OF sv(1) _ 2] r(2) r(3) [OF ok] i by auto
  show "store_moves st rp u (stores w) (stores w')"
    using cut 1 2 r(1) d u by (auto simp: cut_binding_def split: option.split_asm intro: rtranclp_trans)
  show "err = None \<Longrightarrow> rp_get rp (BindingIdentity b) (vw_repo (fw_vault w')) = Inl ErrNotFound
      \<and> bs_delete st u g n (fw_bindings w) = (Inr (), fw_bindings w')"
    using cut 1 2 d r(3) [OF ok] by (auto simp: cut_binding_def split: option.split_asm)
qed

lemma shred_moves:
  assumes sv: "fs_bindings sv = st" "vs_repo (fs_vault sv) = rp" and ok: "rok (vw_repo (fw_vault w))"
    and sh: "shredBinding sv now b w = (err, w')"
  shows "store_moves st rp (bd_user b) (stores w) (stores w')"
    and "err = None \<Longrightarrow> rp_get rp (BindingIdentity b) (vw_repo (fw_vault w')) = Inl ErrNotFound
      \<and> bs_delete st (bd_user b) (bd_game b) (bd_source b) (fw_bindings w) = (Inr (), fw_bindings w')"
proof -
  have key: "binding_key b = BKey (bd_user b) (bd_game b) (bd_source b)" by (simp add: binding_key_def)
  obtain e2 w2 where cut: "cut_binding sv now b (bd_user b) (bd_game b) (bd_source b) w = (e2, w2)"
    by (meson surj_pair)
  have "w' = w2 \<and> (err = None \<longleftrightarrow> e2 = None)"
    using sh cut by (auto simp: shredBinding_def cut_binding_def split: prod.split_asm option.split_asm)
  then show "store_moves st rp (bd_user b) (stores w) (stores w')"
    and "err = None \<Longrightarrow> rp_get rp (BindingIdentity b) (vw_repo (fw_vault w')) = Inl ErrNotFound
      \<and> bs_delete st (bd_user b) (bd_game b) (bd_source b) (fw_bindings w) = (Inr (), fw_bindings w')"
    using cut_moves [OF sv ok key cut] by auto
qed

lemma Unbind_moves:
  assumes sv: "fs_bindings sv = st" "vs_repo (fs_vault sv) = rp"
    and ok: "bok (fw_bindings w)" "rok (vw_repo (fw_vault w))" and un: "Unbind sv now u g n w = (res, w')"
  shows "store_moves st rp u (stores w) (stores w')"
proof (cases "bs_get st u g n (fw_bindings w)")
  case (Inr b)
  note key = br.get_key [OF ok(1) Inr]
  have "\<exists>w1 err. stores w1 = stores w \<and> cut_binding sv now b u g n w1 = (err, w')" if "u \<noteq> []" "g \<noteq> []" "n \<noteq> []"
    using un that Inr sv(1)
    by (auto simp: Unbind_def Let_def split: prod.split_asm option.split_asm if_split_asm dest!: revokeUpstream_stores)
  moreover have "w' = w" if "\<not> (u \<noteq> [] \<and> g \<noteq> [] \<and> n \<noteq> [])" using un that by (auto simp: Unbind_def Let_def)
  ultimately show ?thesis using cut_moves(1) [OF sv _ key] ok(2) by (metis rtranclp.rtrancl_refl stores_parts(2))
qed (use un sv(1) in \<open>auto simp: Unbind_def Let_def split: if_split_asm\<close>)

lemma Cascade_moves:
  assumes sv: "fs_bindings sv = st" "vs_repo (fs_vault sv) = rp"
    and ok: "bok (fw_bindings w)" "rok (vw_repo (fw_vault w))" and ca: "CascadeRevoke sv now u g n w = (res, w')"
  shows "store_moves st rp u (stores w) (stores w')"
proof (cases "stores w' = stores w")
  case False
  then obtain b w1 w2 sec src form err where b: "bs_get st u g n (fw_bindings w) = Inr b"
    and s: "read_secret sv now b w = (Inr sec, w1)"
      "postRevocation sv src (sr_cascade src) form w1 = (None, w2)"
    and c: "cut_binding sv now b u g n w2 = (err, w')"
    using ca sv(1)
    by (auto simp: CascadeRevoke_def split: prod.split_asm option.split_asm if_split_asm sum.split_asm
        dest!: reads_stores(2,3))
  have "stores w2 = stores w" using reads_stores(2) [OF s(1)] reads_stores(3) [OF s(2)] by simp
  then show ?thesis using cut_moves(1) [OF sv _ br.get_key [OF ok(1) b] c] ok(2) by (metis stores_parts(2))
qed simp

lemma revokeBinding_moves:
  assumes sv: "fs_bindings sv = st" "vs_repo (fs_vault sv) = rp"
    and ok: "bok (fw_bindings w)" "rok (vw_repo (fw_vault w))" and rv: "revokeBinding sv now b w = (out, w')"
  shows "store_moves st rp (bd_user b) (stores w) (stores w')"
proof (cases "source_Get (fs_registry sv) (bd_game b) (bd_source b)")
  case None
  then show ?thesis
    using rv shred_moves(1) [OF sv ok(2)] by (auto simp: revokeBinding_def split: prod.split_asm option.split_asm)
next
  case (Some src)
  obtain res w1 where 1: "(if sr_cascade src \<noteq> [] then CascadeRevoke sv now (bd_user b) (bd_game b) (bd_source b) w
      else (Inl ErrCascadeUnsupported, w)) = (res, w1)" by (meson surj_pair)
  have m: "store_moves st rp (bd_user b) (stores w) (stores w1)"
    using 1 Cascade_moves [OF sv ok] by (auto split: if_split_asm)
  then have ok1: "bok (fw_bindings w1)" "rok (vw_repo (fw_vault w1))"
    using moves_keep [OF m] ok by (simp_all add: stores_parts)
  show ?thesis
    using rv Some 1 m Unbind_moves [OF sv ok1]
    by (auto simp: revokeBinding_def split: prod.split_asm sum.split_asm intro: rtranclp_trans)
qed

text \<open>Storing the secret of a row that was just claimed.\<close>

lemma storeBindingSecret_moves:
  assumes sv: "vs_repo (fs_vault sv) = rp" and row: "bs_get st (bd_user b) (bd_game b) (bd_source b) (fw_bindings w) = Inr b"
    and st: "storeBindingSecret sv now b secret w = (err, w')"
  shows "store_moves st rp (bd_user b) (stores w) (stores w')" and "fw_bindings w' = fw_bindings w"
proof -
  obtain verr vw meta where vw: "Enroll (fs_vault sv) now (BindingIdentity b) (js_marshal (fs_codec sv) secret) meta
      (fw_vault w) = (verr, vw)" and w': "w' = w\<lparr>fw_vault := vw\<rparr>"
    using st by (auto simp: storeBindingSecret_def split: prod.split_asm)
  show "fw_bindings w' = fw_bindings w" by (simp add: w')
  from Enroll_frame [OF vw] sv put_total
  consider "vw_repo vw = vw_repo (fw_vault w)"
    | rec where "rp_put rp rec (vw_repo (fw_vault w)) = (Inr (), vw_repo vw)" "vr_identity rec = BindingIdentity b"
    by blast
  then show "store_moves st rp (bd_user b) (stores w) (stores w')"
  proof cases
    case 2
    from store_move.enroll [OF row refl 2] show ?thesis by (auto simp: w' stores_def)
  qed (simp add: w' stores_def)
qed

lemma refreshRejected_moves:
  assumes sv: "fs_bindings sv = st" "vs_repo (fs_vault sv) = rp" and ok: "rok (vw_repo (fw_vault w))"
    and rj: "refreshRejected sv now b w = (res, w')"
  shows "store_moves st rp (bd_user b) (stores w) (stores w')"
proof -
  obtain e1 w1 where 1: "revokeSecret sv now b w = (e1, w1)" by (meson surj_pair)
  note r = revokeSecret_moves [OF sv(2) 1]
  obtain e2 w2 where 2: "deleteBinding sv (bd_user b) (bd_game b) (bd_source b) w1 = (e2, w2)" by (meson surj_pair)
  have "e1 = None \<Longrightarrow> store_moves st rp (bd_user b) (stores w1) (stores w2)"
    using deleteBinding_moves(1) [OF sv(1) _ 2] r(3) [OF ok] by (simp add: BindingIdentity_def)
  then show ?thesis
    using rj 1 2 r(1)
    by (auto simp: refreshRejected_def Let_def split: option.split_asm if_split_asm intro: rtranclp_trans)
qed

lemma refresh_commit_moves:
  assumes sv: "fs_bindings sv = st" "vs_repo (fs_vault sv) = rp" and ok: "bok (fw_bindings w)"
    and clean: "key_clean (binding_key b)"
    and rc: "refresh_commit sv now fresh b secret w = (res, w')"
  shows "store_moves st rp (bd_user b) (stores w) (stores w')"
proof -
  obtain won s' where p: "bs_put_if st b (bd_version fresh) (fw_bindings w) = (Inr won, s')"
    using put_if_total by blast
  note row = br.put_if_row [OF ok clean p]
  have m: "store_moves st rp (bd_user b) (stores w) (stores (w\<lparr>fw_bindings := s'\<rparr>))"
    using store_move.claim [OF clean refl p, of rp "vw_repo (fw_vault w)"] by (auto simp: stores_def)
  show ?thesis
  proof (cases won)
    case False
    then show ?thesis using rc p sv m by (auto simp: refresh_commit_def)
  next
    case True
    have "bs_get st (bd_user b) (bd_game b) (bd_source b) s' = Inr b"
      using row True by (simp add: binding_key_def)
    then have "store_moves st rp (bd_user b) (stores (w\<lparr>fw_bindings := s'\<rparr>)) (stores w')"
      using rc p sv True storeBindingSecret_moves(1) [OF sv(2), of b "w\<lparr>fw_bindings := s'\<rparr>"]
      by (auto simp: refresh_commit_def split: prod.split_asm option.split_asm)
    with m show ?thesis by (rule rtranclp_trans)
  qed
qed

lemma refresh_grant_key:
  assumes "refresh_grant sv src fresh secret d = (Inr (b, rotated), d')"
  shows "binding_key b = binding_key fresh" "bd_user b = bd_user fresh" "bd_version b = bd_version fresh + 1"
  using assms by (auto simp: refresh_grant_def binding_key_def Let_def split: if_split_asm prod.split_asm sum.split_asm)

lemma useBindingSecret_Inr:
  assumes "useBindingSecret sv now b fn w = (Inr a, w')"
  shows "\<exists>secret d d'. fn secret d = (Inr a, d')"
  using assms
  by (auto simp: useBindingSecret_def Use_def split: prod.split_asm option.split_asm sum.split_asm) blast

lemma refreshBinding_moves:
  assumes sv: "fs_bindings sv = st" "vs_repo (fs_vault sv) = rp"
    and ok: "bok (fw_bindings w)" "rok (vw_repo (fw_vault w))"
    and rf: "refreshBinding sv now src b force w = (res, w')"
  shows "store_moves st rp (bd_user b) (stores w) (stores w')"
proof (cases "bs_get st (bd_user b) (bd_game b) (bd_source b) (fw_bindings w)")
  case (Inr fresh)
  have key: "binding_key fresh = binding_key b" and clean: "key_clean (binding_key fresh)"
    using br.get_key [OF ok(1) Inr] row_clean [OF ok(1) Inr] by (simp_all add: binding_key_def)
  then have u: "bd_user fresh = bd_user b" by (simp add: binding_key_def)
  obtain g w1 where g: "useBindingSecret sv now fresh (refresh_grant sv src fresh) w = (g, w1)" by (meson surj_pair)
  note same = useBindingSecret_stores [OF g]
  have ok1: "bok (fw_bindings w1)" "rok (vw_repo (fw_vault w1))" using ok same by (metis stores_parts)+
  show ?thesis
  proof (cases g)
    case (Inl e)
    then show ?thesis
      using rf Inr sv g same refreshRejected_moves [OF sv ok1(2), of now fresh res w', unfolded u same]
      by (auto simp: refreshBinding_def split: if_split_asm)
  next
    case g': (Inr p)
    obtain b' rotated where p: "p = (b', rotated)" by (cases p)
    with useBindingSecret_Inr [OF g [unfolded g']] obtain secret d d'
      where "refresh_grant sv src fresh secret d = (Inr (b', rotated), d')" by blast
    note k = refresh_grant_key [OF this]
    show ?thesis
      using rf Inr sv g g' p same refresh_commit_moves [OF sv ok1(1), of b' now fresh rotated res w'] k clean u
      by (auto simp: refreshBinding_def split: if_split_asm)
  qed
qed (use rf sv in \<open>auto simp: refreshBinding_def\<close>)

text \<open>The row a refresh answers is of the same account.\<close>

lemma refreshBinding_user:
  assumes sv: "fs_bindings sv = st" "vs_repo (fs_vault sv) = rp" and ok: "bok (fw_bindings w)"
    and rf: "refreshBinding sv now src b force w = (Inr b', w')"
  shows "binding_key b' = binding_key b"
proof -
  obtain fresh where fresh: "bs_get st (bd_user b) (bd_game b) (bd_source b) (fw_bindings w) = Inr fresh"
    using rf sv by (auto simp: refreshBinding_def split: sum.split_asm)
  have key: "binding_key fresh = binding_key b" using br.get_key [OF ok fresh] by (simp add: binding_key_def)
  obtain g w1 where g: "useBindingSecret sv now fresh (refresh_grant sv src fresh) w = (g, w1)" by (meson surj_pair)
  have ok1: "bok (fw_bindings w1)" using ok useBindingSecret_stores [OF g] by (metis stores_parts(1))
  show ?thesis
  proof (cases g)
    case (Inl e)
    then show ?thesis
      using rf fresh sv g key br.get_key [OF ok1]
      by (auto simp: refreshBinding_def refreshRejected_def Let_def binding_key_def
          split: if_split_asm prod.split_asm option.split_asm)
  next
    case g': (Inr p)
    obtain b1 rotated where p: "p = (b1, rotated)" by (cases p)
    with useBindingSecret_Inr [OF g [unfolded g']] obtain secret d d'
      where "refresh_grant sv src fresh secret d = (Inr (b1, rotated), d')" by blast
    note k = refresh_grant_key [OF this]
    have clean: "key_clean (binding_key b1)" using row_clean [OF ok fresh] k by simp
    obtain won s' where pi: "bs_put_if st b1 (bd_version fresh) (fw_bindings w1) = (Inr won, s')"
      using put_if_total by blast
    have ok2: "bok s'" using br.put_if_row [OF ok1 clean pi] by simp
    show ?thesis
      using rf fresh sv g g' p k key pi br.get_key [OF ok2]
      by (auto simp: refreshBinding_def refresh_commit_def binding_key_def
          split: if_split_asm bool.split_asm prod.split_asm option.split_asm)
  qed
qed

lemma callWithRefresh_moves:
  assumes sv: "fs_bindings sv = st" "vs_repo (fs_vault sv) = rp"
    and ok: "bok (fw_bindings w)" "rok (vw_repo (fw_vault w))"
    and cl: "callWithRefresh sv now src b fn w = (res, w')"
  shows "store_moves st rp (bd_user b) (stores w) (stores w')"
proof -
  obtain r1 w1 where 1: "(if needsRefresh now b then refreshBinding sv now src b False w else (Inr b, w)) = (r1, w1)"
    by (meson surj_pair)
  have m1: "store_moves st rp (bd_user b) (stores w) (stores w1)"
    using 1 refreshBinding_moves [OF sv ok, of now src b False r1 w1] by (auto split: if_split_asm)
  show ?thesis
  proof (cases r1)
    case (Inl e)
    then show ?thesis using cl 1 m1 by (auto simp: callWithRefresh_def)
  next
    case (Inr b1)
    have key: "binding_key b1 = binding_key b"
      using 1 Inr refreshBinding_user [OF sv ok(1), of now src b False b1 w1] by (auto split: if_split_asm)
    obtain r2 w2 where 2: "withAccessToken sv now b1 fn w1 = (r2, w2)" by (meson surj_pair)
    have m2: "store_moves st rp (bd_user b) (stores w) (stores w2)" using m1 reads_stores(1) [OF 2] by simp
    then have ok2: "bok (fw_bindings w2)" "rok (vw_repo (fw_vault w2))"
      using moves_keep [OF m2] ok by (simp_all add: stores_parts)
    obtain r3 w3 where 3: "refreshBinding sv now src b1 True w2 = (r3, w3)" by (meson surj_pair)
    have m3: "store_moves st rp (bd_user b) (stores w) (stores w3)"
      using m2 refreshBinding_moves [OF sv ok2 3] key by (auto simp: binding_key_def)
    show ?thesis
      using cl 1 Inr 2 3 m2 m3
      by (auto simp: callWithRefresh_def split: sum.split_asm if_split_asm dest!: reads_stores(1))
  qed
qed

lemma call_bound_moves:
  assumes sv: "fs_bindings sv = st" "vs_repo (fs_vault sv) = rp"
    and ok: "bok (fw_bindings w)" "rok (vw_repo (fw_vault w))"
    and cb: "call_bound sv now src u g fn w = (res, w')"
  shows "store_moves st rp u (stores w) (stores w')"
proof (cases "bs_get st u g (sr_name src) (fw_bindings w)")
  case (Inr b)
  have u: "bd_user b = u" using br.get_key [OF ok(1) Inr] by (simp add: binding_key_def)
  obtain c cd where c: "cooling now (bindingKey u g (sr_name src)) (fw_cooldown w) = (c, cd)" by (meson surj_pair)
  obtain r w1 where 1: "callWithRefresh sv now src b fn (w\<lparr>fw_cooldown := cd\<rparr>) = (r, w1)" by (meson surj_pair)
  have "store_moves st rp u (stores w) (stores w1)"
    using callWithRefresh_moves [OF sv _ _ 1] ok u by simp
  then show ?thesis using cb Inr sv c 1 by (auto simp: call_bound_def Let_def split: bool.split_asm)
qed (use cb sv in \<open>auto simp: call_bound_def\<close>)

lemma trySource_moves:
  assumes sv: "fs_bindings sv = st" "vs_repo (fs_vault sv) = rp"
    and ok: "bok (fw_bindings w)" "rok (vw_repo (fw_vault w))"
    and ts: "trySource sv now src req w = (res, w')"
  shows "store_moves st rp (fq_user req) (stores w) (stores w')"
  using ts call_bound_moves [OF sv ok] by (auto simp: trySource_def split: prod.split_asm sum.split_asm)

lemma fetch_loop_moves:
  assumes sv: "fs_bindings sv = st" "vs_repo (fs_vault sv) = rp"
  shows "bok (fw_bindings w) \<Longrightarrow> rok (vw_repo (fw_vault w)) \<Longrightarrow>
    fetch_loop sv now req later nb other le srcs w = (res, w') \<Longrightarrow>
    store_moves st rp (fq_user req) (stores w) (stores w')"
proof (induction srcs arbitrary: later nb other le w)
  case (Cons src srcs)
  obtain r w1 where 1: "trySource sv now src req w = (r, w1)" by (meson surj_pair)
  note m = trySource_moves [OF sv Cons.prems(1,2) 1]
  have ok1: "bok (fw_bindings w1)" "rok (vw_repo (fw_vault w1))"
    using moves_keep [OF m] Cons.prems(1,2) by (simp_all add: stores_parts)
  show ?case
  proof (cases r)
    case (Inl e)
    then obtain later' nb' other' le'
      where "fetch_loop sv now req later' nb' other' le' srcs w1 = (res, w')"
      using Cons.prems(3) 1 by (auto split: option.split_asm)
    from Cons.IH [OF ok1 this] m show ?thesis by simp
  qed (use Cons.prems(3) 1 m in auto)
qed simp

lemma Fetch_moves:
  assumes sv: "fs_bindings sv = st" "vs_repo (fs_vault sv) = rp"
    and ok: "bok (fw_bindings w)" "rok (vw_repo (fw_vault w))" and f: "Fetch sv now req w = (res, w')"
  shows "store_moves st rp (fq_user req) (stores w) (stores w')"
  using f fetch_loop_moves [OF sv ok] by (auto simp: Fetch_def split: sum.split_asm)

lemma Raw_moves:
  assumes sv: "fs_bindings sv = st" "vs_repo (fs_vault sv) = rp"
    and ok: "bok (fw_bindings w)" "rok (vw_repo (fw_vault w))" and f: "Raw sv now req w = (res, w')"
  shows "store_moves st rp (rq_user req) (stores w) (stores w')"
  using f call_bound_moves [OF sv ok]
  by (auto simp: Raw_def split: option.split_asm if_split_asm prod.split_asm sum.split_asm)

text \<open>Completing a bind: the row it claims, and the rest.\<close>

lemma claim_row_moves:
  assumes sv: "fs_bindings sv = st" and ok: "bok s" and clean: "key_clean (binding_key b)"
    and valid: "id_validate (BindingIdentity b) = None" and c: "claim_row sv flow b s = (Inr won, s')"
  shows "store_moves st rp (bd_user b) (s, r) (s', r)" and "bok s'"
    and "won \<Longrightarrow> bs_get st (bd_user b) (bd_game b) (bd_source b) s' = Inr b"
proof -
  have "store_move st rp (bd_user b) (s, r) (s', r) \<and> bok s'
      \<and> (won \<longrightarrow> bs_get st (bd_user b) (bd_game b) (bd_source b) s' = Inr b)"
  proof (cases "bf_bound flow")
    case True
    then have p: "bs_put_if st b (bf_version flow) s = (Inr won, s')" using c sv by (simp add: claim_row_def)
    show ?thesis using store_move.claim [OF clean refl p] br.put_if_row [OF ok clean p] by (simp add: binding_key_def)
  next
    case False
    then have p: "bs_create st b s = (Inr won, s')" using c sv by (simp add: claim_row_def)
    show ?thesis using store_move.create [OF clean refl p valid] br.create_row [OF ok clean p] by (simp add: binding_key_def)
  qed
  then show "store_moves st rp (bd_user b) (s, r) (s', r)" "bok s'"
    "won \<Longrightarrow> bs_get st (bd_user b) (bd_game b) (bd_source b) s' = Inr b"
    by (auto simp: r_into_rtranclp)
qed

lemma bind_claim_moves:
  assumes sv: "fs_bindings sv = st" "vs_repo (fs_vault sv) = rp" and ok: "bok (fw_bindings w)"
    and clean: "key_clean (BKey u (bf_game flow) (bf_source flow))"
    and valid: "id_validate (Identity u (bf_game flow @ ''.'' @ bf_source flow)) = None"
    and bc: "bind_claim sv now u flow token w = (res, w')"
  shows "store_moves st rp u (stores w) (stores w')"
proof (cases "newBindingGeneration (vw_tape (fw_vault w))")
  case (Pair g t)
  show ?thesis
  proof (cases g)
    case (Inl e)
    then show ?thesis using bc Pair by (auto simp: bind_claim_def)
  next
    case (Inr v)
    define b where "b = \<lparr>bd_user = u, bd_game = bf_game flow, bd_source = bf_source flow, bd_type = ot_type token,
      bd_expiry = ot_expiry token, bd_refresh = (ot_refresh token \<noteq> []), bd_version = v\<rparr>"
    have k: "key_clean (binding_key b)" "bd_user b = u" "id_validate (BindingIdentity b) = None"
      using clean valid by (simp_all add: b_def binding_key_def BindingIdentity_def)
    let ?w = "set_tape t w"
    obtain won s' where c: "claim_row sv flow b (fw_bindings w) = (Inr won, s')"
      using put_if_total create_total sv(1) unfolding claim_row_def by metis
    have m: "store_moves st rp u (stores w) (s', vw_repo (fw_vault w))"
      and row: "won \<Longrightarrow> bs_get st u (bd_game b) (bd_source b) s' = Inr b"
      using claim_row_moves [OF sv(1) ok k(1,3) c] k(2) by (simp_all add: stores_def)
    obtain err w1 where 1: "storeBindingSecret sv now b \<lparr>bx_access = ot_access token, bx_refresh = ot_refresh token\<rparr>
        (?w\<lparr>fw_bindings := s'\<rparr>) = (err, w1)" by (meson surj_pair)
    have m1: "won \<Longrightarrow> store_moves st rp u (stores w) (stores w1)"
      using storeBindingSecret_moves(1) [OF sv(2) _ 1] row m k(2) by (auto simp: stores_parts intro: rtranclp_trans)
    obtain rerr w2 where 2: "revokeSecret sv now b w1 = (rerr, w2)" by (meson surj_pair)
    have m2: "won \<Longrightarrow> store_moves st rp u (stores w) (stores w2)"
      using m1 revokeSecret_moves(1) [OF sv(2) 2] k(2) by (auto intro: rtranclp_trans)
    show ?thesis
      using bc Pair Inr c 1 2 m m1 m2
      by (auto simp: bind_claim_def Let_def b_def [symmetric] set_tape_def stores_parts
          split: bool.split_asm option.split_asm)
  qed
qed

lemma CompleteBind_moves:
  assumes sv: "fs_bindings sv = st" "vs_repo (fs_vault sv) = rp" and ok: "bok (fw_bindings w)"
    and reg: "registry_ok parse (fs_registry sv)" and u: "user_ok u"
    and cb: "CompleteBind sv now u state code w = (res, flow, w')"
  shows "store_moves st rp u (stores w) (stores w')"
proof -
  obtain r f w1 where 1: "bind_exchange sv now u state code w = (r, f, w1)" by (metis surj_pair)
  note same = bind_exchange_stores [OF 1]
  show ?thesis
  proof (cases r)
    case (Inr token)
    note clean = registered_clean [OF reg bind_exchange_Inr(2) [OF 1 [unfolded Inr]] u]
    have "bok (fw_bindings w1)" using ok same by (metis stores_parts(1))
    then have "store_moves st rp u (stores w1) (stores w')"
      using cb 1 Inr bind_claim_moves [OF sv _ clean] by (auto simp: CompleteBind_def split: prod.split_asm)
    with same show ?thesis by simp
  qed (use cb 1 same in \<open>simp add: CompleteBind_def\<close>)
qed

end

section \<open>The in-memory stores\<close>

interpretation memfed: fed_stores memory_binding_store bindings_ok memory_repo repo_ok
proof unfold_locales
  show "\<exists>won s'. bs_put_if memory_binding_store b v s = (Inr won, s')" for b v s
    using mb_put_if_total by (simp add: mb_ops)
  show "\<exists>won s'. bs_create memory_binding_store b s = (Inr won, s')" for b s
    using mb_create_total by (simp add: mb_ops)
  show "\<exists>s'. bs_delete memory_binding_store u g n s = (Inr (), s')" for u g n s by (simp add: mb_ops mb_delete_def Let_def)
  show "\<exists>bs. bs_list memory_binding_store u s = Inr bs" for u s by (simp add: mb_ops mb_list_def)
  show "bs_get memory_binding_store u g n s = Inl e \<Longrightarrow> e = ErrNotBound" for u g n s e
    by (auto simp: mb_ops mb_get_def split: option.split_asm)
  show "bindings_ok s \<Longrightarrow> bs_get memory_binding_store u g n s = Inr b \<Longrightarrow> key_clean (binding_key b)" for s u g n b
    using mb_get_key by (metis mb_ops(1) binding_store.select_convs(1))
  show "\<exists>r'. rp_put memory_repo rec r = (Inr (), r')" for rec r by (simp add: memory_repo_def mv_put_def)
  show "fst (rp_delete memory_repo i r) \<in> {Inr (), Inl ErrNotFound}" for i r
    by (simp add: memory_repo_def mv_delete_def split: option.split)
  show "rp_get memory_repo i r = Inl e \<Longrightarrow> e = ErrNotFound" for i r e
    by (auto simp: memory_repo_def mv_get_def split: option.split_asm)
qed

end
