(* ===== verification/Federation_Removal.thy ===== *)
theory Federation_Removal
  imports Federation_Moves
begin

text \<open>
  Disconnecting data sources: \<^verbatim>\<open>Unbind\<close>, \<^verbatim>\<open>CascadeRevoke\<close> and the kill switch of \<^verbatim>\<open>internal/federation\<close>,
  over the in-memory stores.
  Shown: with an audit log that accepts events, a disconnection always removes the row and its
  secret, whatever the source answers; a cascade removes nothing unless the source confirmed; the
  sweep over the pages returns, counts every binding once as revoked, and leaves neither a row nor
  a secret behind; and over every sequence of calls no secret is without a row and no account's
  data is changed by a call of another.
\<close>

section \<open>Removing one binding\<close>

text \<open>The audit log accepts what it is given.\<close>

definition audit_accepts :: "('r, 'l) vault \<Rightarrow> bool" where
  "audit_accepts v \<longleftrightarrow> (\<forall>now e l. is_ok (fst (lg_record (vs_audit v) now e l)))"

lemma accepted_record:
  assumes "audit_accepts v"
  shows "\<exists>w'. v_record v now e w = (None, w')"
proof -
  have "is_ok (fst (lg_record (vs_audit v) now (stamp now e) (vw_log w)))"
    using assms by (simp add: audit_accepts_def)
  then show ?thesis by (auto simp: v_record_def split: prod.split sum.split)
qed

lemma memory_logger_accepts: "vs_audit v = memory_logger \<Longrightarrow> audit_accepts v"
  by (simp add: audit_accepts_def memory_logger_def ml_record_def Let_def)

lemma stores_split: "stores w1 = stores w \<longleftrightarrow> fw_bindings w1 = fw_bindings w \<and> vw_repo (fw_vault w1) = vw_repo (fw_vault w)"
  by (simp add: stores_def)

context fed_stores
begin

lemma revokeSecret_done:
  assumes "vs_repo (fs_vault sv) = rp" and "audit_accepts (fs_vault sv)" and "id_validate (BindingIdentity b) = None"
  shows "\<exists>w'. revokeSecret sv now b w = (None, w')"
proof -
  obtain res r' where d: "rp_delete rp (BindingIdentity b) (vw_repo (fw_vault w)) = (res, r')" by (meson surj_pair)
  then have "\<not> (case res of Inl e \<Rightarrow> \<not> verr_is e ErrNotFound | Inr _ \<Rightarrow> False)"
    using secret_delete_total [of "BindingIdentity b" "vw_repo (fw_vault w)"] by auto
  with d assms accepted_record [OF assms(2), of now] show ?thesis
    by (auto simp: revokeSecret_def vault_Revoke_def split: option.split prod.split) (metis option.distinct(1) fst_conv)+
qed

lemma cut_done:
  assumes sv: "fs_bindings sv = st" "vs_repo (fs_vault sv) = rp" and "audit_accepts (fs_vault sv)"
    and ok: "rok (vw_repo (fw_vault w))" and key: "binding_key b = BKey u g n"
    and valid: "id_validate (BindingIdentity b) = None"
  obtains w' where "cut_binding sv now b u g n w = (None, w')"
proof -
  obtain w1 where 1: "revokeSecret sv now b w = (None, w1)"
    using revokeSecret_done [OF sv(2) assms(3) valid] by blast
  obtain e2 w2 where 2: "deleteBinding sv u g n w1 = (e2, w2)" by (meson surj_pair)
  have "e2 = None"
    using deleteBinding_moves(2) [OF sv(1) _ 2] revokeSecret_moves(3) [OF sv(2) 1 ok] identity_of_key [OF key] by simp
  with that 1 2 show thesis by (simp add: cut_binding_def)
qed

text \<open>What removing the binding \<open>b\<close> leaves: no row, no secret.\<close>

lemma removed:
  assumes ok: "bok (fw_bindings w)" and "rp_get rp (BindingIdentity b) (vw_repo (fw_vault w')) = Inl ErrNotFound
      \<and> bs_delete st u g n (fw_bindings w) = (Inr (), fw_bindings w')"
  shows "bs_get st u' g' n' (fw_bindings w') =
    (if BKey u' g' n' = BKey u g n then Inl ErrNotBound else bs_get st u' g' n' (fw_bindings w))"
  using br.delete_row [OF ok] assms(2) by blast

lemma Unbind_bound:
  assumes sv: "fs_bindings sv = st" "vs_repo (fs_vault sv) = rp" "audit_accepts (fs_vault sv)"
    and ok: "bok (fw_bindings w)" "rok (vw_repo (fw_vault w))"
    and row: "bs_get st u g n (fw_bindings w) = Inr b" and valid: "id_validate (BindingIdentity b) = None"
    and ne: "u \<noteq> []" "g \<noteq> []" "n \<noteq> []"
  obtains result w' where "Unbind sv now u g n w = ((None, result), w')"
    and "rp_get rp (BindingIdentity b) (vw_repo (fw_vault w')) = Inl ErrNotFound
      \<and> bs_delete st u g n (fw_bindings w) = (Inr (), fw_bindings w')"
proof -
  note key = br.get_key [OF ok(1) row]
  obtain result w1 where 1: "(case source_Get (fs_registry sv) g n of
       None \<Rightarrow> (\<lparr>rv_upstream = RevocationNothingToDo, rv_error = []\<rparr>, w)
     | Some src \<Rightarrow> if sr_class src = tokenClassLongLived
                   then (\<lparr>rv_upstream = RevocationUnsupported, rv_error = []\<rparr>, w)
                   else revokeUpstream sv now src b w) = (result, w1)" by (meson surj_pair)
  then have same: "stores w1 = stores w"
    by (auto split: option.split_asm if_split_asm dest!: revokeUpstream_stores)
  then have ok1: "rok (vw_repo (fw_vault w1))" and rows: "fw_bindings w1 = fw_bindings w"
    using ok by (auto simp: stores_split)
  obtain w' where w': "cut_binding sv now b u g n w1 = (None, w')" using cut_done [OF sv ok1 key valid] .
  have "Unbind sv now u g n w = ((None, result), w')"
    using 1 w' row ne sv(1) by (simp add: Unbind_def Let_def)
  with that cut_moves(2) [OF sv(1,2) ok1 key w'] rows show thesis by auto
qed

lemma Cascade_cases:
  assumes sv: "fs_bindings sv = st" "vs_repo (fs_vault sv) = rp" "audit_accepts (fs_vault sv)"
    and ok: "bok (fw_bindings w)" "rok (vw_repo (fw_vault w))" and valid: "rows_valid st (stores w)"
    and ca: "CascadeRevoke sv now u g n w = (res, w')"
  shows "(\<exists>e. res = Inl e \<and> stores w' = stores w)
    \<or> (\<exists>b src secret w1 w2. res = Inr \<lparr>rv_upstream = RevocationDone, rv_error = []\<rparr>
        \<and> source_Get (fs_registry sv) g n = Some src \<and> sr_cascade src \<noteq> []
        \<and> bs_get st u g n (fw_bindings w) = Inr b \<and> read_secret sv now b w = (Inr secret, w1)
        \<and> fst (preferredToken secret) \<noteq> []
        \<and> postRevocation sv src (sr_cascade src) (token_form (fst (preferredToken secret)) (snd (preferredToken secret))) w1
            = (None, w2)
        \<and> rp_get rp (BindingIdentity b) (vw_repo (fw_vault w')) = Inl ErrNotFound
        \<and> bs_delete st u g n (fw_bindings w) = (Inr (), fw_bindings w'))"
proof (cases "stores w' = stores w \<and> isl res")
  case False
  then obtain b w1 w2 secret src err where b: "bs_get st u g n (fw_bindings w) = Inr b"
    and src: "source_Get (fs_registry sv) g n = Some src" "sr_cascade src \<noteq> []"
    and s: "read_secret sv now b w = (Inr secret, w1)" "fst (preferredToken secret) \<noteq> []"
      "postRevocation sv src (sr_cascade src) (token_form (fst (preferredToken secret)) (snd (preferredToken secret))) w1
        = (None, w2)"
    and c: "cut_binding sv now b u g n w2 = (err, w')"
    and res: "res = (case err of Some e \<Rightarrow> Inl e | None \<Rightarrow> Inr \<lparr>rv_upstream = RevocationDone, rv_error = []\<rparr>)"
    using ca sv(1)
    by (auto simp: CascadeRevoke_def split: prod.split_asm option.split_asm if_split_asm sum.split_asm
        dest!: reads_stores(2,3))
  have same: "stores w2 = stores w" using reads_stores(2) [OF s(1)] reads_stores(3) [OF s(3)] by simp
  then have ok2: "rok (vw_repo (fw_vault w2))" and rows: "fw_bindings w2 = fw_bindings w"
    using ok by (auto simp: stores_split)
  note key = br.get_key [OF ok(1) b]
  have "id_validate (BindingIdentity b) = None" using valid b by (auto simp: rows_valid_def stores_parts)
  then obtain w3 where "cut_binding sv now b u g n w2 = (None, w3)" using cut_done [OF sv ok2 key] by blast
  then have "err = None" using c by simp
  with res cut_moves(2) [OF sv(1,2) ok2 key c] rows b src s show ?thesis by auto
qed (auto simp: isl_def)

text \<open>The kill switch's step for one binding.\<close>

lemma revokeBinding_done:
  assumes sv: "fs_bindings sv = st" "vs_repo (fs_vault sv) = rp" "audit_accepts (fs_vault sv)"
    and reg: "registry_ok parse (fs_registry sv)"
    and ok: "bok (fw_bindings w)" "rok (vw_repo (fw_vault w))" and valid: "rows_valid st (stores w)"
    and row: "bs_get st (bd_user b) (bd_game b) (bd_source b) (fw_bindings w) = Inr b"
  obtains out w' where "revokeBinding sv now b w = (out, w')" and "bo_revoked out = 1" and "bo_failed out = 0"
    and "bs_delete st (bd_user b) (bd_game b) (bd_source b) (fw_bindings w) = (Inr (), fw_bindings w')"
proof -
  have v: "id_validate (BindingIdentity b) = None" using valid row by (auto simp: rows_valid_def stores_parts)
  then have u: "bd_user b \<noteq> []" by (auto simp: id_validate_def BindingIdentity_def split: if_split_asm)
  show thesis
  proof (cases "source_Get (fs_registry sv) (bd_game b) (bd_source b)")
    case None
    obtain err w' where sh: "shredBinding sv now b w = (err, w')" by (meson surj_pair)
    obtain w1 where 1: "revokeSecret sv now b w = (None, w1)" using revokeSecret_done [OF sv(2,3) v] by blast
    have "err = None"
      using sh 1 deleteBinding_moves(2) [OF sv(1) _, of "bd_user b" "bd_game b" "bd_source b" w1 err w']
        revokeSecret_moves(3) [OF sv(2) 1 ok(2)] by (simp add: shredBinding_def BindingIdentity_def)
    with that None sh shred_moves(2) [OF sv(1,2) ok(2) sh] show thesis
      by (simp add: revokeBinding_def no_outcome_def)
  next
    case (Some src)
    have ne: "bd_game b \<noteq> []" "bd_source b \<noteq> []"
      using source_Get_ok [OF reg Some] name_ok_excludes(4) by (auto simp: source_ok_def)
    obtain res w1 where 1: "(if sr_cascade src \<noteq> [] then CascadeRevoke sv now (bd_user b) (bd_game b) (bd_source b) w
        else (Inl ErrCascadeUnsupported, w)) = (res, w1)" by (meson surj_pair)
    then consider e where "res = Inl e" "stores w1 = stores w"
      | x where "res = Inr x" "bs_delete st (bd_user b) (bd_game b) (bd_source b) (fw_bindings w) = (Inr (), fw_bindings w1)"
      using Cascade_cases [OF sv ok valid, of now "bd_user b" "bd_game b" "bd_source b" res w1]
      by (auto split: if_split_asm)
    then show thesis
    proof cases
      case (1 e)
      then have s: "bok (fw_bindings w1)" "rok (vw_repo (fw_vault w1))"
        "bs_get st (bd_user b) (bd_game b) (bd_source b) (fw_bindings w1) = Inr b" "fw_bindings w1 = fw_bindings w"
        using ok row by (auto simp: stores_split)
      obtain result w' where un: "Unbind sv now (bd_user b) (bd_game b) (bd_source b) w1 = ((None, result), w')"
        and d: "bs_delete st (bd_user b) (bd_game b) (bd_source b) (fw_bindings w1) = (Inr (), fw_bindings w')"
        using Unbind_bound [OF sv s(1,2,3) v u ne] by metis
      have "revokeBinding sv now b w = (unbind_outcome (None, result), w')"
        using Some \<open>(if _ then _ else _) = (res, w1)\<close> 1(1) un by (simp add: revokeBinding_def)
      then show thesis using that d s(4) by (simp add: unbind_outcome_def Let_def no_outcome_def)
    next
      case (2 x)
      then show thesis using that Some 1 by (simp add: revokeBinding_def no_outcome_def)
    qed
  qed
qed

end

text \<open>Cutting one binding leaves every other secret alone.\<close>

context fed_stores
begin

lemma cut_frame:
  assumes sv: "fs_bindings sv = st" "vs_repo (fs_vault sv) = rp" and ok: "rok (vw_repo (fw_vault w))"
    and cut: "cut_binding sv now b u g n w = (err, w')" and j: "j \<noteq> BindingIdentity b"
  shows "rp_get rp j (vw_repo (fw_vault w')) = rp_get rp j (vw_repo (fw_vault w))"
proof -
  obtain e1 w1 where 1: "revokeSecret sv now b w = (e1, w1)" by (meson surj_pair)
  then obtain vw where "vault_Revoke (fs_vault sv) now (BindingIdentity b) (fw_vault w) = (e1, vw)" "w1 = w\<lparr>fw_vault := vw\<rparr>"
    by (auto simp: revokeSecret_def split: prod.split_asm)
  then have "rp_get rp j (vw_repo (fw_vault w1)) = rp_get rp j (vw_repo (fw_vault w))"
    using Revoke_frame [of "fs_vault sv" now "BindingIdentity b" "fw_vault w" e1 vw] sv(2)
      cr.delete_get [OF ok secret_delete_total, of j] j by auto
  moreover have "fw_vault w' = fw_vault w1"
    using cut 1 by (auto simp: cut_binding_def deleteBinding_def split: option.split_asm prod.split_asm)
  ultimately show ?thesis by simp
qed

lemma Unbind_frame:
  assumes sv: "fs_bindings sv = st" "vs_repo (fs_vault sv) = rp" and ok: "rok (vw_repo (fw_vault w))"
    and un: "Unbind sv now u g n w = (res, w')" and row: "bs_get st u g n (fw_bindings w) = Inr b"
    and j: "j \<noteq> BindingIdentity b"
  shows "rp_get rp j (vw_repo (fw_vault w')) = rp_get rp j (vw_repo (fw_vault w))"
proof (cases "u \<noteq> [] \<and> g \<noteq> [] \<and> n \<noteq> []")
  case True
  then obtain w1 err where "stores w1 = stores w" "cut_binding sv now b u g n w1 = (err, w')"
    using un row sv(1)
    by (auto simp: Unbind_def Let_def split: prod.split_asm option.split_asm if_split_asm dest!: revokeUpstream_stores)
  then show ?thesis using cut_frame [OF sv _ _ j] ok by (metis stores_split)
qed (use un in \<open>auto simp: Unbind_def Let_def\<close>)

end

section \<open>The sweep\<close>

text \<open>The service over the two in-memory stores.\<close>

definition mem_fed :: "(string \<Rightarrow> url option) \<Rightarrow> (memory_bindings, 'f, memory_repo, 'l, 'u) fed_service \<Rightarrow> bool" where
  "mem_fed parse sv \<longleftrightarrow> fs_bindings sv = memory_binding_store \<and> vs_repo (fs_vault sv) = memory_repo
     \<and> registry_ok parse (fs_registry sv) \<and> 0 < fs_page sv"

text \<open>That is what \<^verbatim>\<open>NewService\<close> builds from them.\<close>

lemma NewFedService_mem:
  assumes "NewFedService cfg = Inr (sv, bf, cd)" and "fc_bindings cfg = Some memory_binding_store"
    and "fc_vault cfg = Some v" "vs_repo v = memory_repo"
    and "fc_registry cfg = Some reg" "NewSourceRegistry parse ss = Inr reg"
  shows "mem_fed parse sv" and "fs_vault sv = v" and "fs_registry sv = reg" and "fs_codec sv = fc_codec cfg"
    and "fs_up sv = the (fc_doer cfg)" and "fs_flows sv = fc_flows cfg"
  using assms NewSourceRegistry_ok [OF assms(6)]
  by (auto simp: NewFedService_def mem_fed_def killSwitchPageSize_def split: option.split_asm if_split_asm)

definition fed_ok :: "(memory_bindings, 'f, memory_repo, 'l, 'u) fed_world \<Rightarrow> bool" where
  "fed_ok w \<longleftrightarrow> bindings_ok (fw_bindings w) \<and> repo_ok (vw_repo (fw_vault w))
     \<and> no_orphan memory_binding_store memory_repo (stores w) \<and> rows_valid memory_binding_store (stores w)"

lemma fed_ok_moves:
  "store_moves memory_binding_store memory_repo u (stores w) (stores w') \<Longrightarrow> fed_ok w \<Longrightarrow> fed_ok w'"
  using memfed.moves_keep [of u "stores w" "stores w'"] by (auto simp: fed_ok_def stores_parts)

lemma mem_get: "bs_get memory_binding_store = mb_get" "rp_get memory_repo = mv_get"
  by (simp_all add: memory_binding_store_def memory_repo_def)

lemma revokeBindings_ok:
  assumes sv: "mem_fed parse sv"
  shows "fed_ok w \<Longrightarrow> revokeBindings sv now bs s w = (s', w') \<Longrightarrow> fed_ok w'"
proof (induction bs arbitrary: s w)
  case (Cons b bs)
  obtain out w1 where 1: "revokeBinding sv now b w = (out, w1)" by (meson surj_pair)
  have "fed_ok w1"
    using memfed.revokeBinding_moves [OF _ _ _ _ 1] sv Cons.prems(1) fed_ok_moves [of "bd_user b" w w1]
    by (simp add: mem_fed_def fed_ok_def)
  then show ?case using Cons.IH Cons.prems(2) 1 by simp
qed simp

lemma revokeBindings_done:
  assumes sv: "mem_fed parse sv" "audit_accepts (fs_vault sv)"
  shows "fed_ok w \<Longrightarrow> distinct (map binding_key bs) \<Longrightarrow>
    \<forall>b \<in> set bs. mb_get (bd_user b) (bd_game b) (bd_source b) (fw_bindings w) = Inr b \<Longrightarrow>
    revokeBindings sv now bs s w = (s', w') \<Longrightarrow>
    bo_total s' = bo_total s + length bs \<and> bo_revoked s' = bo_revoked s + length bs \<and> bo_failed s' = bo_failed s
    \<and> (\<forall>u g n. mb_get u g n (fw_bindings w') =
         (if BKey u g n \<in> binding_key ` set bs then Inl ErrNotBound else mb_get u g n (fw_bindings w)))"
proof (induction bs arbitrary: s w)
  case (Cons b bs)
  have w: "bindings_ok (fw_bindings w)" "repo_ok (vw_repo (fw_vault w))" "rows_valid memory_binding_store (stores w)"
    using Cons.prems(1) by (simp_all add: fed_ok_def)
  have m: "fs_bindings sv = memory_binding_store" "vs_repo (fs_vault sv) = memory_repo" "registry_ok parse (fs_registry sv)"
    using sv(1) by (simp_all add: mem_fed_def)
  have row: "bs_get memory_binding_store (bd_user b) (bd_game b) (bd_source b) (fw_bindings w) = Inr b"
    using Cons.prems(3) by (simp add: mem_get)
  obtain out w1 where 1: "revokeBinding sv now b w = (out, w1)" "bo_revoked out = 1" "bo_failed out = 0"
    and d: "bs_delete memory_binding_store (bd_user b) (bd_game b) (bd_source b) (fw_bindings w) = (Inr (), fw_bindings w1)"
    using memfed.revokeBinding_done [OF m(1,2) sv(2) m(3) w row] .
  have get: "mb_get u g n (fw_bindings w1) = (if BKey u g n = binding_key b then Inl ErrNotBound else mb_get u g n (fw_bindings w))"
    for u g n
    using mem_rows.delete_row [OF w(1) d] by (simp add: mem_get binding_key_def)
  have ok1: "fed_ok w1"
    using revokeBindings_ok [OF sv(1) Cons.prems(1), of now "[b]" s "add_outcome out s" w1] 1 by simp
  have rest: "\<forall>b' \<in> set bs. mb_get (bd_user b') (bd_game b') (bd_source b') (fw_bindings w1) = Inr b'"
    using Cons.prems(2,3) by (auto simp: get image_iff simp flip: binding_key_def)
  have rb: "revokeBindings sv now bs (add_outcome out s) w1 = (s', w')" using Cons.prems(4) 1 by simp
  from Cons.IH [OF ok1 _ rest rb] Cons.prems(2) show ?case
    by (auto simp: add_outcome_def 1 get)
qed simp

lemma revoke_pages_done:
  assumes sv: "mem_fed parse sv" "audit_accepts (fs_vault sv)" 
  shows "fed_ok w \<Longrightarrow> \<forall>b \<in> set (all_rows (fw_bindings w)). bindingIndexAfter (binding_key b) u g n \<Longrightarrow>
    \<exists>s' w'. revoke_pages sv now mb_page u g n s w = Some (None, s', w') \<and> fed_ok w' \<and> all_rows (fw_bindings w') = []
      \<and> bo_total s' = bo_total s + length (all_rows (fw_bindings w))
      \<and> bo_revoked s' = bo_revoked s + length (all_rows (fw_bindings w)) \<and> bo_failed s' = bo_failed s"
proof (induction "length (all_rows (fw_bindings w))" arbitrary: u g n s w rule: less_induct)
  case less
  let ?rows = "all_rows (fw_bindings w)" and ?k = "nat (fs_page sv)"
  have page: "0 < fs_page sv" using sv(1) by (simp add: mem_fed_def)
  have ok: "bindings_ok (fw_bindings w)" using less.prems(1) by (simp add: fed_ok_def)
  have srt: "sorted_wrt (<) (map binding_key ?rows)" by (rule all_rows_sorted [OF ok])
  then have dist: "distinct (map binding_key ?rows)" by (simp add: strict_sorted_iff)
  have pg: "mb_page u g n (fs_page sv) (fw_bindings w) = Inr (take ?k ?rows)"
    using mb_page_eq [OF ok] page less.prems(2) by (simp add: filter_id_conv)
  obtain s1 w1 where 1: "revokeBindings sv now (take ?k ?rows) s w = (s1, w1)" by (meson surj_pair)
  have dk: "distinct (map binding_key (take ?k ?rows))" using dist by (simp flip: take_map)
  have rows: "\<forall>b \<in> set (take ?k ?rows). mb_get (bd_user b) (bd_game b) (bd_source b) (fw_bindings w) = Inr b"
    using all_rows_set [OF ok] by (meson in_set_takeD)
  note d = revokeBindings_done [OF sv less.prems(1) dk rows 1]
  note ok1 = revokeBindings_ok [OF sv(1) less.prems(1) 1]
  then have b1: "bindings_ok (fw_bindings w1)" by (simp add: fed_ok_def)
  have set1: "set (all_rows (fw_bindings w1)) = set (drop ?k ?rows)"
  proof -
    have app: "set ?rows = set (take ?k ?rows) \<union> set (drop ?k ?rows)" by (metis append_take_drop_id set_append)
    have "binding_key ` set (take ?k ?rows) \<inter> binding_key ` set (drop ?k ?rows) = {}"
      using dist by (metis append_take_drop_id distinct_append map_append set_map)
    then have "b \<in> set (all_rows (fw_bindings w1)) \<longleftrightarrow> b \<in> set (drop ?k ?rows)" for b
      using all_rows_set [OF b1, of b] all_rows_set [OF ok, of b] d app
      by (auto simp flip: binding_key_def)
    then show ?thesis by blast
  qed
  have "distinct (all_rows (fw_bindings w1))" "distinct (drop ?k ?rows)"
    using all_rows_sorted [OF b1] dist by (auto simp: strict_sorted_iff distinct_map intro: distinct_drop)
  then have len1: "length (all_rows (fw_bindings w1)) = length ?rows - ?k"
    using set1 by (metis distinct_card length_drop)
  show ?case
  proof (cases "length ?rows < ?k")
    case True
    then have "?rows = [] \<or> int (length (take ?k ?rows)) < fs_page sv" by auto
    then show ?thesis
      using pg 1 d len1 True ok1 less.prems(1) by (subst revoke_pages.simps) (auto simp: min_def)
  next
    case False
    let ?last = "last (take ?k ?rows)"
    have ne: "take ?k ?rows \<noteq> []" "0 < ?k" using False page by auto
    have after: "\<forall>b \<in> set (all_rows (fw_bindings w1)). bindingIndexAfter (binding_key b) (bd_user ?last) (bd_game ?last) (bd_source ?last)"
    proof
      fix b assume "b \<in> set (all_rows (fw_bindings w1))"
      moreover have "sorted_wrt (<) (map binding_key (take ?k ?rows) @ map binding_key (drop ?k ?rows))"
        using srt by (metis append_take_drop_id map_append)
      ultimately have "binding_key ?last < binding_key b"
        using set1 ne(1) by (auto simp: sorted_wrt_append)
      then show "bindingIndexAfter (binding_key b) (bd_user ?last) (bd_game ?last) (bd_source ?last)"
        by (simp add: bindingIndexAfter_iff binding_key_def)
    qed
    have "length (all_rows (fw_bindings w1)) < length ?rows" using len1 ne False by linarith
    from less.hyps [OF this ok1 after, of s1] obtain s' w'
      where IH: "revoke_pages sv now mb_page (bd_user ?last) (bd_game ?last) (bd_source ?last) s1 w1 = Some (None, s', w')"
        "fed_ok w'" "all_rows (fw_bindings w') = []"
        "bo_total s' = bo_total s1 + length (all_rows (fw_bindings w1))"
        "bo_revoked s' = bo_revoked s1 + length (all_rows (fw_bindings w1))" "bo_failed s' = bo_failed s1"
      by blast
    have "int (length (take ?k ?rows)) \<ge> fs_page sv" using False page by auto
    then have "revoke_pages sv now mb_page u g n s w = Some (None, s', w')"
      using pg 1 IH(1) ne(1) by (subst revoke_pages.simps) (simp add: not_less)
    then show ?thesis using IH d len1 False by auto
  qed
qed

section \<open>Sequences of calls\<close>

datatype fed_call =
    CallBegin time string string string string
  | CallComplete time string string string
  | CallFetch time fetch_request
  | CallRaw time raw_request
  | CallRelease reservation
  | CallUnbind time string string string
  | CallCascade time string string string
  | CallRevokeUser time string
  | CallRevokeAll time

fun fed_run ::
  "('b, 'f, 'r, 'l, 'u) fed_service \<Rightarrow> fed_call \<Rightarrow> ('b, 'f, 'r, 'l, 'u) fed_world \<Rightarrow> ('b, 'f, 'r, 'l, 'u) fed_world" where
  "fed_run sv (CallBegin now u g n ret) w = snd (BeginBind sv now u g n ret w)"
| "fed_run sv (CallComplete now u state code) w = snd (snd (CompleteBind sv now u state code w))"
| "fed_run sv (CallFetch now req) w = snd (Fetch sv now req w)"
| "fed_run sv (CallRaw now req) w = snd (Raw sv now req w)"
| "fed_run sv (CallRelease res) w = w\<lparr>fw_buffers := budget_release (fst res) (snd res) (fw_buffers w)\<rparr>"
| "fed_run sv (CallUnbind now u g n) w = snd (Unbind sv now u g n w)"
| "fed_run sv (CallCascade now u g n) w = snd (CascadeRevoke sv now u g n w)"
| "fed_run sv (CallRevokeUser now u) w = snd (RevokeUserBindings sv now u w)"
| "fed_run sv (CallRevokeAll now) w = (case RevokeAllBindings sv now w of None \<Rightarrow> w | Some (_, _, w') \<Rightarrow> w')"

text \<open>On whose behalf a call runs; the kill switch runs for everybody.\<close>

fun call_touches :: "fed_call \<Rightarrow> string \<Rightarrow> bool" where
  "call_touches (CallBegin now u g n ret) v = (u = v)"
| "call_touches (CallComplete now u state code) v = (u = v)"
| "call_touches (CallFetch now req) v = (fq_user req = v)"
| "call_touches (CallRaw now req) v = (rq_user req = v)"
| "call_touches (CallRelease res) v = False"
| "call_touches (CallUnbind now u g n) v = (u = v)"
| "call_touches (CallCascade now u g n) v = (u = v)"
| "call_touches (CallRevokeUser now u) v = (u = v)"
| "call_touches (CallRevokeAll now) v = True"

fun call_ok :: "fed_call \<Rightarrow> bool" where
  "call_ok (CallComplete now u state code) = user_ok u"
| "call_ok c = True"

text \<open>A run from empty stores.\<close>

definition fed_start :: "(memory_bindings, 'f, memory_repo, 'l, 'u) fed_world \<Rightarrow> bool" where
  "fed_start w \<longleftrightarrow> fw_bindings w = NewMemoryBindingStore \<and> vw_repo (fw_vault w) = NewMemoryRepo"

lemma fed_start_ok: "fed_start w \<Longrightarrow> fed_ok w"
  by (simp add: fed_start_def fed_ok_def bindings_ok_new repo_ok_new no_orphan_def rows_valid_def stores_def mem_get)
     (simp add: NewMemoryRepo_def NewMemoryBindingStore_def mv_get_def mb_get_def)

text \<open>One account's bindings, removed one after the other, touch that account alone.\<close>

lemma revokeBindings_moves:
  assumes sv: "mem_fed parse sv"
  shows "fed_ok w \<Longrightarrow> \<forall>b \<in> set bs. bd_user b = u \<Longrightarrow> revokeBindings sv now bs s w = (s', w') \<Longrightarrow>
    store_moves memory_binding_store memory_repo u (stores w) (stores w')"
proof (induction bs arbitrary: s w)
  case (Cons b bs)
  obtain out w1 where 1: "revokeBinding sv now b w = (out, w1)" by (meson surj_pair)
  have m: "store_moves memory_binding_store memory_repo u (stores w) (stores w1)"
    using memfed.revokeBinding_moves [OF _ _ _ _ 1] sv Cons.prems(1,2) by (simp add: mem_fed_def fed_ok_def)
  have "store_moves memory_binding_store memory_repo u (stores w1) (stores w')"
    by (rule Cons.IH [OF fed_ok_moves [OF m Cons.prems(1)]]) (use Cons.prems(2,3) 1 in auto)
  with m show ?case by (rule rtranclp_trans)
qed simp

lemma revoke_pages_ok:
  assumes "revoke_pages sv now pager u g n s w = Some r" and "mem_fed parse sv" and "fed_ok w"
  shows "fed_ok (snd (snd r))"
proof -
  have "mem_fed parse sv \<longrightarrow> fed_ok w \<longrightarrow> fed_ok (snd (snd r))"
    using _ assms(1)
  proof (rule revoke_pages.raw_induct, intro impI)
    fix rec sv now pager u g n s r
    fix w :: "(memory_bindings, 'f, memory_repo, 'l, 'u) fed_world"
    assume IH: "\<And>sv now pager u g n s w r. rec sv now pager u g n s w = Some r \<Longrightarrow>
        mem_fed parse sv \<longrightarrow> fed_ok w \<longrightarrow> fed_ok (snd (snd r))"
      and step: "(case pager u g n (fs_page sv) (fw_bindings w) of Inl e \<Rightarrow> Some (Some e, s, w)
      | Inr page \<Rightarrow>
          if page = [] then Some (None, s, w)
          else case revokeBindings sv now page s w of
               (s, w) \<Rightarrow>
                 if int (length page) < fs_page sv then Some (None, s, w)
                 else rec sv now pager (bd_user (last page))
                       (bd_game (last page)) (bd_source (last page)) s w) = Some r"
      and ok: "mem_fed parse sv" "fed_ok w"
    show "fed_ok (snd (snd r))"
      using step ok
      by (auto split: sum.split_asm if_split_asm prod.split_asm dest!: IH dest: revokeBindings_ok [OF ok(1,2)])
  qed
  with assms(2,3) show ?thesis by blast
qed

lemma RevokeUser_moves:
  assumes sv: "mem_fed parse sv" and ok: "fed_ok w" and r: "RevokeUserBindings sv now u w = (res, w')"
  shows "store_moves memory_binding_store memory_repo u (stores w) (stores w')"
proof (cases "u = []")
  case False
  obtain bs where bs: "bs_list memory_binding_store u (fw_bindings w) = Inr bs" using memfed.list_total by blast
  have "\<forall>b \<in> set bs. bd_user b = u"
    using mem_rows.list_rows [OF _ bs] mem_rows.get_key ok by (fastforce simp: fed_ok_def binding_key_def)
  with revokeBindings_moves [OF sv ok] r bs False sv show ?thesis
    by (auto simp: RevokeUserBindings_def mem_fed_def split: prod.split_asm)
qed (use r in \<open>simp add: RevokeUserBindings_def\<close>)

text \<open>Every call but the kill switch is a sequence of moves of the account it runs for.\<close>

lemma fed_run_moves:
  assumes sv: "mem_fed parse sv" and ok: "fed_ok w" and c: "call_ok c" and all: "\<And>now. c \<noteq> CallRevokeAll now"
  shows "\<exists>u. (\<forall>v. call_touches c v \<longrightarrow> v = u) \<and> ((\<exists>v. call_touches c v) \<longrightarrow> call_touches c u)
    \<and> store_moves memory_binding_store memory_repo u (stores w) (stores (fed_run sv c w))"
proof -
  have m: "fs_bindings sv = memory_binding_store" "vs_repo (fs_vault sv) = memory_repo" "registry_ok parse (fs_registry sv)"
    using sv by (simp_all add: mem_fed_def)
  have w: "bindings_ok (fw_bindings w)" "repo_ok (vw_repo (fw_vault w))" using ok by (simp_all add: fed_ok_def)
  show ?thesis
  proof (cases c)
    case (CallBegin now u g n ret)
    then show ?thesis using BeginBind_stores [of sv now u g n ret w] by (cases "BeginBind sv now u g n ret w") auto
  next
    case (CallComplete now u state code)
    then show ?thesis
      using memfed.CompleteBind_moves [OF m(1,2) w(1) m(3), of u now state code] c by (cases "CompleteBind sv now u state code w") auto
  next
    case (CallFetch now req)
    then show ?thesis using memfed.Fetch_moves [OF m(1,2) w, of now req] by (cases "Fetch sv now req w") auto
  next
    case (CallRaw now req)
    then show ?thesis using memfed.Raw_moves [OF m(1,2) w, of now req] by (cases "Raw sv now req w") auto
  next
    case (CallUnbind now u g n)
    then show ?thesis using memfed.Unbind_moves [OF m(1,2) w, of now u g n] by (cases "Unbind sv now u g n w") auto
  next
    case (CallCascade now u g n)
    then show ?thesis using memfed.Cascade_moves [OF m(1,2) w, of now u g n] by (cases "CascadeRevoke sv now u g n w") auto
  next
    case (CallRevokeUser now u)
    then show ?thesis using RevokeUser_moves [OF sv ok, of now u] by (cases "RevokeUserBindings sv now u w") auto
  qed (use all in auto)
qed

lemma fed_run_ok:
  assumes sv: "mem_fed parse sv" and ok: "fed_ok w" and c: "call_ok c"
  shows "fed_ok (fed_run sv c w)"
proof (cases "\<exists>now. c = CallRevokeAll now")
  case True
  then show ?thesis
    using sv ok revoke_pages_ok [OF _ sv ok]
    by (auto simp: RevokeAllBindings_def mem_fed_def mb_ops split: option.split)
next
  case False
  then show ?thesis using fed_run_moves [OF sv ok c] fed_ok_moves ok by blast
qed

lemma fed_runs_ok:
  "mem_fed parse sv \<Longrightarrow> fed_ok w \<Longrightarrow> \<forall>c \<in> set calls. call_ok c \<Longrightarrow> fed_ok (fold (fed_run sv) calls w)"
  by (induction calls arbitrary: w) (auto intro: fed_run_ok)

lemma fed_run_others:
  assumes sv: "mem_fed parse sv" and ok: "fed_ok w" and c: "call_ok c" and v: "\<not> call_touches c v"
  shows "mb_get v g n (fw_bindings (fed_run sv c w)) = mb_get v g n (fw_bindings w)"
    and "id_subject i = v \<Longrightarrow> mv_get i (vw_repo (fw_vault (fed_run sv c w))) = mv_get i (vw_repo (fw_vault w))"
proof -
  have ok': "bindings_ok (fst (stores w))" "repo_ok (snd (stores w))" using ok by (simp_all add: fed_ok_def stores_parts)
  have all: "c \<noteq> CallRevokeAll now" for now using v by auto
  obtain u where u: "(\<exists>x. call_touches c x) \<longrightarrow> call_touches c u"
    and m: "store_moves memory_binding_store memory_repo u (stores w) (stores (fed_run sv c w))"
    using fed_run_moves [OF sv ok c all] by blast
  have "mb_get v g n (fw_bindings (fed_run sv c w)) = mb_get v g n (fw_bindings w)
      \<and> (id_subject i = v \<longrightarrow> mv_get i (vw_repo (fw_vault (fed_run sv c w))) = mv_get i (vw_repo (fw_vault w)))"
  proof (cases "\<exists>x. call_touches c x")
    case True
    then have "v \<noteq> u" using u v by blast
    then show ?thesis using memfed.moves_keep [OF m ok'] by (simp add: others_same_def stores_def mem_get)
  next
    case False
    then show ?thesis by (cases c) auto
  qed
  then show "mb_get v g n (fw_bindings (fed_run sv c w)) = mb_get v g n (fw_bindings w)"
    "id_subject i = v \<Longrightarrow> mv_get i (vw_repo (fw_vault (fed_run sv c w))) = mv_get i (vw_repo (fw_vault w))"
    by blast+
qed

lemma fed_runs_others:
  "mem_fed parse sv \<Longrightarrow> fed_ok w \<Longrightarrow> \<forall>c \<in> set calls. call_ok c \<and> \<not> call_touches c v \<Longrightarrow>
     mb_get v g n (fw_bindings (fold (fed_run sv) calls w)) = mb_get v g n (fw_bindings w)
     \<and> (id_subject i = v \<longrightarrow> mv_get i (vw_repo (fw_vault (fold (fed_run sv) calls w))) = mv_get i (vw_repo (fw_vault w)))"
proof (induction calls arbitrary: w)
  case (Cons c calls)
  then show ?case
    using fed_run_others [OF Cons.prems(1,2), of c v] fed_run_ok [OF Cons.prems(1,2), of c] by simp
qed simp

section \<open>A service to run\<close>

text \<open>A source that answers every call, and remembers the requests it got; a codec of the token
  pair that gives back what it was given.\<close>

definition demo_up :: "http_request list upstream" where
  "demo_up =
     \<lparr>up_do = (\<lambda>q u. (Inr \<lparr>hr_status = 200, hr_length = -1, hr_type = ''application/json'', hr_encoding = [],
                         hr_body = ''{}'', hr_broken = False\<rparr>, u @ [q])),
      up_exchange = (\<lambda>c code v u. (Inr \<lparr>ot_access = ''at'', ot_refresh = ''rt'', ot_type = ''Bearer'', ot_expiry = 0\<rparr>, u)),
      up_refresh = (\<lambda>c rt u. (Inl (TokenEndpointError ''invalid_grant''), u)),
      up_auth_url = (\<lambda>c state v. oc_auth c @ ''?state='' @ state),
      up_verifier = (\<lambda>t. (take 32 t, drop 32 t))\<rparr>"

definition demo_codec :: codec where
  "demo_codec =
     \<lparr>js_marshal = (\<lambda>s. replicate (length (bx_access s)) (CHR ''1'') @ CHR '':'' # bx_access s @ bx_refresh s),
      js_unmarshal = (\<lambda>p. let k = length (takeWhile (\<lambda>c. c = CHR ''1'') p); q = drop (Suc k) p
                          in Some \<lparr>bx_access = take k q, bx_refresh = drop k q\<rparr>),
      js_valid = (\<lambda>_. True)\<rparr>"

definition demo_vault :: "(memory_repo, memory_log) vault" where
  "demo_vault =
     \<lparr>vs_repo = memory_repo, vs_current = local_key_wrapper ''k1'' (replicate 32 (CHR ''k'')),
      vs_keys = fmupd ''k1'' (local_key_wrapper ''k1'' (replicate 32 (CHR ''k''))) fmempty,
      vs_audit = memory_logger, vs_metrics = False\<rparr>"

definition demo_fed_config :: "(memory_bindings, memory_flows, memory_repo, memory_log, http_request list) fed_config" where
  "demo_fed_config =
     \<lparr>fc_registry = Some demo_registry, fc_bindings = Some memory_binding_store, fc_vault = Some demo_vault,
      fc_flows = memory_flow_store, fc_doer = Some demo_up, fc_codec = demo_codec, fc_parse = demo_parse,
      fc_base = ''https://re0auth.example/'', fc_ttl = 0, fc_page = 0, fc_buffered = 0, fc_threshold = 0,
      fc_cooldown = 0, fc_timeout = 0\<rparr>"

definition demo_fed :: "(memory_bindings, memory_flows, memory_repo, memory_log, http_request list) fed_service" where
  "demo_fed = (case NewFedService demo_fed_config of Inr (sv, _, _) \<Rightarrow> sv)"

definition demo_world :: "tape \<Rightarrow> (memory_bindings, memory_flows, memory_repo, memory_log, http_request list) fed_world" where
  "demo_world t =
     \<lparr>fw_bindings = NewMemoryBindingStore, fw_flows = NewMemoryBindFlowStore,
      fw_vault = \<lparr>vw_repo = NewMemoryRepo, vw_log = NewMemoryLogger, vw_tape = t, vw_obs = []\<rparr>,
      fw_up = [], fw_buffers = newBufferBudget defaultMaxBufferedBytes,
      fw_cooldown = newBindingCooldown (int maxCooledBindings) 0 0\<rparr>"

lemma demo_fed_new: "\<exists>bf cd. NewFedService demo_fed_config = Inr (demo_fed, bf, cd)"
  by (simp add: demo_fed_def NewFedService_def demo_fed_config_def)

lemma demo_fed_mem:
  "mem_fed demo_parse demo_fed" "fs_vault demo_fed = demo_vault" "fs_registry demo_fed = demo_registry"
  "fs_codec demo_fed = demo_codec" "fs_up demo_fed = demo_up" "fs_flows demo_fed = memory_flow_store"
proof -
  obtain bf cd where n: "NewFedService demo_fed_config = Inr (demo_fed, bf, cd)" using demo_fed_new by blast
  note wired = NewFedService_mem [OF n, of demo_vault demo_registry demo_parse, OF _ _ _ _ demo_registry_new]
  show "mem_fed demo_parse demo_fed" "fs_vault demo_fed = demo_vault" "fs_registry demo_fed = demo_registry"
    "fs_codec demo_fed = demo_codec" "fs_up demo_fed = demo_up" "fs_flows demo_fed = memory_flow_store"
    using wired by (simp_all add: demo_fed_config_def demo_vault_def)
qed

text \<open>The state the first bind draws from a tape of one byte repeated.\<close>

definition demo_state :: string where
  "demo_state = ''bnd_'' @ hex_encode (replicate 16 (CHR ''t''))"

lemma demo_world_start: "fed_start (demo_world t)"
  by (simp add: fed_start_def demo_world_def)

lemma demo_accepts: "audit_accepts (fs_vault demo_fed)"
  by (simp add: demo_fed_mem memory_logger_accepts demo_vault_def)

text \<open>A world with one bound source.\<close>

definition demo_binding :: binding where
  "demo_binding = \<lparr>bd_user = ''usr_a'', bd_game = ''g'', bd_source = ''y'', bd_type = ''Bearer'', bd_expiry = 0,
     bd_refresh = True, bd_version = 7\<rparr>"

definition demo_bound :: "(memory_bindings, memory_flows, memory_repo, memory_log, http_request list) fed_world" where
  "demo_bound = (demo_world (replicate 100 (CHR ''t'')))\<lparr>fw_bindings := snd (mb_create demo_binding NewMemoryBindingStore)\<rparr>"

lemma demo_bound_row: "mb_get ''usr_a'' ''g'' ''y'' (fw_bindings demo_bound) = Inr demo_binding"
  unfolding demo_bound_def by code_simp

lemma demo_bound_ok: "fed_ok demo_bound"
proof -
  have k: "key_clean (binding_key demo_binding)" "id_validate (BindingIdentity demo_binding) = None" by code_simp+
  have "bs_create memory_binding_store demo_binding NewMemoryBindingStore
      = (Inr True, snd (mb_create demo_binding NewMemoryBindingStore))"
    by (simp add: mb_ops mb_create_def NewMemoryBindingStore_def Let_def)
  from store_move.create [OF k(1) refl this k(2), of memory_repo "vw_repo (fw_vault demo_bound)"]
  have "store_moves memory_binding_store memory_repo ''usr_a'' (stores (demo_world (replicate 100 (CHR ''t'')))) (stores demo_bound)"
    by (auto simp: stores_def demo_bound_def demo_world_def demo_binding_def)
  then show ?thesis by (rule fed_ok_moves [OF _ fed_start_ok [OF demo_world_start]])
qed

section \<open>Properties\<close>

text \<open>C3. No orphaned credential. Over every sequence of calls from empty stores, whatever the data
  sources answer and whether or not the audit log accepts an event, every secret in the vault
  belongs to a binding that its account's listing shows, so disconnecting can reach it.\<close>

theorem federation_no_orphan_secret:
  assumes sv: "mem_fed parse sv" and "fed_start w0" and "\<forall>c \<in> set calls. call_ok c"
    and w: "w = fold (fed_run sv) calls w0" and rec: "mv_get i (vw_repo (fw_vault w)) = Inr rec"
    and "id_subject i \<noteq> []"
  shows "\<exists>bs b. Bindings sv (id_subject i) w = Inr bs \<and> b \<in> set bs \<and> BindingIdentity b = i"
proof -
  have ok: "fed_ok w" unfolding w by (rule fed_runs_ok [OF sv fed_start_ok [OF assms(2)] assms(3)])
  then obtain b where b: "mb_get (bd_user b) (bd_game b) (bd_source b) (fw_bindings w) = Inr b" "BindingIdentity b = i"
    using rec by (auto simp: fed_ok_def no_orphan_def stores_def mem_get)
  obtain bs where bs: "mb_list (id_subject i) (fw_bindings w) = Inr bs" by (simp add: mb_list_def)
  have "bd_user b = id_subject i" using b(2) by (auto simp: BindingIdentity_def)
  then have "b \<in> set bs" using mb_list_rows [OF _ bs] ok b(1) by (auto simp: fed_ok_def)
  with bs b(2) sv assms(6) show ?thesis by (auto simp: Bindings_def mem_fed_def mb_ops)
qed

theorem federation_no_orphan_secret_witness:
  "(let w = fold (fed_run demo_fed) [CallBegin 1 ''usr_a'' ''g'' ''y'' [], CallComplete 2 ''usr_a'' demo_state ''c'']
              (demo_world (replicate 300 (CHR ''t''))) in
    \<nexists>rec. mv_get (Identity ''usr_a'' ''g.y'') (vw_repo (fw_vault w)) = Inr rec
       \<and> (\<nexists>bs b. Bindings demo_fed ''usr_a'' w = Inr bs \<and> b \<in> set bs \<and> BindingIdentity b = Identity ''usr_a'' ''g.y''))"
proof -
  have "\<forall>c \<in> set [CallBegin 1 ''usr_a'' ''g'' ''y'' [], CallComplete 2 ''usr_a'' demo_state ''c'']. call_ok c"
    by (simp add: user_ok_def)
  from federation_no_orphan_secret [OF demo_fed_mem(1) demo_world_start this refl, of "Identity ''usr_a'' ''g.y''"]
  show ?thesis unfolding Let_def by (metis identity.sel(1) list.distinct(1))
qed

text \<open>C14. Accounts are isolated. Whatever calls other accounts make, an account's bindings and its
  secrets stay as they are: reads, refreshes, binds and disconnections of one account never change
  a row or a credential of another.\<close>

theorem federation_isolated:
  assumes sv: "mem_fed parse sv" and "fed_start w0" and "\<forall>c \<in> set before. call_ok c"
    and w: "w = fold (fed_run sv) before w0" and calls: "\<forall>c \<in> set calls. call_ok c \<and> \<not> call_touches c v"
    and w': "w' = fold (fed_run sv) calls w"
  shows "mb_get v g n (fw_bindings w') = mb_get v g n (fw_bindings w)
    \<and> mv_get (Identity v p) (vw_repo (fw_vault w')) = mv_get (Identity v p) (vw_repo (fw_vault w))"
proof -
  have "fed_ok w" unfolding w by (rule fed_runs_ok [OF sv fed_start_ok [OF assms(2)] assms(3)])
  from fed_runs_others [OF sv this calls, of g n "Identity v p"] show ?thesis by (simp add: w')
qed

theorem federation_isolated_witness:
  "(let w = fold (fed_run demo_fed) [CallBegin 1 ''usr_a'' ''g'' ''y'' [], CallComplete 2 ''usr_a'' demo_state ''c'']
              (demo_world (replicate 300 (CHR ''t''))) in
    mb_get ''usr_a'' ''g'' ''y'' (fw_bindings (fed_run demo_fed (CallUnbind 3 ''usr_b'' ''g'' ''y'') w))
      = mb_get ''usr_a'' ''g'' ''y'' (fw_bindings w))"
proof -
  have "\<forall>c \<in> set [CallBegin 1 ''usr_a'' ''g'' ''y'' [], CallComplete 2 ''usr_a'' demo_state ''c'']. call_ok c"
    "\<forall>c \<in> set [CallUnbind 3 ''usr_b'' ''g'' ''y'']. call_ok c \<and> \<not> call_touches c ''usr_a''"
    by (simp_all add: user_ok_def)
  from federation_isolated [OF demo_fed_mem(1) demo_world_start this(1) refl this(2) refl]
  show ?thesis by (simp add: Let_def)
qed

text \<open>C5. The kill switch. From every reachable state, with an audit log that accepts events, the
  sweep over the pages returns; it counts every binding of the deployment exactly once, all of
  them as revoked and none as failed; and afterwards there is neither a binding nor a secret, even
  where sources are down or refuse.\<close>

theorem kill_switch_complete:
  assumes sv: "mem_fed parse sv" "audit_accepts (fs_vault sv)" and "fed_start w0" and "\<forall>c \<in> set calls. call_ok c"
    and w: "w = fold (fed_run sv) calls w0"
  shows "\<exists>s w'. RevokeAllBindings sv now w = Some (None, s, w')
    \<and> bo_total s = length (all_rows (fw_bindings w)) \<and> bo_revoked s = bo_total s \<and> bo_failed s = 0
    \<and> (\<forall>u g n. mb_get u g n (fw_bindings w') = Inl ErrNotBound)
    \<and> (\<forall>i. mv_get i (vw_repo (fw_vault w')) = Inl ErrNotFound)"
proof -
  have "fed_ok w" unfolding w by (rule fed_runs_ok [OF sv(1) fed_start_ok [OF assms(3)] assms(4)])
  from revoke_pages_done [OF sv this, of "[]" "[]" "[]" now no_summary] obtain s w'
    where r: "revoke_pages sv now mb_page [] [] [] no_summary w = Some (None, s, w')" "fed_ok w'"
      "all_rows (fw_bindings w') = []"
      and s: "bo_total s = length (all_rows (fw_bindings w))" "bo_revoked s = length (all_rows (fw_bindings w))" "bo_failed s = 0"
    by (auto simp: no_summary_def no_outcome_def binding_outcome.extend_def bindingIndexAfter_def)
  have ok: "bindings_ok (fw_bindings w')" using r(2) by (simp add: fed_ok_def)
  have rows: "mb_get u g n (fw_bindings w') = Inl ErrNotBound" for u g n
  proof (cases "mb_get u g n (fw_bindings w')")
    case (Inl e)
    then show ?thesis using memfed.get_error [OF ok] by (simp add: mem_get)
  next
    case (Inr b)
    then have "b \<in> set (all_rows (fw_bindings w'))"
      using all_rows_set [OF ok, of b] mb_get_key(1) [OF ok Inr] by (simp add: binding_key_def)
    with r(3) show ?thesis by simp
  qed
  have "mv_get i (vw_repo (fw_vault w')) = Inl ErrNotFound" for i
  proof (cases "mv_get i (vw_repo (fw_vault w'))")
    case (Inl e)
    then show ?thesis using memfed.secret_error by (simp add: mem_get)
  next
    case (Inr rec)
    then show ?thesis using r(2) rows by (auto simp: fed_ok_def no_orphan_def stores_def mem_get)
  qed
  then show ?thesis using r(1) s rows sv(1) by (auto simp: RevokeAllBindings_def mem_fed_def mb_ops)
qed

theorem kill_switch_complete_witness:
  "(let w = fold (fed_run demo_fed) [CallBegin 1 ''usr_a'' ''g'' ''y'' [], CallComplete 2 ''usr_a'' demo_state ''c'']
              (demo_world (replicate 300 (CHR ''t''))) in
    \<exists>s w'. RevokeAllBindings demo_fed 3 w = Some (None, s, w') \<and> bo_failed s = 0
      \<and> mb_get ''usr_a'' ''g'' ''y'' (fw_bindings w') = Inl ErrNotBound)"
proof -
  have "\<forall>c \<in> set [CallBegin 1 ''usr_a'' ''g'' ''y'' [], CallComplete 2 ''usr_a'' demo_state ''c'']. call_ok c"
    by (simp add: user_ok_def)
  from kill_switch_complete [OF demo_fed_mem(1) demo_accepts demo_world_start this refl, of 3]
  show ?thesis unfolding Let_def by blast
qed

text \<open>C20. A disconnection always cuts. With an audit log that accepts events, \<^verbatim>\<open>Unbind\<close> of a bound
  source succeeds whatever the source answers: the row and the credential are gone, and every
  other row and credential is as before.\<close>

theorem unbind_always_cuts:
  assumes sv: "mem_fed parse sv" "audit_accepts (fs_vault sv)" and ok: "fed_ok w"
    and row: "mb_get u g n (fw_bindings w) = Inr b" and ne: "g \<noteq> []" "n \<noteq> []"
  shows "\<exists>result w'. Unbind sv now u g n w = ((None, result), w')
    \<and> (\<forall>u' g' n'. mb_get u' g' n' (fw_bindings w') =
         (if (u', g', n') = (u, g, n) then Inl ErrNotBound else mb_get u' g' n' (fw_bindings w)))
    \<and> (\<forall>i. mv_get i (vw_repo (fw_vault w')) =
         (if i = BindingIdentity b then Inl ErrNotFound else mv_get i (vw_repo (fw_vault w))))"
proof -
  have m: "fs_bindings sv = memory_binding_store" "vs_repo (fs_vault sv) = memory_repo" using sv by (simp_all add: mem_fed_def)
  have w: "bindings_ok (fw_bindings w)" "repo_ok (vw_repo (fw_vault w))" "rows_valid memory_binding_store (stores w)"
    using ok by (simp_all add: fed_ok_def)
  have row': "bs_get memory_binding_store u g n (fw_bindings w) = Inr b" using row by (simp add: mem_get)
  then have v: "id_validate (BindingIdentity b) = None" using w(3) by (auto simp: rows_valid_def stores_parts)
  have u: "u \<noteq> []"
    using v mb_get_key(1) [OF w(1) row] by (auto simp: id_validate_def BindingIdentity_def binding_key_def split: if_split_asm)
  obtain result w' where un: "Unbind sv now u g n w = ((None, result), w')"
    and gone: "rp_get memory_repo (BindingIdentity b) (vw_repo (fw_vault w')) = Inl ErrNotFound
      \<and> bs_delete memory_binding_store u g n (fw_bindings w) = (Inr (), fw_bindings w')"
    using memfed.Unbind_bound [OF m sv(2) w(1,2) row' v u ne] .
  from memfed.removed [OF w(1) gone] memfed.Unbind_frame [OF m w(2) un row'] gone un show ?thesis
    by (auto simp: mem_get)
qed

theorem unbind_always_cuts_witness:
  "\<exists>result w'. Unbind demo_fed 5 ''usr_a'' ''g'' ''y'' demo_bound = ((None, result), w')
     \<and> mb_get ''usr_a'' ''g'' ''y'' (fw_bindings w') = Inl ErrNotBound
     \<and> mv_get (BindingIdentity demo_binding) (vw_repo (fw_vault w')) = Inl ErrNotFound"
proof -
  have "''g'' \<noteq> ([] :: string)" "''y'' \<noteq> ([] :: string)" by simp_all
  from unbind_always_cuts [OF demo_fed_mem(1) demo_accepts demo_bound_ok demo_bound_row this, of 5]
  show ?thesis by auto
qed

end
