(* ===== verification/Federation_Bind.thy ===== *)
theory Federation_Bind
  imports Federation_Removal
begin

text \<open>
  Connecting data sources and keeping their tokens fresh: \<^verbatim>\<open>CompleteBind\<close> of
  \<^verbatim>\<open>internal/federation/bind.go\<close> and \<^verbatim>\<open>refreshBinding\<close> of \<^verbatim>\<open>refresh.go\<close> over the in-memory stores.
  Shown: a bind succeeds only for the account that started it, in time, and only if the binding is
  exactly as it was when the flow began, and then the row and the stored secret are those of the
  exchanged token; a claim that lost changes neither a row nor a secret; the token handed to a read
  after a bind is the one the source issued; and a cascade removes a binding and its secret only
  after the source confirmed it, and otherwise nothing.
\<close>

section \<open>Secrets in and out of the vault\<close>

definition vault_sound :: "('r, 'l) vault \<Rightarrow> bool" where
  "vault_sound v \<longleftrightarrow> sound_wrapper (vs_current v) \<and> fmlookup (vs_keys v) (kw_id (vs_current v)) = Some (vs_current v)"

text \<open>The credential of a binding is stored and opens to the given pair.\<close>

definition holds_secret ::
  "(memory_bindings, 'f, memory_repo, 'l, 'u) fed_service \<Rightarrow> binding \<Rightarrow> binding_secret
   \<Rightarrow> (memory_bindings, 'f, memory_repo, 'l, 'u) fed_world \<Rightarrow> bool" where
  "holds_secret sv b secret w \<longleftrightarrow> (\<exists>rec. mv_get (BindingIdentity b) (vw_repo (fw_vault w)) = Inr rec
     \<and> unlock (fs_vault sv) rec = Inr (js_marshal (fs_codec sv) secret))"

lemma storeBindingSecret_holds:
  assumes sv: "mem_fed parse sv" "vault_sound (fs_vault sv)"
    and s: "storeBindingSecret sv now b secret w = (None, w')"
  shows "holds_secret sv b secret w'" and "fw_bindings w' = fw_bindings w"
    and "id_validate (BindingIdentity b) = None"
    and "i \<noteq> BindingIdentity b \<Longrightarrow> mv_get i (vw_repo (fw_vault w')) = mv_get i (vw_repo (fw_vault w))"
proof -
  obtain vw meta where e: "Enroll (fs_vault sv) now (BindingIdentity b) (js_marshal (fs_codec sv) secret) meta
      (fw_vault w) = (None, vw)" and w': "w' = w\<lparr>fw_vault := vw\<rparr>"
    using s by (auto simp: storeBindingSecret_def split: prod.split_asm)
  from Enroll_None [OF e] sv obtain rec where valid: "id_validate (BindingIdentity b) = None"
    and put: "rp_put memory_repo rec (vw_repo (fw_vault w)) = (Inr (), vw_repo vw)"
    and rec: "vr_identity rec = BindingIdentity b" "unlock (fs_vault sv) rec = Inr (js_marshal (fs_codec sv) secret)"
    by (auto simp: mem_fed_def vault_sound_def)
  have "vw_repo vw = snd (mv_put rec (vw_repo (fw_vault w)))" using put by (simp add: memory_repo_def)
  then have get: "mv_get i (vw_repo (fw_vault w')) =
      (if i = BindingIdentity b then Inr rec else mv_get i (vw_repo (fw_vault w)))" for i
    using mv_get_rules(1) [of i rec] rec(1) by (simp add: w')
  then show "holds_secret sv b secret w'" using rec(2) by (auto simp: holds_secret_def)
  show "fw_bindings w' = fw_bindings w" "id_validate (BindingIdentity b) = None" using w' valid by simp_all
  show "i \<noteq> BindingIdentity b \<Longrightarrow> mv_get i (vw_repo (fw_vault w')) = mv_get i (vw_repo (fw_vault w))" using get by simp
qed

text \<open>A stored secret reaches the callback.\<close>

lemma withAccessToken_opens:
  assumes sv: "mem_fed parse sv" "audit_accepts (fs_vault sv)" and h: "holds_secret sv b secret w"
    and valid: "id_validate (BindingIdentity b) = None"
    and codec: "js_unmarshal (fs_codec sv) (js_marshal (fs_codec sv) secret) = Some secret"
  shows "\<exists>vw. vw_repo vw = vw_repo (fw_vault w) \<and> withAccessToken sv now b fn w =
    (fst (fn (bx_access secret) (fw_up w, fw_buffers w)),
     w\<lparr>fw_vault := vw, fw_up := fst (snd (fn (bx_access secret) (fw_up w, fw_buffers w))),
       fw_buffers := snd (snd (fn (bx_access secret) (fw_up w, fw_buffers w)))\<rparr>)"
proof -
  obtain rec where rec: "mv_get (BindingIdentity b) (vw_repo (fw_vault w)) = Inr rec"
      "unlock (fs_vault sv) rec = Inr (js_marshal (fs_codec sv) secret)" using h by (auto simp: holds_secret_def)
  obtain vw where vw: "v_record (fs_vault sv) now (vault_event ''vault.use'' (BindingIdentity b) OutcomeOK) (fw_vault w) = (None, vw)"
    using accepted_record [OF sv(2)] by blast
  have "vw_repo (observe (fs_vault sv) ''use'' ''ok'' vw) = vw_repo (fw_vault w)" using v_record_frame [OF vw] by simp
  moreover have "rp_get (vs_repo (fs_vault sv)) = mv_get" using sv(1) by (simp add: mem_fed_def mem_get)
  ultimately show ?thesis
    using rec vw valid codec
    by (intro exI [of _ "observe (fs_vault sv) ''use'' ''ok'' vw"])
       (simp add: withAccessToken_def useBindingSecret_def Use_def split: prod.split)
qed

text \<open>A cascade the source confirms goes through.\<close>

lemma Cascade_confirmed:
  assumes sv: "mem_fed parse sv" "audit_accepts (fs_vault sv)" and ok: "fed_ok w"
    and row: "mb_get u g n (fw_bindings w) = Inr b" and ne: "u \<noteq> []" "g \<noteq> []" "n \<noteq> []"
    and src: "source_Get (fs_registry sv) g n = Some src" "sr_cascade src \<noteq> []"
    and sec: "read_secret sv now b w = (Inr secret, w1)" and tok: "preferredToken secret = (token, hint)" "token \<noteq> []"
    and post: "postRevocation sv src (sr_cascade src) (token_form token hint) w1 = (None, w2)"
  shows "\<exists>w'. CascadeRevoke sv now u g n w = (Inr \<lparr>rv_upstream = RevocationDone, rv_error = []\<rparr>, w')"
proof -
  have m: "fs_bindings sv = memory_binding_store" "vs_repo (fs_vault sv) = memory_repo" using sv by (simp_all add: mem_fed_def)
  have w: "bindings_ok (fw_bindings w)" "repo_ok (vw_repo (fw_vault w))" "rows_valid memory_binding_store (stores w)"
    using ok by (simp_all add: fed_ok_def)
  have "stores w2 = stores w" using reads_stores(2) [OF sec] reads_stores(3) [OF post] by simp
  then have w2: "repo_ok (vw_repo (fw_vault w2))" using w(2) by (simp add: stores_split)
  have v: "id_validate (BindingIdentity b) = None" using w(3) row by (auto simp: rows_valid_def stores_parts mem_get)
  obtain w' where "cut_binding sv now b u g n w2 = (None, w')"
    using memfed.cut_done [OF m sv(2) w2 mb_get_key(1) [OF w(1) row] v] by blast
  then show ?thesis using row ne src sec tok post m by (simp add: CascadeRevoke_def mem_get)
qed

lemma read_secret_opens:
  assumes sv: "mem_fed parse sv" "audit_accepts (fs_vault sv)" and h: "holds_secret sv b secret w"
    and valid: "id_validate (BindingIdentity b) = None"
    and codec: "js_unmarshal (fs_codec sv) (js_marshal (fs_codec sv) secret) = Some secret"
  shows "\<exists>w'. read_secret sv now b w = (Inr secret, w')"
proof -
  obtain rec where rec: "mv_get (BindingIdentity b) (vw_repo (fw_vault w)) = Inr rec"
      "unlock (fs_vault sv) rec = Inr (js_marshal (fs_codec sv) secret)" using h by (auto simp: holds_secret_def)
  obtain vw where "v_record (fs_vault sv) now (vault_event ''vault.use'' (BindingIdentity b) OutcomeOK) (fw_vault w) = (None, vw)"
    using accepted_record [OF sv(2)] by blast
  moreover have "rp_get (vs_repo (fs_vault sv)) = mv_get" using sv(1) by (simp add: mem_fed_def mem_get)
  ultimately show ?thesis
    using rec valid codec by (simp add: read_secret_def useBindingSecret_def Use_def split: prod.split)
qed

section \<open>Claims\<close>

text \<open>The row a flow expects: the version it saw, or none.\<close>

definition flow_current :: "bind_flow \<Rightarrow> string \<Rightarrow> memory_bindings \<Rightarrow> bool" where
  "flow_current flow u s =
     (if bf_bound flow
      then (\<exists>b0. mb_get u (bf_game flow) (bf_source flow) s = Inr b0 \<and> bd_version b0 = bf_version flow)
      else mb_get u (bf_game flow) (bf_source flow) s = Inl ErrNotBound)"

lemma mb_get_isl: "isl (mb_get u g n s) \<longleftrightarrow> mb_get u g n s = Inl ErrNotBound"
  by (auto simp: mb_get_def split: option.split)

lemma claim_row_cases:
  assumes sv: "mem_fed parse sv" and ok: "bindings_ok s" and clean: "key_clean (binding_key b)"
    and k: "bd_game b = bf_game flow" "bd_source b = bf_source flow"
  obtains (won) s' where "claim_row sv flow b s = (Inr True, s')" "flow_current flow (bd_user b) s"
      "\<forall>u g n. mb_get u g n s' = (if BKey u g n = binding_key b then Inr b else mb_get u g n s)"
    | (lost) "claim_row sv flow b s = (Inr False, s)" "\<not> flow_current flow (bd_user b) s"
proof -
  have m: "fs_bindings sv = memory_binding_store" using sv by (simp add: mem_fed_def)
  show thesis
  proof (cases "bf_bound flow")
    case True
    obtain w s' where p: "mb_put_if b (bf_version flow) s = (Inr w, s')" using mb_put_if_total by blast
    note r = mb_put_if_row [OF ok clean p]
    have c: "claim_row sv flow b s = (Inr w, s')" using p m True by (simp add: claim_row_def mb_ops)
    have f: "flow_current flow (bd_user b) s \<longleftrightarrow> w" using r True k by (simp add: flow_current_def)
    have "\<not> w \<Longrightarrow> s' = s" using p by (auto simp: mb_put_if_def Let_def split: option.split_asm if_split_asm)
    then show thesis
      using won [of s'] lost c f conjunct2 [OF conjunct2 [OF r]] by (cases w) (simp_all only: simp_thms if_True if_False)
  next
    case False
    obtain w s' where p: "mb_create b s = (Inr w, s')" using mb_create_total by blast
    note r = mb_create_row [OF ok clean p]
    have c: "claim_row sv flow b s = (Inr w, s')" using p m False by (simp add: claim_row_def mb_ops)
    have f: "flow_current flow (bd_user b) s \<longleftrightarrow> w" using r False k by (simp add: flow_current_def mb_get_isl)
    have "\<not> w \<Longrightarrow> s' = s" using p by (auto simp: mb_create_def Let_def split: if_split_asm)
    then show thesis
      using won [of s'] lost c f conjunct2 [OF conjunct2 [OF r]] by (cases w) (simp_all only: simp_thms if_True if_False)
  qed
qed

lemma bind_claim_cases:
  assumes sv: "mem_fed parse sv" "vault_sound (fs_vault sv)" and ok: "bindings_ok (fw_bindings w)"
    and clean: "key_clean (BKey u (bf_game flow) (bf_source flow))"
    and bc: "bind_claim sv now u flow token w = (res, w')"
  shows "(\<forall>b. res = Inr b \<longrightarrow> flow_current flow u (fw_bindings w)
      \<and> binding_key b = BKey u (bf_game flow) (bf_source flow)
      \<and> bd_type b = ot_type token \<and> bd_expiry b = ot_expiry token \<and> bd_refresh b = (ot_refresh token \<noteq> [])
      \<and> mb_get u (bf_game flow) (bf_source flow) (fw_bindings w') = Inr b
      \<and> id_validate (BindingIdentity b) = None
      \<and> holds_secret sv b \<lparr>bx_access = ot_access token, bx_refresh = ot_refresh token\<rparr> w')
    \<and> (\<not> flow_current flow u (fw_bindings w) \<longrightarrow> isl res \<and> stores w' = stores w)"
proof (cases "newBindingGeneration (vw_tape (fw_vault w))")
  case (Pair g t)
  show ?thesis
  proof (cases g)
    case (Inl e)
    then show ?thesis using bc Pair by (auto simp: bind_claim_def)
  next
    case (Inr v)
    define b where "b = \<lparr>bd_user = u, bd_game = bf_game flow, bd_source = bf_source flow, bd_type = ot_type token,
      bd_expiry = ot_expiry token, bd_refresh = (ot_refresh token \<noteq> []), bd_version = v\<rparr>"
    have k: "key_clean (binding_key b)" "bd_game b = bf_game flow" "bd_source b = bf_source flow" "bd_user b = u"
      "binding_key b = BKey u (bf_game flow) (bf_source flow)"
      using clean by (simp_all add: b_def binding_key_def)
    show ?thesis
    proof (cases rule: claim_row_cases [OF sv(1) ok k(1,2,3), case_names won lost])
      case (won s')
      obtain err w1 where 1: "storeBindingSecret sv now b \<lparr>bx_access = ot_access token, bx_refresh = ot_refresh token\<rparr>
          ((set_tape t w)\<lparr>fw_bindings := s'\<rparr>) = (err, w1)" by (meson surj_pair)
      show ?thesis
      proof (cases err)
        case None
        note h = storeBindingSecret_holds [OF sv 1 [unfolded None]]
        have "res = Inr b" "w' = w1"
          using bc Pair Inr won(1) 1 None by (auto simp: bind_claim_def Let_def b_def [symmetric] set_tape_def)
        then show ?thesis using won(2,3) h k by (auto simp: b_def)
      next
        case (Some e)
        then have "isl res"
          using bc Pair Inr won(1) 1
          by (auto simp: bind_claim_def Let_def b_def [symmetric] set_tape_def split: prod.split_asm option.split_asm)
        then show ?thesis using won(2) k(4) by auto
      qed
    next
      case lost
      then have "res = Inl ErrBindSuperseded" "w' = (set_tape t w)\<lparr>fw_bindings := fw_bindings w\<rparr>"
        using bc Pair Inr by (auto simp: bind_claim_def Let_def b_def [symmetric] set_tape_def)
      then show ?thesis using lost k by (simp add: stores_def set_tape_def)
    qed
  qed
qed

lemma bind_exchange_mem:
  assumes "fs_flows sv = memory_flow_store" and "bind_exchange sv now u state code w = (Inr token, flow, w')"
  shows "fmlookup (fw_flows w) state = Some flow" "bf_user flow = u" "now < bf_expires flow"
    and "\<exists>src up. source_Get (fs_registry sv) (bf_game flow) (bf_source flow) = Some src \<and> sr_status src \<noteq> StatusRetired
      \<and> up_exchange (fs_up sv) (oauthConfig sv src) code (bf_verifier flow) (fw_up w) = (Inr token, up)"
  using assms
  by (auto simp: bind_exchange_def Let_def memory_flow_store_def mf_consume_def
      split: prod.split_asm sum.split_asm if_split_asm option.split_asm)

lemma call_bound_opens:
  assumes sv: "mem_fed parse sv" "audit_accepts (fs_vault sv)" and h: "holds_secret sv b secret w"
    and valid: "id_validate (BindingIdentity b) = None"
    and codec: "js_unmarshal (fs_codec sv) (js_marshal (fs_codec sv) secret) = Some secret"
    and row: "mb_get u g (sr_name src) (fw_bindings w) = Inr b"
    and hot: "\<not> fst (cooling now (bindingKey u g (sr_name src)) (fw_cooldown w))" and fresh: "\<not> needsRefresh now b"
    and fine: "\<And>e. fst (fn (bx_access secret) (fw_up w, fw_buffers w)) = Inl e \<Longrightarrow> \<not> isUnauthorized e"
  shows "fst (call_bound sv now src u g fn w) = fst (fn (bx_access secret) (fw_up w, fw_buffers w))"
proof -
  obtain c where c: "cooling now (bindingKey u g (sr_name src)) (fw_cooldown w) = (False, c)"
    using hot by (cases "cooling now (bindingKey u g (sr_name src)) (fw_cooldown w)") auto
  let ?w = "w\<lparr>fw_cooldown := c\<rparr>"
  have h': "holds_secret sv b secret ?w" using h by (simp add: holds_secret_def)
  obtain w1 where a: "withAccessToken sv now b fn ?w = (fst (fn (bx_access secret) (fw_up w, fw_buffers w)), w1)"
    using withAccessToken_opens [OF sv h' valid codec, of now fn] by auto
  have "callWithRefresh sv now src b fn ?w = (fst (fn (bx_access secret) (fw_up w, fw_buffers w)), w1)"
    using a fresh fine by (cases "fst (fn (bx_access secret) (fw_up w, fw_buffers w))") (auto simp: callWithRefresh_def)
  then show ?thesis using row c sv(1) by (simp add: call_bound_def mem_fed_def mem_get Let_def)
qed

lemma complete_bind_ok:
  assumes sv: "mem_fed parse sv" "vault_sound (fs_vault sv)" "fs_flows sv = memory_flow_store"
    and ok: "bindings_ok (fw_bindings w)" and u: "user_ok u" and cb: "CompleteBind sv now u state code w = (Inr b, flow, w')"
  obtains token src up where "fmlookup (fw_flows w) state = Some flow" "bf_user flow = u" "now < bf_expires flow"
    "flow_current flow u (fw_bindings w)"
    "source_Get (fs_registry sv) (bf_game flow) (bf_source flow) = Some src" "sr_status src \<noteq> StatusRetired"
    "up_exchange (fs_up sv) (oauthConfig sv src) code (bf_verifier flow) (fw_up w) = (Inr token, up)"
    "binding_key b = BKey u (bf_game flow) (bf_source flow)"
    "bd_type b = ot_type token" "bd_expiry b = ot_expiry token" "bd_refresh b = (ot_refresh token \<noteq> [])"
    "mb_get u (bf_game flow) (bf_source flow) (fw_bindings w') = Inr b" "id_validate (BindingIdentity b) = None"
    "holds_secret sv b \<lparr>bx_access = ot_access token, bx_refresh = ot_refresh token\<rparr> w'"
proof -
  obtain token f w1 where 1: "bind_exchange sv now u state code w = (Inr token, f, w1)"
    and 2: "bind_claim sv now u f token w1 = (Inr b, w')" and f: "f = flow"
    using cb by (auto simp: CompleteBind_def split: prod.split_asm sum.split_asm)
  note ex = bind_exchange_mem [OF sv(3) 1]
  obtain src up where src: "source_Get (fs_registry sv) (bf_game f) (bf_source f) = Some src" "sr_status src \<noteq> StatusRetired"
    "up_exchange (fs_up sv) (oauthConfig sv src) code (bf_verifier f) (fw_up w) = (Inr token, up)" using ex(4) by blast
  have rows: "fw_bindings w1 = fw_bindings w" using bind_exchange_stores [OF 1] by (simp add: stores_split)
  have "key_clean (BKey u (bf_game f) (bf_source f))"
    using registered_clean(1) [of parse "fs_registry sv" "bf_game f" "bf_source f" u] sv(1) src(1) u
    by (simp add: mem_fed_def)
  from conjunct1 [OF bind_claim_cases [OF sv(1,2) _ this 2]] ok rows
  have c: "flow_current f u (fw_bindings w)" "binding_key b = BKey u (bf_game f) (bf_source f)"
      "bd_type b = ot_type token" "bd_expiry b = ot_expiry token" "bd_refresh b = (ot_refresh token \<noteq> [])"
      "mb_get u (bf_game f) (bf_source f) (fw_bindings w') = Inr b" "id_validate (BindingIdentity b) = None"
      "holds_secret sv b \<lparr>bx_access = ot_access token, bx_refresh = ot_refresh token\<rparr> w'"
    by auto
  show thesis by (rule that [OF ex(1) [unfolded f] ex(2) [unfolded f] ex(3) [unfolded f] c(1) [unfolded f]
        src(1) [unfolded f] src(2) src(3) [unfolded f] c(2) [unfolded f] c(3,4,5) c(6) [unfolded f] c(7,8)])
qed

lemma complete_bind_superseded:
  assumes sv: "mem_fed parse sv" "vault_sound (fs_vault sv)" "fs_flows sv = memory_flow_store"
    and ok: "bindings_ok (fw_bindings w)" and u: "user_ok u" and cb: "CompleteBind sv now u state code w = (res, flow, w')"
    and f: "fmlookup (fw_flows w) state = Some flow0" and moved: "\<not> flow_current flow0 u (fw_bindings w)"
  shows "isl res" and "stores w' = stores w"
proof -
  obtain r fl w1 where 1: "bind_exchange sv now u state code w = (r, fl, w1)" by (metis surj_pair)
  note same = bind_exchange_stores [OF 1]
  have "isl res \<and> stores w' = stores w"
  proof (cases r)
    case (Inl e)
    then show ?thesis using cb 1 same by (auto simp: CompleteBind_def)
  next
    case (Inr token)
    note ex = bind_exchange_mem [OF sv(3) 1 [unfolded Inr]]
    have fl: "fl = flow0" using ex(1) f by simp
    have clean: "key_clean (BKey u (bf_game fl) (bf_source fl))"
      using registered_clean(1) [of parse "fs_registry sv" "bf_game fl" "bf_source fl" u] sv(1) ex(4) u
      by (auto simp: mem_fed_def)
    have rows: "bindings_ok (fw_bindings w1)" "\<not> flow_current fl u (fw_bindings w1)"
      using ok moved same fl by (simp_all add: stores_split)
    obtain res' w2 where 2: "bind_claim sv now u fl token w1 = (res', w2)" by (meson surj_pair)
    from conjunct2 [OF bind_claim_cases [OF sv(1,2) rows(1) clean 2]] rows(2) same 2 cb 1 Inr show ?thesis
      by (auto simp: CompleteBind_def)
  qed
  then show "isl res" "stores w' = stores w" by simp_all
qed

section \<open>A bind that succeeds\<close>

lemma read_random_long:
  "n \<le> length t \<Longrightarrow> read_random n t = (Inr (take n t), drop n t)"
  by (simp add: read_random_def rand_read_def)

text \<open>With the in-process key, an accepting log and enough randomness, enrolling succeeds.\<close>

lemma Enroll_local:
  assumes v: "vs_current v = local_key_wrapper kid kek" "vs_repo v = memory_repo" "audit_accepts v"
    and valid: "id_validate i = None" and t: "56 \<le> length (vw_tape w)"
  shows "\<exists>w'. Enroll v now i secret meta w = (None, w')"
proof -
  let ?t1 = "drop 32 (vw_tape w)"
  have r1: "read_random dekSize (vw_tape w) = (Inr (take 32 (vw_tape w)), ?t1)"
    using t by (simp add: read_random_long dekSize_def)
  have "read_random nonceSize ?t1 = (Inr (take 12 ?t1), drop 12 ?t1)" using t by (simp add: read_random_long nonceSize_def)
  then obtain wrapped where r2: "kw_wrap (vs_current v) (take 32 (vw_tape w)) aad ?t1 = (Inr (wrapped aad), drop 12 ?t1)" for aad
    using v(1) by (auto simp: local_key_wrapper_def local_seal_def)
  have "read_random 12 (drop 12 ?t1) = (Inr (take 12 (drop 12 ?t1)), drop 12 (drop 12 ?t1))"
    using t by (intro read_random_long) simp
  moreover have "aes_key_ok (take 32 (vw_tape w))" using t by (simp add: aes_key_ok_def)
  ultimately obtain nonce ct where r3: "sealSecret (take 32 (vw_tape w)) secret aad (drop 12 ?t1) =
      (Inr (nonce, ct aad), drop 12 (drop 12 ?t1))" for aad
    by (auto simp: sealSecret_def)
  obtain w1 where "v_record v now (vault_event ''vault.enroll'' i OutcomeOK) (w\<lparr>vw_tape := drop 12 (drop 12 ?t1)\<rparr>) = (None, w1)"
    using accepted_record [OF v(3)] by blast
  then show ?thesis
    using valid r1 r2 r3 v(2) by (simp add: Enroll_def Let_def memory_repo_def mv_put_def)
qed

definition demo_flow :: bind_flow where
  "demo_flow = \<lparr>bf_id = demo_state, bf_user = ''usr_a'', bf_game = ''g'', bf_source = ''y'', bf_verifier = ''v'',
     bf_state = demo_state, bf_return = [], bf_expires = 100, bf_bound = False, bf_version = 0\<rparr>"

definition demo_pending :: "(memory_bindings, memory_flows, memory_repo, memory_log, http_request list) fed_world" where
  "demo_pending = (demo_world (replicate 100 (CHR ''t'')))\<lparr>fw_flows := fmupd demo_state demo_flow fmempty\<rparr>"

lemma demo_pending_ok: "fed_ok demo_pending"
  by (rule fed_start_ok) (simp add: fed_start_def demo_pending_def demo_world_def)

lemma demo_vault_sound: "vault_sound (fs_vault demo_fed)"
proof -
  have "NewLocalKeyWrapper ''k1'' (replicate 32 (CHR ''k'')) = Inr (local_key_wrapper ''k1'' (replicate 32 (CHR ''k'')))"
    by (simp add: NewLocalKeyWrapper_def dekSize_def)
  from NewLocalKeyWrapper_sound(1,2) [OF this] show ?thesis
    by (simp add: vault_sound_def demo_fed_mem demo_vault_def)
qed

lemma demo_codec_law: "js_unmarshal demo_codec (js_marshal demo_codec secret) = Some secret"
proof -
  have "takeWhile (\<lambda>c. c = CHR ''1'') (replicate k (CHR ''1'') @ CHR '':'' # xs) = replicate k (CHR ''1'')" for k xs
    by (induction k) simp_all
  then show ?thesis by (simp add: demo_codec_def Let_def)
qed

lemma demo_source_y:
  obtains src where "source_Get demo_registry ''g'' ''y'' = Some src" "sr_status src \<noteq> StatusRetired"
proof -
  have "map_option (\<lambda>s. sr_status s = StatusRetired) (source_Get demo_registry ''g'' ''y'') = Some False" by code_simp
  with that show thesis by (cases "source_Get demo_registry ''g'' ''y''") auto
qed

lemma demo_complete:
  obtains b w' where "CompleteBind demo_fed 2 ''usr_a'' demo_state ''c'' demo_pending = (Inr b, demo_flow, w')"
    and "bd_expiry b = 0" and "fw_cooldown w' = fw_cooldown demo_pending" and "fw_buffers w' = fw_buffers demo_pending"
proof -
  obtain src where src: "source_Get demo_registry ''g'' ''y'' = Some src" "sr_status src \<noteq> StatusRetired"
    by (rule demo_source_y)
  let ?tok = "\<lparr>ot_access = ''at'', ot_refresh = ''rt'', ot_type = ''Bearer'', ot_expiry = 0\<rparr>"
  let ?w = "demo_pending\<lparr>fw_flows := fmdrop demo_state (fw_flows demo_pending)\<rparr>"
  have 1: "bind_exchange demo_fed 2 ''usr_a'' demo_state ''c'' demo_pending = (Inr ?tok, demo_flow, ?w)"
    using src by (simp add: bind_exchange_def demo_fed_mem memory_flow_store_def mf_consume_def demo_pending_def
        demo_flow_def demo_up_def demo_world_def)
  obtain v t where g: "newBindingGeneration (vw_tape (fw_vault demo_pending)) = (Inr v, t)" and t: "t = replicate 92 (CHR ''t'')"
    by (simp add: newBindingGeneration_def rand_read_def demo_pending_def demo_world_def)
  define b where "b = \<lparr>bd_user = ''usr_a'', bd_game = ''g'', bd_source = ''y'', bd_type = ''Bearer'', bd_expiry = 0,
    bd_refresh = True, bd_version = v\<rparr>"
  have m: "fs_bindings demo_fed = memory_binding_store" using demo_fed_mem(1) by (simp add: mem_fed_def)
  obtain s' where c: "claim_row demo_fed demo_flow b NewMemoryBindingStore = (Inr True, s')"
    by (simp add: claim_row_def demo_flow_def m mb_ops mb_create_def NewMemoryBindingStore_def Let_def)
  have valid: "id_validate (BindingIdentity b) = None"
    by (simp add: b_def BindingIdentity_def id_validate_def maxIdentityFieldLen_def)
  let ?w1 = "(set_tape t ?w)\<lparr>fw_bindings := s'\<rparr>"
  have len: "56 \<le> length (vw_tape (fw_vault ?w1))" by (simp add: set_tape_def t)
  have cur: "vs_current (fs_vault demo_fed) = local_key_wrapper ''k1'' (replicate 32 (CHR ''k''))"
    "vs_repo (fs_vault demo_fed) = memory_repo" by (simp_all add: demo_fed_mem(2) demo_vault_def)
  obtain vw where vw: "Enroll (fs_vault demo_fed) 2 (BindingIdentity b)
      (js_marshal (fs_codec demo_fed) \<lparr>bx_access = ''at'', bx_refresh = ''rt''\<rparr>)
      (fmap_of_list [(''game'', bd_game b), (''source'', bd_source b)]) (fw_vault ?w1) = (None, vw)"
    using Enroll_local [OF cur demo_accepts valid len] by blast
  have "storeBindingSecret demo_fed 2 b \<lparr>bx_access = ''at'', bx_refresh = ''rt''\<rparr> ?w1 = (None, ?w1\<lparr>fw_vault := vw\<rparr>)"
    unfolding storeBindingSecret_def vw by simp
  then obtain w' where "bind_claim demo_fed 2 ''usr_a'' demo_flow ?tok ?w = (Inr b, ?w1\<lparr>fw_vault := w'\<rparr>)"
    using g c by (auto simp: bind_claim_def Let_def b_def demo_flow_def set_tape_def demo_pending_def demo_world_def)
  with that 1 show thesis by (auto simp: CompleteBind_def b_def set_tape_def)
qed

section \<open>Properties\<close>

text \<open>C7. Completing a bind. It succeeds only with a pending flow of the same account, before it
  expires, for a source still in service, and only if the binding is as it was when the flow began:
  the version then recorded, or none. The row and the secret stored are then those of the token
  the source issued for that flow's verifier. A flow overtaken by a removal or another bind is
  refused, and neither a binding nor a credential changes.\<close>

theorem complete_bind_exact:
  assumes sv: "mem_fed parse sv" "vault_sound (fs_vault sv)" "fs_flows sv = memory_flow_store"
    and ok: "fed_ok w" and u: "user_ok u" and cb: "CompleteBind sv now u state code w = (res, flow, w')"
  shows "(\<forall>b. res = Inr b \<longrightarrow> fmlookup (fw_flows w) state = Some flow \<and> bf_user flow = u \<and> now < bf_expires flow
      \<and> flow_current flow u (fw_bindings w)
      \<and> (\<exists>src token up. source_Get (fs_registry sv) (bf_game flow) (bf_source flow) = Some src
          \<and> sr_status src \<noteq> StatusRetired
          \<and> up_exchange (fs_up sv) (oauthConfig sv src) code (bf_verifier flow) (fw_up w) = (Inr token, up)
          \<and> mb_get u (bf_game flow) (bf_source flow) (fw_bindings w') = Inr b
          \<and> bd_type b = ot_type token \<and> bd_expiry b = ot_expiry token \<and> bd_refresh b = (ot_refresh token \<noteq> [])
          \<and> holds_secret sv b \<lparr>bx_access = ot_access token, bx_refresh = ot_refresh token\<rparr> w'))
    \<and> (\<forall>pending. fmlookup (fw_flows w) state = Some pending \<and> \<not> flow_current pending u (fw_bindings w) \<longrightarrow>
        isl res \<and> fw_bindings w' = fw_bindings w \<and> vw_repo (fw_vault w') = vw_repo (fw_vault w))"
proof (intro conjI allI impI)
  have rows: "bindings_ok (fw_bindings w)" using ok by (simp add: fed_ok_def)
  {
    fix b assume "res = Inr b"
    note cb' = cb [unfolded this]
    show "fmlookup (fw_flows w) state = Some flow" "bf_user flow = u" "now < bf_expires flow"
      "flow_current flow u (fw_bindings w)"
      "\<exists>src token up. source_Get (fs_registry sv) (bf_game flow) (bf_source flow) = Some src
          \<and> sr_status src \<noteq> StatusRetired
          \<and> up_exchange (fs_up sv) (oauthConfig sv src) code (bf_verifier flow) (fw_up w) = (Inr token, up)
          \<and> mb_get u (bf_game flow) (bf_source flow) (fw_bindings w') = Inr b
          \<and> bd_type b = ot_type token \<and> bd_expiry b = ot_expiry token \<and> bd_refresh b = (ot_refresh token \<noteq> [])
          \<and> holds_secret sv b \<lparr>bx_access = ot_access token, bx_refresh = ot_refresh token\<rparr> w'"
      by (rule complete_bind_ok [OF sv rows u cb']; blast)+
  }
  fix pending assume p: "fmlookup (fw_flows w) state = Some pending \<and> \<not> flow_current pending u (fw_bindings w)"
  from complete_bind_superseded [OF sv rows u cb conjunct1 [OF p] conjunct2 [OF p]]
  show "isl res" "fw_bindings w' = fw_bindings w" "vw_repo (fw_vault w') = vw_repo (fw_vault w)"
    by (simp_all add: stores_split)
qed

theorem complete_bind_exact_witness:
  "\<exists>b w'. CompleteBind demo_fed 2 ''usr_a'' demo_state ''c'' demo_pending = (Inr b, demo_flow, w')
     \<and> mb_get ''usr_a'' ''g'' ''y'' (fw_bindings w') = Inr b
     \<and> holds_secret demo_fed b \<lparr>bx_access = ''at'', bx_refresh = ''rt''\<rparr> w'"
proof -
  obtain b w' where c: "CompleteBind demo_fed 2 ''usr_a'' demo_state ''c'' demo_pending = (Inr b, demo_flow, w')"
    by (rule demo_complete)
  have u: "user_ok ''usr_a''" by (simp add: user_ok_def)
  from complete_bind_exact [OF demo_fed_mem(1) demo_vault_sound demo_fed_mem(6) demo_pending_ok u c] c show ?thesis
    by (auto simp: demo_flow_def demo_fed_mem(5) demo_up_def)
qed

text \<open>C22. The token a read uses. After a successful bind, a call on that binding hands the source
  exactly the access token it issued, and answers what the source's answer to it gives. This is
  before the token nears expiry, for a binding that is not cooling down, an audit log that accepts
  events, a token pair that survives the JSON codec it is stored with (as \<^verbatim>\<open>encoding/json\<close> keeps
  valid UTF-8), and an answer of the source that is not a refusal of the token.\<close>

theorem bound_token_reaches_source:
  assumes sv: "mem_fed parse sv" "vault_sound (fs_vault sv)" "fs_flows sv = memory_flow_store"
    "audit_accepts (fs_vault sv)"
    and ok: "fed_ok w" and u: "user_ok u" and cb: "CompleteBind sv now u state code w = (Inr b, flow, w')"
    and src: "source_Get (fs_registry sv) (bf_game flow) (bf_source flow) = Some src"
    and codec: "\<And>token up. up_exchange (fs_up sv) (oauthConfig sv src) code (bf_verifier flow) (fw_up w) = (Inr token, up) \<Longrightarrow>
      js_unmarshal (fs_codec sv) (js_marshal (fs_codec sv) \<lparr>bx_access = ot_access token, bx_refresh = ot_refresh token\<rparr>)
        = Some \<lparr>bx_access = ot_access token, bx_refresh = ot_refresh token\<rparr>"
    and hot: "\<not> fst (cooling now' (bindingKey u (bf_game flow) (bf_source flow)) (fw_cooldown w'))"
    and fresh: "\<not> needsRefresh now' b"
    and fine: "\<And>token up e. up_exchange (fs_up sv) (oauthConfig sv src) code (bf_verifier flow) (fw_up w) = (Inr token, up) \<Longrightarrow>
      fst (fn (ot_access token) (fw_up w', fw_buffers w')) = Inl e \<Longrightarrow> \<not> isUnauthorized e"
  shows "\<exists>token up. up_exchange (fs_up sv) (oauthConfig sv src) code (bf_verifier flow) (fw_up w) = (Inr token, up)
    \<and> fst (call_bound sv now' src u (bf_game flow) fn w') = fst (fn (ot_access token) (fw_up w', fw_buffers w'))"
proof -
  have rows: "bindings_ok (fw_bindings w)" using ok by (simp add: fed_ok_def)
  obtain token up where c: "up_exchange (fs_up sv) (oauthConfig sv src) code (bf_verifier flow) (fw_up w) = (Inr token, up)"
    "mb_get u (bf_game flow) (bf_source flow) (fw_bindings w') = Inr b" "id_validate (BindingIdentity b) = None"
    and h: "holds_secret sv b \<lparr>bx_access = ot_access token, bx_refresh = ot_refresh token\<rparr> w'"
    by (rule complete_bind_ok [OF sv(1,2,3) rows u cb]) (use src in auto)
  have name: "sr_name src = bf_source flow" using source_Get_ok(2) [OF _ src] sv(1) by (auto simp: mem_fed_def)
  have "fst (call_bound sv now' src u (bf_game flow) fn w') = fst (fn (ot_access token) (fw_up w', fw_buffers w'))"
    using call_bound_opens [OF sv(1,4) h c(3) codec [OF c(1)], of u "bf_game flow" src now' fn] c(2) hot fresh fine [OF c(1)]
    by (simp add: name)
  with c(1) show ?thesis by blast
qed

theorem bound_token_reaches_source_witness:
  "\<exists>b w' src. CompleteBind demo_fed 2 ''usr_a'' demo_state ''c'' demo_pending = (Inr b, demo_flow, w')
     \<and> fst (call_bound demo_fed 3 src ''usr_a'' ''g'' (\<lambda>token d. (Inr token, d)) w') = Inr ''at''"
proof -
  obtain b w' where c: "CompleteBind demo_fed 2 ''usr_a'' demo_state ''c'' demo_pending = (Inr b, demo_flow, w')"
    and b: "bd_expiry b = 0" and w': "fw_cooldown w' = fw_cooldown demo_pending" by (rule demo_complete)
  obtain src where src: "source_Get demo_registry ''g'' ''y'' = Some src" by (rule demo_source_y)
  have u: "user_ok ''usr_a''" by (simp add: user_ok_def)
  have codec: "js_unmarshal (fs_codec demo_fed) (js_marshal (fs_codec demo_fed) secret) = Some secret" for secret
    by (simp add: demo_fed_mem(4) demo_codec_law)
  have src': "source_Get (fs_registry demo_fed) (bf_game demo_flow) (bf_source demo_flow) = Some src"
    using src by (simp add: demo_fed_mem(3) demo_flow_def)
  have hot: "\<not> fst (cooling 3 (bindingKey ''usr_a'' (bf_game demo_flow) (bf_source demo_flow)) (fw_cooldown w'))"
    by (simp add: w' demo_pending_def demo_world_def cooling_def newBindingCooldown_def)
  have fresh: "\<not> needsRefresh 3 b" by (simp add: needsRefresh_def b)
  from bound_token_reaches_source [OF demo_fed_mem(1) demo_vault_sound demo_fed_mem(6) demo_accepts
      demo_pending_ok u c src' codec hot fresh, of "\<lambda>token d. (Inr token, d)"]
  have "fst (call_bound demo_fed 3 src ''usr_a'' ''g'' (\<lambda>token d. (Inr token, d)) w') = Inr ''at''"
    by (auto simp: demo_flow_def demo_fed_mem(5) demo_up_def)
  with c show ?thesis by blast
qed

text \<open>C15. Two replicas refreshing one binding. The claim at the end of a refresh wins exactly if the
  stored version is still the one the refresh started from. A loser leaves every row and every
  credential as it found it and answers the current row; a winner's row is the updated one, and the
  vault then holds the rotated pair and nothing else changed.\<close>

theorem refresh_commit_exact:
  assumes sv: "mem_fed parse sv" "vault_sound (fs_vault sv)" and ok: "fed_ok w"
    and key: "binding_key updated = binding_key fresh" and clean: "key_clean (binding_key fresh)"
    and rc: "refresh_commit sv now fresh updated rotated w = (res, w')"
  defines "current \<equiv> mb_get (bd_user fresh) (bd_game fresh) (bd_source fresh) (fw_bindings w)"
  shows "(if \<exists>b. current = Inr b \<and> bd_version b = bd_version fresh
     then (\<forall>b. res = Inr b \<longrightarrow> b = updated \<and> holds_secret sv updated rotated w'
            \<and> (\<forall>i. i \<noteq> BindingIdentity updated \<longrightarrow>
                 mv_get i (vw_repo (fw_vault w')) = mv_get i (vw_repo (fw_vault w))))
        \<and> (\<forall>u g n. mb_get u g n (fw_bindings w') =
             (if BKey u g n = binding_key fresh then Inr updated else mb_get u g n (fw_bindings w)))
     else res = current \<and> w' = w)"
proof -
  have m: "fs_bindings sv = memory_binding_store" using sv(1) by (simp add: mem_fed_def)
  have b: "bindings_ok (fw_bindings w)" using ok by (simp add: fed_ok_def)
  have k: "bd_user updated = bd_user fresh" "bd_game updated = bd_game fresh" "bd_source updated = bd_source fresh"
    using key by (simp_all add: binding_key_def)
  obtain won s' where p: "mb_put_if updated (bd_version fresh) (fw_bindings w) = (Inr won, s')"
    using mb_put_if_total by blast
  note r = mb_put_if_row [OF b clean [folded key] p]
  have won: "won \<longleftrightarrow> (\<exists>b. current = Inr b \<and> bd_version b = bd_version fresh)"
    using r k by (simp add: current_def)
  show ?thesis
  proof (cases won)
    case False
    then have "s' = fw_bindings w" using p by (auto simp: mb_put_if_def Let_def split: option.split_asm if_split_asm)
    then have "res = current \<and> w' = w" using rc p False m by (auto simp: refresh_commit_def current_def mb_ops)
    then show ?thesis using False won by auto
  next
    case True
    have rows: "mb_get u g n s' = (if BKey u g n = binding_key fresh then Inr updated else mb_get u g n (fw_bindings w))" for u g n
      using r True key by simp
    obtain err w1 where 1: "storeBindingSecret sv now updated rotated (w\<lparr>fw_bindings := s'\<rparr>) = (err, w1)"
      by (meson surj_pair)
    have res: "res = (case err of None \<Rightarrow> Inr updated | Some e \<Rightarrow> Inl e)" "w' = w1"
      using rc p True 1 m by (auto simp: refresh_commit_def mb_ops split: option.split_asm)
    have "fw_bindings w1 = s'" using 1 by (auto simp: storeBindingSecret_def split: prod.split_asm)
    moreover have "err = None \<Longrightarrow> holds_secret sv updated rotated w1
        \<and> (\<forall>i. i \<noteq> BindingIdentity updated \<longrightarrow> mv_get i (vw_repo (fw_vault w1)) = mv_get i (vw_repo (fw_vault w)))"
      using storeBindingSecret_holds(1,4) [OF sv, of now updated rotated "w\<lparr>fw_bindings := s'\<rparr>" w1] 1 by simp
    ultimately show ?thesis using True won res rows by (auto split: option.split_asm)
  qed
qed

theorem refresh_commit_exact_witness:
  "refresh_commit demo_fed 5 (demo_binding\<lparr>bd_version := 6\<rparr>) (demo_binding\<lparr>bd_version := 7\<rparr>)
     \<lparr>bx_access = ''a'', bx_refresh = ''r''\<rparr> demo_bound = (Inr demo_binding, demo_bound)
   \<and> mb_get (bd_user demo_binding) (bd_game demo_binding) (bd_source demo_binding)
       (fw_bindings (snd (refresh_commit demo_fed 5 demo_binding (demo_binding\<lparr>bd_version := 7\<rparr>)
          \<lparr>bx_access = ''a'', bx_refresh = ''r''\<rparr> demo_bound))) = Inr (demo_binding\<lparr>bd_version := 7\<rparr>)"
proof
  let ?stale = "demo_binding\<lparr>bd_version := 6\<rparr>" and ?new = "demo_binding\<lparr>bd_version := 7\<rparr>"
  let ?commit = "\<lambda>fresh. refresh_commit demo_fed 5 fresh ?new \<lparr>bx_access = ''a'', bx_refresh = ''r''\<rparr> demo_bound"
  have row: "mb_get (bd_user demo_binding) (bd_game demo_binding) (bd_source demo_binding) (fw_bindings demo_bound) = Inr demo_binding"
    using demo_bound_row by (simp add: demo_binding_def)
  have clean: "key_clean (binding_key demo_binding)" by code_simp
  have key: "binding_key ?stale = binding_key demo_binding" "binding_key ?new = binding_key demo_binding"
    by (simp_all add: binding_key_def)
  have "?commit ?stale = (fst (?commit ?stale), snd (?commit ?stale))" by simp
  from refresh_commit_exact [OF demo_fed_mem(1) demo_vault_sound demo_bound_ok _ _ this] row key clean
  show "?commit ?stale = (Inr demo_binding, demo_bound)" by (auto simp: prod_eq_iff demo_binding_def)
  have "?commit demo_binding = (fst (?commit demo_binding), snd (?commit demo_binding))" by simp
  from refresh_commit_exact [OF demo_fed_mem(1) demo_vault_sound demo_bound_ok _ _ this] row key clean
  show "mb_get (bd_user demo_binding) (bd_game demo_binding) (bd_source demo_binding)
       (fw_bindings (snd (?commit demo_binding))) = Inr ?new" by (simp add: binding_key_def)
qed

text \<open>C21. A cascade fails closed, with an audit log that accepts events. When \<^verbatim>\<open>CascadeRevoke\<close> reports an error nothing was removed: bindings
  and credentials are as before. When it succeeds the source was sent the binding's preferred token
  at its cascade endpoint and answered below 300, and the row and the credential are gone.\<close>

theorem cascade_fails_closed:
  assumes sv: "mem_fed parse sv" "audit_accepts (fs_vault sv)" and ok: "fed_ok w"
    and ca: "CascadeRevoke sv now u g n w = (res, w')"
  shows "case res of
      Inl e \<Rightarrow> fw_bindings w' = fw_bindings w \<and> vw_repo (fw_vault w') = vw_repo (fw_vault w)
    | Inr r \<Rightarrow> \<exists>b src secret token hint up resp up'. mb_get u g n (fw_bindings w) = Inr b
        \<and> source_Get (fs_registry sv) g n = Some src
        \<and> fst (read_secret sv now b w) = Inr secret \<and> preferredToken secret = (token, hint) \<and> token \<noteq> []
        \<and> up_do (fs_up sv) (revocation_request src (sr_cascade src) (token_form token hint)) up = (Inr resp, up')
        \<and> hr_status resp < 300
        \<and> mb_get u g n (fw_bindings w') = Inl ErrNotBound
        \<and> mv_get (BindingIdentity b) (vw_repo (fw_vault w')) = Inl ErrNotFound"
proof -
  have m: "fs_bindings sv = memory_binding_store" "vs_repo (fs_vault sv) = memory_repo" using sv by (simp_all add: mem_fed_def)
  have w: "bindings_ok (fw_bindings w)" "repo_ok (vw_repo (fw_vault w))" "rows_valid memory_binding_store (stores w)"
    using ok by (simp_all add: fed_ok_def)
  from memfed.Cascade_cases [OF m sv(2) w ca] show ?thesis
  proof
    assume "\<exists>e. res = Inl e \<and> stores w' = stores w"
    then show ?thesis by (auto simp: stores_split)
  next
    assume "\<exists>b src secret w1 w2. res = Inr \<lparr>rv_upstream = RevocationDone, rv_error = []\<rparr>
        \<and> source_Get (fs_registry sv) g n = Some src \<and> sr_cascade src \<noteq> []
        \<and> bs_get memory_binding_store u g n (fw_bindings w) = Inr b \<and> read_secret sv now b w = (Inr secret, w1)
        \<and> fst (preferredToken secret) \<noteq> []
        \<and> postRevocation sv src (sr_cascade src) (token_form (fst (preferredToken secret)) (snd (preferredToken secret))) w1
            = (None, w2)
        \<and> rp_get memory_repo (BindingIdentity b) (vw_repo (fw_vault w')) = Inl ErrNotFound
        \<and> bs_delete memory_binding_store u g n (fw_bindings w) = (Inr (), fw_bindings w')"
    then obtain b src secret w1 w2 where r: "res = Inr \<lparr>rv_upstream = RevocationDone, rv_error = []\<rparr>"
        "source_Get (fs_registry sv) g n = Some src"
        "mb_get u g n (fw_bindings w) = Inr b" "fst (read_secret sv now b w) = Inr secret"
        "fst (preferredToken secret) \<noteq> []" "mv_get (BindingIdentity b) (vw_repo (fw_vault w')) = Inl ErrNotFound"
      and d: "rp_get memory_repo (BindingIdentity b) (vw_repo (fw_vault w')) = Inl ErrNotFound
          \<and> bs_delete memory_binding_store u g n (fw_bindings w) = (Inr (), fw_bindings w')"
      and p: "postRevocation sv src (sr_cascade src) (token_form (fst (preferredToken secret)) (snd (preferredToken secret))) w1
            = (None, w2)" by (auto simp: mem_get)
    obtain resp up' where "up_do (fs_up sv) (revocation_request src (sr_cascade src)
        (token_form (fst (preferredToken secret)) (snd (preferredToken secret)))) (fw_up w1) = (Inr resp, up')"
      "hr_status resp < 300"
      using p by (auto simp: postRevocation_def split: option.split_asm prod.split_asm sum.split_asm if_split_asm)
    moreover have "mb_get u g n (fw_bindings w') = Inl ErrNotBound" using memfed.removed [OF w(1) d] by (simp add: mem_get)
    moreover have "preferredToken secret = (fst (preferredToken secret), snd (preferredToken secret))" by simp
    ultimately show ?thesis using r unfolding r(1) sum.case by blast
  qed
qed

theorem cascade_fails_closed_witness:
  "\<exists>b w r w'. CompleteBind demo_fed 2 ''usr_a'' demo_state ''c'' demo_pending = (Inr b, demo_flow, w)
     \<and> CascadeRevoke demo_fed 5 ''usr_a'' ''g'' ''y'' w = (Inr r, w')
     \<and> mb_get ''usr_a'' ''g'' ''y'' (fw_bindings w') = Inl ErrNotBound
     \<and> mv_get (BindingIdentity b) (vw_repo (fw_vault w')) = Inl ErrNotFound"
proof -
  obtain b w where c: "CompleteBind demo_fed 2 ''usr_a'' demo_state ''c'' demo_pending = (Inr b, demo_flow, w)"
    by (rule demo_complete)
  have u: "user_ok ''usr_a''" by (simp add: user_ok_def)
  have ok: "fed_ok w"
    using fed_run_ok [OF demo_fed_mem(1) demo_pending_ok, of "CallComplete 2 ''usr_a'' demo_state ''c''"] u c by simp
  have rows: "bindings_ok (fw_bindings demo_pending)" using demo_pending_ok by (simp add: fed_ok_def)
  obtain src where src: "source_Get (fs_registry demo_fed) ''g'' ''y'' = Some src"
    and row: "mb_get ''usr_a'' ''g'' ''y'' (fw_bindings w) = Inr b" and v: "id_validate (BindingIdentity b) = None"
    and h: "holds_secret demo_fed b \<lparr>bx_access = ''at'', bx_refresh = ''rt''\<rparr> w"
    by (rule complete_bind_ok [OF demo_fed_mem(1) demo_vault_sound demo_fed_mem(6) rows u c])
       (auto simp: demo_flow_def demo_fed_mem(5) demo_up_def)
  obtain w1 where sec: "read_secret demo_fed 5 b w = (Inr \<lparr>bx_access = ''at'', bx_refresh = ''rt''\<rparr>, w1)"
    using read_secret_opens [OF demo_fed_mem(1) demo_accepts h v] by (auto simp: demo_fed_mem(4) demo_codec_law)
  have "map_option (\<lambda>s. sr_cascade s = []) (source_Get demo_registry ''g'' ''y'') = Some False" by code_simp
  then have ca: "sr_cascade src \<noteq> []" using src by (auto simp: demo_fed_mem(3))
  have "fs_parse demo_fed ep \<noteq> None" for ep
    by (simp add: demo_fed_def NewFedService_def demo_fed_config_def demo_parse_def)
  then have "\<exists>w2. postRevocation demo_fed src (sr_cascade src) (token_form ''rt'' ''refresh_token'') w1 = (None, w2)"
    by (auto simp: postRevocation_def demo_fed_mem(5) demo_up_def split: option.split)
  then obtain r w' where ca: "CascadeRevoke demo_fed 5 ''usr_a'' ''g'' ''y'' w = (Inr r, w')"
    using Cascade_confirmed [OF demo_fed_mem(1) demo_accepts ok row _ _ _ src ca sec, of "''rt''" "''refresh_token''"]
    by (auto simp: preferredToken_def)
  from cascade_fails_closed [OF demo_fed_mem(1) demo_accepts ok ca] row have
    "mb_get ''usr_a'' ''g'' ''y'' (fw_bindings w') = Inl ErrNotBound" "mv_get (BindingIdentity b) (vw_repo (fw_vault w')) = Inl ErrNotFound"
    by auto
  with c ca show ?thesis by blast
qed

end
