(* ===== verification/Federation_Read.thy ===== *)
theory Federation_Read
  imports Federation_Bind
begin

text \<open>
  Reading through a data source: \<^verbatim>\<open>Fetch\<close> and \<^verbatim>\<open>Raw\<close> of \<^verbatim>\<open>internal/federation/service.go\<close> and the byte
  budget they share.
  Shown: however a read goes, through refusals, refreshes, retries and other sources, an error
  leaves the budget as it was, and a result holds exactly one reservation of its own account, large
  enough for its body; so the bytes in memory stay within the budget over every interleaving of
  reads and releases.
\<close>

section \<open>Attempts that give back what they reserve\<close>

text \<open>The sources keep the contract of \<^verbatim>\<open>net/http\<close>: a body is not longer than its declared length.\<close>

definition honest_lengths :: "'u upstream \<Rightarrow> bool" where
  "honest_lengths up \<longleftrightarrow> (\<forall>q u resp u'. up_do up q u = (Inr resp, u') \<longrightarrow> 0 < hr_length resp \<longrightarrow>
     int (length (hr_body resp)) \<le> hr_length resp)"

text \<open>A budget whose entries are positive, as all reachable ones are.\<close>

definition budget_wf :: "budget \<Rightarrow> bool" where
  "budget_wf b \<longleftrightarrow> 0 \<le> bu_held b \<and> (\<forall>k n. fmlookup (bu_perKey b) k = Some n \<longrightarrow> 0 < n)"

lemma release_acquired:
  assumes "budget_acquire k n b = (True, b')" and "0 < n" and "budget_wf b"
  shows "budget_release k n b' = b"
proof -
  have b': "b' = b\<lparr>bu_held := bu_held b + n, bu_perKey := fmupd k (key_held b k + n) (bu_perKey b)\<rparr>"
    using assms(1) by (auto simp: budget_acquire_def split: if_split_asm)
  have pos: "0 < n" if "fmlookup (bu_perKey b) k = Some n" for n using assms(3) that by (simp add: budget_wf_def)
  have "(if key_held b k \<le> 0 then fmdrop k (bu_perKey b') else fmupd k (key_held b k) (bu_perKey b')) = bu_perKey b"
    by (intro fmap_ext) (auto simp: b' key_held_def split: option.split dest: pos)
  moreover have "budget_release k n b' = b'\<lparr>bu_held := bu_held b,
      bu_perKey := (if key_held b k \<le> 0 then fmdrop k (bu_perKey b') else fmupd k (key_held b k) (bu_perKey b'))\<rparr>"
    using assms(3) by (simp add: budget_release_def b' key_held_def [of "budget.bu_perKey_update _ _"] budget_wf_def)
  ultimately show ?thesis by (simp add: b')
qed

lemma acquire_shed: "budget_acquire k n b = (False, b') \<Longrightarrow> b' = b"
  by (auto simp: budget_acquire_def split: if_split_asm)

lemma reserve_pos: "0 < reserveFor len (maxBody + 1)" "reserveFor len (maxBody + 1) \<le> maxBody + 1"
  by (auto simp: reserveFor_def maxBody_def)

text \<open>What an attempt may do with the budget: nothing on an error, one reservation on a result.\<close>

definition spends :: "string \<Rightarrow> ('a \<Rightarrow> reservation \<times> nat) \<Rightarrow> fed_error + 'a \<Rightarrow> budget \<Rightarrow> budget \<Rightarrow> bool" where
  "spends caller held res b b' \<longleftrightarrow>
     (case res of
        Inl _ \<Rightarrow> b' = b
      | Inr a \<Rightarrow> (case held a of ((c, n), bytes) \<Rightarrow> c = caller \<and> 0 < n \<and> n \<le> maxBody + 1 \<and> int bytes \<le> n
          \<and> int bytes \<le> maxBody \<and> budget_acquire c n b = (True, b')))"

definition frugal ::
  "string \<Rightarrow> ('a \<Rightarrow> reservation \<times> nat) \<Rightarrow> (string \<Rightarrow> 'u \<times> budget \<Rightarrow> (fed_error + 'a) \<times> 'u \<times> budget) \<Rightarrow> bool" where
  "frugal caller held fn \<longleftrightarrow> (\<forall>token u b res u' b'. fn token (u, b) = (res, u', b') \<longrightarrow> budget_wf b \<longrightarrow>
     spends caller held res b b')"

lemma spends_error [simp]: "spends caller held (Inl e) b b' \<longleftrightarrow> b' = b"
  by (simp add: spends_def)

lemma read_fits:
  assumes "honest_lengths up" and "up_do up q u = (Inr resp, u')" and "read_limited resp = Some body"
    and "\<not> maxBody < int (length body)"
  shows "int (length body) \<le> reserveFor (hr_length resp) (maxBody + 1)"
proof (cases "0 < hr_length resp \<and> hr_length resp < maxBody + 1")
  case True
  have "length body \<le> length (hr_body resp)" using assms(3) by (auto simp: read_limited_def split: if_split_asm)
  moreover have "int (length (hr_body resp)) \<le> hr_length resp" using assms(1,2) True by (auto simp: honest_lengths_def)
  ultimately show ?thesis using True by (simp add: reserveFor_def)
qed (use assms(4) in \<open>auto simp: reserveFor_def\<close>)

lemma fetchResource_frugal:
  assumes up: "honest_lengths (fs_up sv)"
  shows "frugal caller (\<lambda>(data, res). (res, length data)) (fetchResource sv src name caller)"
  unfolding frugal_def
proof (intro allI impI)
  fix token u b res u' b'
  assume f: "fetchResource sv src name caller token (u, b) = (res, u', b')" and wf: "budget_wf b"
  note rel = release_acquired [OF _ reserve_pos(1) wf]
  show "spends caller (\<lambda>(data, res). (res, length data)) res b b'"
    using f reserve_pos
    by (auto simp: spends_def fetchResource_def Let_def rel
        split: option.split_asm prod.split_asm sum.split_asm if_split_asm bool.split_asm
        dest: acquire_shed intro: read_fits [OF up])
qed

lemma raw_attempt_frugal:
  assumes up: "honest_lengths (fs_up sv)"
  shows "frugal caller (\<lambda>r. (rw_release r, length (rw_body r))) (raw_attempt sv src path query caller)"
  unfolding frugal_def
proof (intro allI impI)
  fix token u b res u' b'
  assume f: "raw_attempt sv src path query caller token (u, b) = (res, u', b')" and wf: "budget_wf b"
  note rel = release_acquired [OF _ reserve_pos(1) wf]
  show "spends caller (\<lambda>r. (rw_release r, length (rw_body r))) res b b'"
    using f reserve_pos
    by (auto simp: spends_def raw_attempt_def rawFetch_def Let_def rel
        split: option.split_asm prod.split_asm sum.split_asm if_split_asm bool.split_asm
        dest: acquire_shed intro: read_fits [OF up])
qed

section \<open>Reads\<close>

lemma withAccessToken_frugal:
  assumes "frugal caller held fn" and "withAccessToken sv now b fn w = (res, w')" and "budget_wf (fw_buffers w)"
  shows "spends caller held res (fw_buffers w) (fw_buffers w')"
proof -
  note u = assms(2) [unfolded withAccessToken_def useBindingSecret_def Use_def]
  show ?thesis
  proof (cases "\<exists>tok u' b'. fn tok (fw_up w, fw_buffers w) = (res, u', b') \<and> fw_buffers w' = b'")
    case True
    then show ?thesis using assms(1,3) unfolding frugal_def by blast
  next
    case False
    then have "isl res \<and> fw_buffers w' = fw_buffers w"
      using u by (auto split: option.split_asm sum.split_asm prod.split_asm)
    then show ?thesis by (auto simp: isl_def)
  qed
qed

lemma useBindingSecret_buffers:
  assumes "\<And>secret u b res u' b'. fn secret (u, b) = (res, u', b') \<Longrightarrow> b' = b"
    and "useBindingSecret sv now b fn w = (res, w')"
  shows "fw_buffers w' = fw_buffers w"
  using assms(2) unfolding useBindingSecret_def Use_def
  by (auto split: option.split_asm sum.split_asm prod.split_asm dest: assms(1))

lemma refreshBinding_buffers:
  assumes "refreshBinding sv now src b force w = (res, w')"
  shows "fw_buffers w' = fw_buffers w"
proof -
  have grant: "b' = b" if "refresh_grant sv src fresh secret (u, b) = (res, u', b')" for fresh secret u b res u' b'
    using that by (auto simp: refresh_grant_def Let_def split: if_split_asm prod.split_asm sum.split_asm)
  have cut: "fw_buffers w2 = fw_buffers w1" if "refreshRejected sv now spent w1 = (r, w2)" for spent w1 r w2
    using that by (auto simp: refreshRejected_def revokeSecret_def deleteBinding_def Let_def
        split: if_split_asm prod.split_asm option.split_asm)
  have commit: "fw_buffers w2 = fw_buffers w1" if "refresh_commit sv now fresh up rot w1 = (r, w2)" for fresh up rot w1 r w2
    using that by (auto simp: refresh_commit_def storeBindingSecret_def
        split: prod.split_asm sum.split_asm bool.split_asm option.split_asm)
  show ?thesis
    using assms
    by (auto simp: refreshBinding_def split: sum.split_asm if_split_asm prod.split_asm
        dest!: cut commit useBindingSecret_buffers [rotated] intro: grant)
qed

lemma callWithRefresh_frugal:
  assumes fr: "frugal caller held fn" and c: "callWithRefresh sv now src b fn w = (res, w')"
    and wf: "budget_wf (fw_buffers w)"
  shows "spends caller held res (fw_buffers w) (fw_buffers w')"
proof -
  obtain r1 w1 where 1: "(if needsRefresh now b then refreshBinding sv now src b False w else (Inr b, w)) = (r1, w1)"
    by (meson surj_pair)
  have b1: "fw_buffers w1 = fw_buffers w" using 1 by (auto split: if_split_asm dest: refreshBinding_buffers)
  show ?thesis
  proof (cases r1)
    case (Inl e)
    then show ?thesis using c 1 b1 by (auto simp: callWithRefresh_def)
  next
    case (Inr b')
    obtain r2 w2 where 2: "withAccessToken sv now b' fn w1 = (r2, w2)" by (meson surj_pair)
    note a2 = withAccessToken_frugal [OF fr 2, unfolded b1, OF wf]
    show ?thesis
    proof (cases "\<exists>e. r2 = Inl e \<and> isUnauthorized e \<and> bd_refresh b'")
      case False
      then have "res = r2" "w' = w2" using c 1 Inr 2 by (auto simp: callWithRefresh_def split: sum.split_asm)
      then show ?thesis using a2 by simp
    next
      case True
      then have b2: "fw_buffers w2 = fw_buffers w" using a2 by auto
      obtain r3 w3 where 3: "refreshBinding sv now src b' True w2 = (r3, w3)" by (meson surj_pair)
      have b3: "fw_buffers w3 = fw_buffers w" using refreshBinding_buffers [OF 3] b2 by simp
      show ?thesis
      proof (cases r3)
        case (Inl e)
        then show ?thesis using c 1 Inr 2 3 True b3 by (auto simp: callWithRefresh_def)
      next
        case r3: (Inr b3')
        then have "withAccessToken sv now b3' fn w3 = (res, w')" using c 1 Inr 2 3 True by (auto simp: callWithRefresh_def)
        from withAccessToken_frugal [OF fr this, unfolded b3, OF wf] show ?thesis .
      qed
    qed
  qed
qed

lemma call_bound_frugal:
  assumes fr: "frugal caller held fn" and c: "call_bound sv now src u g fn w = (res, w')"
    and wf: "budget_wf (fw_buffers w)"
  shows "spends caller held res (fw_buffers w) (fw_buffers w')"
proof (cases "bs_get (fs_bindings sv) u g (sr_name src) (fw_bindings w)")
  case (Inl e)
  then show ?thesis using c by (auto simp: call_bound_def)
next
  case (Inr b)
  obtain hot cd where cd: "cooling now (bindingKey u g (sr_name src)) (fw_cooldown w) = (hot, cd)" by (meson surj_pair)
  obtain r w1 where 1: "callWithRefresh sv now src b fn (w\<lparr>fw_cooldown := cd\<rparr>) = (r, w1)" by (meson surj_pair)
  note spent = callWithRefresh_frugal [OF fr 1]
  show ?thesis using c wf spent by (cases hot) (auto simp: call_bound_def Let_def Inr cd 1)
qed

lemma fetch_loop_frugal:
  assumes up: "honest_lengths (fs_up sv)"
  shows "fetch_loop sv now req later nb other le srcs w = (res, w') \<Longrightarrow> budget_wf (fw_buffers w) \<Longrightarrow>
    spends (fq_user req) (\<lambda>r. (ft_release r, length (ft_data r))) res (fw_buffers w) (fw_buffers w')"
proof (induction srcs arbitrary: later nb other le w)
  case (Cons src srcs)
  obtain r w1 where 1: "call_bound sv now src (fq_user req) (fq_game req)
      (fetchResource sv src (fq_resource req) (fq_user req)) w = (r, w1)" by (meson surj_pair)
  note c = call_bound_frugal [OF fetchResource_frugal [OF up] 1 Cons.prems(2)]
  show ?case
  proof (cases r)
    case (Inl e)
    then have b1: "fw_buffers w1 = fw_buffers w" using c by simp
    obtain l' n' o' e' where "fetch_loop sv now req l' n' o' e' srcs w1 = (res, w')"
      using Cons.prems(1) 1 Inl by (auto simp: trySource_def split: option.split_asm)
    from Cons.IH [OF this] Cons.prems(2) show ?thesis by (simp add: b1)
  next
    case (Inr a)
    then show ?thesis using Cons.prems(1) 1 c by (cases a) (auto simp: trySource_def spends_def)
  qed
qed auto

lemma reached_wf:
  assumes "budget_reach limit (b, out)"
  shows "budget_wf b"
proof -
  have ok: "budget_ok limit (b, out)" by (rule budget_reach_ok [OF assms])
  then have pos: "\<forall>r \<in># out. 0 < snd r" by (simp add: budget_ok_def)
  have "0 < n" if "fmlookup (bu_perKey b) k = Some n" for k n
  proof -
    have "n = outstanding_of k out" "fmlookup (bu_perKey b) k \<noteq> Some 0"
      using ok that by (auto simp: budget_ok_def key_held_def dest!: spec [of _ k])
    then show ?thesis using outstanding_nonneg [OF pos, of k] that by fastforce
  qed
  then show ?thesis using ok outstanding_nonneg [OF pos] by (simp add: budget_ok_def budget_wf_def)
qed

lemma Fetch_spends:
  assumes "honest_lengths (fs_up sv)" and "Fetch sv now req w = (res, w')" and "budget_wf (fw_buffers w)"
  shows "spends (fq_user req) (\<lambda>r. (ft_release r, length (ft_data r))) res (fw_buffers w) (fw_buffers w')"
  using assms(2,3) by (auto simp: Fetch_def split: sum.split_asm intro: fetch_loop_frugal [OF assms(1)])

lemma Raw_spends:
  assumes "honest_lengths (fs_up sv)" and "Raw sv now req w = (res, w')" and "budget_wf (fw_buffers w)"
  shows "spends (rq_user req) (\<lambda>r. (rw_release r, length (rw_body r))) res (fw_buffers w) (fw_buffers w')"
proof (cases "\<exists>src r. call_bound sv now src (rq_user req) (rq_game req)
    (raw_attempt sv src (rq_path req) (rq_query req) (rq_user req)) w = (r, w') \<and> res = map_sum id (rw_source_update (\<lambda>_. sr_name src)) r")
  case True
  then obtain src r where 1: "call_bound sv now src (rq_user req) (rq_game req)
    (raw_attempt sv src (rq_path req) (rq_query req) (rq_user req)) w = (r, w')"
    "res = map_sum id (rw_source_update (\<lambda>_. sr_name src)) r" by blast
  show ?thesis using call_bound_frugal [OF raw_attempt_frugal [OF assms(1)] 1(1) assms(3)] 1(2)
    by (cases r) (auto simp: spends_def)
next
  case False
  then have "isl res \<and> w' = w" using assms(2)
    by (auto simp: Raw_def split: option.split_asm if_split_asm prod.split_asm sum.split_asm) fastforce+
  then show ?thesis by (auto simp: isl_def)
qed

section \<open>Reads in flight\<close>

text \<open>The service together with the bodies its callers still hold: a read that succeeds hands out a
  body with its reservation, and a caller returns the reservation when it has written the body.\<close>

inductive reading :: "('b, 'f, 'r, 'l, 'u) fed_service \<Rightarrow> int \<Rightarrow>
  ('b, 'f, 'r, 'l, 'u) fed_world \<times> (reservation \<times> string) multiset \<Rightarrow> bool" for sv limit where
  idle: "0 \<le> limit \<Longrightarrow> fw_buffers w = newBufferBudget limit \<Longrightarrow> reading sv limit (w, {#})"
| fetched: "reading sv limit (w, held) \<Longrightarrow> Fetch sv now req w = (Inr r, w')
    \<Longrightarrow> reading sv limit (w', add_mset (ft_release r, ft_data r) held)"
| fetch_failed: "reading sv limit (w, held) \<Longrightarrow> Fetch sv now req w = (Inl e, w') \<Longrightarrow> reading sv limit (w', held)"
| passed: "reading sv limit (w, held) \<Longrightarrow> Raw sv now rq w = (Inr rr, w')
    \<Longrightarrow> reading sv limit (w', add_mset (rw_release rr, rw_body rr) held)"
| pass_failed: "reading sv limit (w, held) \<Longrightarrow> Raw sv now rq w = (Inl e, w') \<Longrightarrow> reading sv limit (w', held)"
| written: "reading sv limit (w, held) \<Longrightarrow> ((k, n), body) \<in># held
    \<Longrightarrow> reading sv limit (w\<lparr>fw_buffers := budget_release k n (fw_buffers w)\<rparr>, held - {#((k, n), body)#})"

definition bodies_fit :: "int \<Rightarrow> budget \<times> (reservation \<times> string) multiset \<Rightarrow> bool" where
  "bodies_fit limit = (\<lambda>(b, held). budget_reach limit (b, image_mset fst held)
     \<and> (\<forall>(r, body) \<in># held. int (length body) \<le> snd r))"

lemma bodies_fit_spends:
  assumes "bodies_fit limit (b, held)" and "spends caller (\<lambda>_. (r, length body)) (Inr a) b b'"
  shows "bodies_fit limit (b', add_mset (r, body) held)"
  using assms by (cases r) (auto simp: bodies_fit_def spends_def intro: budget_reach.step budget_step.admitted)

lemma reading_fits:
  assumes up: "honest_lengths (fs_up sv)"
  shows "reading sv limit (w, held) \<Longrightarrow> bodies_fit limit (fw_buffers w, held)"
proof (induction "(w, held)" arbitrary: w held rule: reading.induct)
  case (idle w)
  then show ?case by (simp add: bodies_fit_def budget_reach.start)
next
  case (fetched w held now req r w')
  have "budget_wf (fw_buffers w)" using fetched.hyps(2) by (auto simp: bodies_fit_def intro: reached_wf)
  from Fetch_spends [OF up fetched.hyps(3) this]
  have "spends (fq_user req) (\<lambda>_. (ft_release r, length (ft_data r))) (Inr r) (fw_buffers w) (fw_buffers w')"
    by (simp add: spends_def)
  from bodies_fit_spends [OF fetched.hyps(2) this] show ?case .
next
  case (fetch_failed w held now req e w')
  have "budget_wf (fw_buffers w)" using fetch_failed.hyps(2) by (auto simp: bodies_fit_def intro: reached_wf)
  from Fetch_spends [OF up fetch_failed.hyps(3) this] fetch_failed.hyps(2) show ?case by simp
next
  case (passed w held now req r w')
  have "budget_wf (fw_buffers w)" using passed.hyps(2) by (auto simp: bodies_fit_def intro: reached_wf)
  from Raw_spends [OF up passed.hyps(3) this]
  have "spends (rq_user req) (\<lambda>_. (rw_release r, length (rw_body r))) (Inr r) (fw_buffers w) (fw_buffers w')"
    by (simp add: spends_def)
  from bodies_fit_spends [OF passed.hyps(2) this] show ?case .
next
  case (pass_failed w held now req e w')
  have "budget_wf (fw_buffers w)" using pass_failed.hyps(2) by (auto simp: bodies_fit_def intro: reached_wf)
  from Raw_spends [OF up pass_failed.hyps(3) this] pass_failed.hyps(2) show ?case by simp
next
  case (written w held k n body)
  then have "budget_step (fw_buffers w, image_mset fst held)
      (budget_release k n (fw_buffers w), image_mset fst held - {#(k, n)#})"
    by (intro budget_step.returned) (force simp: in_image_mset)
  moreover have "image_mset fst (held - {#((k, n), body)#}) = image_mset fst held - {#(k, n)#}"
    using written.hyps(3) by (simp add: image_mset_Diff)
  ultimately show ?case using written.hyps(2)
    by (auto simp: bodies_fit_def dest: in_diffD intro: budget_reach.step)
qed

definition bytes_held :: "(reservation \<times> string) multiset \<Rightarrow> int" where
  "bytes_held held = (\<Sum>(r, body) \<in># held. int (length body))"

lemma bytes_reserved:
  "\<forall>(r, body) \<in># held. int (length body) \<le> snd r \<Longrightarrow> bytes_held held \<le> outstanding (image_mset fst held)"
  by (induction held) (auto simp: bytes_held_def)

lemma bytes_reserved_of:
  "\<forall>(r, body) \<in># held. int (length body) \<le> snd r \<Longrightarrow>
    bytes_held (filter_mset (\<lambda>(r, _). fst r = k) held) \<le> outstanding_of k (image_mset fst held)"
  by (induction held) (auto simp: bytes_held_def)

section \<open>A read to run\<close>

definition demo_read :: fetch_request where
  "demo_read = \<lparr>fq_user = ''usr_a'', fq_game = ''g'', fq_resource = ''r'', fq_source = ''y''\<rparr>"

lemma demo_honest: "honest_lengths (fs_up demo_fed)"
  by (simp add: honest_lengths_def demo_fed_mem(5) demo_up_def)

lemma demo_candidates:
  obtains src where "candidates demo_registry ''g'' ''r'' ''y'' = Inr [src]"
    and "source_Get demo_registry ''g'' ''y'' = Some src" and "sr_name src = ''y''"
proof -
  have n: "map_sum id (map sr_name) (candidates demo_registry ''g'' ''r'' ''y'') = Inr [''y'']" by code_simp
  then obtain src where c: "candidates demo_registry ''g'' ''r'' ''y'' = Inr [src]" "sr_name src = ''y''"
    by (cases "candidates demo_registry ''g'' ''r'' ''y''") auto
  then have "source_Get demo_registry ''g'' ''y'' = Some src"
    by (simp add: candidates_def Let_def split: if_split_asm option.split_asm)
  with that c show thesis by blast
qed

lemma demo_fetch:
  obtains b w r w' where "CompleteBind demo_fed 2 ''usr_a'' demo_state ''c'' demo_pending = (Inr b, demo_flow, w)"
    and "fw_buffers w = fw_buffers demo_pending"
    and "Fetch demo_fed 3 demo_read w = (Inr r, w')" and "ft_data r = ''{}''" and "ft_source r = ''y''"
proof -
  obtain b w where c: "CompleteBind demo_fed 2 ''usr_a'' demo_state ''c'' demo_pending = (Inr b, demo_flow, w)"
    and b: "bd_expiry b = 0" and w: "fw_cooldown w = fw_cooldown demo_pending" "fw_buffers w = fw_buffers demo_pending"
    by (rule demo_complete)
  obtain src where src: "candidates demo_registry ''g'' ''r'' ''y'' = Inr [src]"
    "source_Get demo_registry ''g'' ''y'' = Some src" "sr_name src = ''y''" by (rule demo_candidates)
  have u: "user_ok ''usr_a''" by (simp add: user_ok_def)
  have rows: "bindings_ok (fw_bindings demo_pending)" using demo_pending_ok by (simp add: fed_ok_def)
  obtain token :: oauth_token where t: "mb_get ''usr_a'' ''g'' ''y'' (fw_bindings w) = Inr b" "id_validate (BindingIdentity b) = None"
    "holds_secret demo_fed b \<lparr>bx_access = ot_access token, bx_refresh = ot_refresh token\<rparr> w"
    by (rule complete_bind_ok [OF demo_fed_mem(1) demo_vault_sound demo_fed_mem(6) rows u c]) (simp add: demo_flow_def)
  let ?fn = "fetchResource demo_fed src ''r'' ''usr_a''"
  have parse: "\<exists>u. fs_parse demo_fed s = Some u" for s
    by (simp add: demo_fed_def NewFedService_def demo_fed_config_def demo_parse_def)
  have fn: "fst (?fn (ot_access token) (fw_up w, fw_buffers w)) = Inr (''{}'', ''usr_a'', maxBody + 1)"
    using parse [of "trim_right_slash (sr_issuer src) @ ''/resources/'' @ path_escape ''r''"]
    by (auto simp: fetchResource_def Let_def demo_fed_mem(4,5) demo_up_def demo_codec_def w(2) demo_pending_def
        demo_world_def reserveFor_def budget_acquire_def newBufferBudget_def key_held_def bufferShare_def
        defaultMaxBufferedBytes_def read_limited_def maxBody_def)
  have hot: "\<not> fst (cooling 3 (bindingKey ''usr_a'' ''g'' ''y'') (fw_cooldown w))"
    by (simp add: w demo_pending_def demo_world_def cooling_def newBindingCooldown_def)
  have codec: "js_unmarshal (fs_codec demo_fed) (js_marshal (fs_codec demo_fed) secret) = Some secret" for secret
    by (simp add: demo_fed_mem(4) demo_codec_law)
  have fresh: "\<not> needsRefresh 3 b" by (simp add: needsRefresh_def b)
  have "fst (call_bound demo_fed 3 src ''usr_a'' ''g'' ?fn w) = Inr (''{}'', ''usr_a'', maxBody + 1)"
    using call_bound_opens [OF demo_fed_mem(1) demo_accepts t(3,2) codec, of "''usr_a''" "''g''" src 3 ?fn] t(1) hot fresh fn
    by (simp add: src(3))
  then obtain w' where "call_bound demo_fed 3 src ''usr_a'' ''g'' ?fn w = (Inr (''{}'', ''usr_a'', maxBody + 1), w')"
    by (metis prod.collapse)
  then have "Fetch demo_fed 3 demo_read w = (Inr \<lparr>ft_source = ''y'', ft_degraded = False, ft_data = ''{}'',
      ft_release = (''usr_a'', maxBody + 1)\<rparr>, w')"
    using src by (simp add: Fetch_def demo_read_def demo_fed_mem(3) trySource_def)
  with that [OF c w(2)] show thesis by simp
qed

section \<open>Properties\<close>

text \<open>C16. The memory of the read path. However normalized reads, raw reads and the return of their
  bodies interleave, with every refresh, retry and change of source inside them, the bodies held in
  memory never exceed the configured budget in total, nor the caller's share for any one caller; and
  when no body is held the budget is empty again: no path leaks a reservation.\<close>

theorem reads_within_budget:
  assumes "honest_lengths (fs_up sv)" and "reading sv limit (w, held)"
  shows "bytes_held held \<le> limit
    \<and> bytes_held (filter_mset (\<lambda>(r, _). fst r = k) held) \<le> max (2 * maxBody) (limit div 4)
    \<and> (held = {#} \<longrightarrow> fw_buffers w = newBufferBudget limit)"
proof -
  have fit: "bodies_fit limit (fw_buffers w, held)" by (rule reading_fits [OF assms])
  then have len: "\<forall>(r, body) \<in># held. int (length body) \<le> snd r" by (simp add: bodies_fit_def)
  have ok: "budget_ok limit (fw_buffers w, image_mset fst held)"
    using fit by (auto simp: bodies_fit_def intro: budget_reach_ok)
  have "bytes_held held \<le> limit" using bytes_reserved [OF len] ok by (simp add: budget_ok_def)
  moreover have "bytes_held (filter_mset (\<lambda>(r, _). fst r = k) held) \<le> bufferShare limit"
  proof (rule order_trans [OF bytes_reserved_of [OF len]])
    show "outstanding_of k (image_mset fst held) \<le> bufferShare limit" using ok by (simp add: budget_ok_def)
  qed
  moreover have "bufferShare limit \<le> max (2 * maxBody) (limit div 4)" by (simp add: bufferShare_def Let_def max_def)
  moreover have "fw_buffers w = newBufferBudget limit" if "held = {#}"
  proof -
    have "fmlookup (bu_perKey (fw_buffers w)) j = None" for j
      using ok by (cases "fmlookup (bu_perKey (fw_buffers w)) j")
        (auto simp: that budget_ok_def key_held_def dest!: spec [of _ j])
    then have "bu_perKey (fw_buffers w) = fmempty" by (intro fmap_ext) simp
    then show ?thesis using ok by (cases "fw_buffers w") (simp add: that budget_ok_def newBufferBudget_def)
  qed
  ultimately show ?thesis by simp
qed

theorem reads_within_budget_witness:
  "\<exists>b w w' r. CompleteBind demo_fed 2 ''usr_a'' demo_state ''c'' demo_pending = (Inr b, demo_flow, w)
     \<and> Fetch demo_fed 3 demo_read w = (Inr r, w') \<and> ft_data r = ''{}'' \<and> ft_source r = ''y''
     \<and> bytes_held {#(ft_release r, ft_data r)#} \<le> defaultMaxBufferedBytes"
proof -
  obtain b w r w' where c: "CompleteBind demo_fed 2 ''usr_a'' demo_state ''c'' demo_pending = (Inr b, demo_flow, w)"
    and w: "fw_buffers w = fw_buffers demo_pending"
    and f: "Fetch demo_fed 3 demo_read w = (Inr r, w')" "ft_data r = ''{}''" "ft_source r = ''y''" by (rule demo_fetch)
  have "reading demo_fed defaultMaxBufferedBytes (w, {#})"
    by (rule reading.idle) (simp_all add: w demo_pending_def demo_world_def defaultMaxBufferedBytes_def)
  then have "reading demo_fed defaultMaxBufferedBytes (w', {#(ft_release r, ft_data r)#})" by (rule reading.fetched [OF _ f(1)])
  from reads_within_budget [OF demo_honest this] c f show ?thesis by blast
qed

end
