(* ===== verification/OIDC_Request.thy ===== *)
theory OIDC_Request
  imports OAuth_Grants
begin

text \<open>
  What both OpenID Provider stores share, \<^verbatim>\<open>internal/oidcstore\<close>: the authorization request with its
  freshness rules, the consent policy over scope lists, the client adapter, and the carrier that
  takes the revocation generations from the resolve step to the mint.
  \<^item> A token request is what the library's interface methods return on it, \<open>None\<close> for a method the
    request's type does not have.
  \<^item> The arithmetic of \<^verbatim>\<open>max_age\<close> is done on 64-bit words as in Go: durations wrap, and the difference
    of two instants saturates.
  \<^item> The \<^verbatim>\<open>clone\<close> functions of the store copy values; a value here is never shared.
  Shown: the freshness rules agree with their specification at every \<^verbatim>\<open>max_age\<close> except the 120 values
  whose sum with the round-trip tolerance leaves 64 bits, where no authentication satisfies the
  request; a narrowed grant is within the request.
\<close>

section \<open>Scope lists\<close>

definition ScopeOpenID :: string where "ScopeOpenID = ''openid''"
definition ScopeOfflineAccess :: string where "ScopeOfflineAccess = ''offline_access''"

definition StandardOIDCScope :: "string \<Rightarrow> bool" where
  "StandardOIDCScope s \<longleftrightarrow>
     s = ScopeOpenID \<or> s = ''profile'' \<or> s = ''email'' \<or> s = ''phone'' \<or> s = ''address'' \<or> s = ScopeOfflineAccess"

definition SplitProtocolScopes :: "string list \<Rightarrow> string list \<times> string list" where
  "SplitProtocolScopes scopes = (filter (\<lambda>s. \<not> StandardOIDCScope s) scopes, filter StandardOIDCScope scopes)"

definition HasScope :: "string list \<Rightarrow> string \<Rightarrow> bool" where
  "HasScope scopes name = List.member scopes name"

definition WithOfflineAccess :: "string list \<Rightarrow> string list" where
  "WithOfflineAccess scopes =
     (if HasScope scopes ScopeOfflineAccess then scopes else scopes @ [ScopeOfflineAccess])"

definition WithoutOfflineAccess :: "string list \<Rightarrow> string list" where
  "WithoutOfflineAccess scopes = filter (\<lambda>s. s \<noteq> ScopeOfflineAccess) scopes"

text \<open>An approval is \<open>None\<close> where Go passes a nil slice.\<close>

definition NarrowScopes :: "string list \<Rightarrow> scope list option \<Rightarrow> oauth_error + string list" where
  "NarrowScopes requested approved =
     (case approved of
        None \<Rightarrow> Inr requested
      | Some [] \<Rightarrow> Inl (Protocol ''invalid_request''
            ''an approval must grant at least one scope; omit the field to grant the requested scopes'')
      | Some ss \<Rightarrow>
          (case first_error (\<lambda>s. if HasScope requested s then None
                 else Some (Protocol ''invalid_scope'' ''the decision cannot widen the requested scope'')) ss of
             Some e \<Rightarrow> Inl e
           | None \<Rightarrow> Inr ss))"

definition RequireExplicitConsent :: "descriptor list \<Rightarrow> scope list \<Rightarrow> oauth_error option" where
  "RequireExplicitConsent descriptors explicit =
     first_error (\<lambda>d. if \<not> ExplicitConsent d then None
       else if \<not> List.member explicit (d_scope d) then
         Some (Protocol ''access_denied'' (''explicit consent is required for '' @ d_scope d))
       else None) descriptors"

section \<open>Opaque values\<close>

definition RandomValue :: "tape \<Rightarrow> string option \<times> tape" where
  "RandomValue t =
     (case rand_read 32 t of
        None \<Rightarrow> (None, t)
      | Some (b, t') \<Rightarrow> (Some (base64_encode URLAlphabet b), t'))"

section \<open>Authorization requests\<close>

record auth_request =
  aq_id :: string
  aq_client :: string
  aq_redirect :: string
  aq_response_type :: string
  aq_response_mode :: string
  aq_scopes :: "string list"
  aq_state :: string
  aq_nonce :: string
  aq_challenge :: "(string \<times> string) option"
  aq_subject :: string
  aq_done :: bool
  aq_auth_time :: "time option"
  aq_prompt :: "string list"
  aq_max_age :: "nat option"

definition GetAuthTime :: "time option \<Rightarrow> time" where
  "GetAuthTime t = (case t of None \<Rightarrow> 0 | Some t \<Rightarrow> t)"

subsection \<open>Freshness\<close>

definition reauthRoundTripTolerance :: duration where "reauthRoundTripTolerance = 2 * minute"

text \<open>A duration computed in \<^verbatim>\<open>int64\<close>, and \<^verbatim>\<open>Time.Sub\<close>, which saturates.\<close>

definition int64 :: "int \<Rightarrow> int" where
  "int64 d = sint (word_of_int d :: 64 word)"

definition time_sub :: "time \<Rightarrow> time \<Rightarrow> duration" where
  "time_sub a b = max (- (2 ^ 63)) (min (2 ^ 63 - 1) (a - b))"

definition maxDurationSeconds :: nat where
  "maxDurationSeconds = (2 ^ 63 - 1) div 1000000000"

definition FreshnessNeeded :: "auth_request \<Rightarrow> time \<Rightarrow> time \<Rightarrow> bool" where
  "FreshnessNeeded a at now =
     (if List.member (aq_prompt a) ''login'' then True
      else (case aq_max_age a of
              None \<Rightarrow> False
            | Some m \<Rightarrow>
                if is_zero at then True
                else if m > maxDurationSeconds then False
                else time_sub now at > int64 (int m * second)))"

definition FreshnessSatisfied :: "auth_request \<Rightarrow> time \<Rightarrow> time \<Rightarrow> bool" where
  "FreshnessSatisfied a at now =
     (case aq_max_age a of
        None \<Rightarrow> True
      | Some m \<Rightarrow>
          if is_zero at then False
          else if m > maxDurationSeconds then True
          else time_sub now at \<le> int64 (int64 (int m * second) + reauthRoundTripTolerance))"

definition RequiresReauthentication :: "auth_request \<Rightarrow> time \<Rightarrow> bool" where
  "RequiresReauthentication a now \<longleftrightarrow>
     aq_max_age a \<noteq> None \<and> \<not> FreshnessSatisfied a (GetAuthTime (aq_auth_time a)) now"

section \<open>Token requests\<close>

record token_request =
  tq_subject :: string
  tq_scopes :: "string list"
  tq_client :: "string option"
  tq_auth_time :: "time option"
  tq_amr :: "string list option"
  tq_audience :: "string list option"
  tq_nonce :: "string option"

definition ClientIDOf :: "token_request \<Rightarrow> string" where
  "ClientIDOf r = (case tq_client r of None \<Rightarrow> [] | Some c \<Rightarrow> c)"

definition NonceOf :: "token_request \<Rightarrow> string" where
  "NonceOf r = (case tq_nonce r of None \<Rightarrow> [] | Some n \<Rightarrow> n)"

definition auth_token_request :: "auth_request \<Rightarrow> token_request" where
  "auth_token_request a =
     \<lparr>tq_subject = aq_subject a, tq_scopes = aq_scopes a, tq_client = Some (aq_client a),
      tq_auth_time = Some (GetAuthTime (aq_auth_time a)), tq_amr = Some [], tq_audience = Some [aq_client a],
      tq_nonce = Some (aq_nonce a)\<rparr>"

record oidc_refresh_request =
  rx_id_hash :: string
  rx_client :: string
  rx_subject :: string
  rx_scopes :: "string list"
  rx_amr :: "string list"
  rx_audience :: "string list"
  rx_auth_time :: "time option"
  rx_nonce :: string

definition refresh_token_request :: "oidc_refresh_request \<Rightarrow> token_request" where
  "refresh_token_request r =
     \<lparr>tq_subject = rx_subject r, tq_scopes = rx_scopes r, tq_client = Some (rx_client r),
      tq_auth_time = Some (GetAuthTime (rx_auth_time r)), tq_amr = Some (rx_amr r),
      tq_audience = Some (rx_audience r), tq_nonce = Some (rx_nonce r)\<rparr>"

section \<open>The client adapter\<close>

record provider_client =
  pv_client :: client
  pv_registry :: "registry option"
  pv_login :: "(string \<Rightarrow> string) option"

definition ApplicationType :: "provider_client \<Rightarrow> string" where
  "ApplicationType c = (if c_type (pv_client c) = ClientPublic then ''native'' else ''web'')"

definition AuthMethod :: "provider_client \<Rightarrow> string" where
  "AuthMethod c = (if c_type (pv_client c) = ClientPublic then ''none'' else ''client_secret_basic'')"

definition LoginURL :: "provider_client \<Rightarrow> string \<Rightarrow> string" where
  "LoginURL c ident = (case pv_login c of None \<Rightarrow> ''/login?authRequestID='' @ ident | Some f \<Rightarrow> f ident)"

definition IsScopeAllowed :: "provider_client \<Rightarrow> string \<Rightarrow> bool" where
  "IsScopeAllowed c s =
     (case pv_registry c of
        None \<Rightarrow> False
      | Some r \<Rightarrow> Get r s \<noteq> None \<and> AllowsScope (pv_client c) s)"

section \<open>The carrier of revocation generations\<close>

text \<open>Generations are the source's \<^verbatim>\<open>int64\<close> counters, which wrap around; they are only advanced and compared.\<close>

type_synonym generations = "64 word \<times> 64 word \<times> 64 word"

record revocation_epochs =
  ep_global :: "64 word"
  ep_client :: "64 word"
  ep_subject :: "64 word"
  ep_captured :: bool

text \<open>The request context: its carrier, if the boundary installed one.\<close>

type_synonym op_context = "revocation_epochs option"

definition WithRevocationEpochs :: op_context where
  "WithRevocationEpochs = Some \<lparr>ep_global = 0, ep_client = 0, ep_subject = 0, ep_captured = False\<rparr>"

definition CaptureRevocationEpochs :: "op_context \<Rightarrow> generations \<Rightarrow> op_context" where
  "CaptureRevocationEpochs ctx = (\<lambda>(global, cl, sub).
     map_option (\<lambda>b. \<lparr>ep_global = global, ep_client = cl, ep_subject = sub, ep_captured = True\<rparr>) ctx)"

definition RevocationUnchanged :: "op_context \<Rightarrow> generations \<Rightarrow> bool" where
  "RevocationUnchanged ctx = (\<lambda>(global, cl, sub).
     case ctx of
       None \<Rightarrow> True
     | Some b \<Rightarrow> \<not> ep_captured b \<or> (ep_global b = global \<and> ep_client b = cl \<and> ep_subject b = sub))"

lemma unchanged_captured [simp]:
  "RevocationUnchanged (CaptureRevocationEpochs (Some b) e) e' \<longleftrightarrow> e' = e"
  by (cases e, cases e') (auto simp: RevocationUnchanged_def CaptureRevocationEpochs_def)

section \<open>Consequences\<close>

lemma member_HasScope [simp]: "HasScope ss s \<longleftrightarrow> s \<in> set ss"
  by (simp add: HasScope_def)

lemma NarrowScopes_Inr:
  "NarrowScopes requested approved = Inr granted \<longleftrightarrow>
     (approved = None \<and> granted = requested) \<or>
     (approved = Some granted \<and> granted \<noteq> [] \<and> set granted \<subseteq> set requested)"
proof (cases approved)
  case (Some ss)
  show ?thesis
  proof (cases ss)
    case (Cons s ss')
    have "first_error (\<lambda>s. if HasScope requested s then None
             else Some (Protocol ''invalid_scope'' ''the decision cannot widen the requested scope'')) ss = None
        \<longleftrightarrow> set ss \<subseteq> set requested"
      by (auto simp: first_error_None split: if_split_asm)
    then show ?thesis using Some Cons by (auto simp: NarrowScopes_def split: option.split_asm option.split)
  qed (use Some in \<open>auto simp: NarrowScopes_def\<close>)
qed (auto simp: NarrowScopes_def)

lemma RequireExplicitConsent_None:
  "RequireExplicitConsent ds explicit = None \<longleftrightarrow>
     (\<forall>d \<in> set ds. ExplicitConsent d \<longrightarrow> d_scope d \<in> set explicit)"
  by (auto simp: RequireExplicitConsent_def first_error_None split: if_split_asm)

lemma int64_mod: "int64 d = (d + 2 ^ 63) mod 2 ^ 64 - 2 ^ 63"
  by (simp add: int64_def int_word_sint)

lemma int64_small: "- (2 ^ 63) \<le> d \<Longrightarrow> d < 2 ^ 63 \<Longrightarrow> int64 d = d"
  by (simp add: int64_mod)

lemma int64_over: "2 ^ 63 \<le> d \<Longrightarrow> d < 2 ^ 64 \<Longrightarrow> int64 d = d - 2 ^ 64"
proof -
  assume d: "2 ^ 63 \<le> d" "d < 2 ^ 64"
  have "(d + 2 ^ 63) mod 2 ^ 64 = ((d - 2 ^ 63) + 2 ^ 64) mod 2 ^ 64" by (simp add: add.commute)
  also have "\<dots> = d - 2 ^ 63" using d by (simp only: mod_add_self2) simp
  finally show ?thesis by (simp add: int64_mod)
qed

lemma freshness_bound:
  assumes "m \<le> maxDurationSeconds"
  shows "int64 (int64 (int m * second) + reauthRoundTripTolerance) =
    (if m \<le> 9223371916 then int m * second + reauthRoundTripTolerance
     else int m * second + reauthRoundTripTolerance - 2 ^ 64)"
proof -
  have m: "m \<le> 9223372036" using assms by (simp add: maxDurationSeconds_def)
  have "int64 (int m * second) = int m * second" using m by (intro int64_small) (simp_all add: second_def)
  moreover have "int64 (int m * second + reauthRoundTripTolerance) = int m * second + reauthRoundTripTolerance"
    if "m \<le> 9223371916"
    using that by (intro int64_small) (simp_all add: second_def reauthRoundTripTolerance_def minute_def)
  moreover have "int64 (int m * second + reauthRoundTripTolerance) = int m * second + reauthRoundTripTolerance - 2 ^ 64"
    if "\<not> m \<le> 9223371916"
    using that m by (intro int64_over) (simp_all add: second_def reauthRoundTripTolerance_def minute_def)
  ultimately show ?thesis by simp
qed

section \<open>Properties\<close>

text \<open>C40. Freshness at completion. For a recorded sign-in in the past, a request with \<^verbatim>\<open>max_age\<close> is satisfied
  exactly within that age and the two minutes of tolerance, with two exceptions: a bound beyond
  292 years is always satisfied, and the 120 largest bounds below it never are, because the sum
  with the tolerance wraps to a negative duration. Elsewhere, what the login boundary accepts is
  still accepted two minutes later.\<close>

theorem freshness_exact:
  assumes m: "aq_max_age a = Some m" and at: "0 < at" "at \<le> now" "now - at < 2 ^ 63"
  shows "(FreshnessSatisfied a at now \<longleftrightarrow>
      m > 9223372036 \<or> (m \<le> 9223371916 \<and> now - at \<le> int m * second + 2 * minute))
    \<and> (\<not> FreshnessNeeded a at sign_in \<and> sign_in \<le> now \<and> now \<le> sign_in + 2 * minute \<and> m \<notin> {9223371917..9223372036}
         \<longrightarrow> FreshnessSatisfied a at now)"
proof -
  have sub: "time_sub now at = now - at" using at by (simp add: time_sub_def)
  have max: "maxDurationSeconds = 9223372036" by (simp add: maxDurationSeconds_def)
  have sat: "FreshnessSatisfied a at now \<longleftrightarrow>
      m > 9223372036 \<or> (m \<le> 9223371916 \<and> now - at \<le> int m * second + 2 * minute)"
  proof (cases "m \<le> 9223372036")
    case True
    then have "int m * second + reauthRoundTripTolerance - 2 ^ 64 < 0"
      by (simp add: second_def reauthRoundTripTolerance_def minute_def)
    then show ?thesis using True at freshness_bound [of m] m
      by (auto simp: FreshnessSatisfied_def sub max reauthRoundTripTolerance_def)
  qed (use m at in \<open>simp add: FreshnessSatisfied_def max\<close>)
  moreover have "FreshnessSatisfied a at now"
    if n: "\<not> FreshnessNeeded a at sign_in" "sign_in \<le> now" "now \<le> sign_in + 2 * minute" "m \<notin> {9223371917..9223372036}"
  proof (cases "m > 9223372036")
    case False
    then have "int64 (int m * second) = int m * second" by (intro int64_small) (simp_all add: second_def)
    then have "time_sub sign_in at \<le> int m * second" using n(1) m at False
      by (simp add: FreshnessNeeded_def max split: if_split_asm)
    moreover have "sign_in - at \<le> time_sub sign_in at \<or> 2 ^ 63 \<le> sign_in - at"
      by (auto simp: time_sub_def max_def min_def)
    ultimately have "sign_in - at \<le> int m * second" using n(2) at by auto
    then show ?thesis using sat n False by auto
  qed (use sat in simp)
  ultimately show ?thesis by blast
qed

theorem freshness_exact_witness:
  "\<exists>a. aq_max_age a = Some 9223372036 \<and> \<not> FreshnessNeeded a 1000 1000 \<and> \<not> FreshnessSatisfied a 1000 1000"
proof -
  define a where "a = \<lparr>aq_id = ''r'', aq_client = ''c'', aq_redirect = [], aq_response_type = ''code'', aq_response_mode = [],
    aq_scopes = [], aq_state = [], aq_nonce = [], aq_challenge = None, aq_subject = ''u'', aq_done = False,
    aq_auth_time = Some 1000, aq_prompt = [], aq_max_age = Some 9223372036\<rparr>"
  have m: "aq_max_age a = Some 9223372036" by (simp add: a_def)
  have "\<not> FreshnessSatisfied a 1000 1000" using freshness_exact [OF m, of 1000 1000 1000] by simp
  moreover have "int64 (int 9223372036 * second) = int 9223372036 * second" by (intro int64_small) (simp_all add: second_def)
  then have "\<not> FreshnessNeeded a 1000 1000"
    by (simp add: FreshnessNeeded_def a_def time_sub_def second_def)
  ultimately show ?thesis using m by blast
qed

end
