(* ===== verification/Map_Loops.thy ===== *)
theory Map_Loops
  imports R0_Prelude
begin

text \<open>
  Deletion loops over Go maps whose body maintains more than the map it ranges over.
  \<^verbatim>\<open>for k := range keys { if v, ok := m[k]; ok && cond(v) { del(k) } }\<close> is \<open>drop_each\<close>: over the keys
  collected when the loop starts, and it also counts what it deletes. Go leaves the order of a
  range unspecified and permits deleting during it; the model goes in key order, and the locale
  shows that the outcome depends only on the set of keys.
\<close>

definition drop_each ::
  "('s \<Rightarrow> 'k \<Rightarrow> 'v option) \<Rightarrow> ('k \<Rightarrow> 'v \<Rightarrow> 's \<Rightarrow> 's) \<Rightarrow> ('v \<Rightarrow> bool) \<Rightarrow> 'k list \<Rightarrow> 's \<Rightarrow> nat \<times> 's" where
  "drop_each look del P ks s =
     fold (\<lambda>k (n, s). case look s k of
                        None \<Rightarrow> (n, s)
                      | Some v \<Rightarrow> if P v then (n + 1, del k v s) else (n, s)) ks (0, s)"

definition fm_keys :: "('k::linorder, 'v) fmap \<Rightarrow> 'k list" where
  "fm_keys m = sorted_list_of_fset (fmdom m)"

lemma set_fm_keys [simp]: "set (fm_keys m) = {k. \<exists>v. fmlookup m k = Some v}"
  by (auto simp: fm_keys_def fmlookup_dom_iff)

lemma distinct_fm_keys [simp]: "distinct (fm_keys m)"
  by (simp add: fm_keys_def sorted_list_of_fset.rep_eq)

lemma set_sorted_list_of_fset: "set (sorted_list_of_fset S) = fset S"
  by simp

lemma distinct_sorted_list_of_fset [simp]: "distinct (sorted_list_of_fset S)"
  by (simp add: sorted_list_of_fset.rep_eq)

section \<open>The shape of a loop\<close>

lemma drop_each_Nil [simp]: "drop_each look del P [] s = (0, s)"
  by (simp add: drop_each_def)

lemma drop_each_acc:
  "fold (\<lambda>k (n, s). case look s k of
                        None \<Rightarrow> (n, s)
                      | Some v \<Rightarrow> if P v then (n + 1, del k v s) else (n, s)) ks (n, s)
     = (n + fst (drop_each look del P ks s), snd (drop_each look del P ks s))"
proof (induction ks arbitrary: n s)
  case (Cons k ks)
  show ?case
    unfolding drop_each_def
    using Cons.IH [of n s] Cons.IH [of "Suc n" "del k (the (look s k)) s"] Cons.IH [of 0 s]
      Cons.IH [of "Suc 0" "del k (the (look s k)) s"]
    by (auto split: option.split)
qed (simp add: drop_each_def)

lemma drop_each_Cons:
  "drop_each look del P (k # ks) s =
     (case look s k of
        None \<Rightarrow> drop_each look del P ks s
      | Some v \<Rightarrow> if P v then (fst (drop_each look del P ks (del k v s)) + 1, snd (drop_each look del P ks (del k v s)))
                 else drop_each look del P ks s)"
  using drop_each_acc [where look = look and P = P and del = del and ks = ks and n = "Suc 0" and s = "del k (the (look s k)) s"]
  by (auto simp: drop_each_def split: option.split)

text \<open>What one deletion keeps, the loop keeps.\<close>

lemma drop_each_invariant:
  assumes "I s" and "\<And>k v s. I s \<Longrightarrow> look s k = Some v \<Longrightarrow> P v \<Longrightarrow> I (del k v s)"
  shows "I (snd (drop_each look del P ks s))"
  using assms(1) by (induction ks arbitrary: s) (auto simp: drop_each_Cons assms(2) split: option.split)

lemma drop_each_same:
  assumes "\<And>k v s. obs (del k v s) = obs s"
  shows "obs (snd (drop_each look del P ks s)) = obs s"
  using drop_each_invariant [where I = "\<lambda>t. obs t = obs s" and s = s and look = look and P = P and del = del and ks = ks] assms by simp

section \<open>Stores that delete one key at a time\<close>

locale keyed_deletion =
  fixes look :: "'s \<Rightarrow> 'k \<Rightarrow> 'v option" and del :: "'k \<Rightarrow> 'v \<Rightarrow> 's \<Rightarrow> 's"
  assumes look_del: "look (del k v s) j = (if j = k then None else look s j)"
begin

lemma look_drop_each:
  "look (snd (drop_each look del P ks s)) j =
     (case look s j of
        None \<Rightarrow> None
      | Some v \<Rightarrow> if j \<in> set ks \<and> P v then None else Some v)"
proof (induction ks arbitrary: s)
  case (Cons k ks)
  then show ?case by (auto simp: drop_each_Cons look_del split: option.split)
qed (simp split: option.split)

lemma count_drop_each:
  "distinct ks \<Longrightarrow> fst (drop_each look del P ks s) =
     length (filter (\<lambda>k. case look s k of None \<Rightarrow> False | Some v \<Rightarrow> P v) ks)"
proof (induction ks arbitrary: s)
  case (Cons k ks)
  have "filter (\<lambda>j. case look (del k v s) j of None \<Rightarrow> False | Some v \<Rightarrow> P v) ks
      = filter (\<lambda>j. case look s j of None \<Rightarrow> False | Some v \<Rightarrow> P v) ks" for v
    using Cons.prems by (intro filter_cong) (auto simp: look_del)
  then show ?case using Cons by (auto simp: drop_each_Cons split: option.split)
qed simp

text \<open>Any order of the keys, and any larger set that adds only keys without a match, gives the same.\<close>

lemma look_drop_each_cong:
  assumes "\<And>k v. look s k = Some v \<Longrightarrow> P v \<Longrightarrow> k \<in> set ks \<longleftrightarrow> k \<in> set ks'"
  shows "look (snd (drop_each look del P ks s)) j = look (snd (drop_each look del P ks' s)) j"
  using assms by (auto simp: look_drop_each split: option.split)

end

end
