(* ===== verification/OIDC_Store.thy ===== *)
theory OIDC_Store
  imports OIDC_Request Map_Loops Audit_Log
begin

text \<open>
  The in-memory OpenID Provider store, \<^verbatim>\<open>internal/store/memory/oidc.go\<close>: one definition per method of
  \<^verbatim>\<open>OIDCStore\<close>, in the order of the source.
  \<^item> \<open>oidc_store\<close> holds the maps the store's mutex guards, with the indexes kept beside them;
    \<open>oidc_service\<close> what \<^verbatim>\<open>NewOIDCStore\<close> fixes; \<open>oidc_world\<close> the store with the client registry's state,
    the audit log and the random tape.
  \<^item> A method holds the mutex from its first to its last access of the maps, so one definition is
    one atomic step, at one clock reading; deciding a device authorization is two, a read and then
    \<^verbatim>\<open>approveDevice\<close> or \<^verbatim>\<open>DenyDevice\<close>, which check again. Events are recorded after the mutex is
    released, and a failed record changes nothing but the log.
  \<^item> Go's choice of a map entry (\<^verbatim>\<open>for old := range m { delete(m, old); break }\<close>) is the argument
    \<open>pick\<close> of the mint.
  \<^item> Generations have the source's 64 bits and wrap around.
  \<^item> \<^verbatim>\<open>NewOIDCStore\<close> also publishes the store to a client registry that asks for its token revoker
    (\<^verbatim>\<open>SetTokenRevoker\<close>). That publication is left out: registries are values here, and the revoker
    a registry deletes clients through is an argument of \<open>mr_delete\<close>.
  \<^item> The request context is its revocation carrier. Key sets, the health probe and the methods that
    return constants are left out.
\<close>

section \<open>Records\<close>

datatype oidc_error =
    OAuthErr oauth_error
  | ErrInvalidClient string
  | ErrRefreshTokenSpent
  | ErrGrantRevokedInFlight
  | ErrPendingAuthRequestsFull
  | ErrPendingDeviceAuthorizationsFull
  | ErrRequestExpired string
  | ErrReauthenticationRequired
  | ErrDuplicateUserCode
  | ErrInvalidRefreshToken
  | DeadlineExceeded
  | errNotAnAccessToken
  | OPlain string
  | ORandom

record code_record =
  ck_request :: string
  ck_expires :: time

record oidc_access =
  oa_id :: string
  oa_client :: string
  oa_subject :: string
  oa_scopes :: "string list"
  oa_issued :: time
  oa_expires :: time

record oidc_refresh =
  rf_value_hash :: string
  rf_id_hash :: string
  rf_client :: string
  rf_subject :: string
  rf_scopes :: "string list"
  rf_amr :: "string list"
  rf_audience :: "string list"
  rf_auth_time :: "time option"
  rf_nonce :: string
  rf_family :: string
  rf_issued :: time
  rf_expires :: time

record oidc_tombstone =
  ob_family :: string
  ob_id_hash :: string
  ob_client :: string
  ob_subject :: string
  ob_expires :: time

record oidc_device =
  od_hash :: string
  od_user_code :: string
  od_client :: string
  od_scopes :: "string list"
  od_expires :: time
  od_done :: bool
  od_denied :: bool
  od_subject :: string
  od_auth_time :: time
  od_last_poll :: time

text \<open>The generation counters: one for everything, one per client, one per subject.\<close>

datatype revocation_scope = GlobalScope | ClientScope string | SubjectScope string

type_synonym subject_index = "(string, string fset) fmap"

record oidc_store =
  os_requests :: "(string, auth_request) fmap"
  os_expiry :: "(string, time) fmap"
  os_codes :: "(string, code_record) fmap"
  os_codeByRequest :: subject_index
  os_access :: "(string, oidc_access) fmap"
  os_refresh :: "(string, oidc_refresh) fmap"
  os_tombstones :: "(string, oidc_tombstone) fmap"
  os_epochs :: "(revocation_scope, 64 word) fmap"
  os_devices :: "(string, oidc_device) fmap"
  os_userCodes :: "(string, string) fmap"
  os_accessBySubject :: subject_index
  os_refreshBySubject :: subject_index
  os_requestBySubject :: subject_index
  os_refreshByIDHash :: "(string, string) fmap"

record ('c, 'l) oidc_service =
  op_clients :: "'c client_registry"
  op_registry :: registry
  op_login :: "(string \<Rightarrow> string) option"
  op_audit :: "'l logger option"
  op_accessTTL :: duration
  op_refreshTTL :: duration
  op_requestTTL :: duration
  op_maxTombstones :: nat
  op_maxRequests :: nat
  op_maxDevices :: nat

record ('c, 'l) oidc_world =
  ow_clients :: 'c
  ow_store :: oidc_store
  ow_log :: 'l
  ow_tape :: tape

section \<open>Indexes\<close>

definition ix_keys :: "subject_index \<Rightarrow> string \<Rightarrow> string fset" where
  "ix_keys ix subject = (case fmlookup ix subject of None \<Rightarrow> {||} | Some keys \<Rightarrow> keys)"

definition ix_put :: "string \<Rightarrow> string \<Rightarrow> subject_index \<Rightarrow> subject_index" where
  "ix_put subject key ix = fmupd subject (finsert key (ix_keys ix subject)) ix"

definition ix_add :: "string \<Rightarrow> string \<Rightarrow> subject_index \<Rightarrow> subject_index" where
  "ix_add subject key ix = (if subject = [] then ix else ix_put subject key ix)"

definition ix_remove :: "string \<Rightarrow> string \<Rightarrow> subject_index \<Rightarrow> subject_index" where
  "ix_remove subject key ix =
     (case fmlookup ix subject of
        None \<Rightarrow> ix
      | Some keys \<Rightarrow>
          (let keys = keys |-| {|key|} in
           if keys = {||} then fmdrop subject ix else fmupd subject keys ix))"

section \<open>Indexed writes\<close>

definition putAccessLocked :: "string \<Rightarrow> oidc_access \<Rightarrow> oidc_store \<Rightarrow> oidc_store" where
  "putAccessLocked key t s =
     s\<lparr>os_access := fmupd key t (os_access s),
       os_accessBySubject := ix_add (oa_subject t) key (os_accessBySubject s)\<rparr>"

definition deleteAccessLocked :: "string \<Rightarrow> oidc_store \<Rightarrow> oidc_store" where
  "deleteAccessLocked key s =
     (case fmlookup (os_access s) key of
        None \<Rightarrow> s
      | Some t \<Rightarrow>
          s\<lparr>os_access := fmdrop key (os_access s),
            os_accessBySubject := ix_remove (oa_subject t) key (os_accessBySubject s)\<rparr>)"

definition putRefreshLocked :: "string \<Rightarrow> oidc_refresh \<Rightarrow> oidc_store \<Rightarrow> oidc_store" where
  "putRefreshLocked key t s =
     s\<lparr>os_refresh := fmupd key t (os_refresh s),
       os_refreshBySubject := ix_add (rf_subject t) key (os_refreshBySubject s),
       os_refreshByIDHash := fmupd (rf_id_hash t) key (os_refreshByIDHash s)\<rparr>"

definition deleteRefreshLocked :: "string \<Rightarrow> oidc_store \<Rightarrow> oidc_store" where
  "deleteRefreshLocked key s =
     (case fmlookup (os_refresh s) key of
        None \<Rightarrow> s
      | Some t \<Rightarrow>
          s\<lparr>os_refresh := fmdrop key (os_refresh s),
            os_refreshBySubject := ix_remove (rf_subject t) key (os_refreshBySubject s),
            os_refreshByIDHash :=
              (if fmlookup (os_refreshByIDHash s) (rf_id_hash t) = Some key
               then fmdrop (rf_id_hash t) (os_refreshByIDHash s) else os_refreshByIDHash s)\<rparr>)"

definition deleteRequestLocked :: "string \<Rightarrow> oidc_store \<Rightarrow> oidc_store" where
  "deleteRequestLocked ident s =
     (case fmlookup (os_requests s) ident of
        None \<Rightarrow> s
      | Some a \<Rightarrow>
          s\<lparr>os_requests := fmdrop ident (os_requests s), os_expiry := fmdrop ident (os_expiry s),
            os_requestBySubject := ix_remove (aq_subject a) ident (os_requestBySubject s)\<rparr>)"

definition removeCodeFromIndexLocked :: "string \<Rightarrow> string \<Rightarrow> oidc_store \<Rightarrow> oidc_store" where
  "removeCodeFromIndexLocked request key s =
     s\<lparr>os_codeByRequest := ix_remove request key (os_codeByRequest s)\<rparr>"

definition putCodeLocked :: "string \<Rightarrow> string \<Rightarrow> time \<Rightarrow> oidc_store \<Rightarrow> oidc_store" where
  "putCodeLocked key request expires s =
     (let s = (case fmlookup (os_codes s) key of
                 None \<Rightarrow> s
               | Some old \<Rightarrow> removeCodeFromIndexLocked (ck_request old) key s)
      in s\<lparr>os_codes := fmupd key \<lparr>ck_request = request, ck_expires = expires\<rparr> (os_codes s),
           os_codeByRequest := ix_put request key (os_codeByRequest s)\<rparr>)"

definition deleteCodeLocked :: "string \<Rightarrow> oidc_store \<Rightarrow> oidc_store" where
  "deleteCodeLocked key s =
     (case fmlookup (os_codes s) key of
        None \<Rightarrow> s
      | Some c \<Rightarrow> removeCodeFromIndexLocked (ck_request c) key (s\<lparr>os_codes := fmdrop key (os_codes s)\<rparr>))"

definition deleteCodesForRequestLocked :: "string \<Rightarrow> oidc_store \<Rightarrow> nat \<times> oidc_store" where
  "deleteCodesForRequestLocked request s =
     (let keys = ix_keys (os_codeByRequest s) request in
      if keys = {||} then (0, s)
      else (fcard keys,
            s\<lparr>os_codes := fold fmdrop (sorted_list_of_fset keys) (os_codes s),
              os_codeByRequest := fmdrop request (os_codeByRequest s)\<rparr>))"

section \<open>Candidate keys\<close>

definition accessKeysLocked :: "string \<Rightarrow> oidc_store \<Rightarrow> string list" where
  "accessKeysLocked subject s =
     (if subject = [] then fm_keys (os_access s)
      else sorted_list_of_fset (ix_keys (os_accessBySubject s) subject))"

definition refreshKeysLocked :: "string \<Rightarrow> oidc_store \<Rightarrow> string list" where
  "refreshKeysLocked subject s =
     (if subject = [] then fm_keys (os_refresh s)
      else sorted_list_of_fset (ix_keys (os_refreshBySubject s) subject))"

definition requestKeysLocked :: "string \<Rightarrow> oidc_store \<Rightarrow> string list" where
  "requestKeysLocked subject s =
     (if subject = [] then fm_keys (os_requests s)
      else sorted_list_of_fset (ix_keys (os_requestBySubject s) subject))"

definition refreshKeyByIDHashLocked :: "string \<Rightarrow> oidc_store \<Rightarrow> string option" where
  "refreshKeyByIDHashLocked idHash s = fmlookup (os_refreshByIDHash s) idHash"

section \<open>Revocation generations\<close>

definition epoch_of :: "revocation_scope \<Rightarrow> oidc_store \<Rightarrow> 64 word" where
  "epoch_of sc s = (case fmlookup (os_epochs s) sc of None \<Rightarrow> 0 | Some n \<Rightarrow> n)"

definition bump_scope :: "revocation_scope \<Rightarrow> oidc_store \<Rightarrow> oidc_store" where
  "bump_scope sc s = s\<lparr>os_epochs := fmupd sc (epoch_of sc s + 1) (os_epochs s)\<rparr>"

definition revocationEpochsLocked :: "string \<Rightarrow> string \<Rightarrow> oidc_store \<Rightarrow> generations" where
  "revocationEpochsLocked cid subject s =
     (epoch_of GlobalScope s,
      if cid = [] then 0 else epoch_of (ClientScope cid) s,
      if subject = [] then 0 else epoch_of (SubjectScope subject) s)"

definition bumpRevocationEpochsLocked :: "string \<Rightarrow> string \<Rightarrow> oidc_store \<Rightarrow> oidc_store" where
  "bumpRevocationEpochsLocked cid subject s =
     (if cid = [] \<and> subject = [] then bump_scope GlobalScope s
      else (let s = (if cid = [] then s else bump_scope (ClientScope cid) s)
            in if subject = [] then s else bump_scope (SubjectScope subject) s))"

section \<open>Construction\<close>

record ('c, 'l) oidc_options =
  oq_clients :: "'c client_registry option"
  oq_registry :: "registry option"
  oq_login :: "(string \<Rightarrow> string) option"
  oq_signer :: bool
  oq_audit :: "'l logger option"
  oq_requestTTL :: duration
  oq_maxTombstones :: int
  oq_maxRequests :: int
  oq_maxDevices :: int

definition defaultMaxRefreshTombstones :: nat where "defaultMaxRefreshTombstones = 2 ^ 16"
definition defaultMaxPendingAuthRequests :: nat where "defaultMaxPendingAuthRequests = 2 ^ 17"
definition defaultMaxPendingDeviceAuthorizations :: nat where "defaultMaxPendingDeviceAuthorizations = 2 ^ 15"

definition empty_oidc :: oidc_store where
  "empty_oidc =
     \<lparr>os_requests = fmempty, os_expiry = fmempty, os_codes = fmempty, os_codeByRequest = fmempty,
      os_access = fmempty, os_refresh = fmempty, os_tombstones = fmempty, os_epochs = fmempty,
      os_devices = fmempty, os_userCodes = fmempty, os_accessBySubject = fmempty,
      os_refreshBySubject = fmempty, os_requestBySubject = fmempty, os_refreshByIDHash = fmempty\<rparr>"

definition NewOIDCStore :: "('c, 'l) oidc_options \<Rightarrow> oidc_error + ('c, 'l) oidc_service \<times> oidc_store" where
  "NewOIDCStore opts =
     (case oq_clients opts of
        None \<Rightarrow> Inl (OPlain ''memory: OIDCStore: client registry is required'')
      | Some clients \<Rightarrow>
     (case oq_registry opts of
        None \<Rightarrow> Inl (OPlain ''memory: OIDCStore: scope registry is required'')
      | Some reg \<Rightarrow>
          if \<not> oq_signer opts then Inl (OPlain ''memory: OIDCStore: signer is required'')
          else Inr
            (\<lparr>op_clients = clients, op_registry = reg, op_login = oq_login opts, op_audit = oq_audit opts,
              op_accessTTL = hour, op_refreshTTL = 30 * 24 * hour,
              op_requestTTL = (if oq_requestTTL opts \<le> 0 then 30 * minute else oq_requestTTL opts),
              op_maxTombstones = (if oq_maxTombstones opts \<le> 0 then defaultMaxRefreshTombstones else nat (oq_maxTombstones opts)),
              op_maxRequests = (if oq_maxRequests opts \<le> 0 then defaultMaxPendingAuthRequests else nat (oq_maxRequests opts)),
              op_maxDevices = (if oq_maxDevices opts \<le> 0 then defaultMaxPendingDeviceAuthorizations else nat (oq_maxDevices opts))\<rparr>,
             empty_oidc)))"

section \<open>Audit events\<close>

definition op_event :: "string \<Rightarrow> string \<Rightarrow> string \<Rightarrow> (string \<times> string) list \<Rightarrow> audit_event" where
  "op_event action subject outcome detail =
     \<lparr>ev_time = 0, ev_action = action, ev_subject = subject, ev_provider = ''oidc'', ev_outcome = outcome,
      ev_detail = detail\<rparr>"

definition submit :: "('c, 'l) oidc_service \<Rightarrow> time \<Rightarrow> audit_event \<Rightarrow> ('c, 'l) oidc_world \<Rightarrow> ('c, 'l) oidc_world" where
  "submit sv now ev w =
     (case op_audit sv of
        None \<Rightarrow> w
      | Some lg \<Rightarrow> w\<lparr>ow_log := snd (lg_record lg now ev (ow_log w))\<rparr>)"

definition oidc_record ::
  "('c, 'l) oidc_service \<Rightarrow> time \<Rightarrow> string \<Rightarrow> string \<Rightarrow> string \<Rightarrow> string \<Rightarrow> ('c, 'l) oidc_world \<Rightarrow> ('c, 'l) oidc_world" where
  "oidc_record sv now action subject cid outcome = submit sv now (op_event action subject outcome [(''client_id'', cid)])"

definition recordConsent ::
  "('c, 'l) oidc_service \<Rightarrow> time \<Rightarrow> string \<Rightarrow> string \<Rightarrow> string \<Rightarrow> string list \<Rightarrow> string
   \<Rightarrow> ('c, 'l) oidc_world \<Rightarrow> ('c, 'l) oidc_world" where
  "recordConsent sv now action subject cid scopes outcome =
     submit sv now (op_event action subject outcome
       ((''client_id'', cid) # (if scopes = [] then [] else [(''scopes'', str_join '' '' scopes)])))"

section \<open>Authorization requests\<close>

text \<open>The wire request as the library hands it over.\<close>

record wire_request =
  wq_client :: string
  wq_redirect :: string
  wq_response_type :: string
  wq_response_mode :: string
  wq_scopes :: "string list"
  wq_state :: string
  wq_nonce :: string
  wq_challenge :: string
  wq_method :: string
  wq_prompt :: "string list"
  wq_max_age :: "nat option"

definition codeChallenge :: "string \<Rightarrow> string \<Rightarrow> (string \<times> string) option" where
  "codeChallenge challenge meth = (if challenge = [] then None else Some (challenge, meth))"

definition CreateAuthRequest ::
  "('c, 'l) oidc_service \<Rightarrow> time \<Rightarrow> wire_request \<Rightarrow> string \<Rightarrow> ('c, 'l) oidc_world
   \<Rightarrow> (oidc_error + auth_request) \<times> ('c, 'l) oidc_world" where
  "CreateAuthRequest sv now req userID w =
     (case RandomValue (ow_tape w) of
        (None, t) \<Rightarrow> (Inl ORandom, w\<lparr>ow_tape := t\<rparr>)
      | (Some ident, t) \<Rightarrow>
     (let w = w\<lparr>ow_tape := t\<rparr>; s = ow_store w in
      if fcard (fmdom (os_requests s)) \<ge> op_maxRequests sv then (Inl ErrPendingAuthRequestsFull, w)
      else (let a = \<lparr>aq_id = ident, aq_client = wq_client req, aq_redirect = wq_redirect req,
                     aq_response_type = wq_response_type req, aq_response_mode = wq_response_mode req,
                     aq_scopes = wq_scopes req, aq_state = wq_state req, aq_nonce = wq_nonce req,
                     aq_challenge = codeChallenge (wq_challenge req) (wq_method req), aq_subject = userID,
                     aq_done = False, aq_auth_time = None, aq_prompt = wq_prompt req,
                     aq_max_age = wq_max_age req\<rparr>
            in (Inr a, w\<lparr>ow_store := s\<lparr>os_requests := fmupd ident a (os_requests s),
                          os_expiry := fmupd ident (now + op_requestTTL sv) (os_expiry s),
                          os_requestBySubject := ix_add userID ident (os_requestBySubject s)\<rparr>\<rparr>))))"

text \<open>A missing deadline reads as the zero time.\<close>

definition expiry_of :: "string \<Rightarrow> oidc_store \<Rightarrow> time" where
  "expiry_of ident s = (case fmlookup (os_expiry s) ident of None \<Rightarrow> 0 | Some t \<Rightarrow> t)"

definition AuthRequestByID :: "time \<Rightarrow> string \<Rightarrow> oidc_store \<Rightarrow> oidc_error + auth_request" where
  "AuthRequestByID now ident s =
     (case fmlookup (os_requests s) ident of
        None \<Rightarrow> Inl (ErrRequestExpired ''memory: auth request not found'')
      | Some a \<Rightarrow>
          if \<not> now < expiry_of ident s then Inl (ErrRequestExpired ''memory: auth request is unknown or expired'')
          else Inr a)"

definition AuthRequestByCode ::
  "time \<Rightarrow> op_context \<Rightarrow> string \<Rightarrow> oidc_store \<Rightarrow> (oidc_error + auth_request) \<times> op_context \<times> oidc_store" where
  "AuthRequestByCode now ctx code s =
     (let key = TokenHash code; unknown = (Inl (OPlain ''memory: authorization code is unknown or expired''), ctx, s) in
      case fmlookup (os_codes s) key of
        None \<Rightarrow> unknown
      | Some c \<Rightarrow>
          if \<not> now < ck_expires c then unknown
          else (case fmlookup (os_requests s) (ck_request c) of
              None \<Rightarrow> (Inl (OPlain ''memory: auth request not found''), ctx, s)
            | Some a \<Rightarrow>
                (Inr a, CaptureRevocationEpochs ctx (revocationEpochsLocked (aq_client a) (aq_subject a) s),
                 deleteRequestLocked (ck_request c) (deleteCodeLocked key s))))"

definition SaveAuthCode :: "('c, 'l) oidc_service \<Rightarrow> time \<Rightarrow> string \<Rightarrow> string \<Rightarrow> oidc_store \<Rightarrow> oidc_store" where
  "SaveAuthCode sv now ident code s = putCodeLocked (TokenHash code) ident (now + op_requestTTL sv) s"

definition DeleteAuthRequest ::
  "('c, 'l) oidc_service \<Rightarrow> time \<Rightarrow> string \<Rightarrow> ('c, 'l) oidc_world \<Rightarrow> ('c, 'l) oidc_world" where
  "DeleteAuthRequest sv now ident w =
     (let s = ow_store w;
          w' = w\<lparr>ow_store := snd (deleteCodesForRequestLocked ident (deleteRequestLocked ident s))\<rparr>
      in case fmlookup (os_requests s) ident of
           None \<Rightarrow> w'
         | Some a \<Rightarrow>
             if aq_done a then w'
             else recordConsent sv now ''oidc.consent.deny'' (aq_subject a) (aq_client a) [] OutcomeDenied w')"

section \<open>Minting\<close>

definition new_access :: "('c, 'l) oidc_service \<Rightarrow> time \<Rightarrow> token_request \<Rightarrow> string \<Rightarrow> oidc_access" where
  "new_access sv now req ident =
     \<lparr>oa_id = ident, oa_client = ClientIDOf req, oa_subject = tq_subject req,
      oa_scopes = WithoutOfflineAccess (tq_scopes req), oa_issued = now, oa_expires = now + op_accessTTL sv\<rparr>"

definition CreateAccessToken ::
  "('c, 'l) oidc_service \<Rightarrow> time \<Rightarrow> token_request \<Rightarrow> ('c, 'l) oidc_world
   \<Rightarrow> (oidc_error + string \<times> time) \<times> ('c, 'l) oidc_world" where
  "CreateAccessToken sv now req w =
     (case RandomValue (ow_tape w) of
        (None, t) \<Rightarrow> (Inl ORandom, w\<lparr>ow_tape := t\<rparr>)
      | (Some ident, t) \<Rightarrow>
          (let a = new_access sv now req ident in
           (Inr (ident, oa_expires a),
            oidc_record sv now ''oidc.token'' (tq_subject req) (oa_client a) OutcomeOK
              (w\<lparr>ow_tape := t, ow_store := putAccessLocked (TokenHash ident) a (ow_store w)\<rparr>))))"

definition new_refresh ::
  "('c, 'l) oidc_service \<Rightarrow> time \<Rightarrow> token_request \<Rightarrow> string \<Rightarrow> string \<Rightarrow> string \<Rightarrow> oidc_refresh" where
  "new_refresh sv now req accessID value family =
     \<lparr>rf_value_hash = TokenHash value, rf_id_hash = TokenHash accessID, rf_client = ClientIDOf req,
      rf_subject = tq_subject req, rf_scopes = WithoutOfflineAccess (tq_scopes req),
      rf_amr = (case tq_amr req of None \<Rightarrow> [] | Some l \<Rightarrow> l),
      rf_audience = (case tq_audience req of None \<Rightarrow> [] | Some l \<Rightarrow> l),
      rf_auth_time = (case tq_auth_time req of None \<Rightarrow> None | Some t \<Rightarrow> if is_zero t then None else Some t),
      rf_nonce = NonceOf req, rf_family = family, rf_issued = now, rf_expires = now + op_refreshTTL sv\<rparr>"

text \<open>Deleting a tombstone with the access token it names.\<close>

definition drop_tombstone :: "string \<Rightarrow> oidc_tombstone \<Rightarrow> oidc_store \<Rightarrow> oidc_store" where
  "drop_tombstone k ts s = (deleteAccessLocked (ob_id_hash ts) s)\<lparr>os_tombstones := fmdrop k (os_tombstones s)\<rparr>"

definition drop_generation :: "string \<Rightarrow> oidc_refresh \<Rightarrow> oidc_store \<Rightarrow> oidc_store" where
  "drop_generation k t s = deleteAccessLocked (rf_id_hash t) (deleteRefreshLocked k s)"

definition revokeFamilyLocked :: "string \<Rightarrow> oidc_store \<Rightarrow> oidc_store" where
  "revokeFamilyLocked family s =
     (if family = [] then s
      else (let s = snd (drop_each (\<lambda>s. fmlookup (os_refresh s)) drop_generation (\<lambda>t. rf_family t = family)
                           (fm_keys (os_refresh s)) s)
            in snd (drop_each (\<lambda>s. fmlookup (os_tombstones s)) drop_tombstone (\<lambda>ts. ob_family ts = family)
                      (fm_keys (os_tombstones s)) s)))"

definition evict_tombstone ::
  "nat \<Rightarrow> ((string, oidc_tombstone) fmap \<Rightarrow> string) \<Rightarrow> string \<Rightarrow> (string, oidc_tombstone) fmap
   \<Rightarrow> (string, oidc_tombstone) fmap" where
  "evict_tombstone limit pick spent m =
     (if fmlookup m spent = None \<and> fcard (fmdom m) \<ge> limit \<and> m \<noteq> fmempty then fmdrop (pick m) m else m)"

definition family_of :: "string \<Rightarrow> oidc_refresh \<Rightarrow> string" where
  "family_of spent held = (if rf_family held = [] then spent else rf_family held)"

definition spend_refresh ::
  "nat \<Rightarrow> ((string, oidc_tombstone) fmap \<Rightarrow> string) \<Rightarrow> string \<Rightarrow> oidc_refresh \<Rightarrow> oidc_store \<Rightarrow> oidc_store" where
  "spend_refresh limit pick spent held s =
     deleteRefreshLocked spent
       (s\<lparr>os_tombstones :=
            fmupd spent \<lparr>ob_family = family_of spent held, ob_id_hash = rf_id_hash held, ob_client = rf_client held,
                         ob_subject = rf_subject held, ob_expires = rf_expires held\<rparr>
              (evict_tombstone limit pick spent (os_tombstones s))\<rparr>)"

text \<open>The claim on the presented token, or the family of a first mint.\<close>

definition claim_refresh ::
  "('c, 'l) oidc_service \<Rightarrow> ((string, oidc_tombstone) fmap \<Rightarrow> string) \<Rightarrow> string \<Rightarrow> ('c, 'l) oidc_world
   \<Rightarrow> (oidc_error + string) \<times> ('c, 'l) oidc_world" where
  "claim_refresh sv pick current w =
     (let s = ow_store w; spent = TokenHash current in
      if current \<noteq> [] then
        (case fmlookup (os_refresh s) spent of
           None \<Rightarrow>
             (Inl ErrRefreshTokenSpent,
              w\<lparr>ow_store := (case fmlookup (os_tombstones s) spent of
                              None \<Rightarrow> s
                            | Some ts \<Rightarrow> revokeFamilyLocked (ob_family ts) s)\<rparr>)
         | Some held \<Rightarrow>
             (Inr (family_of spent held), w\<lparr>ow_store := spend_refresh (op_maxTombstones sv) pick spent held s\<rparr>))
      else (case RandomValue (ow_tape w) of
              (None, t) \<Rightarrow> (Inl ORandom, w\<lparr>ow_tape := t\<rparr>)
            | (Some family, t) \<Rightarrow> (Inr family, w\<lparr>ow_tape := t\<rparr>)))"

text \<open>The re-check of the generations and the two writes.\<close>

definition write_pair ::
  "('c, 'l) oidc_service \<Rightarrow> time \<Rightarrow> op_context \<Rightarrow> token_request \<Rightarrow> string \<Rightarrow> string \<Rightarrow> string \<Rightarrow> ('c, 'l) oidc_world
   \<Rightarrow> (oidc_error + string \<times> string \<times> time) \<times> ('c, 'l) oidc_world" where
  "write_pair sv now ctx req accessID value family w =
     (let s = ow_store w; a = new_access sv now req accessID in
      if \<not> RevocationUnchanged ctx (revocationEpochsLocked (oa_client a) (oa_subject a) s)
      then (Inl ErrGrantRevokedInFlight, w)
      else (Inr (accessID, value, oa_expires a),
            oidc_record sv now ''oidc.token'' (tq_subject req) (oa_client a) OutcomeOK
              (w\<lparr>ow_store := putRefreshLocked (TokenHash value) (new_refresh sv now req accessID value family)
                               (putAccessLocked (TokenHash accessID) a s)\<rparr>)))"

definition CreateAccessAndRefreshTokens ::
  "('c, 'l) oidc_service \<Rightarrow> ((string, oidc_tombstone) fmap \<Rightarrow> string) \<Rightarrow> time \<Rightarrow> op_context \<Rightarrow> token_request \<Rightarrow> string
   \<Rightarrow> ('c, 'l) oidc_world \<Rightarrow> (oidc_error + string \<times> string \<times> time) \<times> ('c, 'l) oidc_world" where
  "CreateAccessAndRefreshTokens sv pick now ctx req current w =
     (case RandomValue (ow_tape w) of
        (None, t) \<Rightarrow> (Inl ORandom, w\<lparr>ow_tape := t\<rparr>)
      | (Some accessID, t) \<Rightarrow>
     (case RandomValue t of
        (None, t) \<Rightarrow> (Inl ORandom, w\<lparr>ow_tape := t\<rparr>)
      | (Some value, t) \<Rightarrow>
     (case claim_refresh sv pick current (w\<lparr>ow_tape := t\<rparr>) of
        (Inl e, w) \<Rightarrow> (Inl e, w)
      | (Inr family, w) \<Rightarrow> write_pair sv now ctx req accessID value family w)))"

definition TokenRequestByRefreshToken ::
  "time \<Rightarrow> op_context \<Rightarrow> string \<Rightarrow> oidc_store \<Rightarrow> (oidc_error + oidc_refresh_request) \<times> op_context \<times> oidc_store" where
  "TokenRequestByRefreshToken now ctx value s =
     (let spent = TokenHash value;
          refused = (case fmlookup (os_tombstones s) spent of
                       Some ts \<Rightarrow>
                         if now < ob_expires ts
                         then (Inl ErrRefreshTokenSpent, ctx, revokeFamilyLocked (ob_family ts) s)
                         else (Inl (OAuthErr ErrTokenNotFound), ctx, s)
                     | None \<Rightarrow> (Inl (OAuthErr ErrTokenNotFound), ctx, s))
      in case fmlookup (os_refresh s) spent of
           None \<Rightarrow> refused
         | Some r \<Rightarrow>
             if \<not> now < rf_expires r then refused
             else (Inr \<lparr>rx_id_hash = rf_id_hash r, rx_client = rf_client r, rx_subject = rf_subject r,
                        rx_scopes = rf_scopes r, rx_amr = rf_amr r, rx_audience = rf_audience r,
                        rx_auth_time = rf_auth_time r, rx_nonce = rf_nonce r\<rparr>,
                   CaptureRevocationEpochs ctx (revocationEpochsLocked (rf_client r) (rf_subject r) s), s))"

section \<open>Revocation of single tokens\<close>

definition TerminateSession :: "string \<Rightarrow> string \<Rightarrow> oidc_store \<Rightarrow> oidc_store" where
  "TerminateSession user cid s =
     (let s = snd (drop_each (\<lambda>s. fmlookup (os_access s)) (\<lambda>k _. deleteAccessLocked k) (\<lambda>t. oa_client t = cid)
                     (sorted_list_of_fset (ix_keys (os_accessBySubject s) user)) s);
          s = snd (drop_each (\<lambda>s. fmlookup (os_refresh s)) (\<lambda>k _. deleteRefreshLocked k) (\<lambda>t. rf_client t = cid)
                     (sorted_list_of_fset (ix_keys (os_refreshBySubject s) user)) s)
      in snd (drop_each (\<lambda>s. fmlookup (os_tombstones s)) drop_tombstone
                (\<lambda>ts. ob_subject ts = user \<and> ob_client ts = cid) (fm_keys (os_tombstones s)) s))"

definition forget_spent :: "string \<Rightarrow> oidc_store \<Rightarrow> oidc_store" where
  "forget_spent h s = s\<lparr>os_tombstones := fm_drop_where (\<lambda>ts. ob_id_hash ts = h) (os_tombstones s)\<rparr>"

text \<open>\<^verbatim>\<open>RevokeToken\<close> answers success in every case; whether it deleted is whether it recorded.\<close>

definition revoke_token_store :: "string \<Rightarrow> string \<Rightarrow> oidc_store \<Rightarrow> bool \<times> oidc_store" where
  "revoke_token_store h cid s =
     (case fmlookup (os_access s) h of
        Some t \<Rightarrow>
          if oa_client t \<noteq> cid then (False, s)
          else (let s = deleteAccessLocked h s;
                    s = (case refreshKeyByIDHashLocked h s of None \<Rightarrow> s | Some k \<Rightarrow> deleteRefreshLocked k s)
                in (True, forget_spent h s))
      | None \<Rightarrow>
     (case refreshKeyByIDHashLocked h s of
        Some key \<Rightarrow>
          if (case fmlookup (os_refresh s) key of None \<Rightarrow> False | Some t \<Rightarrow> rf_client t \<noteq> cid) then (False, s)
          else (True, forget_spent h (deleteAccessLocked h (deleteRefreshLocked key s)))
      | None \<Rightarrow>
     (case fmlookup (os_refresh s) h of
        Some t \<Rightarrow>
          if rf_client t \<noteq> cid then (False, s)
          else (let s = deleteAccessLocked (rf_id_hash t) (deleteRefreshLocked h s)
                in (True, s\<lparr>os_tombstones := fmdrop h (os_tombstones s)\<rparr>))
      | None \<Rightarrow> (False, s))))"

definition RevokeToken ::
  "('c, 'l) oidc_service \<Rightarrow> time \<Rightarrow> string \<Rightarrow> string \<Rightarrow> string \<Rightarrow> ('c, 'l) oidc_world \<Rightarrow> ('c, 'l) oidc_world" where
  "RevokeToken sv now token user cid w =
     (case revoke_token_store (TokenHash token) cid (ow_store w) of
        (deleted, s) \<Rightarrow>
          let w = w\<lparr>ow_store := s\<rparr> in
          if deleted then oidc_record sv now ''oidc.revoke'' user cid OutcomeOK w else w)"

definition GetRefreshTokenInfo :: "string \<Rightarrow> string \<Rightarrow> oidc_store \<Rightarrow> oidc_error + string \<times> string" where
  "GetRefreshTokenInfo cid token s =
     (case fmlookup (os_refresh s) (TokenHash token) of
        None \<Rightarrow> Inl ErrInvalidRefreshToken
      | Some t \<Rightarrow> if rf_client t \<noteq> cid then Inl ErrInvalidRefreshToken else Inr (rf_subject t, token))"

section \<open>Clients and claims\<close>

definition GetClientByClientID ::
  "('c, 'l) oidc_service \<Rightarrow> ('c, 'l) oidc_world \<Rightarrow> string \<Rightarrow> oidc_error + provider_client" where
  "GetClientByClientID sv w cid =
     (case reg_get (op_clients sv) (ow_clients w) cid of
        Inl e \<Rightarrow> Inl (if errors_is e ErrClientNotFound then ErrInvalidClient [] else OAuthErr e)
      | Inr c \<Rightarrow>
          Inr \<lparr>pv_client = c, pv_registry = Some (op_registry sv),
               pv_login = Some (case op_login sv of
                                  None \<Rightarrow> (\<lambda>ident. ''/login?authRequestID='' @ ident)
                                | Some f \<Rightarrow> f)\<rparr>)"

definition AuthorizeClientIDSecret ::
  "('c, 'l) oidc_service \<Rightarrow> ('c, 'l) oidc_world \<Rightarrow> string \<Rightarrow> string \<Rightarrow> oidc_error option" where
  "AuthorizeClientIDSecret sv w cid secret =
     (case reg_get (op_clients sv) (ow_clients w) cid of
        Inl e \<Rightarrow> Some (if errors_is e ErrClientNotFound then ErrInvalidClient [] else OAuthErr e)
      | Inr c \<Rightarrow>
          if c_type c = ClientConfidential \<and> \<not> Authenticate c secret
          then Some (ErrInvalidClient ''invalid client secret'') else None)"

text \<open>User info: the subject and the claims.\<close>

record user_info =
  ui_subject :: string
  ui_claims :: "(string, string) fmap"

definition SetUserinfoFromScopes :: "string \<Rightarrow> user_info \<Rightarrow> user_info" where
  "SetUserinfoFromScopes user ui = ui\<lparr>ui_subject := user\<rparr>"

definition SetUserinfoFromRequest :: "token_request \<Rightarrow> user_info \<Rightarrow> user_info" where
  "SetUserinfoFromRequest req ui =
     (if NonceOf req = [] then ui else ui\<lparr>ui_claims := fmupd ''nonce'' (NonceOf req) (ui_claims ui)\<rparr>)"

definition SetUserinfoFromToken ::
  "time \<Rightarrow> string \<Rightarrow> string \<Rightarrow> oidc_store \<Rightarrow> user_info \<Rightarrow> oidc_error + user_info" where
  "SetUserinfoFromToken now tokenID subject s ui =
     (if tokenID = [] then Inl errNotAnAccessToken
      else (case fmlookup (os_access s) (TokenHash tokenID) of
          None \<Rightarrow> Inl errNotAnAccessToken
        | Some t \<Rightarrow>
            if oa_subject t = subject \<and> now < oa_expires t then Inr (ui\<lparr>ui_subject := oa_subject t\<rparr>)
            else Inl errNotAnAccessToken))"

record introspection =
  is_active :: bool
  is_subject :: string
  is_client :: string
  is_scopes :: "string list"
  is_expires :: time

definition SetIntrospectionFromToken ::
  "time \<Rightarrow> string \<Rightarrow> string \<Rightarrow> oidc_store \<Rightarrow> oidc_error + introspection" where
  "SetIntrospectionFromToken now tokenID subject s =
     (case fmlookup (os_access s) (TokenHash tokenID) of
        None \<Rightarrow> Inl (OAuthErr ErrTokenNotFound)
      | Some t \<Rightarrow>
          if \<not> now < oa_expires t then Inl (OAuthErr ErrTokenNotFound)
          else Inr \<lparr>is_active = True, is_subject = subject, is_client = oa_client t, is_scopes = oa_scopes t,
                    is_expires = oa_expires t\<rparr>)"

section \<open>Device authorizations\<close>

definition normalizeUserCode :: "string \<Rightarrow> string" where
  "normalizeUserCode code = to_upper (filter (\<lambda>c. c \<noteq> CHR ''-'') code)"

definition DefaultDevicePollInterval :: duration where "DefaultDevicePollInterval = 5 * second"

definition drop_device :: "string \<Rightarrow> oidc_device \<Rightarrow> oidc_store \<Rightarrow> oidc_store" where
  "drop_device h d s =
     s\<lparr>os_devices := fmdrop h (os_devices s),
       os_userCodes := fmdrop (normalizeUserCode (od_user_code d)) (os_userCodes s)\<rparr>"

definition claim_user_code :: "time \<Rightarrow> string \<Rightarrow> oidc_store \<Rightarrow> oidc_store option" where
  "claim_user_code now key s =
     (case fmlookup (os_userCodes s) key of
        None \<Rightarrow> Some s
      | Some h \<Rightarrow>
          if (case fmlookup (os_devices s) h of None \<Rightarrow> True | Some rec \<Rightarrow> now < od_expires rec) then None
          else Some (s\<lparr>os_devices := fmdrop h (os_devices s), os_userCodes := fmdrop key (os_userCodes s)\<rparr>))"

definition StoreDeviceAuthorization ::
  "('c, 'l) oidc_service \<Rightarrow> time \<Rightarrow> string \<Rightarrow> string \<Rightarrow> string \<Rightarrow> time \<Rightarrow> string list \<Rightarrow> oidc_store
   \<Rightarrow> oidc_error option \<times> oidc_store" where
  "StoreDeviceAuthorization sv now cid deviceCode userCode expires scopes s =
     (let key = normalizeUserCode userCode in
      case claim_user_code now key s of
        None \<Rightarrow> (Some ErrDuplicateUserCode, s)
      | Some s \<Rightarrow>
     (let h = TokenHash deviceCode in
      if fmlookup (os_devices s) h = None \<and> fcard (fmdom (os_devices s)) \<ge> op_maxDevices sv
      then (Some ErrPendingDeviceAuthorizationsFull, s)
      else (None,
            s\<lparr>os_devices := fmupd h \<lparr>od_hash = h, od_user_code = userCode, od_client = cid, od_scopes = scopes,
                                      od_expires = expires, od_done = False, od_denied = False, od_subject = [],
                                      od_auth_time = 0, od_last_poll = 0\<rparr> (os_devices s),
              os_userCodes := fmupd key h (os_userCodes s)\<rparr>)))"

record device_state =
  dz_client :: string
  dz_scopes :: "string list"
  dz_expires :: time
  dz_done :: bool
  dz_denied :: bool
  dz_subject :: string
  dz_auth_time :: time

definition device_state_of :: "oidc_device \<Rightarrow> device_state" where
  "device_state_of d =
     \<lparr>dz_client = od_client d, dz_scopes = od_scopes d, dz_expires = od_expires d, dz_done = od_done d,
      dz_denied = od_denied d, dz_subject = od_subject d, dz_auth_time = od_auth_time d\<rparr>"

definition GetDeviceAuthorizatonState ::
  "time \<Rightarrow> op_context \<Rightarrow> string \<Rightarrow> string \<Rightarrow> oidc_store \<Rightarrow> (oidc_error + device_state) \<times> op_context \<times> oidc_store" where
  "GetDeviceAuthorizatonState now ctx cid deviceCode s =
     (let h = TokenHash deviceCode; none = (Inl (OPlain ''memory: device authorization not found''), ctx, s) in
      case fmlookup (os_devices s) h of
        None \<Rightarrow> none
      | Some d \<Rightarrow>
          if od_client d \<noteq> cid then none
          else (let polled = s\<lparr>os_devices := fmupd h (d\<lparr>od_last_poll := now\<rparr>) (os_devices s)\<rparr>; st = device_state_of d in
            if \<not> od_done d \<and> \<not> od_denied d \<and> \<not> is_zero (od_last_poll d)
                 \<and> now < od_last_poll d + DefaultDevicePollInterval
            then (Inl DeadlineExceeded, ctx, polled)
            else if od_done d \<and> \<not> od_denied d
            then (Inr (if \<not> now < od_expires d then st\<lparr>dz_done := False\<rparr> else st),
                  CaptureRevocationEpochs ctx (revocationEpochsLocked (od_client d) (od_subject d) s),
                  drop_device h d s)
            else (Inr st, ctx, polled)))"

definition purgeExpiredDevicesLocked :: "time \<Rightarrow> oidc_store \<Rightarrow> nat \<times> oidc_store" where
  "purgeExpiredDevicesLocked now s =
     drop_each (\<lambda>s. fmlookup (os_devices s)) drop_device (\<lambda>d. od_expires d < now) (fm_keys (os_devices s)) s"

section \<open>The sweep\<close>

text \<open>The first loop ranges over the deadlines and deletes the request of each.\<close>

definition oidc_SweepExpired :: "time \<Rightarrow> oidc_store \<Rightarrow> nat \<times> oidc_store" where
  "oidc_SweepExpired now s =
     (let (n1, s) = drop_each (\<lambda>s. fmlookup (os_expiry s)) (\<lambda>k _. deleteRequestLocked k) (\<lambda>t. t < now)
                      (fm_keys (os_expiry s)) s;
          (n2, s) = drop_each (\<lambda>s. fmlookup (os_codes s)) (\<lambda>k _. deleteCodeLocked k) (\<lambda>c. ck_expires c < now)
                      (fm_keys (os_codes s)) s;
          (n3, s) = drop_each (\<lambda>s. fmlookup (os_access s)) (\<lambda>k _. deleteAccessLocked k) (\<lambda>t. \<not> now < oa_expires t)
                      (fm_keys (os_access s)) s;
          (n4, s) = drop_each (\<lambda>s. fmlookup (os_refresh s)) (\<lambda>k _. deleteRefreshLocked k) (\<lambda>t. \<not> now < rf_expires t)
                      (fm_keys (os_refresh s)) s;
          n5 = fm_count (\<lambda>ts. \<not> now < ob_expires ts) (os_tombstones s);
          s = s\<lparr>os_tombstones := fm_drop_where (\<lambda>ts. \<not> now < ob_expires ts) (os_tombstones s)\<rparr>;
          (n6, s) = purgeExpiredDevicesLocked now s
      in (n1 + n2 + n3 + n4 + n5 + n6, s))"

record oidc_counts =
  ct_requests :: nat
  ct_codes :: nat
  ct_access :: nat
  ct_refresh :: nat
  ct_tombstones :: nat
  ct_devices :: nat

definition oidc_Counts :: "oidc_store \<Rightarrow> oidc_counts" where
  "oidc_Counts s =
     \<lparr>ct_requests = fcard (fmdom (os_requests s)), ct_codes = fcard (fmdom (os_codes s)),
      ct_access = fcard (fmdom (os_access s)), ct_refresh = fcard (fmdom (os_refresh s)),
      ct_tombstones = fcard (fmdom (os_tombstones s)), ct_devices = fcard (fmdom (os_devices s))\<rparr>"

definition oidc_Records :: "oidc_counts \<Rightarrow> nat" where
  "oidc_Records c = ct_requests c + ct_codes c + ct_access c + ct_refresh c + ct_tombstones c + ct_devices c"

section \<open>Consent\<close>

definition SetAuthTime :: "string \<Rightarrow> time \<Rightarrow> oidc_store \<Rightarrow> oidc_error option \<times> oidc_store" where
  "SetAuthTime ident at s =
     (case fmlookup (os_requests s) ident of
        None \<Rightarrow> (Some (OPlain ''memory: auth request not found''), s)
      | Some a \<Rightarrow> (None, s\<lparr>os_requests := fmupd ident (a\<lparr>aq_auth_time := Some at\<rparr>) (os_requests s)\<rparr>))"

definition CompleteLogin ::
  "('c, 'l) oidc_service \<Rightarrow> time \<Rightarrow> string \<Rightarrow> string \<Rightarrow> string list \<Rightarrow> ('c, 'l) oidc_world
   \<Rightarrow> oidc_error option \<times> ('c, 'l) oidc_world" where
  "CompleteLogin sv now ident subject scopes w =
     (let s = ow_store w in
      case fmlookup (os_requests s) ident of
        None \<Rightarrow> (Some (OPlain ''memory: auth request not found''), w)
      | Some a \<Rightarrow>
          if RequiresReauthentication a now then (Some ErrReauthenticationRequired, w)
          else (let a' = a\<lparr>aq_subject := subject, aq_scopes := scopes, aq_done := True,
                           aq_auth_time := (case aq_auth_time a of None \<Rightarrow> Some now | Some t \<Rightarrow> Some t)\<rparr>;
                    ix = os_requestBySubject s
                in (None,
                    recordConsent sv now ''oidc.consent.approve'' subject (aq_client a) scopes OutcomeOK
                      (w\<lparr>ow_store := s\<lparr>os_requests := fmupd ident a' (os_requests s),
                          os_requestBySubject :=
                            (if aq_subject a = subject then ix else ix_add subject ident (ix_remove (aq_subject a) ident ix))\<rparr>\<rparr>))))"

definition DeviceByUserCode :: "string \<Rightarrow> oidc_store \<Rightarrow> oidc_error + device_state" where
  "DeviceByUserCode userCode s =
     (case fmlookup (os_userCodes s) (normalizeUserCode userCode) of
        None \<Rightarrow> Inl (OPlain ''memory: device authorization not found'')
      | Some h \<Rightarrow>
          (case fmlookup (os_devices s) h of
             None \<Rightarrow> Inl (OPlain ''memory: device authorization not found'')
           | Some d \<Rightarrow> Inr (device_state_of d)))"

text \<open>Reading a missing entry of a Go map gives the zero record.\<close>

definition zero_device :: oidc_device where
  "zero_device = \<lparr>od_hash = [], od_user_code = [], od_client = [], od_scopes = [], od_expires = 0, od_done = False,
     od_denied = False, od_subject = [], od_auth_time = 0, od_last_poll = 0\<rparr>"

definition device_at :: "string \<Rightarrow> oidc_store \<Rightarrow> oidc_device" where
  "device_at h s = (case fmlookup (os_devices s) h of None \<Rightarrow> zero_device | Some d \<Rightarrow> d)"

definition approveDevice ::
  "('c, 'l) oidc_service \<Rightarrow> time \<Rightarrow> string \<Rightarrow> string \<Rightarrow> string list option \<Rightarrow> ('c, 'l) oidc_world
   \<Rightarrow> oidc_error option \<times> ('c, 'l) oidc_world" where
  "approveDevice sv now userCode subject scopes w =
     (let s = ow_store w in
      case fmlookup (os_userCodes s) (normalizeUserCode userCode) of
        None \<Rightarrow> (Some (OAuthErr ErrDeviceNotFound), w)
      | Some h \<Rightarrow>
          (let d = device_at h s in
           if od_done d \<or> od_denied d \<or> \<not> now < od_expires d then (Some (OAuthErr ErrDeviceNotFound), w)
           else (let d = d\<lparr>od_done := True, od_subject := subject, od_auth_time := now,
                           od_scopes := (case scopes of None \<Rightarrow> od_scopes d | Some ss \<Rightarrow> ss)\<rparr>
                 in (None, recordConsent sv now ''oidc.device.approve'' subject (od_client d) (od_scopes d) OutcomeOK
                             (w\<lparr>ow_store := s\<lparr>os_devices := fmupd h d (os_devices s)\<rparr>\<rparr>)))))"

definition DenyDevice ::
  "('c, 'l) oidc_service \<Rightarrow> time \<Rightarrow> string \<Rightarrow> string \<Rightarrow> ('c, 'l) oidc_world
   \<Rightarrow> oidc_error option \<times> ('c, 'l) oidc_world" where
  "DenyDevice sv now userCode subject w =
     (let s = ow_store w in
      case fmlookup (os_userCodes s) (normalizeUserCode userCode) of
        None \<Rightarrow> (Some (OAuthErr ErrDeviceNotFound), w)
      | Some h \<Rightarrow>
          (let d = device_at h s in
           if od_denied d then (Some (OAuthErr ErrDeviceNotFound), w)
           else (None, oidc_record sv now ''oidc.device.deny'' subject (od_client d) OutcomeDenied
                         (w\<lparr>ow_store := s\<lparr>os_devices := fmupd h (d\<lparr>od_denied := True\<rparr>) (os_devices s)\<rparr>\<rparr>))))"

section \<open>Grants\<close>

definition appendScopeUnique :: "scope list \<Rightarrow> scope \<Rightarrow> scope list" where
  "appendScopeUnique dst sc = (if List.member dst sc then dst else dst @ [sc])"

record live_token =
  lt_client :: string
  lt_scopes :: "string list"
  lt_issued :: time
  lt_expires :: time
  lt_refresh :: bool

definition collect :: "time \<Rightarrow> live_token \<Rightarrow> (string, grant) fmap \<Rightarrow> (string, grant) fmap" where
  "collect now t byClient =
     (if \<not> now < lt_expires t then byClient
      else (let g = (case fmlookup byClient (lt_client t) of
                       Some g \<Rightarrow> g
                     | None \<Rightarrow> \<lparr>g_client = lt_client t, g_name = [], g_scopes = [], HasRefresh = False,
                                g_issued = lt_issued t, g_expires = lt_expires t\<rparr>)
            in fmupd (lt_client t)
                 (g\<lparr>g_scopes := fold (\<lambda>sc dst. if sc = ScopeOfflineAccess then dst else appendScopeUnique dst sc)
                                  (lt_scopes t) (g_scopes g),
                    g_issued := (if lt_issued t < g_issued g then lt_issued t else g_issued g),
                    g_expires := (if g_expires g < lt_expires t then lt_expires t else g_expires g),
                    HasRefresh := (HasRefresh g \<or> lt_refresh t)\<rparr>) byClient))"

definition access_live :: "oidc_access \<Rightarrow> live_token" where
  "access_live t = \<lparr>lt_client = oa_client t, lt_scopes = oa_scopes t, lt_issued = oa_issued t, lt_expires = oa_expires t,
     lt_refresh = False\<rparr>"

definition refresh_live :: "oidc_refresh \<Rightarrow> live_token" where
  "refresh_live t = \<lparr>lt_client = rf_client t, lt_scopes = rf_scopes t, lt_issued = rf_issued t, lt_expires = rf_expires t,
     lt_refresh = True\<rparr>"

definition subject_tokens :: "string \<Rightarrow> oidc_store \<Rightarrow> live_token list" where
  "subject_tokens subject s =
     map access_live (List.map_filter (fmlookup (os_access s))
       (sorted_list_of_fset (ix_keys (os_accessBySubject s) subject)))
     @ map refresh_live (List.map_filter (fmlookup (os_refresh s))
       (sorted_list_of_fset (ix_keys (os_refreshBySubject s) subject)))"

definition oidc_Grants ::
  "('c, 'l) oidc_service \<Rightarrow> time \<Rightarrow> string \<Rightarrow> ('c, 'l) oidc_world \<Rightarrow> oidc_error + grant list" where
  "oidc_Grants sv now subject w =
     (if subject = [] then Inl (OPlain ''memory: subject is required'')
      else (let byClient = fold (collect now) (subject_tokens subject (ow_store w)) fmempty;
                names = LookupClientNames (op_clients sv) (ow_clients w) (fm_keys byClient)
            in Inr (sort_key g_client
                 (map (\<lambda>g. g\<lparr>g_name := (case fmlookup names (g_client g) of None \<Rightarrow> [] | Some n \<Rightarrow> n),
                              g_scopes := sort (g_scopes g)\<rparr>) (fm_values byClient)))))"

section \<open>Revoking grants and subjects\<close>

definition drop_request :: "string \<Rightarrow> auth_request \<Rightarrow> oidc_store \<Rightarrow> oidc_store" where
  "drop_request ident a s = deleteRequestLocked ident s"

text \<open>The identifiers a loop over the requests deletes, and the codes that hang off them.\<close>

definition purge_requests :: "(auth_request \<Rightarrow> bool) \<Rightarrow> string list \<Rightarrow> oidc_store \<Rightarrow> nat \<times> nat \<times> oidc_store" where
  "purge_requests P ids s =
     (let purged = filter (\<lambda>ident. case fmlookup (os_requests s) ident of None \<Rightarrow> False | Some a \<Rightarrow> P a) ids;
          (n, s) = drop_each (\<lambda>s. fmlookup (os_requests s)) drop_request P ids s;
          (m, s) = fold (\<lambda>ident (m, s). case deleteCodesForRequestLocked ident s of (k, s) \<Rightarrow> (m + k, s)) purged (0, s)
      in (n, m, s))"

text \<open>What \<^verbatim>\<open>RevokeGrant\<close> and \<^verbatim>\<open>RevokeTokens\<close> do after the bump: \<open>I\<close> is the condition on the records found by
  key, \<open>M\<close> the one on the records found by a scan.\<close>

definition revoke_store ::
  "(string \<Rightarrow> string \<Rightarrow> bool) \<Rightarrow> (string \<Rightarrow> string \<Rightarrow> bool) \<Rightarrow> string list \<Rightarrow> string list \<Rightarrow> string list \<Rightarrow> oidc_store
   \<Rightarrow> nat \<times> oidc_store" where
  "revoke_store I M as rs qs s =
     (let (n1, s) = drop_each (\<lambda>s. fmlookup (os_access s)) (\<lambda>k _. deleteAccessLocked k)
                      (\<lambda>t. I (oa_client t) (oa_subject t)) as s;
          (n2, s) = drop_each (\<lambda>s. fmlookup (os_refresh s)) (\<lambda>k _. deleteRefreshLocked k)
                      (\<lambda>t. I (rf_client t) (rf_subject t)) rs s;
          (_, s) = drop_each (\<lambda>s. fmlookup (os_tombstones s)) drop_tombstone
                      (\<lambda>ts. M (ob_client ts) (ob_subject ts)) (fm_keys (os_tombstones s)) s;
          (_, _, s) = purge_requests (\<lambda>a. I (aq_client a) (aq_subject a)) qs s;
          (_, s) = drop_each (\<lambda>s. fmlookup (os_devices s)) drop_device
                      (\<lambda>d. M (od_client d) (od_subject d)) (fm_keys (os_devices s)) s
      in (n1 + n2, s))"

definition oidc_RevokeGrant ::
  "('c, 'l) oidc_service \<Rightarrow> time \<Rightarrow> string \<Rightarrow> string \<Rightarrow> ('c, 'l) oidc_world
   \<Rightarrow> oidc_error option \<times> ('c, 'l) oidc_world" where
  "oidc_RevokeGrant sv now subject cid w =
     (if subject = [] \<or> cid = [] then (Some (OPlain ''memory: subject and client id are required''), w)
      else (let s = bumpRevocationEpochsLocked cid subject (ow_store w);
                (_, s) = revoke_store (\<lambda>c u. c = cid) (\<lambda>c u. c = cid \<and> u = subject)
                  (sorted_list_of_fset (ix_keys (os_accessBySubject s) subject))
                  (sorted_list_of_fset (ix_keys (os_refreshBySubject s) subject))
                  (sorted_list_of_fset (ix_keys (os_requestBySubject s) subject)) s
            in (None, oidc_record sv now ''oidc.grant.revoke'' subject cid OutcomeOK (w\<lparr>ow_store := s\<rparr>))))"

definition oidc_RevokeTokens :: "token_filter \<Rightarrow> oidc_store \<Rightarrow> nat \<times> oidc_store" where
  "oidc_RevokeTokens f s =
     (let s = bumpRevocationEpochsLocked (tf_client f) (tf_subject f) s
      in revoke_store (Matches f) (Matches f) (accessKeysLocked (tf_subject f) s) (refreshKeysLocked (tf_subject f) s)
           (requestKeysLocked (tf_subject f) s) s)"

definition PurgeSubject :: "string \<Rightarrow> oidc_store \<Rightarrow> (oidc_error + nat) \<times> oidc_store" where
  "PurgeSubject subject s =
     (if subject = [] then (Inl (OPlain ''memory: subject is required''), s)
      else (let (n1, n2, s) = purge_requests (\<lambda>a. aq_subject a = subject) (requestKeysLocked subject s) s;
                (n3, s) = drop_each (\<lambda>s. fmlookup (os_devices s)) drop_device (\<lambda>d. od_subject d = subject)
                            (fm_keys (os_devices s)) s
            in (Inr (n1 + n2 + n3), s)))"

section \<open>Deciding a device authorization\<close>

definition placeholder :: "scope \<Rightarrow> descriptor" where
  "placeholder sc =
     \<lparr>d_scope = sc,
      d_title = map char_of [231 :: nat, 179, 187, 231, 187, 159, 229, 191, 133, 233, 156, 128],
      d_description =
        map char_of [230 :: nat, 173, 164, 233, 161, 185, 231, 148, 177, 230, 142, 136, 230, 157, 131, 230, 156, 141,
          229, 138, 161, 229, 153, 168, 232, 166, 129, 230, 177, 130, 239, 188, 140, 230, 157, 131, 233, 153, 144, 231,
          155, 174, 229, 189, 149, 228, 184, 173, 230, 156, 170, 229, 141, 149, 231, 139, 172, 230, 143, 143, 232, 191,
          176, 227, 128, 130],
      d_risk = RiskLow, ExplicitConsent = False, AllowedClients = []\<rparr>"

fun display_loop :: "(scope, descriptor) fmap \<Rightarrow> scope list \<Rightarrow> scope list \<Rightarrow> descriptor list" where
  "display_loop byScope seen [] = []"
| "display_loop byScope seen (sc # scs) =
     (if List.member seen sc then display_loop byScope seen scs
      else (case fmlookup byScope sc of None \<Rightarrow> placeholder sc | Some d \<Rightarrow> d) # display_loop byScope (sc # seen) scs)"

definition deviceDisplayDescriptors :: "registry \<Rightarrow> string list \<Rightarrow> string \<Rightarrow> oauth_error + descriptor list" where
  "deviceDisplayDescriptors reg scopes cid =
     (case Resolve reg (fst (SplitProtocolScopes scopes)) cid of
        Inl e \<Rightarrow> Inl e
      | Inr resolved \<Rightarrow> Inr (display_loop (fold (\<lambda>d m. fmupd (d_scope d) d m) resolved fmempty) [] scopes))"

definition oidc_DescribeDevice ::
  "('c, 'l) oidc_service \<Rightarrow> time \<Rightarrow> string \<Rightarrow> ('c, 'l) oidc_world \<Rightarrow> oidc_error + device_authorization" where
  "oidc_DescribeDevice sv now userCode w =
     (case DeviceByUserCode userCode (ow_store w) of
        Inl _ \<Rightarrow> Inl (OAuthErr ErrDeviceNotFound)
      | Inr st \<Rightarrow>
          if dz_done st \<or> dz_denied st \<or> dz_expires st < now then Inl (OAuthErr ErrDeviceNotFound)
          else (case reg_get (op_clients sv) (ow_clients w) (dz_client st) of
              Inl _ \<Rightarrow> Inl (OAuthErr ErrDeviceNotFound)
            | Inr c \<Rightarrow>
                (case deviceDisplayDescriptors (op_registry sv) (dz_scopes st) (dz_client st) of
                   Inl e \<Rightarrow> Inl (OAuthErr e)
                 | Inr ds \<Rightarrow> Inr \<lparr>da_user_code = NormalizeUserCode userCode, da_client = c, da_scopes = ds,
                                   da_expires = dz_expires st\<rparr>)))"

text \<open>The scopes an approval grants: narrowed, with the protocol scopes of the request put back.\<close>

definition reattach :: "string list \<Rightarrow> string list \<Rightarrow> string list" where
  "reattach protocol granted = fold (\<lambda>s g. if HasScope g s then g else g @ [s]) protocol granted"

definition oidc_DecideDevice ::
  "('c, 'l) oidc_service \<Rightarrow> time \<Rightarrow> string \<Rightarrow> string \<Rightarrow> bool \<Rightarrow> scope list option \<Rightarrow> scope list \<Rightarrow> ('c, 'l) oidc_world
   \<Rightarrow> oidc_error option \<times> ('c, 'l) oidc_world" where
  "oidc_DecideDevice sv now userCode subject approve scopes explicit w =
     (if subject = [] then (Some (OAuthErr (Protocol ''access_denied'' ''user is not authenticated'')), w)
      else (case DeviceByUserCode userCode (ow_store w) of
        Inl _ \<Rightarrow> (Some (OAuthErr ErrDeviceNotFound), w)
      | Inr st \<Rightarrow>
          if dz_done st \<or> dz_denied st \<or> dz_expires st < now then (Some (OAuthErr ErrDeviceNotFound), w)
          else if \<not> approve then DenyDevice sv now userCode subject w
          else (case NarrowScopes (dz_scopes st) scopes of
              Inl e \<Rightarrow> (Some (OAuthErr e), w)
            | Inr granted \<Rightarrow>
          (let granted = reattach (snd (SplitProtocolScopes (dz_scopes st))) granted in
           case Resolve (op_registry sv) (fst (SplitProtocolScopes granted)) (dz_client st) of
             Inl e \<Rightarrow> (Some (OAuthErr e), w)
           | Inr descriptors \<Rightarrow>
               (case RequireExplicitConsent descriptors explicit of
                  Some e \<Rightarrow> (Some (OAuthErr e), w)
                | None \<Rightarrow> approveDevice sv now userCode subject (Some (WithOfflineAccess granted)) w)))))"

end
