(* ===== verification/OIDC_Index.thy ===== *)
theory OIDC_Index
  imports OIDC_Store
begin

text \<open>
  The indexes of the in-memory OpenID Provider store.
  Shown: every operation keeps every index exactly equal to the map it describes, so looking at a
  subject's indexed records is looking at all of that subject's records; and the three populations an
  anonymous caller or a rotating client can grow stay within their bounds. The deletion loops are
  instances of \<^verbatim>\<open>Map_Loops\<close>, so their outcome does not depend on the order of a range.
\<close>

section \<open>What an index says\<close>

text \<open>\<open>ix\<close> files exactly the keys of \<open>m\<close> under the name \<open>sub\<close> gives them, where the name is one that is
  filed at all, and holds no empty set.\<close>

definition ix_ok :: "(string \<Rightarrow> bool) \<Rightarrow> (string, 'v) fmap \<Rightarrow> ('v \<Rightarrow> string) \<Rightarrow> subject_index \<Rightarrow> bool" where
  "ix_ok filed m sub ix \<longleftrightarrow>
     (\<forall>u keys. fmlookup ix u = Some keys \<longrightarrow> keys \<noteq> {||})
     \<and> (\<forall>u k. k |\<in>| ix_keys ix u \<longleftrightarrow> filed u \<and> (\<exists>t. fmlookup m k = Some t \<and> sub t = u))"

lemma ix_keys_put: "ix_keys (ix_put u k ix) v = (if v = u then finsert k (ix_keys ix u) else ix_keys ix v)"
  by (simp add: ix_put_def ix_keys_def)

lemma ix_keys_remove: "ix_keys (ix_remove u k ix) v = (if v = u then ix_keys ix u |-| {|k|} else ix_keys ix v)"
  by (auto simp: ix_remove_def ix_keys_def Let_def split: option.split)

lemma ix_remove_nonempty:
  "\<forall>u keys. fmlookup ix u = Some keys \<longrightarrow> keys \<noteq> {||} \<Longrightarrow> fmlookup (ix_remove v k ix) u = Some keys \<Longrightarrow> keys \<noteq> {||}"
  by (auto simp: ix_remove_def Let_def split: option.split_asm if_split_asm)

lemma ix_ok_empty: "ix_ok filed fmempty sub fmempty"
  by (simp add: ix_ok_def ix_keys_def)

lemma ix_ok_put:
  assumes "ix_ok filed m sub ix" and "fmlookup m k = None" and "filed (sub t)"
  shows "ix_ok filed (fmupd k t m) sub (ix_put (sub t) k ix)"
proof -
  have "fmlookup (ix_put (sub t) k ix) u = Some keys \<Longrightarrow> keys \<noteq> {||}" for u keys
    using assms(1) by (auto simp: ix_put_def ix_ok_def split: if_split_asm)
  moreover have "j |\<in>| ix_keys (ix_put (sub t) k ix) u \<longleftrightarrow> filed u \<and> (\<exists>t'. fmlookup (fmupd k t m) j = Some t' \<and> sub t' = u)" for j u
    using assms by (auto simp: ix_keys_put ix_ok_def)
  ultimately show ?thesis by (simp add: ix_ok_def)
qed

lemma ix_ok_skip:
  assumes "ix_ok filed m sub ix" and "fmlookup m k = None" and "\<not> filed (sub t)"
  shows "ix_ok filed (fmupd k t m) sub ix"
  using assms by (auto simp: ix_ok_def)

lemma ix_ok_add:
  assumes "ix_ok (\<lambda>u. u \<noteq> []) m sub ix" and "fmlookup m k = None"
  shows "ix_ok (\<lambda>u. u \<noteq> []) (fmupd k t m) sub (ix_add (sub t) k ix)"
  using ix_ok_put [OF assms, of t] ix_ok_skip [OF assms, of t] by (simp add: ix_add_def)

lemma ix_ok_remove:
  assumes "ix_ok filed m sub ix" and "fmlookup m k = Some t"
  shows "ix_ok filed (fmdrop k m) sub (ix_remove (sub t) k ix)"
proof -
  have "keys \<noteq> {||}" if "fmlookup (ix_remove (sub t) k ix) u = Some keys" for u keys
    using assms(1) that by (intro ix_remove_nonempty [of ix _ _ u]) (auto simp: ix_ok_def)
  moreover have "j |\<in>| ix_keys (ix_remove (sub t) k ix) u \<longleftrightarrow> filed u \<and> (\<exists>t'. fmlookup (fmdrop k m) j = Some t' \<and> sub t' = u)" for j u
    using assms by (auto simp: ix_keys_remove ix_ok_def)
  ultimately show ?thesis by (simp add: ix_ok_def)
qed

lemma ix_ok_same:
  assumes "ix_ok filed m sub ix" and "fmlookup m k = Some t" and "sub t' = sub t"
  shows "ix_ok filed (fmupd k t' m) sub ix"
  using assms by (auto simp: ix_ok_def)

lemma ix_ok_move:
  assumes "ix_ok (\<lambda>u. u \<noteq> []) m sub ix" and "fmlookup m k = Some t"
  shows "ix_ok (\<lambda>u. u \<noteq> []) (fmupd k t' m) sub (if sub t = sub t' then ix else ix_add (sub t') k (ix_remove (sub t) k ix))"
proof (cases "sub t = sub t'")
  case False
  have "ix_ok (\<lambda>u. u \<noteq> []) (fmupd k t' (fmdrop k m)) sub (ix_add (sub t') k (ix_remove (sub t) k ix))"
    by (rule ix_ok_add [OF ix_ok_remove [OF assms]]) simp
  moreover have "fmupd k t' (fmdrop k m) = fmupd k t' m" by (rule fmap_ext) simp
  ultimately show ?thesis using False by simp
qed (use ix_ok_same [OF assms] in simp)

section \<open>The invariant of the store\<close>

definition id_index_ok :: "(string, oidc_refresh) fmap \<Rightarrow> (string, string) fmap \<Rightarrow> bool" where
  "id_index_ok m ix \<longleftrightarrow>
     (\<forall>h k. fmlookup ix h = Some k \<longleftrightarrow> (\<exists>t. fmlookup m k = Some t \<and> rf_id_hash t = h))"

definition user_index_ok :: "(string, oidc_device) fmap \<Rightarrow> (string, string) fmap \<Rightarrow> bool" where
  "user_index_ok m ix \<longleftrightarrow>
     (\<forall>u h. fmlookup ix u = Some h \<longleftrightarrow> (\<exists>d. fmlookup m h = Some d \<and> normalizeUserCode (od_user_code d) = u))"

abbreviation "named \<equiv> \<lambda>u :: string. u \<noteq> []"

definition oidc_ok :: "oidc_store \<Rightarrow> bool" where
  "oidc_ok s \<longleftrightarrow>
     ix_ok named (os_access s) oa_subject (os_accessBySubject s)
     \<and> ix_ok named (os_refresh s) rf_subject (os_refreshBySubject s)
     \<and> ix_ok named (os_requests s) aq_subject (os_requestBySubject s)
     \<and> ix_ok (\<lambda>_. True) (os_codes s) ck_request (os_codeByRequest s)
     \<and> id_index_ok (os_refresh s) (os_refreshByIDHash s)
     \<and> user_index_ok (os_devices s) (os_userCodes s)
     \<and> fmdom (os_expiry s) = fmdom (os_requests s)"

lemma empty_oidc_ok: "oidc_ok empty_oidc"
  by (simp add: oidc_ok_def empty_oidc_def ix_ok_empty id_index_ok_def user_index_ok_def)

section \<open>What each helper leaves alone\<close>

lemma deleteAccess_frame [simp]:
  "os_requests (deleteAccessLocked k s) = os_requests s" "os_expiry (deleteAccessLocked k s) = os_expiry s"
  "os_codes (deleteAccessLocked k s) = os_codes s" "os_codeByRequest (deleteAccessLocked k s) = os_codeByRequest s"
  "os_refresh (deleteAccessLocked k s) = os_refresh s" "os_tombstones (deleteAccessLocked k s) = os_tombstones s"
  "os_epochs (deleteAccessLocked k s) = os_epochs s" "os_devices (deleteAccessLocked k s) = os_devices s"
  "os_userCodes (deleteAccessLocked k s) = os_userCodes s"
  "os_refreshBySubject (deleteAccessLocked k s) = os_refreshBySubject s"
  "os_requestBySubject (deleteAccessLocked k s) = os_requestBySubject s"
  "os_refreshByIDHash (deleteAccessLocked k s) = os_refreshByIDHash s"
  by (simp_all add: deleteAccessLocked_def split: option.split)

lemma deleteRefresh_frame [simp]:
  "os_requests (deleteRefreshLocked k s) = os_requests s" "os_expiry (deleteRefreshLocked k s) = os_expiry s"
  "os_codes (deleteRefreshLocked k s) = os_codes s" "os_codeByRequest (deleteRefreshLocked k s) = os_codeByRequest s"
  "os_access (deleteRefreshLocked k s) = os_access s" "os_tombstones (deleteRefreshLocked k s) = os_tombstones s"
  "os_epochs (deleteRefreshLocked k s) = os_epochs s" "os_devices (deleteRefreshLocked k s) = os_devices s"
  "os_userCodes (deleteRefreshLocked k s) = os_userCodes s"
  "os_accessBySubject (deleteRefreshLocked k s) = os_accessBySubject s"
  "os_requestBySubject (deleteRefreshLocked k s) = os_requestBySubject s"
  by (simp_all add: deleteRefreshLocked_def split: option.split)

lemma deleteRequest_frame [simp]:
  "os_access (deleteRequestLocked k s) = os_access s" "os_refresh (deleteRequestLocked k s) = os_refresh s"
  "os_codes (deleteRequestLocked k s) = os_codes s" "os_codeByRequest (deleteRequestLocked k s) = os_codeByRequest s"
  "os_tombstones (deleteRequestLocked k s) = os_tombstones s" "os_epochs (deleteRequestLocked k s) = os_epochs s"
  "os_devices (deleteRequestLocked k s) = os_devices s" "os_userCodes (deleteRequestLocked k s) = os_userCodes s"
  "os_accessBySubject (deleteRequestLocked k s) = os_accessBySubject s"
  "os_refreshBySubject (deleteRequestLocked k s) = os_refreshBySubject s"
  "os_refreshByIDHash (deleteRequestLocked k s) = os_refreshByIDHash s"
  by (simp_all add: deleteRequestLocked_def split: option.split)

lemma deleteCode_frame [simp]:
  "os_access (deleteCodeLocked k s) = os_access s" "os_refresh (deleteCodeLocked k s) = os_refresh s"
  "os_requests (deleteCodeLocked k s) = os_requests s" "os_expiry (deleteCodeLocked k s) = os_expiry s"
  "os_tombstones (deleteCodeLocked k s) = os_tombstones s" "os_epochs (deleteCodeLocked k s) = os_epochs s"
  "os_devices (deleteCodeLocked k s) = os_devices s" "os_userCodes (deleteCodeLocked k s) = os_userCodes s"
  "os_accessBySubject (deleteCodeLocked k s) = os_accessBySubject s"
  "os_refreshBySubject (deleteCodeLocked k s) = os_refreshBySubject s"
  "os_requestBySubject (deleteCodeLocked k s) = os_requestBySubject s"
  "os_refreshByIDHash (deleteCodeLocked k s) = os_refreshByIDHash s"
  by (simp_all add: deleteCodeLocked_def removeCodeFromIndexLocked_def split: option.split)

lemma deleteCodes_frame [simp]:
  "os_access (snd (deleteCodesForRequestLocked k s)) = os_access s" "os_refresh (snd (deleteCodesForRequestLocked k s)) = os_refresh s"
  "os_requests (snd (deleteCodesForRequestLocked k s)) = os_requests s" "os_expiry (snd (deleteCodesForRequestLocked k s)) = os_expiry s"
  "os_tombstones (snd (deleteCodesForRequestLocked k s)) = os_tombstones s" "os_epochs (snd (deleteCodesForRequestLocked k s)) = os_epochs s"
  "os_devices (snd (deleteCodesForRequestLocked k s)) = os_devices s" "os_userCodes (snd (deleteCodesForRequestLocked k s)) = os_userCodes s"
  "os_accessBySubject (snd (deleteCodesForRequestLocked k s)) = os_accessBySubject s"
  "os_refreshBySubject (snd (deleteCodesForRequestLocked k s)) = os_refreshBySubject s"
  "os_requestBySubject (snd (deleteCodesForRequestLocked k s)) = os_requestBySubject s"
  "os_refreshByIDHash (snd (deleteCodesForRequestLocked k s)) = os_refreshByIDHash s"
  by (simp_all add: deleteCodesForRequestLocked_def Let_def)

lemma drop_tombstone_frame [simp]:
  "os_requests (drop_tombstone k ts s) = os_requests s" "os_expiry (drop_tombstone k ts s) = os_expiry s"
  "os_codes (drop_tombstone k ts s) = os_codes s" "os_codeByRequest (drop_tombstone k ts s) = os_codeByRequest s"
  "os_refresh (drop_tombstone k ts s) = os_refresh s" "os_epochs (drop_tombstone k ts s) = os_epochs s"
  "os_devices (drop_tombstone k ts s) = os_devices s" "os_userCodes (drop_tombstone k ts s) = os_userCodes s"
  "os_access (drop_tombstone k ts s) = os_access (deleteAccessLocked (ob_id_hash ts) s)"
  "os_tombstones (drop_tombstone k ts s) = fmdrop k (os_tombstones s)"
  by (simp_all add: drop_tombstone_def)

lemma drop_generation_frame [simp]:
  "os_requests (drop_generation k t s) = os_requests s" "os_expiry (drop_generation k t s) = os_expiry s"
  "os_codes (drop_generation k t s) = os_codes s" "os_codeByRequest (drop_generation k t s) = os_codeByRequest s"
  "os_tombstones (drop_generation k t s) = os_tombstones s" "os_epochs (drop_generation k t s) = os_epochs s"
  "os_devices (drop_generation k t s) = os_devices s" "os_userCodes (drop_generation k t s) = os_userCodes s"
  "os_refresh (drop_generation k t s) = os_refresh (deleteRefreshLocked k s)"
  by (simp_all add: drop_generation_def)

lemma drop_device_frame [simp]:
  "os_requests (drop_device h d s) = os_requests s" "os_expiry (drop_device h d s) = os_expiry s"
  "os_codes (drop_device h d s) = os_codes s" "os_access (drop_device h d s) = os_access s"
  "os_refresh (drop_device h d s) = os_refresh s" "os_tombstones (drop_device h d s) = os_tombstones s"
  "os_epochs (drop_device h d s) = os_epochs s" "os_devices (drop_device h d s) = fmdrop h (os_devices s)"
  by (simp_all add: drop_device_def)

lemma access_deleted [simp]: "os_access (deleteAccessLocked k s) = fmdrop k (os_access s)"
  by (auto simp: deleteAccessLocked_def fmlookup_None_iff split: option.split intro!: fmap_ext)

lemma refresh_deleted [simp]: "os_refresh (deleteRefreshLocked k s) = fmdrop k (os_refresh s)"
  by (auto simp: deleteRefreshLocked_def split: option.split intro!: fmap_ext)

lemma requests_deleted [simp]: "os_requests (deleteRequestLocked k s) = fmdrop k (os_requests s)"
  by (auto simp: deleteRequestLocked_def split: option.split intro!: fmap_ext)

lemma codes_deleted [simp]: "os_codes (deleteCodeLocked k s) = fmdrop k (os_codes s)"
  by (auto simp: deleteCodeLocked_def removeCodeFromIndexLocked_def split: option.split intro!: fmap_ext)

section \<open>The deletion loops of the store\<close>

interpretation acc: keyed_deletion "\<lambda>s. fmlookup (os_access s)" "\<lambda>k _. deleteAccessLocked k"
  by unfold_locales simp

interpretation ref: keyed_deletion "\<lambda>s. fmlookup (os_refresh s)" "\<lambda>k _. deleteRefreshLocked k"
  by unfold_locales simp

interpretation gen: keyed_deletion "\<lambda>s. fmlookup (os_refresh s)" drop_generation
  by unfold_locales simp

interpretation tomb: keyed_deletion "\<lambda>s. fmlookup (os_tombstones s)" drop_tombstone
  by unfold_locales simp

interpretation req: keyed_deletion "\<lambda>s. fmlookup (os_requests s)" drop_request
  by unfold_locales (simp add: drop_request_def)

interpretation reqs: keyed_deletion "\<lambda>s. fmlookup (os_requests s)" "\<lambda>k _. deleteRequestLocked k"
  by unfold_locales simp

interpretation codes: keyed_deletion "\<lambda>s. fmlookup (os_codes s)" "\<lambda>k _. deleteCodeLocked k"
  by unfold_locales simp

interpretation dev: keyed_deletion "\<lambda>s. fmlookup (os_devices s)" drop_device
  by unfold_locales simp

section \<open>Helpers keep the invariant\<close>

lemma oidc_ok_access: "oidc_ok s \<Longrightarrow> oidc_ok (deleteAccessLocked k s)"
  using ix_ok_remove [of named "os_access s" oa_subject "os_accessBySubject s" k]
  by (auto simp: oidc_ok_def deleteAccessLocked_def split: option.split)

lemma id_index_unique:
  assumes "id_index_ok m ix" and "fmlookup m k = Some t" and "fmlookup m k' = Some t'" and "rf_id_hash t = rf_id_hash t'"
  shows "k = k'"
  using assms unfolding id_index_ok_def by (metis option.inject)

lemma id_index_drop:
  assumes "id_index_ok m ix" and "fmlookup m k = Some t"
  shows "id_index_ok (fmdrop k m) (if fmlookup ix (rf_id_hash t) = Some k then fmdrop (rf_id_hash t) ix else ix)"
proof -
  have "fmlookup ix (rf_id_hash t) = Some k" using assms by (auto simp: id_index_ok_def)
  moreover have "k' = k" if "fmlookup m k' = Some t'" "rf_id_hash t' = rf_id_hash t" for k' t'
    using id_index_unique [OF assms(1) that(1) assms(2) that(2)] .
  ultimately show ?thesis using assms(1) by (auto simp: id_index_ok_def)
qed

lemma oidc_ok_refresh: "oidc_ok s \<Longrightarrow> oidc_ok (deleteRefreshLocked k s)"
  using ix_ok_remove [of named "os_refresh s" rf_subject "os_refreshBySubject s" k]
    id_index_drop [of "os_refresh s" "os_refreshByIDHash s" k]
  by (cases "fmlookup (os_refresh s) k") (auto simp: oidc_ok_def deleteRefreshLocked_def)

lemma oidc_ok_request: "oidc_ok s \<Longrightarrow> oidc_ok (deleteRequestLocked k s)"
  using ix_ok_remove [of named "os_requests s" aq_subject "os_requestBySubject s" k]
  by (auto simp: oidc_ok_def deleteRequestLocked_def split: option.split)

lemma oidc_ok_code: "oidc_ok s \<Longrightarrow> oidc_ok (deleteCodeLocked k s)"
  using ix_ok_remove [of "\<lambda>_. True" "os_codes s" ck_request "os_codeByRequest s" k]
  by (auto simp: oidc_ok_def deleteCodeLocked_def removeCodeFromIndexLocked_def split: option.split)

lemma fold_fmdrop_lookup: "fmlookup (fold fmdrop ks m) j = (if j \<in> set ks then None else fmlookup m j)"
  by (induction ks arbitrary: m) auto

lemma codes_of_request_deleted:
  assumes "ix_ok (\<lambda>_. True) (os_codes s) ck_request (os_codeByRequest s)"
  shows "os_codes (snd (deleteCodesForRequestLocked q s)) = fm_drop_where (\<lambda>c. ck_request c = q) (os_codes s)"
proof (rule fmap_ext)
  fix k
  have "k |\<in>| ix_keys (os_codeByRequest s) q \<longleftrightarrow> (\<exists>c. fmlookup (os_codes s) k = Some c \<and> ck_request c = q)"
    using assms by (simp add: ix_ok_def)
  then show "fmlookup (os_codes (snd (deleteCodesForRequestLocked q s))) k
      = fmlookup (fm_drop_where (\<lambda>c. ck_request c = q) (os_codes s)) k"
    by (auto simp: deleteCodesForRequestLocked_def Let_def fold_fmdrop_lookup split: option.split)
qed

lemma codes_of_request_index:
  assumes "ix_ok (\<lambda>_. True) (os_codes s) ck_request (os_codeByRequest s)"
  shows "ix_ok (\<lambda>_. True) (os_codes (snd (deleteCodesForRequestLocked q s))) ck_request
      (os_codeByRequest (snd (deleteCodesForRequestLocked q s)))"
proof -
  have ix: "fmlookup (os_codeByRequest (snd (deleteCodesForRequestLocked q s))) u
      = (if u = q then None else fmlookup (os_codeByRequest s) u)" for u
  proof -
    have "keys \<noteq> {||}" if "fmlookup (os_codeByRequest s) u = Some keys" for keys using assms that by (simp add: ix_ok_def)
    then show ?thesis by (cases "fmlookup (os_codeByRequest s) q") (auto simp: deleteCodesForRequestLocked_def Let_def ix_keys_def)
  qed
  have keys: "ix_keys (os_codeByRequest (snd (deleteCodesForRequestLocked q s))) u
      = (if u = q then {||} else ix_keys (os_codeByRequest s) u)" for u
    by (simp add: ix_keys_def ix)
  show ?thesis
    using assms unfolding ix_ok_def codes_of_request_deleted [OF assms] ix keys
    by (auto split: option.split)
qed

lemma oidc_ok_codes: "oidc_ok s \<Longrightarrow> oidc_ok (snd (deleteCodesForRequestLocked q s))"
  using codes_of_request_index [of s q] by (simp add: oidc_ok_def)

lemma oidc_ok_tombstones: "oidc_ok (s\<lparr>os_tombstones := m\<rparr>) \<longleftrightarrow> oidc_ok s"
  by (simp add: oidc_ok_def)

lemma oidc_ok_epochs: "oidc_ok (s\<lparr>os_epochs := m\<rparr>) \<longleftrightarrow> oidc_ok s"
  by (simp add: oidc_ok_def)

lemma oidc_ok_drop_tombstone: "oidc_ok s \<Longrightarrow> oidc_ok (drop_tombstone k ts s)"
  using oidc_ok_access [of s "ob_id_hash ts"] by (simp add: drop_tombstone_def oidc_ok_tombstones)

lemma oidc_ok_drop_generation: "oidc_ok s \<Longrightarrow> oidc_ok (drop_generation k t s)"
  by (simp add: drop_generation_def oidc_ok_access oidc_ok_refresh)

lemma oidc_ok_drop_device:
  assumes "oidc_ok s" and "fmlookup (os_devices s) h = Some d"
  shows "oidc_ok (drop_device h d s)"
proof -
  have "user_index_ok (fmdrop h (os_devices s)) (fmdrop (normalizeUserCode (od_user_code d)) (os_userCodes s))"
    using assms unfolding oidc_ok_def user_index_ok_def by (auto, metis option.inject)
  then show ?thesis using assms(1) by (simp add: oidc_ok_def drop_device_def)
qed

lemmas oidc_ok_helpers =
  oidc_ok_access oidc_ok_refresh oidc_ok_request oidc_ok_code oidc_ok_codes oidc_ok_drop_tombstone
  oidc_ok_drop_generation

lemma oidc_ok_loops:
  assumes "oidc_ok s"
  shows "oidc_ok (snd (drop_each (\<lambda>s. fmlookup (os_access s)) (\<lambda>k _. deleteAccessLocked k) PA ks s))"
    "oidc_ok (snd (drop_each (\<lambda>s. fmlookup (os_refresh s)) (\<lambda>k _. deleteRefreshLocked k) PR ks s))"
    "oidc_ok (snd (drop_each (\<lambda>s. fmlookup (os_refresh s)) drop_generation PR ks s))"
    "oidc_ok (snd (drop_each (\<lambda>s. fmlookup (os_tombstones s)) drop_tombstone PT ks s))"
    "oidc_ok (snd (drop_each (\<lambda>s. fmlookup (os_requests s)) drop_request PQ ks s))"
    "oidc_ok (snd (drop_each (\<lambda>s. fmlookup (os_expiry s)) (\<lambda>k _. deleteRequestLocked k) PE ks s))"
    "oidc_ok (snd (drop_each (\<lambda>s. fmlookup (os_codes s)) (\<lambda>k _. deleteCodeLocked k) PC ks s))"
    "oidc_ok (snd (drop_each (\<lambda>s. fmlookup (os_devices s)) drop_device PD ks s))"
  by (rule drop_each_invariant [where I = oidc_ok, OF assms];
      simp add: oidc_ok_helpers oidc_ok_drop_device drop_request_def)+

section \<open>Bounded populations\<close>

definition bounded :: "nat \<Rightarrow> nat \<Rightarrow> nat \<Rightarrow> oidc_store \<Rightarrow> bool" where
  "bounded reqs tombs devs s \<longleftrightarrow>
     fcard (fmdom (os_requests s)) \<le> reqs \<and> fcard (fmdom (os_tombstones s)) \<le> tombs \<and> fcard (fmdom (os_devices s)) \<le> devs"

lemma fcard_fmdrop: "fcard (fmdom (fmdrop k m)) \<le> fcard (fmdom m)"
  by (auto intro!: fcard_mono)

lemma fcard_drop_le: "fcard (fmdom m) \<le> n \<Longrightarrow> fcard (fmdom m |-| {|k|}) \<le> n"
  using fcard_fmdrop [of k m] by simp

lemma fcard_fmupd: "fcard (fmdom (fmupd k v m)) = (if fmlookup m k = None then fcard (fmdom m) + 1 else fcard (fmdom m))"
  by (auto simp: fcard_finsert_if fmlookup_None_iff)

lemma fcard_drop_where: "fcard (fmdom (fm_drop_where P m)) \<le> fcard (fmdom m)"
  using fm_count_drop_where [of P m] by simp

lemma bounded_helpers:
  assumes "bounded q t d s"
  shows "bounded q t d (deleteAccessLocked k s)" "bounded q t d (deleteRefreshLocked k s)"
    "bounded q t d (deleteRequestLocked k s)" "bounded q t d (deleteCodeLocked k s)"
    "bounded q t d (snd (deleteCodesForRequestLocked k s))" "bounded q t d (drop_tombstone k ts s)"
    "bounded q t d (drop_generation k r s)" "bounded q t d (drop_device k dv s)"
  using assms by (auto simp: bounded_def fcard_drop_le)

definition good :: "nat \<Rightarrow> nat \<Rightarrow> nat \<Rightarrow> oidc_store \<Rightarrow> bool" where
  "good q t d s \<longleftrightarrow> oidc_ok s \<and> bounded q t d s"

lemma good_helpers:
  assumes "good q t d s"
  shows "good q t d (deleteAccessLocked k s)" "good q t d (deleteRefreshLocked k s)"
    "good q t d (deleteRequestLocked k s)" "good q t d (deleteCodeLocked k s)"
    "good q t d (snd (deleteCodesForRequestLocked k s))" "good q t d (drop_tombstone k ts s)"
    "good q t d (drop_generation k r s)" "good q t d (drop_request k a s)"
    "fmlookup (os_devices s) k = Some dv \<Longrightarrow> good q t d (drop_device k dv s)"
    "fcard (fmdom m) \<le> fcard (fmdom (os_tombstones s)) \<Longrightarrow> good q t d (s\<lparr>os_tombstones := m\<rparr>)"
    "good q t d (s\<lparr>os_epochs := e\<rparr>)"
  using assms by (simp_all add: good_def oidc_ok_helpers oidc_ok_drop_device bounded_helpers drop_request_def oidc_ok_tombstones
      oidc_ok_epochs)
    (simp_all add: bounded_def)

lemma good_loops:
  assumes "good q t d s"
  shows "good q t d (snd (drop_each (\<lambda>s. fmlookup (os_access s)) (\<lambda>k _. deleteAccessLocked k) PA ks s))"
    "good q t d (snd (drop_each (\<lambda>s. fmlookup (os_refresh s)) (\<lambda>k _. deleteRefreshLocked k) PR ks s))"
    "good q t d (snd (drop_each (\<lambda>s. fmlookup (os_refresh s)) drop_generation PR ks s))"
    "good q t d (snd (drop_each (\<lambda>s. fmlookup (os_tombstones s)) drop_tombstone PT ks s))"
    "good q t d (snd (drop_each (\<lambda>s. fmlookup (os_requests s)) drop_request PQ ks s))"
    "good q t d (snd (drop_each (\<lambda>s. fmlookup (os_expiry s)) (\<lambda>k _. deleteRequestLocked k) PE ks s))"
    "good q t d (snd (drop_each (\<lambda>s. fmlookup (os_codes s)) (\<lambda>k _. deleteCodeLocked k) PC ks s))"
    "good q t d (snd (drop_each (\<lambda>s. fmlookup (os_devices s)) drop_device PD ks s))"
  by (rule drop_each_invariant [where I = "good q t d", OF assms]; simp add: good_helpers)+

section \<open>Operations keep the invariant\<close>

lemma revokeFamily_good: "good q t d s \<Longrightarrow> good q t d (revokeFamilyLocked family s)"
  by (simp add: revokeFamilyLocked_def Let_def good_loops)

lemma TerminateSession_good: "good q t d s \<Longrightarrow> good q t d (TerminateSession user cid s)"
  by (simp add: TerminateSession_def Let_def good_loops)

lemma forget_spent_good: "good q t d s \<Longrightarrow> good q t d (forget_spent h s)"
  by (simp add: forget_spent_def good_helpers fcard_drop_where)

lemma revoke_token_good: "good q t d s \<Longrightarrow> good q t d (snd (revoke_token_store h cid s))"
  by (auto simp: revoke_token_store_def Let_def forget_spent_good good_helpers fcard_drop_le split: option.split)

lemma delete_codes_good:
  "good q t d s \<Longrightarrow> good q t d (snd (fold (\<lambda>ident (m, s). case deleteCodesForRequestLocked ident s of (k, s) \<Rightarrow> (m + k, s)) ids (n, s)))"
proof (induction ids arbitrary: n s)
  case (Cons i ids)
  from Cons.IH [OF good_helpers(5) [OF Cons.prems, of i]] show ?case by (simp add: case_prod_beta)
qed simp

lemma purge_requests_good: "good q t d s \<Longrightarrow> good q t d (snd (snd (purge_requests P ids s)))"
  by (simp add: purge_requests_def Let_def case_prod_beta [of _ "drop_each _ _ _ _ _"] case_prod_beta [of _ "fold _ _ _"]
      delete_codes_good good_loops)

lemma bump_good: "good q t d s \<Longrightarrow> good q t d (bumpRevocationEpochsLocked cid subject s)"
  by (simp add: bumpRevocationEpochsLocked_def bump_scope_def Let_def good_helpers)

lemma revoke_store_good: "good q t d s \<Longrightarrow> good q t d (snd (revoke_store I M as rs qs s))"
  by (simp add: revoke_store_def Let_def case_prod_beta good_loops purge_requests_good)

lemma RevokeTokens_good: "good q t d s \<Longrightarrow> good q t d (snd (oidc_RevokeTokens f s))"
  by (simp add: oidc_RevokeTokens_def Let_def revoke_store_good bump_good)

lemma PurgeSubject_good: "good q t d s \<Longrightarrow> good q t d (snd (PurgeSubject subject s))"
  by (simp add: PurgeSubject_def Let_def case_prod_beta good_loops purge_requests_good)

lemma purgeExpired_good: "good q t d s \<Longrightarrow> good q t d (snd (purgeExpiredDevicesLocked now s))"
  by (simp add: purgeExpiredDevicesLocked_def good_loops)

lemma Sweep_good: "good q t d s \<Longrightarrow> good q t d (snd (oidc_SweepExpired now s))"
  by (simp add: oidc_SweepExpired_def Let_def case_prod_beta good_loops good_helpers(10) purgeExpired_good fcard_drop_where)

lemma ByCode_good: "good q t d s \<Longrightarrow> good q t d (snd (snd (AuthRequestByCode now ctx code s)))"
  by (simp add: AuthRequestByCode_def Let_def good_helpers split: option.split)

lemma ByRefresh_good: "good q t d s \<Longrightarrow> good q t d (snd (snd (TokenRequestByRefreshToken now ctx value s)))"
  by (simp add: TokenRequestByRefreshToken_def Let_def revokeFamily_good split: option.split)

subsection \<open>Insertions\<close>

lemma submit_store [simp]: "ow_store (submit sv now ev w) = ow_store w" "ow_tape (submit sv now ev w) = ow_tape w"
  by (simp_all add: submit_def split: option.split)

lemma record_store [simp]:
  "ow_store (oidc_record sv now act sub cid out w) = ow_store w" "ow_store (recordConsent sv now act sub cid scs out w) = ow_store w"
  by (simp_all add: oidc_record_def recordConsent_def)

lemma putAccess_good:
  "good q t d s \<Longrightarrow> fmlookup (os_access s) k = None \<Longrightarrow> good q t d (putAccessLocked k a s)"
  using ix_ok_add [of "os_access s" oa_subject "os_accessBySubject s" k a]
  by (simp add: good_def oidc_ok_def bounded_def putAccessLocked_def)

lemma putRefresh_good:
  assumes "good q t d s" and "fmlookup (os_refresh s) k = None" and "fmlookup (os_refreshByIDHash s) (rf_id_hash r) = None"
  shows "good q t d (putRefreshLocked k r s)"
proof -
  have ix: "id_index_ok (os_refresh s) (os_refreshByIDHash s)" using assms(1) by (simp add: good_def oidc_ok_def)
  then have "rf_id_hash r' \<noteq> rf_id_hash r" if "fmlookup (os_refresh s) j = Some r'" for j r'
    using ix assms(3) that unfolding id_index_ok_def by (metis option.distinct(1))
  then have "id_index_ok (fmupd k r (os_refresh s)) (fmupd (rf_id_hash r) k (os_refreshByIDHash s))"
    using ix assms(2) by (auto simp: id_index_ok_def)
  with ix_ok_add [of "os_refresh s" rf_subject "os_refreshBySubject s" k r] assms show ?thesis
    by (simp add: good_def oidc_ok_def bounded_def putRefreshLocked_def)
qed

lemma putCode_good:
  assumes "good q t d s"
  shows "good q t d (putCodeLocked k request expires s)"
proof -
  let ?c = "\<lparr>ck_request = request, ck_expires = expires\<rparr>"
  have ix: "ix_ok (\<lambda>_. True) (os_codes s) ck_request (os_codeByRequest s)" using assms by (simp add: good_def oidc_ok_def)
  show ?thesis
  proof (cases "fmlookup (os_codes s) k")
    case None
    from ix_ok_put [OF ix None, of ?c] assms show ?thesis
      by (simp add: good_def oidc_ok_def bounded_def putCodeLocked_def None Let_def)
  next
    case (Some old)
    have "fmupd k ?c (fmdrop k (os_codes s)) = fmupd k ?c (os_codes s)" by (rule fmap_ext) simp
    with ix_ok_put [OF ix_ok_remove [OF ix Some], of k ?c] assms show ?thesis
      by (simp add: good_def oidc_ok_def bounded_def putCodeLocked_def Some Let_def removeCodeFromIndexLocked_def)
  qed
qed

lemma putRequest_good:
  assumes "good q t d s" and "fmlookup (os_requests s) (aq_id a) = None" and "fcard (fmdom (os_requests s)) < q"
  shows "good q t d (s\<lparr>os_requests := fmupd (aq_id a) a (os_requests s), os_expiry := fmupd (aq_id a) e (os_expiry s),
    os_requestBySubject := ix_add (aq_subject a) (aq_id a) (os_requestBySubject s)\<rparr>)"
  using ix_ok_add [of "os_requests s" aq_subject "os_requestBySubject s" "aq_id a" a] assms
    fcard_fmupd [of "aq_id a" a "os_requests s"]
  by (simp add: good_def oidc_ok_def bounded_def)

lemma setRequest_good:
  assumes "good q t d s" and "fmlookup (os_requests s) k = Some a"
  shows "good q t d (s\<lparr>os_requests := fmupd k a' (os_requests s),
    os_requestBySubject := (if aq_subject a = aq_subject a' then os_requestBySubject s
      else ix_add (aq_subject a') k (ix_remove (aq_subject a) k (os_requestBySubject s)))\<rparr>)"
proof -
  have k: "k |\<in>| fmdom (os_requests s)" using assms(2) by (rule fmdomI)
  then have "finsert k (fmdom (os_requests s)) = fmdom (os_requests s)" by auto
  with ix_ok_move [of "os_requests s" aq_subject "os_requestBySubject s" k a a'] assms show ?thesis
    by (simp add: good_def oidc_ok_def bounded_def)
qed

lemma setDevice_good:
  assumes "good q t d s" and "fmlookup (os_devices s) h = Some dv" and "od_user_code dv' = od_user_code dv"
  shows "good q t d (s\<lparr>os_devices := fmupd h dv' (os_devices s)\<rparr>)"
proof -
  have "h |\<in>| fmdom (os_devices s)" using assms(2) by (rule fmdomI)
  then have "finsert h (fmdom (os_devices s)) = fmdom (os_devices s)" by auto
  moreover have "user_index_ok (fmupd h dv' (os_devices s)) (os_userCodes s)"
    using assms by (auto simp: good_def oidc_ok_def user_index_ok_def)
  ultimately show ?thesis using assms(1) by (simp add: good_def oidc_ok_def bounded_def)
qed

lemma user_code_device:
  assumes "good q t d s" and "fmlookup (os_userCodes s) u = Some h"
  obtains dv where "fmlookup (os_devices s) h = Some dv" "normalizeUserCode (od_user_code dv) = u" "device_at h s = dv"
  using assms by (auto simp: good_def oidc_ok_def user_index_ok_def device_at_def)

lemma decided_good:
  assumes "good q t d s" and "fmlookup (os_userCodes s) u = Some h" and "od_user_code dv = od_user_code (device_at h s)"
  shows "good q t d (s\<lparr>os_devices := fmupd h dv (os_devices s)\<rparr>)"
  by (rule user_code_device [OF assms(1,2)]) (use setDevice_good [OF assms(1)] assms(3) in auto)

lemma claim_user_code_good:
  assumes "good q t d s" and "claim_user_code now u s = Some s'"
  shows "good q t d s'" and "fmlookup (os_userCodes s') u = None"
    and "fmlookup (os_devices s) h = None \<Longrightarrow> fmlookup (os_devices s') h = None"
proof -
  have "good q t d s' \<and> fmlookup (os_userCodes s') u = None \<and> (fmlookup (os_devices s) h = None \<longrightarrow> fmlookup (os_devices s') h = None)"
  proof (cases "fmlookup (os_userCodes s) u")
    case None
    then show ?thesis using assms by (simp add: claim_user_code_def)
  next
    case (Some j)
    obtain dv where dv: "fmlookup (os_devices s) j = Some dv" "normalizeUserCode (od_user_code dv) = u"
      by (rule user_code_device [OF assms(1) Some])
    have "s' = drop_device j dv s" using assms(2) dv by (auto simp: claim_user_code_def Some drop_device_def split: if_split_asm)
    then show ?thesis using good_helpers(9) [OF assms(1) dv(1)] dv(2) by (simp add: drop_device_def)
  qed
  then show "good q t d s'" "fmlookup (os_userCodes s') u = None"
    "fmlookup (os_devices s) h = None \<Longrightarrow> fmlookup (os_devices s') h = None" by simp_all
qed

lemma StoreDevice_good:
  assumes "good q t (op_maxDevices sv) s" and "fmlookup (os_devices s) (TokenHash code) = None"
  shows "good q t (op_maxDevices sv) (snd (StoreDeviceAuthorization sv now cid code user expires scopes s))"
proof (cases "claim_user_code now (normalizeUserCode user) s")
  case None
  then show ?thesis using assms(1) by (simp add: StoreDeviceAuthorization_def)
next
  case (Some s')
  note c = claim_user_code_good [OF assms(1) Some]
  have h: "fmlookup (os_devices s') (TokenHash code) = None" by (rule c(3) [OF assms(2)])
  let ?dv = "\<lparr>od_hash = TokenHash code, od_user_code = user, od_client = cid, od_scopes = scopes, od_expires = expires,
    od_done = False, od_denied = False, od_subject = [], od_auth_time = 0, od_last_poll = 0\<rparr>"
  have "user_index_ok (fmupd (TokenHash code) ?dv (os_devices s')) (fmupd (normalizeUserCode user) (TokenHash code) (os_userCodes s'))"
  proof -
    have ix: "user_index_ok (os_devices s') (os_userCodes s')" using c(1) by (simp add: good_def oidc_ok_def)
    then have "normalizeUserCode (od_user_code dv) \<noteq> normalizeUserCode user" if "fmlookup (os_devices s') j = Some dv" for j dv
      using c(2) that unfolding user_index_ok_def by (metis option.distinct(1))
    with ix h show ?thesis by (auto simp: user_index_ok_def)
  qed
  then show ?thesis using c(1) h fcard_fmupd [of "TokenHash code" ?dv "os_devices s'"]
    by (auto simp: StoreDeviceAuthorization_def Some Let_def good_def oidc_ok_def bounded_def)
qed

lemma PollDevice_good: "good q t d s \<Longrightarrow> good q t d (snd (snd (GetDeviceAuthorizatonState now ctx cid code s)))"
  by (auto simp: GetDeviceAuthorizatonState_def Let_def good_helpers(9) setDevice_good split: option.split)

lemma approve_good: "good q t d (ow_store w) \<Longrightarrow> good q t d (ow_store (snd (approveDevice sv now user sub scopes w)))"
  by (auto simp: approveDevice_def Let_def split: option.split intro!: decided_good)

lemma deny_good: "good q t d (ow_store w) \<Longrightarrow> good q t d (ow_store (snd (DenyDevice sv now user sub w)))"
  by (auto simp: DenyDevice_def Let_def split: option.split intro!: decided_good)

lemma decide_good:
  "good q t d (ow_store w) \<Longrightarrow> good q t d (ow_store (snd (oidc_DecideDevice sv now user sub ap scopes explicit w)))"
  by (simp add: oidc_DecideDevice_def Let_def approve_good deny_good split: sum.split option.split)

lemma SetAuthTime_good:
  assumes "good q t d s"
  shows "good q t d (snd (SetAuthTime ident at s))"
proof (cases "fmlookup (os_requests s) ident")
  case (Some a)
  from setRequest_good [OF assms Some, of "a\<lparr>aq_auth_time := Some at\<rparr>"] show ?thesis by (simp add: SetAuthTime_def Some)
qed (simp add: SetAuthTime_def assms)

lemma CompleteLogin_good:
  assumes "good q t d (ow_store w)"
  shows "good q t d (ow_store (snd (CompleteLogin sv now ident subject scopes w)))"
proof (cases "fmlookup (os_requests (ow_store w)) ident")
  case (Some a)
  define a' where "a' = a\<lparr>aq_subject := subject, aq_scopes := scopes, aq_done := True,
      aq_auth_time := (case aq_auth_time a of None \<Rightarrow> Some now | Some t \<Rightarrow> Some t)\<rparr>"
  have sub: "aq_subject a' = subject" by (simp add: a'_def)
  show ?thesis using setRequest_good [OF assms Some, of a', unfolded sub] assms
    unfolding CompleteLogin_def Some Let_def a'_def [symmetric] option.case by simp
qed (simp add: CompleteLogin_def assms)

subsection \<open>Minting\<close>

text \<open>Go's range over a map that is not empty yields one of its keys.\<close>

definition pick_ok :: "((string, oidc_tombstone) fmap \<Rightarrow> string) \<Rightarrow> bool" where
  "pick_ok pick \<longleftrightarrow> (\<forall>m. m \<noteq> fmempty \<longrightarrow> pick m |\<in>| fmdom m)"

lemma evict_bound:
  assumes "pick_ok pick" and "fcard (fmdom m) \<le> t" and "0 < t"
  shows "fcard (fmdom (fmupd k v (evict_tombstone t pick k m))) \<le> t"
proof (cases "fmlookup m k = None \<and> t \<le> fcard (fmdom m)")
  case True
  then have m: "m \<noteq> fmempty" using assms(3) by (auto simp: fcard_fempty)
  then have p: "pick m |\<in>| fmdom m" using assms(1) by (simp add: pick_ok_def)
  have "fcard (fmdom m |-| {|pick m|}) = fcard (fmdom m) - 1" using p by (simp add: fcard.rep_eq card_Diff_singleton)
  then show ?thesis using True m assms(2,3)
    by (auto simp: evict_tombstone_def fcard_finsert_if fmlookup_None_iff)
next
  case False
  then have e: "evict_tombstone t pick k m = m" by (auto simp: evict_tombstone_def)
  show ?thesis
  proof (cases "fmlookup m k = None")
    case True
    then show ?thesis using False fcard_fmupd [of k v m] by (simp add: e)
  next
    case False
    then have "finsert k (fmdom m) = fmdom m" by (auto simp: fmlookup_dom_iff)
    then show ?thesis using assms(2) by (simp add: e)
  qed
qed

lemma spend_good:
  assumes "good q t d s" and "pick_ok pick" and "0 < t"
  shows "good q t d (spend_refresh t pick spent held s)"
proof -
  let ?ts = "\<lparr>ob_family = family_of spent held, ob_id_hash = rf_id_hash held, ob_client = rf_client held,
    ob_subject = rf_subject held, ob_expires = rf_expires held\<rparr>"
  have "fcard (fmdom (os_tombstones s)) \<le> t" using assms(1) by (simp add: good_def bounded_def)
  from evict_bound [OF assms(2) this assms(3), of spent ?ts]
  have "good q t d (s\<lparr>os_tombstones := fmupd spent ?ts (evict_tombstone t pick spent (os_tombstones s))\<rparr>)"
    using assms(1) by (simp add: good_def bounded_def oidc_ok_tombstones)
  then show ?thesis by (simp add: spend_refresh_def good_helpers)
qed

lemma spend_fresh:
  "os_access (spend_refresh t pick spent held s) = os_access s"
  "fmlookup (os_refresh s) k = None \<Longrightarrow> fmlookup (os_refresh (spend_refresh t pick spent held s)) k = None"
  "fmlookup (os_refreshByIDHash s) h = None \<Longrightarrow> fmlookup (os_refreshByIDHash (spend_refresh t pick spent held s)) h = None"
  by (auto simp: spend_refresh_def deleteRefreshLocked_def split: option.split)

text \<open>No access token and no live or spent refresh token carries the hash.\<close>

definition unused_id :: "string \<Rightarrow> oidc_store \<Rightarrow> bool" where
  "unused_id h s \<longleftrightarrow>
     fmlookup (os_access s) h = None \<and> fmlookup (os_refreshByIDHash s) h = None
     \<and> (\<forall>k ts. fmlookup (os_tombstones s) k = Some ts \<longrightarrow> ob_id_hash ts \<noteq> h)"

definition fresh_pair :: "string \<Rightarrow> string \<Rightarrow> oidc_store \<Rightarrow> bool" where
  "fresh_pair accessID value s \<longleftrightarrow>
     unused_id (TokenHash accessID) s
     \<and> fmlookup (os_refresh s) (TokenHash value) = None \<and> fmlookup (os_tombstones s) (TokenHash value) = None"

lemma spend_tombstones:
  "fmlookup (os_tombstones (spend_refresh t pick spent held s)) k =
     (if k = spent then Some \<lparr>ob_family = family_of spent held, ob_id_hash = rf_id_hash held, ob_client = rf_client held,
                              ob_subject = rf_subject held, ob_expires = rf_expires held\<rparr>
      else fmlookup (evict_tombstone t pick spent (os_tombstones s)) k)"
  by (simp add: spend_refresh_def)

lemma evict_lookup: "fmlookup (evict_tombstone t pick spent m) k = Some ts \<Longrightarrow> fmlookup m k = Some ts"
  by (auto simp: evict_tombstone_def split: if_split_asm)

lemma spend_fresh_pair:
  assumes "good q t' d s" and "fmlookup (os_refresh s) spent = Some held" and "fresh_pair a v s"
  shows "fresh_pair a v (spend_refresh t pick spent held s)"
proof -
  have "fmlookup (os_refreshByIDHash s) (rf_id_hash held) = Some spent"
    using assms(1,2) by (simp add: good_def oidc_ok_def id_index_ok_def)
  then have ne: "rf_id_hash held \<noteq> TokenHash a" "TokenHash v \<noteq> spent"
    using assms(2,3) by (auto simp: fresh_pair_def unused_id_def)
  then have "ob_id_hash ts \<noteq> TokenHash a" if "fmlookup (os_tombstones (spend_refresh t pick spent held s)) k = Some ts" for k ts
    using that assms(3) by (auto simp: spend_tombstones fresh_pair_def unused_id_def dest: evict_lookup split: if_split_asm)
  moreover have "fmlookup (os_tombstones (spend_refresh t pick spent held s)) (TokenHash v) = None"
    using ne(2) assms(3) by (auto simp: spend_tombstones fresh_pair_def evict_tombstone_def)
  ultimately show ?thesis using assms(3) by (auto simp: fresh_pair_def unused_id_def spend_fresh)
qed

lemma claim_good:
  assumes "good q (op_maxTombstones sv) d (ow_store w)" and "pick_ok pick" and "0 < op_maxTombstones sv"
    and "claim_refresh sv pick current w = (res, w')"
  shows "good q (op_maxTombstones sv) d (ow_store w')"
    and "\<not> isl res \<Longrightarrow> fresh_pair a v (ow_store w) \<Longrightarrow> fresh_pair a v (ow_store w')"
  using assms spend_good [OF assms(1,2,3)] revokeFamily_good [OF assms(1)] spend_fresh_pair [OF assms(1)]
  by (auto simp: claim_refresh_def Let_def split: if_split_asm option.split_asm prod.split_asm)

lemma write_pair_good:
  assumes "good q t d (ow_store w)" and "fresh_pair a v (ow_store w)"
  shows "good q t d (ow_store (snd (write_pair sv now ctx rq a v family w)))"
proof -
  have "good q t d (putAccessLocked (TokenHash a) (new_access sv now rq a) (ow_store w))"
    using assms by (intro putAccess_good) (auto simp: fresh_pair_def unused_id_def)
  then have "good q t d (putRefreshLocked (TokenHash v) (new_refresh sv now rq a v family)
      (putAccessLocked (TokenHash a) (new_access sv now rq a) (ow_store w)))"
    using assms(2) by (intro putRefresh_good) (auto simp: fresh_pair_def unused_id_def putAccessLocked_def new_refresh_def)
  then show ?thesis using assms(1) by (simp add: write_pair_def Let_def)
qed

text \<open>The two values a mint draws are new to the store.\<close>

definition fresh_mint :: "('c, 'l) oidc_world \<Rightarrow> bool" where
  "fresh_mint w \<longleftrightarrow> (\<forall>a t v t'. RandomValue (ow_tape w) = (Some a, t) \<longrightarrow> RandomValue t = (Some v, t') \<longrightarrow> fresh_pair a v (ow_store w))"

lemma mint_good:
  assumes "good q (op_maxTombstones sv) d (ow_store w)" and "pick_ok pick" and "0 < op_maxTombstones sv" and "fresh_mint w"
  shows "good q (op_maxTombstones sv) d (ow_store (snd (CreateAccessAndRefreshTokens sv pick now ctx rq current w)))"
proof (cases "\<exists>a t v t'. RandomValue (ow_tape w) = (Some a, t) \<and> RandomValue t = (Some v, t')")
  case True
  then obtain a t v t' where draws: "RandomValue (ow_tape w) = (Some a, t)" "RandomValue t = (Some v, t')" by blast
  then have fresh: "fresh_pair a v (ow_store w)" using assms(4) by (simp add: fresh_mint_def)
  obtain res w' where c: "claim_refresh sv pick current (w\<lparr>ow_tape := t'\<rparr>) = (res, w')" by (meson surj_pair)
  have g: "good q (op_maxTombstones sv) d (ow_store (w\<lparr>ow_tape := t'\<rparr>))" using assms(1) by simp
  have f: "fresh_pair a v (ow_store w')" if "\<not> isl res" using claim_good(2) [OF g assms(2,3) c that] fresh by simp
  show ?thesis
  proof (cases res)
    case (Inl e)
    then show ?thesis using claim_good(1) [OF g assms(2,3) c] by (simp add: CreateAccessAndRefreshTokens_def draws c)
  next
    case (Inr family)
    then show ?thesis using write_pair_good [OF claim_good(1) [OF g assms(2,3) c] f]
      by (simp add: CreateAccessAndRefreshTokens_def draws c)
  qed
next
  case False
  then show ?thesis using assms(1)
    by (auto simp: CreateAccessAndRefreshTokens_def split: prod.split option.split)
qed

section \<open>Runs of the store\<close>

datatype oidc_call =
    DoCreate time wire_request string
  | DoByCode time op_context string
  | DoSaveCode time string string
  | DoDelete time string
  | DoAccess time token_request
  | DoMint time op_context token_request string
  | DoByRefresh time op_context string
  | DoTerminate string string
  | DoRevokeToken time string string string
  | DoStoreDevice time string string string time "string list"
  | DoPollDevice time op_context string string
  | DoSweep time
  | DoSetAuthTime string time
  | DoComplete time string string "string list"
  | DoDecide time string string bool "scope list option" "scope list"
  | DoDeny time string string
  | DoRevokeGrant time string string
  | DoRevokeTokens token_filter
  | DoPurge string

abbreviation on_store :: "(oidc_store \<Rightarrow> oidc_store) \<Rightarrow> ('c, 'l) oidc_world \<Rightarrow> ('c, 'l) oidc_world" where
  "on_store f w \<equiv> w\<lparr>ow_store := f (ow_store w)\<rparr>"

fun oidc_run ::
  "('c, 'l) oidc_service \<Rightarrow> ((string, oidc_tombstone) fmap \<Rightarrow> string) \<Rightarrow> oidc_call \<Rightarrow> ('c, 'l) oidc_world \<Rightarrow> ('c, 'l) oidc_world" where
  "oidc_run sv pick (DoCreate now rq user) w = snd (CreateAuthRequest sv now rq user w)"
| "oidc_run sv pick (DoByCode now ctx code) w = on_store (\<lambda>s. snd (snd (AuthRequestByCode now ctx code s))) w"
| "oidc_run sv pick (DoSaveCode now ident code) w = on_store (SaveAuthCode sv now ident code) w"
| "oidc_run sv pick (DoDelete now ident) w = DeleteAuthRequest sv now ident w"
| "oidc_run sv pick (DoAccess now rq) w = snd (CreateAccessToken sv now rq w)"
| "oidc_run sv pick (DoMint now ctx rq current) w = snd (CreateAccessAndRefreshTokens sv pick now ctx rq current w)"
| "oidc_run sv pick (DoByRefresh now ctx value) w = on_store (\<lambda>s. snd (snd (TokenRequestByRefreshToken now ctx value s))) w"
| "oidc_run sv pick (DoTerminate user cid) w = on_store (TerminateSession user cid) w"
| "oidc_run sv pick (DoRevokeToken now token user cid) w = RevokeToken sv now token user cid w"
| "oidc_run sv pick (DoStoreDevice now cid code user expires scopes) w =
     on_store (\<lambda>s. snd (StoreDeviceAuthorization sv now cid code user expires scopes s)) w"
| "oidc_run sv pick (DoPollDevice now ctx cid code) w = on_store (\<lambda>s. snd (snd (GetDeviceAuthorizatonState now ctx cid code s))) w"
| "oidc_run sv pick (DoSweep now) w = on_store (\<lambda>s. snd (oidc_SweepExpired now s)) w"
| "oidc_run sv pick (DoSetAuthTime ident at) w = on_store (\<lambda>s. snd (SetAuthTime ident at s)) w"
| "oidc_run sv pick (DoComplete now ident subject scopes) w = snd (CompleteLogin sv now ident subject scopes w)"
| "oidc_run sv pick (DoDecide now user subject approve scopes explicit) w =
     snd (oidc_DecideDevice sv now user subject approve scopes explicit w)"
| "oidc_run sv pick (DoDeny now user subject) w = snd (DenyDevice sv now user subject w)"
| "oidc_run sv pick (DoRevokeGrant now subject cid) w = snd (oidc_RevokeGrant sv now subject cid w)"
| "oidc_run sv pick (DoRevokeTokens f) w = on_store (\<lambda>s. snd (oidc_RevokeTokens f s)) w"
| "oidc_run sv pick (DoPurge subject) w = on_store (\<lambda>s. snd (PurgeSubject subject s)) w"

text \<open>The values a call draws, or is handed by the library, are new to the store.\<close>

fun call_fresh :: "oidc_call \<Rightarrow> ('c, 'l) oidc_world \<Rightarrow> bool" where
  "call_fresh (DoCreate _ _ _) w \<longleftrightarrow>
     (\<forall>ident t. RandomValue (ow_tape w) = (Some ident, t) \<longrightarrow> fmlookup (os_requests (ow_store w)) ident = None)"
| "call_fresh (DoAccess _ _) w \<longleftrightarrow>
     (\<forall>a t. RandomValue (ow_tape w) = (Some a, t) \<longrightarrow> unused_id (TokenHash a) (ow_store w))"
| "call_fresh (DoMint _ _ _ _) w \<longleftrightarrow> fresh_mint w"
| "call_fresh (DoStoreDevice _ _ code _ _ _) w \<longleftrightarrow> fmlookup (os_devices (ow_store w)) (TokenHash code) = None"
| "call_fresh _ w \<longleftrightarrow> True"

fun fresh_run ::
  "('c, 'l) oidc_service \<Rightarrow> ((string, oidc_tombstone) fmap \<Rightarrow> string) \<Rightarrow> oidc_call list \<Rightarrow> ('c, 'l) oidc_world \<Rightarrow> bool" where
  "fresh_run sv pick [] w \<longleftrightarrow> True"
| "fresh_run sv pick (c # cs) w \<longleftrightarrow> call_fresh c w \<and> fresh_run sv pick cs (oidc_run sv pick c w)"

abbreviation within :: "('c, 'l) oidc_service \<Rightarrow> oidc_store \<Rightarrow> bool" where
  "within sv \<equiv> good (op_maxRequests sv) (op_maxTombstones sv) (op_maxDevices sv)"

lemma create_good:
  assumes "within sv (ow_store w)"
    and "\<And>ident t. RandomValue (ow_tape w) = (Some ident, t) \<Longrightarrow> fmlookup (os_requests (ow_store w)) ident = None"
  shows "within sv (ow_store (snd (CreateAuthRequest sv now rq user w)))"
proof (cases "\<exists>ident t. RandomValue (ow_tape w) = (Some ident, t)")
  case True
  then obtain ident t where d: "RandomValue (ow_tape w) = (Some ident, t)" by blast
  let ?a = "\<lparr>aq_id = ident, aq_client = wq_client rq, aq_redirect = wq_redirect rq, aq_response_type = wq_response_type rq,
    aq_response_mode = wq_response_mode rq, aq_scopes = wq_scopes rq, aq_state = wq_state rq, aq_nonce = wq_nonce rq,
    aq_challenge = codeChallenge (wq_challenge rq) (wq_method rq), aq_subject = user, aq_done = False, aq_auth_time = None,
    aq_prompt = wq_prompt rq, aq_max_age = wq_max_age rq\<rparr>"
  show ?thesis using putRequest_good [of _ _ _ "ow_store w" ?a "now + op_requestTTL sv"] assms(1) assms(2) [OF d]
    by (simp add: CreateAuthRequest_def d Let_def)
qed (use assms(1) in \<open>auto simp: CreateAuthRequest_def split: prod.split option.split\<close>)

lemma oidc_run_good:
  assumes "within sv (ow_store w)" and "pick_ok pick" and "0 < op_maxTombstones sv" and "call_fresh c w"
  shows "within sv (ow_store (oidc_run sv pick c w))"
proof (cases c)
  case (DoCreate now rq user)
  then show ?thesis using create_good [OF assms(1)] assms(4) by simp
next
  case (DoMint now ctx rq current)
  then show ?thesis using mint_good [OF assms(1-3)] assms(4) by simp
next
  case (DoAccess now rq)
  then show ?thesis using assms(1,4)
    by (auto simp: CreateAccessToken_def Let_def putAccess_good unused_id_def split: prod.split option.split)
next
  case (DoRevokeGrant now subject cid)
  then show ?thesis using assms(1) by (simp add: oidc_RevokeGrant_def Let_def case_prod_beta revoke_store_good bump_good)
next
  case (DoDelete now ident)
  then show ?thesis using assms(1) by (simp add: DeleteAuthRequest_def Let_def good_helpers split: option.split)
next
  case (DoRevokeToken now token user cid)
  then show ?thesis using revoke_token_good [OF assms(1)] by (simp add: RevokeToken_def Let_def case_prod_beta)
qed (use assms in \<open>simp_all add: ByCode_good SaveAuthCode_def putCode_good ByRefresh_good TerminateSession_good StoreDevice_good
      PollDevice_good Sweep_good SetAuthTime_good CompleteLogin_good decide_good deny_good RevokeTokens_good PurgeSubject_good\<close>)

lemma oidc_runs_good:
  assumes "pick_ok pick" and "0 < op_maxTombstones sv"
  shows "within sv (ow_store w) \<Longrightarrow> fresh_run sv pick cs w \<Longrightarrow> within sv (ow_store (fold (oidc_run sv pick) cs w))"
  by (induction cs arbitrary: w) (simp_all add: oidc_run_good [OF _ assms])

lemma NewOIDCStore_good:
  assumes "NewOIDCStore opts = Inr (sv, s)"
  shows "within sv s" and "0 < op_maxTombstones sv"
  using assms empty_oidc_ok
  by (auto simp: NewOIDCStore_def good_def bounded_def empty_oidc_def defaultMaxRefreshTombstones_def fcard_fempty split: option.split_asm if_split_asm)

lemma NewOIDCStore_reach:
  assumes "NewOIDCStore opts = Inr (sv, s)" and "ow_store w = s" and "pick_ok pick" and "fresh_run sv pick cs w"
  shows "within sv (ow_store (fold (oidc_run sv pick) cs w))"
  using oidc_runs_good [OF assms(3) NewOIDCStore_good(2) [OF assms(1)]] NewOIDCStore_good(1) [OF assms(1)] assms(2,4) by simp

section \<open>Properties\<close>

text \<open>C38. The indexes of the provider's store are exact. After any run of the store's operations in which
  every request identifier and token value drawn, and every device code handed to the store, is new to it
  (\<open>fresh_run\<close>), the records found for a subject through an index are all of that
  subject's records and no others, for access tokens, refresh tokens and pending requests; the
  refresh half of an access token, the codes of a request and the device behind a user code are found
  by their indexes exactly when they exist; and pending requests, replay residues and pending device
  authorizations never exceed the bounds the store was built with.\<close>

theorem oidc_indexes_exact:
  assumes "NewOIDCStore opts = Inr (sv, s0)" and "ow_store w0 = s0" and "pick_ok pick" and "fresh_run sv pick calls w0"
  defines "s \<equiv> ow_store (fold (oidc_run sv pick) calls w0)"
  shows "(\<forall>u. set (accessKeysLocked u s) = {k. \<exists>t. fmlookup (os_access s) k = Some t \<and> (u = [] \<or> oa_subject t = u)}
       \<and> set (refreshKeysLocked u s) = {k. \<exists>t. fmlookup (os_refresh s) k = Some t \<and> (u = [] \<or> rf_subject t = u)}
       \<and> set (requestKeysLocked u s) = {k. \<exists>a. fmlookup (os_requests s) k = Some a \<and> (u = [] \<or> aq_subject a = u)})
    \<and> (\<forall>h k. refreshKeyByIDHashLocked h s = Some k \<longleftrightarrow> (\<exists>t. fmlookup (os_refresh s) k = Some t \<and> rf_id_hash t = h))
    \<and> (\<forall>q k. k |\<in>| ix_keys (os_codeByRequest s) q \<longleftrightarrow> (\<exists>c. fmlookup (os_codes s) k = Some c \<and> ck_request c = q))
    \<and> (\<forall>code st. DeviceByUserCode code s = Inr st \<longleftrightarrow>
         (\<exists>h d. fmlookup (os_devices s) h = Some d \<and> normalizeUserCode (od_user_code d) = normalizeUserCode code
            \<and> st = device_state_of d))
    \<and> fcard (fmdom (os_requests s)) \<le> op_maxRequests sv \<and> fcard (fmdom (os_tombstones s)) \<le> op_maxTombstones sv
    \<and> fcard (fmdom (os_devices s)) \<le> op_maxDevices sv"
proof -
  have "within sv s" unfolding s_def by (rule NewOIDCStore_reach [OF assms(1-4)])
  then have ok: "oidc_ok s" and b: "bounded (op_maxRequests sv) (op_maxTombstones sv) (op_maxDevices sv) s"
    by (simp_all add: good_def)
  have ix: "ix_ok named (os_access s) oa_subject (os_accessBySubject s)"
    "ix_ok named (os_refresh s) rf_subject (os_refreshBySubject s)"
    "ix_ok named (os_requests s) aq_subject (os_requestBySubject s)" using ok by (simp_all add: oidc_ok_def)
  have "DeviceByUserCode code s = Inr st \<longleftrightarrow> (\<exists>h d. fmlookup (os_devices s) h = Some d
      \<and> normalizeUserCode (od_user_code d) = normalizeUserCode code \<and> st = device_state_of d)" for code st
  proof -
    have u: "fmlookup (os_userCodes s) v = Some h \<longleftrightarrow> (\<exists>d. fmlookup (os_devices s) h = Some d \<and> normalizeUserCode (od_user_code d) = v)" for v h
      using ok by (simp add: oidc_ok_def user_index_ok_def)
    show ?thesis by (cases "fmlookup (os_userCodes s) (normalizeUserCode code)")
        (auto simp: DeviceByUserCode_def u split: option.split, (metis option.distinct(1) option.inject u)+)
  qed
  moreover have "id_index_ok (os_refresh s) (os_refreshByIDHash s)"
    "ix_ok (\<lambda>_. True) (os_codes s) ck_request (os_codeByRequest s)" using ok by (simp_all add: oidc_ok_def)
  ultimately show ?thesis using ix b
    by (auto simp: accessKeysLocked_def refreshKeysLocked_def requestKeysLocked_def ix_ok_def id_index_ok_def
        refreshKeyByIDHashLocked_def bounded_def)
qed

definition demo_opts :: "(client_map, memory_log) oidc_options" where
  "demo_opts = \<lparr>oq_clients = Some memory_registry, oq_registry = Some fmempty, oq_login = None, oq_signer = True,
     oq_audit = Some memory_logger, oq_requestTTL = 0, oq_maxTombstones = 0, oq_maxRequests = 0, oq_maxDevices = 0\<rparr>"

definition demo_wire :: wire_request where
  "demo_wire = \<lparr>wq_client = ''c'', wq_redirect = ''https://a/cb'', wq_response_type = ''code'', wq_response_mode = [],
     wq_scopes = [''openid''], wq_state = ''x'', wq_nonce = ''n'', wq_challenge = ''ch'', wq_method = ''S256'', wq_prompt = [],
     wq_max_age = None\<rparr>"

definition demo_op_world :: "tape \<Rightarrow> (client_map, memory_log) oidc_world" where
  "demo_op_world t = \<lparr>ow_clients = fmempty, ow_store = empty_oidc, ow_log = NewMemoryLogger, ow_tape = t\<rparr>"

definition demo_pick :: "(string, oidc_tombstone) fmap \<Rightarrow> string" where
  "demo_pick m = hd (fm_keys m)"

lemma demo_pick_ok: "pick_ok demo_pick"
proof -
  have "hd (fm_keys m) \<in> set (fm_keys m)" if "m \<noteq> fmempty" for m :: "(string, oidc_tombstone) fmap"
  proof -
    have "\<exists>k. fmlookup m k \<noteq> None" using that by (metis fmap_ext fmempty_lookup)
    then have "set (fm_keys m) \<noteq> {}" by auto
    then show ?thesis by (metis hd_in_set list.set(1))
  qed
  then show ?thesis by (simp add: pick_ok_def demo_pick_def fmlookup_dom_iff)
qed

theorem oidc_indexes_exact_witness:
  "\<exists>sv. NewOIDCStore demo_opts = Inr (sv, empty_oidc)
     \<and> set (requestKeysLocked ''u'' (ow_store (fold (oidc_run sv demo_pick) [DoCreate 1 demo_wire ''u'', DoTerminate ''u'' ''c'']
            (demo_op_world (replicate 32 (CHR ''t''))))))
         = {k. \<exists>a. fmlookup (os_requests (ow_store (fold (oidc_run sv demo_pick) [DoCreate 1 demo_wire ''u'', DoTerminate ''u'' ''c'']
            (demo_op_world (replicate 32 (CHR ''t'')))))) k = Some a \<and> aq_subject a = ''u''}"
proof -
  obtain sv where n: "NewOIDCStore demo_opts = Inr (sv, empty_oidc)" by (simp add: NewOIDCStore_def demo_opts_def)
  have w: "ow_store (demo_op_world (replicate 32 (CHR ''t''))) = empty_oidc" by (simp add: demo_op_world_def)
  have "fresh_run sv demo_pick [DoCreate 1 demo_wire ''u'', DoTerminate ''u'' ''c''] (demo_op_world (replicate 32 (CHR ''t'')))"
    by (simp add: demo_op_world_def empty_oidc_def)
  from oidc_indexes_exact [OF n w demo_pick_ok this] n show ?thesis by auto
qed

end
