(* ===== verification/OIDC_Revoke.thy ===== *)
theory OIDC_Revoke
  imports OIDC_Index
begin

text \<open>
  Revocation in the in-memory OpenID Provider store: \<^verbatim>\<open>RevokeTokens\<close>, \<^verbatim>\<open>RevokeGrant\<close>, \<^verbatim>\<open>PurgeSubject\<close> and
  the generation counters.
  Shown: a filtered revocation, which looks at indexed records only, removes exactly what a scan of
  every table would remove, and counts it; with \<^verbatim>\<open>PurgeSubject\<close> nothing of the subject is left; and a
  mint of a pair whose credential was resolved before a revocation of its grant fails after it, with
  fewer than \<open>2 ^ 64\<close> operations in between, so nothing resolved earlier turns into a pair later. Also
  shown: what a refused mint has already spent.
\<close>

section \<open>Operations that only take away\<close>

definition shrinks :: "oidc_store \<Rightarrow> oidc_store \<Rightarrow> bool" where
  "shrinks s s' \<longleftrightarrow>
     (\<forall>k t. fmlookup (os_access s') k = Some t \<longrightarrow> fmlookup (os_access s) k = Some t)
     \<and> (\<forall>k t. fmlookup (os_refresh s') k = Some t \<longrightarrow> fmlookup (os_refresh s) k = Some t)
     \<and> (\<forall>k t. fmlookup (os_tombstones s') k = Some t \<longrightarrow> fmlookup (os_tombstones s) k = Some t)"

lemma shrinks_refl [simp]: "shrinks s s"
  by (simp add: shrinks_def)

lemma shrinks_trans: "shrinks s s' \<Longrightarrow> shrinks s' s'' \<Longrightarrow> shrinks s s''"
  by (simp add: shrinks_def)

lemma shrinks_same:
  "os_access s' = os_access s \<Longrightarrow> os_refresh s' = os_refresh s \<Longrightarrow> os_tombstones s' = os_tombstones s \<Longrightarrow> shrinks s s'"
  by (simp add: shrinks_def)

lemma shrinks_helpers:
  assumes "shrinks s0 s"
  shows "shrinks s0 (deleteAccessLocked k s)" "shrinks s0 (deleteRefreshLocked k s)" "shrinks s0 (deleteRequestLocked k s)"
    "shrinks s0 (deleteCodeLocked k s)" "shrinks s0 (snd (deleteCodesForRequestLocked k s))" "shrinks s0 (drop_tombstone k ts s)"
    "shrinks s0 (drop_generation k r s)" "shrinks s0 (drop_request k a s)" "shrinks s0 (drop_device k d s)"
    "shrinks s0 (forget_spent h s)" "shrinks s0 (s\<lparr>os_tombstones := fmdrop k (os_tombstones s)\<rparr>)"
    "shrinks s0 (bumpRevocationEpochsLocked cid subject s)"
    "shrinks s0 (s\<lparr>os_tombstones := fm_drop_where P (os_tombstones s)\<rparr>)"
  using assms
  by (auto simp: shrinks_def drop_request_def drop_generation_def forget_spent_def bumpRevocationEpochsLocked_def bump_scope_def
      Let_def split: option.split_asm if_split_asm)

lemma shrinks_loops:
  assumes "shrinks s0 s"
  shows "shrinks s0 (snd (drop_each (\<lambda>s. fmlookup (os_access s)) (\<lambda>k _. deleteAccessLocked k) PA ks s))"
    "shrinks s0 (snd (drop_each (\<lambda>s. fmlookup (os_refresh s)) (\<lambda>k _. deleteRefreshLocked k) PR ks s))"
    "shrinks s0 (snd (drop_each (\<lambda>s. fmlookup (os_refresh s)) drop_generation PR ks s))"
    "shrinks s0 (snd (drop_each (\<lambda>s. fmlookup (os_tombstones s)) drop_tombstone PT ks s))"
    "shrinks s0 (snd (drop_each (\<lambda>s. fmlookup (os_requests s)) drop_request PQ ks s))"
    "shrinks s0 (snd (drop_each (\<lambda>s. fmlookup (os_expiry s)) (\<lambda>k _. deleteRequestLocked k) PE ks s))"
    "shrinks s0 (snd (drop_each (\<lambda>s. fmlookup (os_codes s)) (\<lambda>k _. deleteCodeLocked k) PC ks s))"
    "shrinks s0 (snd (drop_each (\<lambda>s. fmlookup (os_devices s)) drop_device PD ks s))"
  by (rule drop_each_invariant [where I = "shrinks s0", OF assms]; simp add: shrinks_helpers)+

lemma revokeFamily_shrinks: "shrinks s0 s \<Longrightarrow> shrinks s0 (revokeFamilyLocked family s)"
  by (simp add: revokeFamilyLocked_def Let_def shrinks_loops)

lemma delete_codes_frame:
  "shrinks s0 s \<Longrightarrow> shrinks s0 (snd (fold (\<lambda>ident (m, s). case deleteCodesForRequestLocked ident s of (k, s) \<Rightarrow> (m + k, s)) ids (n, s)))"
proof (induction ids arbitrary: n s)
  case (Cons i ids)
  from Cons.IH [OF shrinks_helpers(5) [OF Cons.prems, of i]] show ?case by (simp add: case_prod_beta)
qed simp

lemma purge_requests_shrinks: "shrinks s0 s \<Longrightarrow> shrinks s0 (snd (snd (purge_requests P ids s)))"
  by (simp add: purge_requests_def Let_def case_prod_beta [of _ "drop_each _ _ _ _ _"] case_prod_beta [of _ "fold _ _ _"]
      delete_codes_frame shrinks_loops)

lemma revoke_store_shrinks: "shrinks s0 s \<Longrightarrow> shrinks s0 (snd (revoke_store I M as rs qs s))"
  by (simp add: revoke_store_def Let_def case_prod_beta shrinks_loops purge_requests_shrinks)

lemma revoke_token_shrinks: "shrinks s0 s \<Longrightarrow> shrinks s0 (snd (revoke_token_store h cid s))"
  by (auto simp: revoke_token_store_def Let_def shrinks_helpers split: option.split)
    (auto simp: shrinks_def split: if_split_asm)

lemma decide_shrinks: "shrinks (ow_store w) (ow_store (snd (oidc_DecideDevice sv now user sub ap scopes explicit w)))"
  by (auto simp: oidc_DecideDevice_def approveDevice_def DenyDevice_def Let_def intro: shrinks_same split: sum.split option.split)

text \<open>Every operation but the two mints only takes tokens away.\<close>

lemma run_shrinks:
  assumes "\<And>now rq. c \<noteq> DoAccess now rq" and "\<And>now ctx rq cur. c \<noteq> DoMint now ctx rq cur"
  shows "shrinks (ow_store w) (ow_store (oidc_run sv pick c w))"
proof (cases c)
  case (DoCreate now rq user)
  then show ?thesis by (auto simp: CreateAuthRequest_def Let_def intro: shrinks_same split: prod.split option.split)
next
  case (DoRevokeGrant now subject cid)
  then show ?thesis by (simp add: oidc_RevokeGrant_def Let_def case_prod_beta revoke_store_shrinks shrinks_helpers)
next
  case (DoDelete now ident)
  then show ?thesis by (simp add: DeleteAuthRequest_def Let_def shrinks_helpers split: option.split)
next
  case (DoRevokeToken now token user cid)
  then show ?thesis by (simp add: RevokeToken_def Let_def case_prod_beta revoke_token_shrinks)
next
  case (DoSaveCode now ident code)
  then show ?thesis by (auto simp: SaveAuthCode_def putCodeLocked_def removeCodeFromIndexLocked_def Let_def intro: shrinks_same split: option.split)
next
  case (DoStoreDevice now cid code user expires scopes)
  then show ?thesis by (auto simp: StoreDeviceAuthorization_def claim_user_code_def Let_def shrinks_def split: option.split)
next
  case (DoPollDevice now ctx cid code)
  then show ?thesis by (auto simp: GetDeviceAuthorizatonState_def Let_def intro: shrinks_same split: option.split)
next
  case (DoSetAuthTime ident at)
  then show ?thesis by (auto simp: SetAuthTime_def intro: shrinks_same split: option.split)
next
  case (DoComplete now ident subject scopes)
  then show ?thesis by (auto simp: CompleteLogin_def Let_def intro: shrinks_same split: option.split)
next
  case (DoDeny now user subject)
  then show ?thesis by (auto simp: DenyDevice_def Let_def intro: shrinks_same split: option.split)
next
  case (DoSweep now)
  then show ?thesis
    by (simp add: oidc_SweepExpired_def purgeExpiredDevicesLocked_def Let_def case_prod_beta shrinks_loops shrinks_helpers)
next
  case (DoByCode now ctx code)
  then show ?thesis by (simp add: AuthRequestByCode_def Let_def shrinks_helpers split: option.split)
next
  case (DoByRefresh now ctx v)
  then show ?thesis by (simp add: TokenRequestByRefreshToken_def Let_def revokeFamily_shrinks split: option.split)
next
  case (DoPurge subject)
  then show ?thesis by (simp add: PurgeSubject_def Let_def case_prod_beta shrinks_loops purge_requests_shrinks)
qed (use assms in \<open>simp_all add: decide_shrinks TerminateSession_def oidc_RevokeTokens_def Let_def shrinks_loops
      revoke_store_shrinks shrinks_helpers\<close>)

section \<open>Pairs belong together\<close>

text \<open>The access token named by a live or a spent refresh token is of the same client and subject.\<close>

definition paired :: "oidc_store \<Rightarrow> bool" where
  "paired s \<longleftrightarrow>
     (\<forall>k r t. fmlookup (os_refresh s) k = Some r \<longrightarrow> fmlookup (os_access s) (rf_id_hash r) = Some t
        \<longrightarrow> oa_client t = rf_client r \<and> oa_subject t = rf_subject r)
     \<and> (\<forall>k ts t. fmlookup (os_tombstones s) k = Some ts \<longrightarrow> fmlookup (os_access s) (ob_id_hash ts) = Some t
        \<longrightarrow> oa_client t = ob_client ts \<and> oa_subject t = ob_subject ts)"

lemma paired_shrinks: "paired s \<Longrightarrow> shrinks s s' \<Longrightarrow> paired s'"
  unfolding paired_def shrinks_def by metis

lemma unused_id_refresh:
  "oidc_ok s \<Longrightarrow> unused_id h s \<Longrightarrow> fmlookup (os_refresh s) k = Some r \<Longrightarrow> rf_id_hash r \<noteq> h"
  unfolding oidc_ok_def id_index_ok_def unused_id_def by (metis option.distinct(1))

lemma putAccess_paired:
  assumes "paired s" and "oidc_ok s" and "unused_id h s"
  shows "paired (putAccessLocked h a s)"
  using assms unused_id_refresh [OF assms(2,3)] by (auto simp: paired_def putAccessLocked_def unused_id_def)

lemma spend_paired:
  assumes "paired s" and "fmlookup (os_refresh s) spent = Some held"
  shows "paired (spend_refresh t pick spent held s)"
  using assms by (auto simp: paired_def spend_tombstones spend_fresh(1) spend_refresh_def dest: evict_lookup split: if_split_asm)

lemma write_pair_paired:
  assumes "paired (ow_store w)" and "oidc_ok (ow_store w)" and "fresh_pair a v (ow_store w)"
  shows "paired (ow_store (snd (write_pair sv now ctx rq a v family w)))"
proof -
  let ?s = "putAccessLocked (TokenHash a) (new_access sv now rq a) (ow_store w)"
  have "paired ?s" using assms by (intro putAccess_paired) (auto simp: fresh_pair_def)
  then have "paired (putRefreshLocked (TokenHash v) (new_refresh sv now rq a v family) ?s)"
    by (auto simp: paired_def putRefreshLocked_def putAccessLocked_def new_refresh_def new_access_def)
  then show ?thesis using assms(1) by (simp add: write_pair_def Let_def)
qed

lemma claim_paired:
  assumes "paired (ow_store w)" and "claim_refresh sv pick current w = (res, w')"
  shows "paired (ow_store w')"
  using assms spend_paired [OF assms(1)] paired_shrinks [OF assms(1) revokeFamily_shrinks [OF shrinks_refl]]
  by (auto simp: claim_refresh_def Let_def split: if_split_asm option.split_asm prod.split_asm)

lemma mint_paired:
  assumes "paired (ow_store w)" and "good q (op_maxTombstones sv) d (ow_store w)" and "pick_ok pick" and "0 < op_maxTombstones sv"
    and "fresh_mint w"
  shows "paired (ow_store (snd (CreateAccessAndRefreshTokens sv pick now ctx rq current w)))"
proof (cases "\<exists>a t v t'. RandomValue (ow_tape w) = (Some a, t) \<and> RandomValue t = (Some v, t')")
  case True
  then obtain a t v t' where draws: "RandomValue (ow_tape w) = (Some a, t)" "RandomValue t = (Some v, t')" by blast
  then have fresh: "fresh_pair a v (ow_store w)" using assms(5) by (simp add: fresh_mint_def)
  obtain res w' where c: "claim_refresh sv pick current (w\<lparr>ow_tape := t'\<rparr>) = (res, w')" by (meson surj_pair)
  have g: "good q (op_maxTombstones sv) d (ow_store (w\<lparr>ow_tape := t'\<rparr>))" using assms(2) by simp
  have p: "paired (ow_store w')" by (rule claim_paired [OF _ c]) (use assms(1) in simp)
  show ?thesis
  proof (cases res)
    case (Inr family)
    have f: "fresh_pair a v (ow_store w')" using claim_good(2) [OF g assms(3,4) c] Inr fresh by simp
    show ?thesis using write_pair_paired [OF p _ f] claim_good(1) [OF g assms(3,4) c] Inr
      by (simp add: CreateAccessAndRefreshTokens_def draws c good_def)
  qed (use p in \<open>simp add: CreateAccessAndRefreshTokens_def draws c\<close>)
qed (use assms(1) in \<open>auto simp: CreateAccessAndRefreshTokens_def split: prod.split option.split\<close>)

lemma run_paired:
  assumes "paired (ow_store w)" and "within sv (ow_store w)" and "pick_ok pick" and "0 < op_maxTombstones sv" and "call_fresh c w"
  shows "paired (ow_store (oidc_run sv pick c w))"
proof (cases "\<exists>now rq. c = DoAccess now rq")
  case True
  then obtain now rq where c: "c = DoAccess now rq" by blast
  have "paired (putAccessLocked (TokenHash a) (new_access sv now rq a) (ow_store w))"
    if "RandomValue (ow_tape w) = (Some a, t)" for a t
    using that assms(1,2,5) by (intro putAccess_paired) (auto simp: c good_def)
  then show ?thesis using assms(1) by (auto simp: c CreateAccessToken_def Let_def split: prod.split option.split)
next
  case False
  show ?thesis
  proof (cases "\<exists>now ctx rq cur. c = DoMint now ctx rq cur")
    case True
    then show ?thesis using mint_paired [OF assms(1-4)] assms(5) by auto
  next
    case nomint: False
    show ?thesis by (rule paired_shrinks [OF assms(1) run_shrinks]) (use False nomint in auto)
  qed
qed

lemma runs_paired:
  assumes "pick_ok pick" and "0 < op_maxTombstones sv"
  shows "paired (ow_store w) \<Longrightarrow> within sv (ow_store w) \<Longrightarrow> fresh_run sv pick cs w
    \<Longrightarrow> paired (ow_store (fold (oidc_run sv pick) cs w))"
  by (induction cs arbitrary: w) (simp_all add: oidc_run_good [OF _ assms] run_paired [OF _ _ assms])

text \<open>The stores a provider can reach.\<close>

definition reached :: "('c, 'l) oidc_service \<Rightarrow> oidc_store \<Rightarrow> bool" where
  "reached sv s \<longleftrightarrow> within sv s \<and> paired s"

lemma NewOIDCStore_reached:
  assumes "NewOIDCStore opts = Inr (sv, s)" and "ow_store w = s" and "pick_ok pick" and "fresh_run sv pick cs w"
  shows "reached sv (ow_store (fold (oidc_run sv pick) cs w))"
proof -
  have "paired s" using assms(1) by (auto simp: NewOIDCStore_def paired_def empty_oidc_def split: option.split_asm if_split_asm)
  then show ?thesis
    using NewOIDCStore_reach [OF assms] runs_paired [OF assms(3) NewOIDCStore_good(2) [OF assms(1)]]
      NewOIDCStore_good(1) [OF assms(1)] assms(2,4) by (simp add: reached_def)
qed

section \<open>What a revocation removes\<close>

lemma drop_each_access:
  "os_access (snd (drop_each (\<lambda>s. fmlookup (os_access s)) (\<lambda>k _. deleteAccessLocked k) P ks s)) = fm_drop_where Q (os_access s)"
  if "\<And>k t. fmlookup (os_access s) k = Some t \<Longrightarrow> k \<in> set ks \<and> P t \<longleftrightarrow> Q t"
  by (rule fmap_ext) (use that in \<open>auto simp: acc.look_drop_each split: option.split\<close>)

lemma drop_each_refresh:
  "os_refresh (snd (drop_each (\<lambda>s. fmlookup (os_refresh s)) (\<lambda>k _. deleteRefreshLocked k) P ks s)) = fm_drop_where Q (os_refresh s)"
  if "\<And>k t. fmlookup (os_refresh s) k = Some t \<Longrightarrow> k \<in> set ks \<and> P t \<longleftrightarrow> Q t"
  by (rule fmap_ext) (use that in \<open>auto simp: ref.look_drop_each split: option.split\<close>)

lemma drop_each_tombstones:
  "os_tombstones (snd (drop_each (\<lambda>s. fmlookup (os_tombstones s)) drop_tombstone P (fm_keys (os_tombstones s)) s))
     = fm_drop_where P (os_tombstones s)"
  by (rule fmap_ext) (auto simp: tomb.look_drop_each split: option.split)

lemma drop_each_devices:
  "os_devices (snd (drop_each (\<lambda>s. fmlookup (os_devices s)) drop_device P (fm_keys (os_devices s)) s))
     = fm_drop_where P (os_devices s)"
  by (rule fmap_ext) (auto simp: dev.look_drop_each split: option.split)

lemma drop_each_requests:
  "os_requests (snd (drop_each (\<lambda>s. fmlookup (os_requests s)) drop_request P ks s)) = fm_drop_where Q (os_requests s)"
  if "\<And>k t. fmlookup (os_requests s) k = Some t \<Longrightarrow> k \<in> set ks \<and> P t \<longleftrightarrow> Q t"
  by (rule fmap_ext) (use that in \<open>auto simp: req.look_drop_each split: option.split\<close>)

lemma fm_count_length:
  assumes "distinct ks" and "\<And>k t. fmlookup m k = Some t \<Longrightarrow> k \<in> set ks \<and> P t \<longleftrightarrow> Q t"
  shows "length (filter (\<lambda>k. case fmlookup m k of None \<Rightarrow> False | Some v \<Rightarrow> P v) ks) = fm_count Q m"
proof -
  let ?l = "filter (\<lambda>k. case fmlookup m k of None \<Rightarrow> False | Some v \<Rightarrow> P v) ks"
  have "fset (fmdom (fm_keep Q m)) = set ?l"
    using assms(2) by (auto simp: fmlookup_dom_iff split: option.split_asm if_split_asm dest: assms(2))
  then show ?thesis using assms(1) by (simp add: fm_count_def fcard.rep_eq distinct_card flip: set_filter)
qed

text \<open>No residue names an access token that is still there and would survive on its own.\<close>

lemma drop_tombstones_access:
  assumes "\<And>k ts. fmlookup (os_tombstones s) k = Some ts \<Longrightarrow> P ts \<Longrightarrow> fmlookup (os_access s) (ob_id_hash ts) = None"
  shows "os_access (snd (drop_each (\<lambda>s. fmlookup (os_tombstones s)) drop_tombstone P ks s)) = os_access s"
proof -
  let ?I = "\<lambda>t :: oidc_store. os_access t = os_access s \<and> (\<forall>k ts. fmlookup (os_tombstones t) k = Some ts \<longrightarrow> fmlookup (os_tombstones s) k = Some ts)"
  have "?I (snd (drop_each (\<lambda>s. fmlookup (os_tombstones s)) drop_tombstone P ks s))"
  proof (rule drop_each_invariant [where I = ?I])
    fix k ts and t :: oidc_store assume t: "?I t" "fmlookup (os_tombstones t) k = Some ts" "P ts"
    then have "fmlookup (os_access s) (ob_id_hash ts) = None" using assms by blast
    then have "fmdrop (ob_id_hash ts) (os_access s) = os_access s" by (intro fmap_ext) auto
    then show "?I (drop_tombstone k ts t)" using t by (auto split: if_split_asm)
  qed simp
  then show ?thesis by blast
qed

lemma loops_frame:
  "os_refresh (snd (drop_each (\<lambda>s. fmlookup (os_access s)) (\<lambda>k _. deleteAccessLocked k) PA ks s)) = os_refresh s"
  "os_tombstones (snd (drop_each (\<lambda>s. fmlookup (os_access s)) (\<lambda>k _. deleteAccessLocked k) PA ks s)) = os_tombstones s"
  "os_requests (snd (drop_each (\<lambda>s. fmlookup (os_access s)) (\<lambda>k _. deleteAccessLocked k) PA ks s)) = os_requests s"
  "os_codes (snd (drop_each (\<lambda>s. fmlookup (os_access s)) (\<lambda>k _. deleteAccessLocked k) PA ks s)) = os_codes s"
  "os_devices (snd (drop_each (\<lambda>s. fmlookup (os_access s)) (\<lambda>k _. deleteAccessLocked k) PA ks s)) = os_devices s"
  "os_access (snd (drop_each (\<lambda>s. fmlookup (os_refresh s)) (\<lambda>k _. deleteRefreshLocked k) PR ks s)) = os_access s"
  "os_tombstones (snd (drop_each (\<lambda>s. fmlookup (os_refresh s)) (\<lambda>k _. deleteRefreshLocked k) PR ks s)) = os_tombstones s"
  "os_requests (snd (drop_each (\<lambda>s. fmlookup (os_refresh s)) (\<lambda>k _. deleteRefreshLocked k) PR ks s)) = os_requests s"
  "os_codes (snd (drop_each (\<lambda>s. fmlookup (os_refresh s)) (\<lambda>k _. deleteRefreshLocked k) PR ks s)) = os_codes s"
  "os_devices (snd (drop_each (\<lambda>s. fmlookup (os_refresh s)) (\<lambda>k _. deleteRefreshLocked k) PR ks s)) = os_devices s"
  "os_refresh (snd (drop_each (\<lambda>s. fmlookup (os_tombstones s)) drop_tombstone PT ks s)) = os_refresh s"
  "os_requests (snd (drop_each (\<lambda>s. fmlookup (os_tombstones s)) drop_tombstone PT ks s)) = os_requests s"
  "os_codes (snd (drop_each (\<lambda>s. fmlookup (os_tombstones s)) drop_tombstone PT ks s)) = os_codes s"
  "os_devices (snd (drop_each (\<lambda>s. fmlookup (os_tombstones s)) drop_tombstone PT ks s)) = os_devices s"
  "os_access (snd (drop_each (\<lambda>s. fmlookup (os_devices s)) drop_device PD ks s)) = os_access s"
  "os_refresh (snd (drop_each (\<lambda>s. fmlookup (os_devices s)) drop_device PD ks s)) = os_refresh s"
  "os_tombstones (snd (drop_each (\<lambda>s. fmlookup (os_devices s)) drop_device PD ks s)) = os_tombstones s"
  "os_requests (snd (drop_each (\<lambda>s. fmlookup (os_devices s)) drop_device PD ks s)) = os_requests s"
  "os_codes (snd (drop_each (\<lambda>s. fmlookup (os_devices s)) drop_device PD ks s)) = os_codes s"
  by (rule drop_each_same; simp)+

lemma delete_codes_fold:
  assumes "ix_ok (\<lambda>_. True) (os_codes s) ck_request (os_codeByRequest s)"
  defines "step \<equiv> \<lambda>ident (m, s). case deleteCodesForRequestLocked ident s of (k, s) \<Rightarrow> (m + k, s)"
  shows "os_codes (snd (fold step ids (n, s))) = fm_drop_where (\<lambda>c. ck_request c \<in> set ids) (os_codes s)"
    and "os_access (snd (fold step ids (n, s))) = os_access s" and "os_refresh (snd (fold step ids (n, s))) = os_refresh s"
    and "os_tombstones (snd (fold step ids (n, s))) = os_tombstones s" and "os_requests (snd (fold step ids (n, s))) = os_requests s"
    and "os_devices (snd (fold step ids (n, s))) = os_devices s"
proof -
  have "os_codes (snd (fold step ids (n, s))) = fm_drop_where (\<lambda>c. ck_request c \<in> set ids) (os_codes s)
    \<and> os_access (snd (fold step ids (n, s))) = os_access s \<and> os_refresh (snd (fold step ids (n, s))) = os_refresh s
    \<and> os_tombstones (snd (fold step ids (n, s))) = os_tombstones s \<and> os_requests (snd (fold step ids (n, s))) = os_requests s
    \<and> os_devices (snd (fold step ids (n, s))) = os_devices s"
    using assms(1)
  proof (induction ids arbitrary: n s)
    case Nil
    show ?case by (auto intro: fmap_ext split: option.split)
  next
    case (Cons i ids)
    have "fm_drop_where (\<lambda>c. ck_request c \<in> set ids) (fm_drop_where (\<lambda>c. ck_request c = i) (os_codes s))
        = fm_drop_where (\<lambda>c. ck_request c \<in> set (i # ids)) (os_codes s)"
      by (rule fmap_ext) (auto split: option.split)
    with Cons.IH [OF codes_of_request_index [OF Cons.prems, of i], of "n + fst (deleteCodesForRequestLocked i s)"] show ?case
      by (simp add: step_def case_prod_beta codes_of_request_deleted [OF Cons.prems])
  qed
  then show "os_codes (snd (fold step ids (n, s))) = fm_drop_where (\<lambda>c. ck_request c \<in> set ids) (os_codes s)"
    "os_access (snd (fold step ids (n, s))) = os_access s" "os_refresh (snd (fold step ids (n, s))) = os_refresh s"
    "os_tombstones (snd (fold step ids (n, s))) = os_tombstones s" "os_requests (snd (fold step ids (n, s))) = os_requests s"
    "os_devices (snd (fold step ids (n, s))) = os_devices s" by simp_all
qed

lemma purge_requests_exact:
  assumes "oidc_ok s" and cov: "\<forall>k a. fmlookup (os_requests s) k = Some a \<longrightarrow> (k \<in> set ids \<and> P a \<longleftrightarrow> Q a)"
  defines "s' \<equiv> snd (snd (purge_requests P ids s))"
  shows "os_requests s' = fm_drop_where Q (os_requests s)"
    and "os_codes s' = fm_drop_where (\<lambda>c. \<exists>a. fmlookup (os_requests s) (ck_request c) = Some a \<and> Q a) (os_codes s)"
    and "os_access s' = os_access s" and "os_refresh s' = os_refresh s" and "os_tombstones s' = os_tombstones s"
    and "os_devices s' = os_devices s"
proof -
  let ?s1 = "snd (drop_each (\<lambda>s. fmlookup (os_requests s)) drop_request P ids s)"
  let ?purged = "filter (\<lambda>ident. case fmlookup (os_requests s) ident of None \<Rightarrow> False | Some a \<Rightarrow> P a) ids"
  have same: "os_codes ?s1 = os_codes s" "os_codeByRequest ?s1 = os_codeByRequest s" "os_access ?s1 = os_access s"
    "os_refresh ?s1 = os_refresh s" "os_tombstones ?s1 = os_tombstones s" "os_devices ?s1 = os_devices s"
    by (rule drop_each_same; simp add: drop_request_def)+
  have "ix_ok (\<lambda>_. True) (os_codes ?s1) ck_request (os_codeByRequest ?s1)" using assms(1) by (simp add: same oidc_ok_def)
  note f = delete_codes_fold [OF this, of "?purged" 0]
  have s': "s' = snd (fold (\<lambda>ident (m, s). case deleteCodesForRequestLocked ident s of (k, s) \<Rightarrow> (m + k, s)) ?purged (0, ?s1))"
    by (simp add: s'_def purge_requests_def Let_def case_prod_beta [of _ "drop_each _ _ _ _ _"] case_prod_beta [of _ "fold _ _ _"])
  have p: "(\<lambda>c. ck_request c \<in> set ?purged) = (\<lambda>c. \<exists>a. fmlookup (os_requests s) (ck_request c) = Some a \<and> Q a)"
    using cov by (intro ext) (auto split: option.split_asm dest: cov [rule_format])
  show "os_codes s' = fm_drop_where (\<lambda>c. \<exists>a. fmlookup (os_requests s) (ck_request c) = Some a \<and> Q a) (os_codes s)"
    unfolding s' f(1) p same ..
  show "os_requests s' = fm_drop_where Q (os_requests s)" unfolding s' f(5) using cov by (intro drop_each_requests) simp
  show "os_access s' = os_access s" "os_refresh s' = os_refresh s" "os_tombstones s' = os_tombstones s" "os_devices s' = os_devices s"
    unfolding s' f(2,3,4,6) same by simp_all
qed

text \<open>The keys handed to a revocation cover the records it is about, and on them the two conditions agree.\<close>

definition covers :: "(string \<Rightarrow> string \<Rightarrow> bool) \<Rightarrow> (string \<Rightarrow> string \<Rightarrow> bool) \<Rightarrow> string list \<Rightarrow> string list \<Rightarrow> string list \<Rightarrow> oidc_store \<Rightarrow> bool" where
  "covers I M as rs qs s \<longleftrightarrow> distinct as \<and> distinct rs
     \<and> (\<forall>k t. fmlookup (os_access s) k = Some t \<longrightarrow> (k \<in> set as \<and> I (oa_client t) (oa_subject t) \<longleftrightarrow> M (oa_client t) (oa_subject t)))
     \<and> (\<forall>k t. fmlookup (os_refresh s) k = Some t \<longrightarrow> (k \<in> set rs \<and> I (rf_client t) (rf_subject t) \<longleftrightarrow> M (rf_client t) (rf_subject t)))
     \<and> (\<forall>k a. fmlookup (os_requests s) k = Some a \<longrightarrow> (k \<in> set qs \<and> I (aq_client a) (aq_subject a) \<longleftrightarrow> M (aq_client a) (aq_subject a)))"

lemma revoke_store_exact:
  assumes ok: "oidc_ok s" and pr: "paired s" and c: "covers I M as rs qs s"
  defines "s' \<equiv> snd (revoke_store I M as rs qs s)"
  shows "os_access s' = fm_drop_where (\<lambda>t. M (oa_client t) (oa_subject t)) (os_access s)"
    and "os_refresh s' = fm_drop_where (\<lambda>t. M (rf_client t) (rf_subject t)) (os_refresh s)"
    and "os_tombstones s' = fm_drop_where (\<lambda>t. M (ob_client t) (ob_subject t)) (os_tombstones s)"
    and "os_requests s' = fm_drop_where (\<lambda>a. M (aq_client a) (aq_subject a)) (os_requests s)"
    and "os_devices s' = fm_drop_where (\<lambda>d. M (od_client d) (od_subject d)) (os_devices s)"
    and "os_codes s' = fm_drop_where (\<lambda>c. \<exists>a. fmlookup (os_requests s) (ck_request c) = Some a \<and> M (aq_client a) (aq_subject a)) (os_codes s)"
    and "fst (revoke_store I M as rs qs s) = fm_count (\<lambda>t. M (oa_client t) (oa_subject t)) (os_access s)
      + fm_count (\<lambda>t. M (rf_client t) (rf_subject t)) (os_refresh s)"
proof -
  let ?s1 = "snd (drop_each (\<lambda>s. fmlookup (os_access s)) (\<lambda>k _. deleteAccessLocked k) (\<lambda>t. I (oa_client t) (oa_subject t)) as s)"
  let ?s2 = "snd (drop_each (\<lambda>s. fmlookup (os_refresh s)) (\<lambda>k _. deleteRefreshLocked k) (\<lambda>t. I (rf_client t) (rf_subject t)) rs ?s1)"
  let ?s3 = "snd (drop_each (\<lambda>s. fmlookup (os_tombstones s)) drop_tombstone (\<lambda>t. M (ob_client t) (ob_subject t))
    (fm_keys (os_tombstones ?s2)) ?s2)"
  let ?s4 = "snd (snd (purge_requests (\<lambda>a. I (aq_client a) (aq_subject a)) qs ?s3))"
  let ?s5 = "snd (drop_each (\<lambda>s. fmlookup (os_devices s)) drop_device (\<lambda>d. M (od_client d) (od_subject d)) (fm_keys (os_devices ?s4)) ?s4)"
  have s': "s' = ?s5" by (simp add: s'_def revoke_store_def Let_def case_prod_beta)
  have a1: "os_access ?s1 = fm_drop_where (\<lambda>t. M (oa_client t) (oa_subject t)) (os_access s)"
    using c by (intro drop_each_access) (simp add: covers_def)
  have r2: "os_refresh ?s2 = fm_drop_where (\<lambda>t. M (rf_client t) (rf_subject t)) (os_refresh s)"
    using c by (subst drop_each_refresh [where Q = "\<lambda>t. M (rf_client t) (rf_subject t)"]) (simp_all add: covers_def loops_frame)
  have a3: "os_access ?s3 = os_access ?s1"
  proof -
    have "os_access ?s3 = os_access ?s2"
    proof (rule drop_tombstones_access)
      fix k ts assume "fmlookup (os_tombstones ?s2) k = Some ts" and m: "M (ob_client ts) (ob_subject ts)"
      then have "fmlookup (os_tombstones s) k = Some ts" by (simp add: loops_frame)
      then show "fmlookup (os_access ?s2) (ob_id_hash ts) = None"
        using pr m by (auto simp: loops_frame a1 paired_def split: option.split)
    qed
    then show ?thesis by (simp add: loops_frame)
  qed
  have ok3: "oidc_ok ?s3" by (intro oidc_ok_loops ok)
  have q: "\<forall>k a. fmlookup (os_requests ?s3) k = Some a \<longrightarrow>
      (k \<in> set qs \<and> I (aq_client a) (aq_subject a) \<longleftrightarrow> M (aq_client a) (aq_subject a))"
    using c by (simp add: covers_def loops_frame)
  note pq = purge_requests_exact [where P = "\<lambda>a. I (aq_client a) (aq_subject a)" and Q = "\<lambda>a. M (aq_client a) (aq_subject a)",
      OF ok3 q]
  have t3: "os_tombstones ?s3 = fm_drop_where (\<lambda>t. M (ob_client t) (ob_subject t)) (os_tombstones s)"
    unfolding drop_each_tombstones by (simp add: loops_frame)
  have f3: "os_requests ?s3 = os_requests s" "os_codes ?s3 = os_codes s" "os_devices ?s3 = os_devices s"
    "os_refresh ?s3 = fm_drop_where (\<lambda>t. M (rf_client t) (rf_subject t)) (os_refresh s)"
    by (simp_all add: loops_frame r2)
  show "os_access s' = fm_drop_where (\<lambda>t. M (oa_client t) (oa_subject t)) (os_access s)"
    unfolding s' loops_frame(15) pq a3 a1 ..
  show "os_refresh s' = fm_drop_where (\<lambda>t. M (rf_client t) (rf_subject t)) (os_refresh s)"
    unfolding s' loops_frame(16) pq f3 ..
  show "os_tombstones s' = fm_drop_where (\<lambda>t. M (ob_client t) (ob_subject t)) (os_tombstones s)"
    unfolding s' loops_frame(17) pq t3 ..
  show "os_requests s' = fm_drop_where (\<lambda>a. M (aq_client a) (aq_subject a)) (os_requests s)"
    unfolding s' loops_frame(18) pq f3 ..
  show "os_devices s' = fm_drop_where (\<lambda>d. M (od_client d) (od_subject d)) (os_devices s)"
    unfolding s' by (subst drop_each_devices) (simp only: pq f3)
  show "os_codes s' = fm_drop_where (\<lambda>c. \<exists>a. fmlookup (os_requests s) (ck_request c) = Some a \<and> M (aq_client a) (aq_subject a)) (os_codes s)"
    unfolding s' loops_frame(19) pq f3 ..
  have "fst (drop_each (\<lambda>s. fmlookup (os_access s)) (\<lambda>k _. deleteAccessLocked k) (\<lambda>t. I (oa_client t) (oa_subject t)) as s)
      = fm_count (\<lambda>t. M (oa_client t) (oa_subject t)) (os_access s)"
    using c unfolding covers_def by (subst acc.count_drop_each) (auto intro!: fm_count_length)
  moreover have "fst (drop_each (\<lambda>s. fmlookup (os_refresh s)) (\<lambda>k _. deleteRefreshLocked k) (\<lambda>t. I (rf_client t) (rf_subject t)) rs ?s1)
      = fm_count (\<lambda>t. M (rf_client t) (rf_subject t)) (os_refresh s)"
    using c unfolding covers_def by (subst ref.count_drop_each) (auto simp: loops_frame intro!: fm_count_length)
  ultimately show "fst (revoke_store I M as rs qs s) = fm_count (\<lambda>t. M (oa_client t) (oa_subject t)) (os_access s)
      + fm_count (\<lambda>t. M (rf_client t) (rf_subject t)) (os_refresh s)"
    by (simp add: revoke_store_def Let_def case_prod_beta)
qed

lemma epoch_bump_frame [simp]:
  "os_access (bumpRevocationEpochsLocked c u s) = os_access s" "os_refresh (bumpRevocationEpochsLocked c u s) = os_refresh s"
  "os_tombstones (bumpRevocationEpochsLocked c u s) = os_tombstones s" "os_requests (bumpRevocationEpochsLocked c u s) = os_requests s"
  "os_codes (bumpRevocationEpochsLocked c u s) = os_codes s" "os_devices (bumpRevocationEpochsLocked c u s) = os_devices s"
  by (simp_all add: bumpRevocationEpochsLocked_def bump_scope_def Let_def)

lemma paired_bump: "paired s \<Longrightarrow> paired (bumpRevocationEpochsLocked c u s)"
  by (simp add: paired_def)

lemma oidc_ok_bump: "oidc_ok s \<Longrightarrow> oidc_ok (bumpRevocationEpochsLocked c u s)"
  by (simp add: bumpRevocationEpochsLocked_def bump_scope_def Let_def oidc_ok_epochs)

lemma revoke_tokens_covers:
  assumes "oidc_ok s"
  shows "covers (Matches f) (Matches f) (accessKeysLocked (tf_subject f) s) (refreshKeysLocked (tf_subject f) s)
    (requestKeysLocked (tf_subject f) s) s"
  using assms
  by (auto simp: covers_def oidc_ok_def ix_ok_def accessKeysLocked_def refreshKeysLocked_def requestKeysLocked_def Matches_def)

lemma revoke_grant_covers:
  assumes "oidc_ok s" and "subject \<noteq> []"
  shows "covers (\<lambda>c u. c = cid) (\<lambda>c u. c = cid \<and> u = subject) (sorted_list_of_fset (ix_keys (os_accessBySubject s) subject))
    (sorted_list_of_fset (ix_keys (os_refreshBySubject s) subject)) (sorted_list_of_fset (ix_keys (os_requestBySubject s) subject)) s"
  using assms by (auto simp: covers_def oidc_ok_def ix_ok_def)

section \<open>Every revocation moves a generation\<close>

lemma epoch_bump:
  "epoch_of sc (bumpRevocationEpochsLocked c u s) =
     epoch_of sc s + (if (sc = GlobalScope \<and> c = [] \<and> u = []) \<or> (sc = ClientScope c \<and> c \<noteq> []) \<or> (sc = SubjectScope u \<and> u \<noteq> [])
                      then 1 else 0)"
  by (auto simp: bumpRevocationEpochsLocked_def bump_scope_def epoch_of_def Let_def)

lemma epochs_helpers:
  "os_epochs (revokeFamilyLocked family s) = os_epochs s"
  "os_epochs (snd (revoke_store I M as rs qs s)) = os_epochs s"
  "os_epochs (snd (snd (purge_requests P ids s))) = os_epochs s"
  "os_epochs (snd (revoke_token_store h cid s)) = os_epochs s"
  "os_epochs (TerminateSession user cid s) = os_epochs s"
  "os_epochs (snd (oidc_SweepExpired now s)) = os_epochs s"
  "os_epochs (snd (PurgeSubject subject s)) = os_epochs s"
  "os_epochs (spend_refresh t pick spent held s) = os_epochs s"
proof -
  have codes: "os_epochs (snd (fold (\<lambda>ident (m, s). case deleteCodesForRequestLocked ident s of (k, s) \<Rightarrow> (m + k, s)) ids (n, s))) = os_epochs s"
    for ids n s
  proof (induction ids arbitrary: n s)
    case (Cons i ids)
    then show ?case by (simp add: case_prod_beta)
  qed simp
  have loops: "os_epochs (snd (drop_each (\<lambda>s. fmlookup (os_access s)) (\<lambda>k _. deleteAccessLocked k) PA ks s)) = os_epochs s"
    "os_epochs (snd (drop_each (\<lambda>s. fmlookup (os_refresh s)) (\<lambda>k _. deleteRefreshLocked k) PR ks s)) = os_epochs s"
    "os_epochs (snd (drop_each (\<lambda>s. fmlookup (os_refresh s)) drop_generation PR ks s)) = os_epochs s"
    "os_epochs (snd (drop_each (\<lambda>s. fmlookup (os_tombstones s)) drop_tombstone PT ks s)) = os_epochs s"
    "os_epochs (snd (drop_each (\<lambda>s. fmlookup (os_requests s)) drop_request PQ ks s)) = os_epochs s"
    "os_epochs (snd (drop_each (\<lambda>s. fmlookup (os_expiry s)) (\<lambda>k _. deleteRequestLocked k) PE ks s)) = os_epochs s"
    "os_epochs (snd (drop_each (\<lambda>s. fmlookup (os_codes s)) (\<lambda>k _. deleteCodeLocked k) PC ks s)) = os_epochs s"
    "os_epochs (snd (drop_each (\<lambda>s. fmlookup (os_devices s)) drop_device PD ks s)) = os_epochs s" for PA PR PT PQ PE PC PD ks s
    by (rule drop_each_same; simp add: drop_request_def)+
  have purge: "os_epochs (snd (snd (purge_requests P ids s))) = os_epochs s" for P ids s
    by (simp add: purge_requests_def Let_def case_prod_beta [of _ "drop_each _ _ _ _ _"] case_prod_beta [of _ "fold _ _ _"] codes loops)
  show "os_epochs (snd (snd (purge_requests P ids s))) = os_epochs s" by (rule purge)
  show "os_epochs (revokeFamilyLocked family s) = os_epochs s" by (simp add: revokeFamilyLocked_def Let_def loops)
  show "os_epochs (snd (revoke_store I M as rs qs s)) = os_epochs s"
    by (simp add: revoke_store_def Let_def case_prod_beta loops purge)
  show "os_epochs (snd (revoke_token_store h cid s)) = os_epochs s"
    by (auto simp: revoke_token_store_def forget_spent_def Let_def split: option.split)
  show "os_epochs (TerminateSession user cid s) = os_epochs s" by (simp add: TerminateSession_def Let_def loops)
  show "os_epochs (snd (oidc_SweepExpired now s)) = os_epochs s"
    by (simp add: oidc_SweepExpired_def purgeExpiredDevicesLocked_def Let_def case_prod_beta loops)
  show "os_epochs (snd (PurgeSubject subject s)) = os_epochs s" by (simp add: PurgeSubject_def Let_def case_prod_beta loops purge)
  show "os_epochs (spend_refresh t pick spent held s) = os_epochs s" by (simp add: spend_refresh_def)
qed

text \<open>The revocations that name a grant.\<close>

fun revokes :: "string \<Rightarrow> string \<Rightarrow> oidc_call \<Rightarrow> bool" where
  "revokes c u (DoRevokeTokens f) \<longleftrightarrow> Matches f c u"
| "revokes c u (DoRevokeGrant now subject cid) \<longleftrightarrow> subject = u \<and> cid = c \<and> u \<noteq> [] \<and> c \<noteq> []"
| "revokes c u _ \<longleftrightarrow> False"

lemma mint_epochs:
  "os_epochs (ow_store (snd (CreateAccessAndRefreshTokens sv pick now ctx rq current w))) = os_epochs (ow_store w)"
  by (auto simp: CreateAccessAndRefreshTokens_def claim_refresh_def write_pair_def putAccessLocked_def putRefreshLocked_def Let_def
      epochs_helpers split: prod.split option.split sum.split)

lemma run_epochs:
  "os_epochs (ow_store (oidc_run sv pick c w)) =
     (case c of
        DoRevokeTokens f \<Rightarrow> os_epochs (bumpRevocationEpochsLocked (tf_client f) (tf_subject f) (ow_store w))
      | DoRevokeGrant now subject cid \<Rightarrow>
          if subject = [] \<or> cid = [] then os_epochs (ow_store w) else os_epochs (bumpRevocationEpochsLocked cid subject (ow_store w))
      | _ \<Rightarrow> os_epochs (ow_store w))"
  by (cases c)
    (auto simp: CreateAuthRequest_def AuthRequestByCode_def SaveAuthCode_def putCodeLocked_def removeCodeFromIndexLocked_def
      DeleteAuthRequest_def CreateAccessToken_def putAccessLocked_def mint_epochs TokenRequestByRefreshToken_def RevokeToken_def
      StoreDeviceAuthorization_def claim_user_code_def GetDeviceAuthorizatonState_def SetAuthTime_def CompleteLogin_def
      oidc_DecideDevice_def approveDevice_def DenyDevice_def oidc_RevokeGrant_def oidc_RevokeTokens_def epochs_helpers Let_def
      case_prod_beta split: option.split sum.split)

lemma epoch_cong: "os_epochs s = os_epochs s' \<Longrightarrow> epoch_of sc s = epoch_of sc s'"
  by (simp add: epoch_of_def)

lemma epoch_step: "\<exists>n \<le> 1. epoch_of sc (ow_store (oidc_run sv pick c w)) = epoch_of sc (ow_store w) + of_nat n"
proof -
  have "os_epochs (ow_store (oidc_run sv pick c w)) = os_epochs (ow_store w)
      \<or> (\<exists>c' u. os_epochs (ow_store (oidc_run sv pick c w)) = os_epochs (bumpRevocationEpochsLocked c' u (ow_store w)))"
    unfolding run_epochs by (cases c) auto
  then consider "epoch_of sc (ow_store (oidc_run sv pick c w)) = epoch_of sc (ow_store w)"
    | "epoch_of sc (ow_store (oidc_run sv pick c w)) = epoch_of sc (ow_store w) + 1"
    by (auto dest!: epoch_cong [of _ _ sc] simp: epoch_bump split: if_split_asm)
  then show ?thesis by cases (auto intro: exI [of _ 0] exI [of _ 1])
qed

lemma epoch_steps:
  "\<exists>n \<le> length cs. epoch_of sc (ow_store (fold (oidc_run sv pick) cs w)) = epoch_of sc (ow_store w) + of_nat n"
proof (induction cs arbitrary: w)
  case (Cons c cs)
  obtain n where n: "n \<le> 1" "epoch_of sc (ow_store (oidc_run sv pick c w)) = epoch_of sc (ow_store w) + of_nat n"
    using epoch_step by blast
  obtain m where "m \<le> length cs" "epoch_of sc (ow_store (fold (oidc_run sv pick) cs (oidc_run sv pick c w)))
      = epoch_of sc (ow_store (oidc_run sv pick c w)) + of_nat m" using Cons.IH by blast
  with n show ?case by (intro exI [of _ "n + m"]) (simp add: add.assoc)
qed simp

text \<open>The generations a mint for a grant compares.\<close>

definition scopes_of :: "string \<Rightarrow> string \<Rightarrow> revocation_scope list" where
  "scopes_of c u = GlobalScope # (if c = [] then [] else [ClientScope c]) @ (if u = [] then [] else [SubjectScope u])"

lemma bump_moves:
  assumes "Matches f c u"
  shows "\<exists>sc \<in> set (scopes_of c u). epoch_of sc (bumpRevocationEpochsLocked (tf_client f) (tf_subject f) s) = epoch_of sc s + 1"
proof (cases "tf_client f = []")
  case True
  show ?thesis
  proof (cases "tf_subject f = []")
    case True
    with \<open>tf_client f = []\<close> show ?thesis by (intro bexI [of _ GlobalScope]) (simp_all add: epoch_bump scopes_of_def)
  next
    case False
    then show ?thesis using assms by (intro bexI [of _ "SubjectScope u"]) (auto simp: epoch_bump scopes_of_def Matches_def)
  qed
next
  case False
  then show ?thesis using assms by (intro bexI [of _ "ClientScope c"]) (auto simp: epoch_bump scopes_of_def Matches_def)
qed

lemma revoking_run_moves:
  assumes "revokes c u call"
  shows "\<exists>sc \<in> set (scopes_of c u). epoch_of sc (ow_store (oidc_run sv pick call w)) = epoch_of sc (ow_store w) + 1"
proof -
  obtain f where f: "Matches f c u"
    and e: "os_epochs (ow_store (oidc_run sv pick call w)) = os_epochs (bumpRevocationEpochsLocked (tf_client f) (tf_subject f) (ow_store w))"
  proof (cases call)
    case (DoRevokeTokens f)
    show ?thesis by (rule that [of f]) (use assms DoRevokeTokens in \<open>simp_all only: run_epochs oidc_call.case revokes.simps\<close>)
  next
    case (DoRevokeGrant now subject cid)
    show ?thesis
      by (rule that [of "\<lparr>tf_client = c, tf_subject = u\<rparr>"])
        (use assms DoRevokeGrant in \<open>simp_all add: run_epochs Matches_def del: oidc_run.simps\<close>)
  qed (use assms in simp_all)
  show ?thesis using bump_moves [OF f] unfolding epoch_cong [OF e] .
qed

lemma revoked_run_changes:
  assumes "\<exists>call \<in> set cs. revokes c u call" and short: "length cs < 2 ^ 64"
  shows "revocationEpochsLocked c u (ow_store (fold (oidc_run sv pick) cs w)) \<noteq> revocationEpochsLocked c u (ow_store w)"
proof -
  obtain xs call ys where cs: "cs = xs @ call # ys" and r: "revokes c u call" using assms(1) by (metis split_list)
  define w1 where "w1 = fold (oidc_run sv pick) xs w"
  define w2 where "w2 = oidc_run sv pick call w1"
  obtain sc where sc: "sc \<in> set (scopes_of c u)" and one: "epoch_of sc (ow_store w2) = epoch_of sc (ow_store w1) + 1"
    using revoking_run_moves [OF r] unfolding w2_def by blast
  obtain n where n: "n \<le> length xs" "epoch_of sc (ow_store w1) = epoch_of sc (ow_store w) + of_nat n"
    unfolding w1_def using epoch_steps by blast
  obtain m where m: "m \<le> length ys" "epoch_of sc (ow_store (fold (oidc_run sv pick) ys w2)) = epoch_of sc (ow_store w2) + of_nat m"
    using epoch_steps by blast
  have "fold (oidc_run sv pick) ys w2 = fold (oidc_run sv pick) cs w" by (simp add: cs w1_def w2_def)
  with m n one have "epoch_of sc (ow_store (fold (oidc_run sv pick) cs w)) = epoch_of sc (ow_store w) + of_nat (n + 1 + m)"
    by (simp add: ac_simps)
  moreover have "n + 1 + m < 2 ^ 64" using n(1) m(1) short by (simp add: cs)
  ultimately have "epoch_of sc (ow_store (fold (oidc_run sv pick) cs w)) \<noteq> epoch_of sc (ow_store w)"
    using of_nat_64_nonzero [of "n + 1 + m"] by (simp del: of_nat_add of_nat_Suc)
  then show ?thesis using sc by (auto simp: revocationEpochsLocked_def scopes_of_def split: if_split_asm)
qed

section \<open>Redemption\<close>

text \<open>What a token request redeems, each by the method the library calls: whose grant it is, and the context with the
  generations captured under the lock.\<close>

datatype redemption = ByCode string | ByRefresh string | ByDevice string string

definition redeem ::
  "time \<Rightarrow> redemption \<Rightarrow> oidc_store \<Rightarrow> (string \<times> string) option \<times> op_context \<times> oidc_store" where
  "redeem now r s =
     (case r of
        ByCode code \<Rightarrow> (case AuthRequestByCode now WithRevocationEpochs code s of
            (Inr a, ctx, s) \<Rightarrow> (Some (aq_client a, aq_subject a), ctx, s) | (_, ctx, s) \<Rightarrow> (None, ctx, s))
      | ByRefresh value \<Rightarrow> (case TokenRequestByRefreshToken now WithRevocationEpochs value s of
            (Inr x, ctx, s) \<Rightarrow> (Some (rx_client x, rx_subject x), ctx, s) | (_, ctx, s) \<Rightarrow> (None, ctx, s))
      | ByDevice cid code \<Rightarrow> (case GetDeviceAuthorizatonState now WithRevocationEpochs cid code s of
            (Inr d, ctx, s) \<Rightarrow> (if dz_done d \<and> \<not> dz_denied d then Some (dz_client d, dz_subject d) else None, ctx, s) | (_, ctx, s) \<Rightarrow> (None, ctx, s)))"

lemma redeem_captures:
  assumes "redeem now r s = (Some (c, u), ctx, s')"
  shows "RevocationUnchanged ctx e \<longleftrightarrow> e = revocationEpochsLocked c u s'"
proof (cases r)
  case (ByCode code)
  then show ?thesis using assms
    by (auto simp: redeem_def AuthRequestByCode_def Let_def WithRevocationEpochs_def revocationEpochsLocked_def epoch_of_def
        split: option.split_asm if_split_asm)
next
  case (ByRefresh v)
  then show ?thesis using assms
    by (auto simp: redeem_def TokenRequestByRefreshToken_def Let_def WithRevocationEpochs_def split: option.split_asm if_split_asm)
next
  case (ByDevice cid code)
  then show ?thesis using assms
    by (auto simp: redeem_def GetDeviceAuthorizatonState_def Let_def WithRevocationEpochs_def device_state_of_def
        revocationEpochsLocked_def epoch_of_def split: option.split_asm if_split_asm)
qed

text \<open>No token record appears.\<close>

definition no_new_tokens :: "oidc_store \<Rightarrow> oidc_store \<Rightarrow> bool" where
  "no_new_tokens s s' \<longleftrightarrow> fmdom (os_access s') |\<subseteq>| fmdom (os_access s) \<and> fmdom (os_refresh s') |\<subseteq>| fmdom (os_refresh s)"

lemma no_new_tokens_shrinks: "shrinks s s' \<Longrightarrow> no_new_tokens s s'"
  by (auto simp: shrinks_def no_new_tokens_def fmlookup_dom_iff)

lemma claim_no_new_tokens: "no_new_tokens (ow_store w) (ow_store (snd (claim_refresh sv pick current w)))"
proof -
  have "no_new_tokens s (spend_refresh t pick spent held s)" for t spent held s
    by (auto simp: no_new_tokens_def spend_refresh_def)
  then show ?thesis
    by (auto simp: claim_refresh_def Let_def intro!: no_new_tokens_shrinks revokeFamily_shrinks split: option.split prod.split)
qed

lemma claim_epochs: "revocationEpochsLocked c u (ow_store (snd (claim_refresh sv pick current w))) = revocationEpochsLocked c u (ow_store w)"
proof -
  have "os_epochs (ow_store (snd (claim_refresh sv pick current w))) = os_epochs (ow_store w)"
    by (auto simp: claim_refresh_def Let_def epochs_helpers split: option.split prod.split)
  then show ?thesis by (simp add: revocationEpochsLocked_def epoch_of_def)
qed

lemma mint_refused:
  assumes "\<not> RevocationUnchanged ctx (revocationEpochsLocked (ClientIDOf req) (tq_subject req) (ow_store w))"
  shows "isl (fst (CreateAccessAndRefreshTokens sv pick now ctx req current w))
    \<and> no_new_tokens (ow_store w) (ow_store (snd (CreateAccessAndRefreshTokens sv pick now ctx req current w)))"
proof -
  have "no_new_tokens (ow_store w) (ow_store w)" by (simp add: no_new_tokens_def)
  moreover have "isl (fst (write_pair sv now ctx req a v f (snd (claim_refresh sv pick current (w\<lparr>ow_tape := t\<rparr>)))))
      \<and> snd (write_pair sv now ctx req a v f (snd (claim_refresh sv pick current (w\<lparr>ow_tape := t\<rparr>))))
        = snd (claim_refresh sv pick current (w\<lparr>ow_tape := t\<rparr>))" for a v f t
    using assms by (simp add: write_pair_def Let_def new_access_def claim_epochs)
  moreover have "no_new_tokens (ow_store w) (ow_store (snd (claim_refresh sv pick current (w\<lparr>ow_tape := t\<rparr>))))" for t
    using claim_no_new_tokens [of "w\<lparr>ow_tape := t\<rparr>"] by simp
  ultimately show ?thesis
    unfolding CreateAccessAndRefreshTokens_def
    by (simp split: prod.split option.split sum.split) (metis snd_conv)
qed

lemma RevokeTokens_exact:
  fixes f :: token_filter
  assumes "reached sv s"
  defines "s' \<equiv> snd (oidc_RevokeTokens f s)"
  shows "os_access s' = fm_drop_where (\<lambda>t. Matches f (oa_client t) (oa_subject t)) (os_access s)"
    and "os_refresh s' = fm_drop_where (\<lambda>t. Matches f (rf_client t) (rf_subject t)) (os_refresh s)"
    and "os_tombstones s' = fm_drop_where (\<lambda>t. Matches f (ob_client t) (ob_subject t)) (os_tombstones s)"
    and "os_requests s' = fm_drop_where (\<lambda>a. Matches f (aq_client a) (aq_subject a)) (os_requests s)"
    and "os_devices s' = fm_drop_where (\<lambda>d. Matches f (od_client d) (od_subject d)) (os_devices s)"
    and "os_codes s' = fm_drop_where (\<lambda>c. \<exists>a. fmlookup (os_requests s) (ck_request c) = Some a
           \<and> Matches f (aq_client a) (aq_subject a)) (os_codes s)"
    and "fst (oidc_RevokeTokens f s) = fm_count (\<lambda>t. Matches f (oa_client t) (oa_subject t)) (os_access s)
           + fm_count (\<lambda>t. Matches f (rf_client t) (rf_subject t)) (os_refresh s)"
proof -
  let ?b = "bumpRevocationEpochsLocked (tf_client f) (tf_subject f) s"
  have "oidc_ok ?b" "paired ?b" using assms(1) by (simp_all add: reached_def good_def oidc_ok_bump paired_bump)
  note r = revoke_store_exact [OF this revoke_tokens_covers [OF \<open>oidc_ok ?b\<close>, of f]]
  show "os_access s' = fm_drop_where (\<lambda>t. Matches f (oa_client t) (oa_subject t)) (os_access s)"
    "os_refresh s' = fm_drop_where (\<lambda>t. Matches f (rf_client t) (rf_subject t)) (os_refresh s)"
    "os_tombstones s' = fm_drop_where (\<lambda>t. Matches f (ob_client t) (ob_subject t)) (os_tombstones s)"
    "os_requests s' = fm_drop_where (\<lambda>a. Matches f (aq_client a) (aq_subject a)) (os_requests s)"
    "os_devices s' = fm_drop_where (\<lambda>d. Matches f (od_client d) (od_subject d)) (os_devices s)"
    "os_codes s' = fm_drop_where (\<lambda>c. \<exists>a. fmlookup (os_requests s) (ck_request c) = Some a
           \<and> Matches f (aq_client a) (aq_subject a)) (os_codes s)"
    "fst (oidc_RevokeTokens f s) = fm_count (\<lambda>t. Matches f (oa_client t) (oa_subject t)) (os_access s)
           + fm_count (\<lambda>t. Matches f (rf_client t) (rf_subject t)) (os_refresh s)"
    using r unfolding s'_def oidc_RevokeTokens_def Let_def epoch_bump_frame by simp_all
qed

lemma PurgeSubject_exact:
  fixes u :: string
  assumes "reached sv s" and "u \<noteq> []"
  defines "s' \<equiv> snd (PurgeSubject u s)"
  shows "\<exists>n. fst (PurgeSubject u s) = Inr n"
    and "os_requests s' = fm_drop_where (\<lambda>a. aq_subject a = u) (os_requests s)"
    and "os_devices s' = fm_drop_where (\<lambda>d. od_subject d = u) (os_devices s)"
    and "os_codes s' = fm_drop_where (\<lambda>c. \<exists>a. fmlookup (os_requests s) (ck_request c) = Some a \<and> aq_subject a = u) (os_codes s)"
    and "os_access s' = os_access s" and "os_refresh s' = os_refresh s" and "os_tombstones s' = os_tombstones s"
proof -
  let ?s1 = "snd (snd (purge_requests (\<lambda>a. aq_subject a = u) (requestKeysLocked u s) s))"
  let ?s2 = "snd (drop_each (\<lambda>s. fmlookup (os_devices s)) drop_device (\<lambda>d. od_subject d = u) (fm_keys (os_devices ?s1)) ?s1)"
  have ok: "oidc_ok s" using assms(1) by (simp add: reached_def good_def)
  have "\<forall>k a. fmlookup (os_requests s) k = Some a \<longrightarrow> (k \<in> set (requestKeysLocked u s) \<and> aq_subject a = u \<longleftrightarrow> aq_subject a = u)"
    using ok assms(2) by (auto simp: oidc_ok_def ix_ok_def requestKeysLocked_def)
  note p = purge_requests_exact [OF ok this]
  show "\<exists>n. fst (PurgeSubject u s) = Inr n" using assms(2) by (simp add: PurgeSubject_def Let_def case_prod_beta)
  have s': "s' = ?s2" using assms(2) by (simp add: s'_def PurgeSubject_def Let_def case_prod_beta)
  show "os_devices s' = fm_drop_where (\<lambda>d. od_subject d = u) (os_devices s)"
    unfolding s' by (subst drop_each_devices) (simp only: p)
  show "os_requests s' = fm_drop_where (\<lambda>a. aq_subject a = u) (os_requests s)"
    "os_codes s' = fm_drop_where (\<lambda>c. \<exists>a. fmlookup (os_requests s) (ck_request c) = Some a \<and> aq_subject a = u) (os_codes s)"
    "os_access s' = os_access s" "os_refresh s' = os_refresh s" "os_tombstones s' = os_tombstones s"
    unfolding s' loops_frame(15-19) p by (rule refl)+
qed

lemma RevokeGrant_exact:
  fixes sv :: "('c, 'l) oidc_service" and sv' :: "('c2, 'l2) oidc_service" and now :: time
  assumes "reached sv (ow_store w)" and "u \<noteq> []" and "c \<noteq> []"
  defines "s' \<equiv> ow_store (snd (oidc_RevokeGrant sv' now u c w))"
  shows "os_refresh s' = fm_drop_where (\<lambda>t. rf_client t = c \<and> rf_subject t = u) (os_refresh (ow_store w))"
    and "os_epochs s' = os_epochs (bumpRevocationEpochsLocked c u (ow_store w))"
proof -
  let ?b = "bumpRevocationEpochsLocked c u (ow_store w)"
  have "oidc_ok ?b" "paired ?b" using assms(1) by (simp_all add: reached_def good_def oidc_ok_bump paired_bump)
  note r = revoke_store_exact [OF this revoke_grant_covers [OF \<open>oidc_ok ?b\<close> assms(2), of c]]
  show "os_refresh s' = fm_drop_where (\<lambda>t. rf_client t = c \<and> rf_subject t = u) (os_refresh (ow_store w))"
    "os_epochs s' = os_epochs ?b"
    using r(2) assms(2,3) by (simp_all add: s'_def oidc_RevokeGrant_def Let_def case_prod_beta epochs_helpers)
qed

section \<open>Properties\<close>

text \<open>C37. A sweep of the provider's tokens removes exactly what it names. On any store a run of the provider reaches with fresh values,
  revoking by a filter, which goes through the subject indexes, has the effect of a scan of every map: it deletes the
  access tokens, refresh tokens, replay residues, pending requests and device authorizations the filter matches, and
  the codes of the requests it deletes, it leaves every other record as it was, and it reports the number of matching
  access and refresh tokens.\<close>

theorem oidc_revoke_exact:
  fixes f :: token_filter
  assumes "NewOIDCStore opts = Inr (sv, s0)" and "ow_store w0 = s0" and "pick_ok pick" and "fresh_run sv pick calls w0"
  defines "s \<equiv> ow_store (fold (oidc_run sv pick) calls w0)"
  defines "s' \<equiv> snd (oidc_RevokeTokens f s)"
  shows "os_access s' = fm_drop_where (\<lambda>t. Matches f (oa_client t) (oa_subject t)) (os_access s)
    \<and> os_refresh s' = fm_drop_where (\<lambda>t. Matches f (rf_client t) (rf_subject t)) (os_refresh s)
    \<and> os_tombstones s' = fm_drop_where (\<lambda>t. Matches f (ob_client t) (ob_subject t)) (os_tombstones s)
    \<and> os_requests s' = fm_drop_where (\<lambda>a. Matches f (aq_client a) (aq_subject a)) (os_requests s)
    \<and> os_devices s' = fm_drop_where (\<lambda>d. Matches f (od_client d) (od_subject d)) (os_devices s)
    \<and> os_codes s' = fm_drop_where (\<lambda>c. \<exists>a. fmlookup (os_requests s) (ck_request c) = Some a
           \<and> Matches f (aq_client a) (aq_subject a)) (os_codes s)
    \<and> fst (oidc_RevokeTokens f s) = fm_count (\<lambda>t. Matches f (oa_client t) (oa_subject t)) (os_access s)
           + fm_count (\<lambda>t. Matches f (rf_client t) (rf_subject t)) (os_refresh s)"
  using RevokeTokens_exact [OF NewOIDCStore_reached [OF assms(1-4)], of f] unfolding s'_def s_def by blast

definition demo_token :: token_request where
  "demo_token = \<lparr>tq_subject = ''u'', tq_scopes = [''openid''], tq_client = Some ''c'', tq_auth_time = None, tq_amr = None,
     tq_audience = None, tq_nonce = None\<rparr>"

theorem oidc_revoke_exact_witness:
  "\<exists>sv s k t. NewOIDCStore demo_opts = Inr (sv, empty_oidc)
     \<and> s = ow_store (fold (oidc_run sv demo_pick) [DoAccess 1 demo_token] (demo_op_world (replicate 32 (CHR ''t''))))
     \<and> fmlookup (os_access s) k = Some t
     \<and> fmlookup (os_access (snd (oidc_RevokeTokens \<lparr>tf_client = [], tf_subject = ''u''\<rparr> s))) k = None"
proof -
  obtain sv where n: "NewOIDCStore demo_opts = Inr (sv, empty_oidc)" by (simp add: NewOIDCStore_def demo_opts_def)
  define w where "w = demo_op_world (replicate 32 (CHR ''t''))"
  define s where "s = ow_store (fold (oidc_run sv demo_pick) [DoAccess 1 demo_token] w)"
  have w: "ow_store w = empty_oidc" by (simp add: w_def demo_op_world_def)
  obtain v where v: "RandomValue (ow_tape w) = (Some v, [])"
    by (simp add: RandomValue_def w_def demo_op_world_def rand_read_def)
  have a: "os_access s = fmupd (TokenHash v) (new_access sv 1 demo_token v) fmempty"
    by (simp add: s_def CreateAccessToken_def v Let_def putAccessLocked_def w empty_oidc_def)
  have "fresh_run sv demo_pick [DoAccess 1 demo_token] w"
    by (simp add: unused_id_def w empty_oidc_def)
  from oidc_revoke_exact [OF n w demo_pick_ok this, of "\<lparr>tf_client = [], tf_subject = ''u''\<rparr>"]
  have "os_access (snd (oidc_RevokeTokens \<lparr>tf_client = [], tf_subject = ''u''\<rparr> s))
      = fm_drop_where (\<lambda>t. Matches \<lparr>tf_client = [], tf_subject = ''u''\<rparr> (oa_client t) (oa_subject t)) (os_access s)"
    unfolding s_def by blast
  then have "fmlookup (os_access (snd (oidc_RevokeTokens \<lparr>tf_client = [], tf_subject = ''u''\<rparr> s))) (TokenHash v) = None"
    by (simp add: a Matches_def new_access_def demo_token_def)
  moreover have "fmlookup (os_access s) (TokenHash v) = Some (new_access sv 1 demo_token v)" by (simp add: a)
  ultimately show ?thesis using n unfolding s_def w_def by blast
qed

text \<open>C36. A revocation is final for pairs already in flight. A token request redeems a code, a refresh token or an
  approved device code, and before it mints, fewer than \<open>2 ^ 64\<close> operations of the provider run, among them a revocation
  that names the grant: a sweep whose filter matches it, or the withdrawal of this account's grant to this client. The
  mint of an access and refresh pair, \<open>CreateAccessAndRefreshTokens\<close>, is then refused and no access or refresh token
  appears, whatever the request asks for. The bound is there because a generation wraps around at 64 bits. The mint of
  an access token alone, \<open>CreateAccessToken\<close>, never compares generations and has no such property.\<close>

theorem revocation_reaches_flight:
  fixes sv :: "('c, 'l) oidc_service" and pick :: "(string, oidc_tombstone) fmap \<Rightarrow> string"
  assumes "redeem now r (ow_store w) = (Some (c, u), ctx, s1)" and "\<exists>call \<in> set calls. revokes c u call" and "length calls < 2 ^ 64"
    and "ClientIDOf req = c" and "tq_subject req = u"
  defines "w2 \<equiv> fold (oidc_run sv pick) calls (w\<lparr>ow_store := s1\<rparr>)"
  shows "isl (fst (CreateAccessAndRefreshTokens sv pick now' ctx req current w2))
    \<and> no_new_tokens (ow_store w2) (ow_store (snd (CreateAccessAndRefreshTokens sv pick now' ctx req current w2)))"
proof (rule mint_refused)
  have "revocationEpochsLocked c u (ow_store w2) \<noteq> revocationEpochsLocked c u s1"
    using revoked_run_changes [OF assms(2,3), of sv pick "w\<lparr>ow_store := s1\<rparr>"] by (simp add: w2_def)
  then show "\<not> RevocationUnchanged ctx (revocationEpochsLocked (ClientIDOf req) (tq_subject req) (ow_store w2))"
    using redeem_captures [OF assms(1)] assms(4,5) by simp
qed

definition demo_refresh :: "string \<Rightarrow> oidc_refresh" where
  "demo_refresh u = \<lparr>rf_value_hash = TokenHash ''r'', rf_id_hash = ''h'', rf_client = ''c'', rf_subject = u, rf_scopes = [''openid''],
     rf_amr = [], rf_audience = [], rf_auth_time = None, rf_nonce = [], rf_family = ''f'', rf_issued = 1, rf_expires = 100\<rparr>"

definition demo_rotating :: "tape \<Rightarrow> (client_map, memory_log) oidc_world" where
  "demo_rotating t = (demo_op_world t)\<lparr>ow_store := putRefreshLocked (TokenHash ''r'') (demo_refresh ''u'') empty_oidc\<rparr>"

lemma demo_redeems:
  "\<exists>ctx. redeem 2 (ByRefresh ''r'') (ow_store (demo_rotating t)) = (Some (''c'', ''u''), ctx, ow_store (demo_rotating t))"
  by (simp add: redeem_def TokenRequestByRefreshToken_def demo_rotating_def putRefreshLocked_def demo_refresh_def Let_def empty_oidc_def)

theorem revocation_reaches_flight_witness:
  "\<exists>sv ctx w2. NewOIDCStore demo_opts = Inr (sv, empty_oidc)
     \<and> redeem 2 (ByRefresh ''r'') (ow_store (demo_rotating [])) = (Some (''c'', ''u''), ctx, ow_store (demo_rotating []))
     \<and> w2 = fold (oidc_run sv demo_pick) [DoRevokeTokens \<lparr>tf_client = ''c'', tf_subject = []\<rparr>] (demo_rotating [])
     \<and> isl (fst (CreateAccessAndRefreshTokens sv demo_pick 3 ctx demo_token ''r'' w2))"
proof -
  obtain sv where n: "NewOIDCStore demo_opts = Inr (sv, empty_oidc)" by (simp add: NewOIDCStore_def demo_opts_def)
  obtain ctx where c: "redeem 2 (ByRefresh ''r'') (ow_store (demo_rotating [])) = (Some (''c'', ''u''), ctx, ow_store (demo_rotating []))"
    using demo_redeems by blast
  have "\<exists>call \<in> set [DoRevokeTokens \<lparr>tf_client = ''c'', tf_subject = []\<rparr>]. revokes ''c'' ''u'' call" by (simp add: Matches_def)
  from revocation_reaches_flight [OF c this, of demo_token sv demo_pick 3 "''r''"]
  have "isl (fst (CreateAccessAndRefreshTokens sv demo_pick 3 ctx demo_token ''r''
      (fold (oidc_run sv demo_pick) [DoRevokeTokens \<lparr>tf_client = ''c'', tf_subject = []\<rparr>] (demo_rotating []))))"
    by (simp add: demo_token_def ClientIDOf_def)
  with n c show ?thesis by blast
qed

text \<open>C39. An account can lose its refresh token to the disconnection of another account. A client redeems the refresh
  token of one account; before the mint, a different account withdraws its own grant to the same client, which leaves
  the first account's refresh token in place but advances the client's generation. The mint is refused as revoked in
  flight, although the grant was not, and by then the presented token is spent: it is gone from the store, no successor
  has been written, and every later attempt to redeem it is refused. The comment over the check says the refusal writes
  nothing.\<close>

theorem bystander_loses_refresh:
  fixes pick :: "(string, oidc_tombstone) fmap \<Rightarrow> string" and now1 :: time and now2 :: time
  assumes "reached sv (ow_store w)" and "redeem now (ByRefresh token) (ow_store w) = (Some (c, u), ctx, s1)"
    and "token \<noteq> []" and "c \<noteq> []" and "u' \<noteq> []" and "u' \<noteq> u" and "ClientIDOf req = c" and "tq_subject req = u"
    and "RandomValue (ow_tape w) = (Some a, t)" and "RandomValue t = (Some v, t')"
  defines "w2 \<equiv> snd (oidc_RevokeGrant sv now1 u' c w)"
  defines "w3 \<equiv> snd (CreateAccessAndRefreshTokens sv pick now2 ctx req token w2)"
  shows "fst (CreateAccessAndRefreshTokens sv pick now2 ctx req token w2) = Inl ErrGrantRevokedInFlight
    \<and> fmlookup (os_refresh (ow_store w2)) (TokenHash token) = fmlookup (os_refresh (ow_store w)) (TokenHash token)
    \<and> fmlookup (os_refresh (ow_store w3)) (TokenHash token) = None
    \<and> no_new_tokens (ow_store w2) (ow_store w3)
    \<and> (\<forall>now3. fst (redeem now3 (ByRefresh token) (ow_store w3)) = None)"
proof -
  obtain held where h: "fmlookup (os_refresh (ow_store w)) (TokenHash token) = Some held" "rf_client held = c" "rf_subject held = u"
    and s1: "s1 = ow_store w"
    using assms(2) by (auto simp: redeem_def TokenRequestByRefreshToken_def Let_def split: option.split_asm if_split_asm)
  note r = RevokeGrant_exact [OF assms(1) assms(5) assms(4), of sv now1, folded w2_def]
  have kept: "fmlookup (os_refresh (ow_store w2)) (TokenHash token) = Some held" using h assms(6) by (simp add: r(1))
  have tape: "ow_tape w2 = ow_tape w" using assms(4,5) by (simp add: w2_def oidc_RevokeGrant_def oidc_record_def Let_def case_prod_beta)
  have "epoch_of (ClientScope c) (ow_store w2) = epoch_of (ClientScope c) (bumpRevocationEpochsLocked c u' (ow_store w))"
    by (rule epoch_cong [OF r(2)])
  then have "revocationEpochsLocked c u (ow_store w2) \<noteq> revocationEpochsLocked c u s1"
    using assms(4) by (simp add: revocationEpochsLocked_def epoch_bump s1)
  then have moved: "\<not> RevocationUnchanged ctx (revocationEpochsLocked (ClientIDOf req) (tq_subject req) (ow_store w2))"
    using redeem_captures [OF assms(2)] assms(7,8) by simp
  let ?spent = "spend_refresh (op_maxTombstones sv) pick (TokenHash token) held (ow_store w2)"
  have "revocationEpochsLocked x y ?spent = revocationEpochsLocked x y (ow_store w2)" for x y
    by (simp add: revocationEpochsLocked_def epoch_of_def epochs_helpers)
  then have m: "CreateAccessAndRefreshTokens sv pick now2 ctx req token w2 = (Inl ErrGrantRevokedInFlight, w2\<lparr>ow_tape := t', ow_store := ?spent\<rparr>)"
    using moved assms(3,9,10) kept
    by (simp add: CreateAccessAndRefreshTokens_def tape claim_refresh_def write_pair_def Let_def new_access_def)
  have gone: "fmlookup (os_refresh ?spent) (TokenHash token) = None" by (simp add: spend_refresh_def)
  then have "fst (redeem now3 (ByRefresh token) ?spent) = None" for now3
    by (simp add: redeem_def TokenRequestByRefreshToken_def Let_def split: option.split)
  with gone kept h m mint_refused [OF moved, of sv pick now2 token] show ?thesis by (simp add: w3_def)
qed

theorem bystander_loses_refresh_witness:
  "\<exists>sv ctx w2. NewOIDCStore demo_opts = Inr (sv, empty_oidc)
     \<and> redeem 2 (ByRefresh ''r'') (ow_store (demo_rotating (replicate 64 (CHR ''t''))))
         = (Some (''c'', ''u''), ctx, ow_store (demo_rotating (replicate 64 (CHR ''t''))))
     \<and> w2 = snd (oidc_RevokeGrant sv 3 ''v'' ''c'' (demo_rotating (replicate 64 (CHR ''t''))))
     \<and> fst (CreateAccessAndRefreshTokens sv demo_pick 4 ctx demo_token ''r'' w2) = Inl ErrGrantRevokedInFlight
     \<and> fmlookup (os_refresh (ow_store (snd (CreateAccessAndRefreshTokens sv demo_pick 4 ctx demo_token ''r'' w2)))) (TokenHash ''r'') = None"
proof -
  obtain sv where n: "NewOIDCStore demo_opts = Inr (sv, empty_oidc)" by (simp add: NewOIDCStore_def demo_opts_def)
  define w where "w = demo_rotating (replicate 64 (CHR ''t''))"
  obtain ctx where c: "redeem 2 (ByRefresh ''r'') (ow_store w) = (Some (''c'', ''u''), ctx, ow_store w)"
    using demo_redeems unfolding w_def by blast
  obtain a t where a: "RandomValue (ow_tape w) = (Some a, t)" and t: "t = replicate 32 (CHR ''t'')"
    by (simp add: RandomValue_def w_def demo_rotating_def demo_op_world_def rand_read_def)
  obtain v where v: "RandomValue t = (Some v, [])" by (simp add: RandomValue_def t rand_read_def)
  have "within sv (ow_store w)"
    unfolding w_def demo_rotating_def using putRefresh_good [OF NewOIDCStore_good(1) [OF n]] by (simp add: empty_oidc_def)
  then have r: "reached sv (ow_store w)"
    by (simp add: reached_def paired_def w_def demo_rotating_def putRefreshLocked_def empty_oidc_def)
  have "ClientIDOf demo_token = ''c''" "tq_subject demo_token = ''u''" by (simp_all add: demo_token_def ClientIDOf_def)
  from bystander_loses_refresh [OF r c _ _ _ _ this a v, of "''v''" demo_pick 4 3]
  have "fst (CreateAccessAndRefreshTokens sv demo_pick 4 ctx demo_token ''r'' (snd (oidc_RevokeGrant sv 3 ''v'' ''c'' w))) = Inl ErrGrantRevokedInFlight
    \<and> fmlookup (os_refresh (ow_store (snd (CreateAccessAndRefreshTokens sv demo_pick 4 ctx demo_token ''r'' (snd (oidc_RevokeGrant sv 3 ''v'' ''c'' w))))))
        (TokenHash ''r'') = None" by simp
  with n c show ?thesis unfolding w_def by blast
qed

end
