(* ===== verification/Spec2Isabelle.thy ===== *)
theory Spec2Isabelle
  imports OAuth_Device_Flow OAuth_Interleaving Vault_Rotation Account_Store Federation_Read OIDC_Revoke
begin

text \<open>
  A verification library for Re0Auth, an identity and authorization layer for game data: an OAuth
  authorization server, an OpenID Provider store, a vault for upstream credentials, an account
  store, and a federation service that reads players' data from upstream sources with those
  credentials. Paths below are under \<^verbatim>\<open>src/\<close>.

  \<^bold>\<open>How the parts interact.\<close> A user signs in through an external identity, which the account store
  maps to one account. A client obtains tokens for that account from the authorization server
  (\<^verbatim>\<open>oauth\<close>) or from the OpenID Provider, whose storage is \<^verbatim>\<open>internal/store/memory\<close>. The user connects
  upstream sources; the federation service (\<^verbatim>\<open>internal/federation\<close>) keeps a row per connection in its
  binding store and the upstream tokens encrypted in the vault (\<^verbatim>\<open>vault\<close>), and reads with them on the
  client's behalf. Every part reports to an audit log (\<^verbatim>\<open>audit\<close>).

  \<^bold>\<open>Conventions.\<close> An operation of the code is a function from the state before it to its answer and
  the state after it, on every branch; errors are values. What a constructor fixes is one record,
  what changes is another. Interfaces are records of operations, and the in-memory implementations
  of the repository are their instances. Time is an argument: an operation runs at one reading of
  the clock. Random bytes come from a tape that may run out. Code outside the repository (URL
  parsing, JSON, the \<^verbatim>\<open>oauth2\<close> package, the HTTP client and the sources behind it) is a parameter.
  Counters that can wrap are 64-bit words.

  \<^bold>\<open>Theories.\<close>
  \<^item> \<open>R0_Prelude\<close>, \<open>Go_Lib\<close>, \<open>Go_Crypto\<close>, \<open>Go_Net\<close>, \<open>Go_AEAD\<close>, \<open>Ordered_Slice\<close>, \<open>Map_Loops\<close>: the shared
    vocabulary and the parts of Go's standard library in use, SHA-256, PBKDF2, AES and GCM among
    them; ordered slices beside a map; deletion loops over a map.
  \<^item> \<open>Audit_Log\<close> (\<^verbatim>\<open>audit/audit.go\<close>): events, the logger interface and the ring buffer, which
    refines an unbounded log.
  \<^item> \<open>OAuth_Scope\<close> (\<^verbatim>\<open>oauth/scope.go\<close>), \<open>OAuth_Client\<close> (\<^verbatim>\<open>oauth/client.go\<close>), \<open>OAuth_Tokens\<close>
    (\<^verbatim>\<open>oauth/tokens.go\<close>), \<open>OAuth_Device\<close> (\<^verbatim>\<open>oauth/device.go\<close>): the catalogue, the client registry
    and the two stores. Shown: codes and refresh tokens are claimed once, the token store refines
    the life cycle of a refresh value, a device request is decided and redeemed once.
  \<^item> \<open>OAuth_Service\<close>, \<open>OAuth_Grants\<close> (\<^verbatim>\<open>oauth/as.go\<close>, \<^verbatim>\<open>device.go\<close>, \<^verbatim>\<open>grants.go\<close>): every operation of
    the server, over any stores. \<open>OAuth_Flow\<close> and \<open>OAuth_Device_Flow\<close> show what it does over the
    in-memory ones: the two flows end to end, soundness of each step, rotation, replay,
    revocation. \<open>OAuth_Interleaving\<close> cuts exchanges and revocations at their store calls and shows
    what the generation counter catches under every schedule, and the schedule it does not.
  \<^item> \<open>Vault_Repo\<close>, \<open>Vault_Service\<close>, \<open>Vault_Rotation\<close> (\<^verbatim>\<open>vault/repo.go\<close>, \<^verbatim>\<open>envelope.go\<close>, \<^verbatim>\<open>service.go\<close>,
    \<^verbatim>\<open>rotate.go\<close>): credentials under envelope encryption. Shown: the round trip, failing closed with
    the audit log, erasure, and key rotation without lost updates that returns and is complete.
  \<^item> \<open>Account_Store\<close> (\<^verbatim>\<open>internal/account/account.go\<close>): accounts and identities. Shown: the maps mirror
    each other in every reachable store, and an identity never moves between accounts.
  \<^item> \<open>Federation_Registry\<close>, \<open>Federation_Bindings\<close>, \<open>Federation_Limits\<close>, \<open>Federation_Raw\<close>: the source
    registry and consent prompt, the binding and flow stores, the byte budget and cooldown, the
    path guard. \<open>Federation_Service\<close> has every operation of the service; \<open>Federation_Moves\<close> reduces
    each to moves of one account on the stores; \<open>Federation_Removal\<close>, \<open>Federation_Bind\<close> and
    \<open>Federation_Read\<close> show no orphaned secret, isolation of accounts, the kill switch, the exact
    conditions of binding, refreshing and disconnecting, and reads within the budget.
  \<^item> \<open>OIDC_Request\<close> (\<^verbatim>\<open>internal/oidcstore\<close>), \<open>OIDC_Store\<close>, \<open>OIDC_Index\<close>, \<open>OIDC_Revoke\<close>
    (\<^verbatim>\<open>internal/store/memory/oidc.go\<close>): the provider's policy and its store. Shown: freshness rules,
    exact indexes and bounds, revocation equal to a full scan and final for pairs in flight.

  \<^bold>\<open>Interfaces between them.\<close> The locales \<open>single_use\<close> and \<open>refresh_store\<close> (token claims),
  \<open>device_lifecycle\<close>, \<open>bounded_log\<close>, \<open>credential_repo\<close>, \<open>binding_rows\<close>, \<open>fed_stores\<close> (the last two
  joined), \<open>block_cipher\<close> with \<open>aead\<close>, and \<open>keyed_deletion\<close> state what a client of a component relies
  on; each is interpreted on the definitions of the component that provides it.

  \<^bold>\<open>Bounds and termination.\<close> Nothing is cut short by fuel. The two paging loops over an arbitrary
  store, \<open>rotate_pages\<close> and \<open>revoke_pages\<close>, are partial functions, and that they return on the
  in-memory stores is proved. The properties of generations assume fewer than \<open>2 ^ 64\<close> advances
  or operations between capture and check, since the counters wrap there. Index properties of the
  provider's store assume that drawn values are new to it; the account properties likewise. Case
  mapping and white space are those of ASCII.

  \<^bold>\<open>Not modelled.\<close> The HTTP layers (\<^verbatim>\<open>internal/httpapi\<close>, \<^verbatim>\<open>internal/oidchttp\<close>, \<^verbatim>\<open>oauth/http.go\<close>), the
  PostgreSQL stores, sessions and rate limits, start-up and configuration, metrics, the outbound
  HTTP client, the sign-in protocol with identity providers, account erasure across stores
  (\<^verbatim>\<open>internal/lifecycle\<close>, an ordering of operations modelled here), the example source and the kit for
  sources: input and output, a database, or the other side of a protocol. Within the modelled
  parts, locks appear as the atomicity of the steps they guard, the zeroing of buffers and probe
  counters are left out, and so is the publication of a token store to the client registry, the
  revoker being an argument of \<open>mr_delete\<close>. Nothing is claimed about the strength of the
  cryptography.
\<close>

end
